(* ===== verification/Lattice_Prelude.thy ===== *)
theory Lattice_Prelude
  imports Main "HOL-Library.Word"
begin

unbundle bit_operations_syntax

text \<open>
  Shared vocabulary of the development: the C integer types, big-endian byte strings as
  \<^verbatim>\<open>htobe32\<close>/\<^verbatim>\<open>htobe64\<close> followed by \<^verbatim>\<open>memcpy\<close> produce them, the 64-bit finaliser that the state
  tables hash with, NFSv4 stateids, and the singly linked chains of the state tables.

  A C chain (\<^verbatim>\<open>for (p = head; p != NULL; p = p->next)\<close>) is the list of the addresses it visits;
  the nodes themselves live in a heap, a finite map from addresses to structs, so that one node
  can sit on two chains at once as it does in the code.
\<close>

section \<open>Integers\<close>

type_synonym u8 = "8 word"
type_synonym u32 = "32 word"
type_synonym u64 = "64 word"
type_synonym bytes = "u8 list"
type_synonym ptr = nat

abbreviation UINT64_MAX :: u64 where
  "UINT64_MAX \<equiv> - 1"

abbreviation UINT32_MAX :: u32 where
  "UINT32_MAX \<equiv> - 1"

named_theorems idx_simps \<open>rewriting of index and chain operations\<close>
named_theorems inv_intros \<open>preservation of component invariants\<close>

lemma word_less_or_max [simp]: "(x < UINT64_MAX) = (x \<noteq> UINT64_MAX)" for x :: u64
  by (simp add: word_order.not_eq_extremum)

lemma of_nat_u64_inj: "of_nat i = (of_nat j :: u64) \<Longrightarrow> i < 2 ^ 64 \<Longrightarrow> j < 2 ^ 64 \<Longrightarrow> i = j"
  by (drule arg_cong [where f = unat]) (simp add: unsigned_of_nat take_bit_nat_eq_self)

lemma option_filterI:
  assumes "\<And>q. a = Some q \<longleftrightarrow> b = Some q \<and> P q"
  shows "a = (case b of Some q \<Rightarrow> if P q then Some q else None | None \<Rightarrow> None)"
proof (cases b)
  case None
  then show ?thesis using assms [of "the a"] by (cases a) simp_all
next
  case (Some x)
  then show ?thesis using assms [of x] assms [of "the a"] by (cases a) auto
qed

section \<open>Byte strings\<close>

text \<open>\<open>be_bytes n x\<close>: the low \<open>n\<close> bytes of \<open>x\<close>, most significant first. \<open>be_load\<close> reads them back.\<close>

primrec be_bytes :: "nat \<Rightarrow> 'a::len word \<Rightarrow> bytes" where
  "be_bytes 0 x = []"
| "be_bytes (Suc n) x = be_bytes n (drop_bit 8 x) @ [ucast x]"

definition be_load :: "bytes \<Rightarrow> 'a::len word" where
  "be_load bs = foldl (\<lambda>a b. push_bit 8 a OR ucast b) 0 bs"

text \<open>A little-endian host load, as \<^verbatim>\<open>memcpy(&v, p, 8)\<close> performs it.\<close>

definition le_load :: "bytes \<Rightarrow> 'a::len word" where
  "le_load bs = be_load (rev bs)"

lemma length_be_bytes [simp]: "length (be_bytes n x) = n"
  by (induction n arbitrary: x) simp_all

lemma be_load_Nil [simp]: "be_load [] = 0"
  by (simp add: be_load_def)

lemma be_load_snoc [simp]: "be_load (bs @ [b]) = push_bit 8 (be_load bs) OR ucast b"
  by (simp add: be_load_def)

lemma be_load_bytes: "be_load (be_bytes n x) = take_bit (8 * n) (x :: 'a::len word)"
proof (induction n arbitrary: x)
  case 0
  then show ?case by simp
next
  case (Suc n)
  have "push_bit 8 (take_bit (8 * n) (drop_bit 8 x)) OR ucast (ucast x :: u8)
        = take_bit (8 * Suc n) x"
    by (rule bit_word_eqI) (auto simp: bit_simps)
  then show ?case by (simp add: Suc.IH)
qed

lemma be_bytes_inj:
  fixes x y :: "'a::len word"
  assumes "be_bytes n x = be_bytes n y"
  shows "take_bit (8 * n) x = take_bit (8 * n) y"
proof -
  have "be_load (be_bytes n x) = (be_load (be_bytes n y) :: 'a word)"
    using assms by (rule arg_cong)
  then show ?thesis by (simp only: be_load_bytes)
qed

section \<open>Hashing\<close>

definition os_mix64 :: "u64 \<Rightarrow> u64" where
  "os_mix64 v0 =
     (let v1 = v0 XOR drop_bit 33 v0;
          v2 = v1 * 0xff51afd7ed558ccd
      in v2 XOR drop_bit 33 v2)"

section \<open>Stateids\<close>

record nfs4_stateid =
  seqid :: u32
  other :: bytes

abbreviation NFS4_OTHER_SIZE :: nat where
  "NFS4_OTHER_SIZE \<equiv> 12"

section \<open>Status codes\<close>

datatype mds_status =
    MDS_OK | MDS_ERR_NOMEM | MDS_ERR_IO | MDS_ERR_NOTFOUND | MDS_ERR_EXISTS | MDS_ERR_INVAL | MDS_ERR_PERM
  | MDS_ERR_STALE | MDS_ERR_GRACE | MDS_ERR_REPL | MDS_ERR_MOVED | MDS_ERR_DELAY | MDS_ERR_NOSTANDBY
  | MDS_ERR_XDEV | MDS_ERR_NOTEMPTY | MDS_ERR_ISDIR | MDS_ERR_NOTDIR | MDS_ERR_NOSPC
  | MDS_ERR_LAYOUTUNAVAIL | MDS_ERR_NOSUPPORT | MDS_ERR_INDOUBT

section \<open>Chains\<close>

text \<open>The first node on a chain that satisfies a predicate.\<close>

fun chain_find :: "(ptr \<rightharpoonup> 'o) \<Rightarrow> ('o \<Rightarrow> bool) \<Rightarrow> ptr list \<Rightarrow> ptr option" where
  "chain_find h P [] = None"
| "chain_find h P (p # ps) =
     (case h p of
        Some x \<Rightarrow> (if P x then Some p else chain_find h P ps)
      | None \<Rightarrow> chain_find h P ps)"

lemma chain_find_SomeD:
  "chain_find h P ps = Some p \<Longrightarrow> p \<in> set ps \<and> (\<exists>x. h p = Some x \<and> P x)"
  by (induction ps) (auto split: option.splits if_splits)

lemma chain_find_None_iff:
  "chain_find h P ps = None \<longleftrightarrow> (\<forall>p \<in> set ps. \<forall>x. h p = Some x \<longrightarrow> \<not> P x)"
  by (induction ps) (auto split: option.splits)

lemma chain_find_unique:
  assumes "p \<in> set ps" "h p = Some x" "P x"
    and "\<And>q y. q \<in> set ps \<Longrightarrow> h q = Some y \<Longrightarrow> P y \<Longrightarrow> q = p"
  shows "chain_find h P ps = Some p"
proof (cases "chain_find h P ps")
  case None
  with assms(1-3) show ?thesis by (auto simp: chain_find_None_iff)
next
  case (Some q)
  then obtain y where "q \<in> set ps" "h q = Some y" "P y"
    by (auto dest: chain_find_SomeD)
  then have "q = p" by (rule assms(4))
  with Some show ?thesis by simp
qed

lemma chain_find_cong:
  "(\<And>p. p \<in> set ps \<Longrightarrow> map_option P (h p) = map_option Q (g p)) \<Longrightarrow>
   chain_find h P ps = chain_find g Q ps"
  by (induction ps) (force split: option.splits)+

text \<open>Unlinking one node: \<^verbatim>\<open>if (*pp == os) { *pp = os->next; break; }\<close>.\<close>

abbreviation chain_unlink :: "ptr \<Rightarrow> ptr list \<Rightarrow> ptr list" where
  "chain_unlink \<equiv> remove1"

lemma set_chain_unlink [simp]: "distinct ps \<Longrightarrow> set (chain_unlink p ps) = set ps - {p}"
  by (rule set_remove1_eq)

text \<open>A heap without the nodes that fail a predicate.\<close>

definition heap_filter :: "('o \<Rightarrow> bool) \<Rightarrow> ('p \<rightharpoonup> 'o) \<Rightarrow> ('p \<rightharpoonup> 'o)" where
  "heap_filter Q h = (\<lambda>p. case h p of Some x \<Rightarrow> if Q x then Some x else None | None \<Rightarrow> None)"

lemma heap_filter_Some [simp]: "heap_filter Q h p = Some x \<longleftrightarrow> h p = Some x \<and> Q x"
  by (auto simp: heap_filter_def split: option.splits)

lemma heap_filter_twice [simp]: "heap_filter Q (heap_filter R h) = heap_filter (\<lambda>x. Q x \<and> R x) h"
  by (rule ext) (auto simp: heap_filter_def split: option.splits)

lemma heap_filter_True [simp]: "heap_filter (\<lambda>_. True) h = h"
  by (rule ext) (auto simp: heap_filter_def split: option.splits)

lemma heap_filter_cong: "(\<And>p x. h p = Some x \<Longrightarrow> Q x = R x) \<Longrightarrow> heap_filter Q h = heap_filter R h"
  by (rule ext) (auto simp: heap_filter_def split: option.splits)

end
