(* ===== verification/Stateid_Index.thy ===== *)
theory Stateid_Index
  imports Lattice_Prelude
begin

text \<open>
  The doubly indexed state table that \<^verbatim>\<open>lock_state.c\<close> and \<^verbatim>\<open>open_state.c\<close> share in shape: every
  state object is on the chain of its file (file hash, then a head node per fileid) and on the
  chain of its stateid bucket. The record \<open>index_tab\<close> holds the heap and both hash tables,
  \<open>idx_wf\<close> is the agreement between them that the code maintains, and the lemmas say what each
  primitive (create a head, link, unlink and free, update in place) does to it.

  The locale \<open>stateid_index\<close> is the contract the rest of a component relies on: lookup by
  stateid, the chain of a file, and removal. Both components interpret it.
\<close>

section \<open>The table\<close>

record 'o index_tab =
  heap :: "ptr \<rightharpoonup> 'o"
  next_ptr :: ptr
  file_hash :: "u32 \<Rightarrow> (u64 \<times> ptr list) list"
  sid_hash :: "u32 \<Rightarrow> ptr list"

abbreviation deref :: "('o, 'z) index_tab_scheme \<Rightarrow> ptr \<Rightarrow> 'o" where
  "deref st p \<equiv> the (heap st p)"

definition idx_empty :: "'o index_tab" where
  "idx_empty = \<lparr>heap = Map.empty, next_ptr = 0, file_hash = (\<lambda>_. []), sid_hash = (\<lambda>_. [])\<rparr>"

text \<open>Rewriting the chain under one head of a bucket.\<close>

definition upd_chain :: "u64 \<Rightarrow> (ptr list \<Rightarrow> ptr list) \<Rightarrow> (u64 \<times> ptr list) list \<Rightarrow> (u64 \<times> ptr list) list" where
  "upd_chain f F hs = map (\<lambda>(g, ch). (g, if g = f then F ch else ch)) hs"

definition idx_wf ::
  "('o \<Rightarrow> u64) \<Rightarrow> ('o \<Rightarrow> bytes) \<Rightarrow> (u64 \<Rightarrow> u32) \<Rightarrow> (bytes \<Rightarrow> u32) \<Rightarrow> ('o, 'z) index_tab_scheme \<Rightarrow> bool" where
  "idx_wf fk sk fh sh t \<longleftrightarrow>
     (\<forall>b f ch. (f, ch) \<in> set (file_hash t b) \<longrightarrow>
        fh f = b \<and> distinct ch \<and> (\<forall>p \<in> set ch. \<exists>x. heap t p = Some x \<and> fk x = f)) \<and>
     (\<forall>b. distinct (map fst (file_hash t b))) \<and>
     (\<forall>b. distinct (sid_hash t b) \<and> (\<forall>p \<in> set (sid_hash t b). \<exists>x. heap t p = Some x \<and> sh (sk x) = b)) \<and>
     (\<forall>p x. heap t p = Some x \<longrightarrow>
        p \<in> set (sid_hash t (sh (sk x))) \<and>
        (\<exists>ch. (fk x, ch) \<in> set (file_hash t (fh (fk x))) \<and> p \<in> set ch)) \<and>
     (\<forall>p q x y. heap t p = Some x \<longrightarrow> heap t q = Some y \<longrightarrow> sk x = sk y \<longrightarrow> p = q) \<and>
     (\<forall>p x. heap t p = Some x \<longrightarrow> p < next_ptr t)"

text \<open>The chain of a file, empty when there is no head node.\<close>

definition file_chain :: "(u64 \<Rightarrow> u32) \<Rightarrow> ('o, 'z) index_tab_scheme \<Rightarrow> u64 \<Rightarrow> ptr list" where
  "file_chain fh t f = (case map_of (file_hash t (fh f)) f of None \<Rightarrow> [] | Some ch \<Rightarrow> ch)"

definition sid_lookup :: "('o \<Rightarrow> bytes) \<Rightarrow> (bytes \<Rightarrow> u32) \<Rightarrow> ('o, 'z) index_tab_scheme \<Rightarrow> bytes \<Rightarrow> ptr option" where
  "sid_lookup sk sh t s = chain_find (heap t) (\<lambda>x. sk x = s) (sid_hash t (sh s))"

section \<open>Primitives\<close>

definition idx_add_head :: "(u64 \<Rightarrow> u32) \<Rightarrow> u64 \<Rightarrow> ('o, 'z) index_tab_scheme \<Rightarrow> ('o, 'z) index_tab_scheme" where
  "idx_add_head fh f t = t\<lparr>file_hash := (file_hash t)(fh f := (f, []) # file_hash t (fh f))\<rparr>"

text \<open>Removing an empty head: the first node of the bucket with this fileid and no chain.\<close>

definition idx_drop_head :: "(u64 \<Rightarrow> u32) \<Rightarrow> u64 \<Rightarrow> ('o, 'z) index_tab_scheme \<Rightarrow> ('o, 'z) index_tab_scheme" where
  "idx_drop_head fh f t = t\<lparr>file_hash := (file_hash t)(fh f := remove1 (f, []) (file_hash t (fh f)))\<rparr>"

definition idx_link ::
  "('o \<Rightarrow> u64) \<Rightarrow> ('o \<Rightarrow> bytes) \<Rightarrow> (u64 \<Rightarrow> u32) \<Rightarrow> (bytes \<Rightarrow> u32) \<Rightarrow> 'o \<Rightarrow>
   ('o, 'z) index_tab_scheme \<Rightarrow> ('o, 'z) index_tab_scheme" where
  "idx_link fk sk fh sh x t =
     (let p = next_ptr t; bf = fh (fk x); bs = sh (sk x) in
      t\<lparr>heap := (heap t)(p \<mapsto> x), next_ptr := Suc p,
        file_hash := (file_hash t)(bf := upd_chain (fk x) (\<lambda>ch. p # ch) (file_hash t bf)),
        sid_hash := (sid_hash t)(bs := p # sid_hash t bs)\<rparr>)"

definition idx_unlink ::
  "(u64 \<Rightarrow> u32) \<Rightarrow> (bytes \<Rightarrow> u32) \<Rightarrow> u64 \<Rightarrow> bytes \<Rightarrow> ptr \<Rightarrow>
   ('o, 'z) index_tab_scheme \<Rightarrow> ('o, 'z) index_tab_scheme" where
  "idx_unlink fh sh f s p t =
     t\<lparr>heap := (heap t)(p := None),
       file_hash := (file_hash t)(fh f := upd_chain f (chain_unlink p) (file_hash t (fh f))),
       sid_hash := (sid_hash t)(sh s := chain_unlink p (sid_hash t (sh s)))\<rparr>"

lemma set_upd_chain: "(g, ch) \<in> set (upd_chain f F hs) \<longleftrightarrow> (\<exists>ch0. (g, ch0) \<in> set hs \<and> ch = (if g = f then F ch0 else ch0))"
  by (force simp: upd_chain_def)

lemma map_fst_upd_chain [simp]: "map fst (upd_chain f F hs) = map fst hs"
  by (simp add: upd_chain_def comp_def case_prod_beta)

lemma map_of_upd_chain:
  "map_of (upd_chain f F hs) g = (if g = f then map_option F (map_of hs g) else map_of hs g)"
  by (induction hs) (auto simp: upd_chain_def)

lemma idx_wfI:
  assumes "\<And>b f ch. (f, ch) \<in> set (file_hash t b) \<Longrightarrow> fh f = b"
    and "\<And>b f ch. (f, ch) \<in> set (file_hash t b) \<Longrightarrow> distinct ch"
    and "\<And>b f ch p. (f, ch) \<in> set (file_hash t b) \<Longrightarrow> p \<in> set ch \<Longrightarrow> \<exists>x. heap t p = Some x \<and> fk x = f"
    and "\<And>b. distinct (map fst (file_hash t b))"
    and "\<And>b. distinct (sid_hash t b)"
    and "\<And>b p. p \<in> set (sid_hash t b) \<Longrightarrow> \<exists>x. heap t p = Some x \<and> sh (sk x) = b"
    and "\<And>p x. heap t p = Some x \<Longrightarrow> p \<in> set (sid_hash t (sh (sk x)))"
    and "\<And>p x. heap t p = Some x \<Longrightarrow> \<exists>ch. (fk x, ch) \<in> set (file_hash t (fh (fk x))) \<and> p \<in> set ch"
    and "\<And>p q x y. heap t p = Some x \<Longrightarrow> heap t q = Some y \<Longrightarrow> sk x = sk y \<Longrightarrow> p = q"
    and "\<And>p x. heap t p = Some x \<Longrightarrow> p < next_ptr t"
  shows "idx_wf fk sk fh sh t"
  unfolding idx_wf_def
  by (intro conjI allI impI ballI, erule assms(1), erule assms(2), erule (1) assms(3),
      rule assms(4), rule assms(5), erule assms(6), erule assms(7), erule assms(8),
      erule (2) assms(9), erule assms(10))

lemma wf_headD:
  assumes "idx_wf fk sk fh sh t" "(f, ch) \<in> set (file_hash t b)"
  shows "fh f = b" "distinct ch" "p \<in> set ch \<Longrightarrow> \<exists>x. heap t p = Some x \<and> fk x = f"
  using assms unfolding idx_wf_def by blast+

lemma wf_headsD: "idx_wf fk sk fh sh t \<Longrightarrow> distinct (map fst (file_hash t b))"
  unfolding idx_wf_def by blast

lemma wf_sidD:
  assumes "idx_wf fk sk fh sh t"
  shows "distinct (sid_hash t b)" "p \<in> set (sid_hash t b) \<Longrightarrow> \<exists>x. heap t p = Some x \<and> sh (sk x) = b"
  using assms unfolding idx_wf_def by blast+

lemma wf_heapD:
  assumes "idx_wf fk sk fh sh t" "heap t p = Some x"
  shows "p \<in> set (sid_hash t (sh (sk x)))" "p < next_ptr t"
    "\<exists>ch. (fk x, ch) \<in> set (file_hash t (fh (fk x))) \<and> p \<in> set ch"
  using assms unfolding idx_wf_def by blast+

lemma wf_injD:
  "idx_wf fk sk fh sh t \<Longrightarrow> heap t p = Some x \<Longrightarrow> heap t q = Some y \<Longrightarrow> sk x = sk y \<Longrightarrow> p = q"
  unfolding idx_wf_def by blast

lemma wf_new_addr: "idx_wf fk sk fh sh t \<Longrightarrow> heap t (next_ptr t) = None"
  using wf_heapD(2) [of fk sk fh sh t "next_ptr t"] by (cases "heap t (next_ptr t)") auto

lemma file_chain_eqI:
  assumes "idx_wf fk sk fh sh t" "(f, ch) \<in> set (file_hash t (fh f))"
  shows "file_chain fh t f = ch"
  using map_of_is_SomeI [OF wf_headsD [OF assms(1)] assms(2)] by (simp add: file_chain_def)

lemma file_chain_distinct: "idx_wf fk sk fh sh t \<Longrightarrow> distinct (file_chain fh t f)"
  by (auto simp: file_chain_def split: option.splits dest!: map_of_SomeD intro: wf_headD(2))

lemma file_chain_iff:
  assumes "idx_wf fk sk fh sh t"
  shows "p \<in> set (file_chain fh t f) \<longleftrightarrow> (\<exists>x. heap t p = Some x \<and> fk x = f)"
proof
  assume "p \<in> set (file_chain fh t f)"
  then obtain ch where "(f, ch) \<in> set (file_hash t (fh f))" "p \<in> set ch"
    by (cases "map_of (file_hash t (fh f)) f") (auto simp: file_chain_def dest: map_of_SomeD)
  with assms show "\<exists>x. heap t p = Some x \<and> fk x = f" by (blast dest: wf_headD(3))
next
  assume "\<exists>x. heap t p = Some x \<and> fk x = f"
  then obtain x ch where "(f, ch) \<in> set (file_hash t (fh f))" "p \<in> set ch"
    using wf_heapD(3) [OF assms] by blast
  then show "p \<in> set (file_chain fh t f)" by (simp add: file_chain_eqI [OF assms])
qed

lemma wf_head_iff:
  assumes "idx_wf fk sk fh sh t" "(f, ch) \<in> set (file_hash t b)"
  shows "p \<in> set ch \<longleftrightarrow> (\<exists>x. heap t p = Some x \<and> fk x = f)"
proof -
  have "fh f = b" "distinct (map fst (file_hash t b))"
    using wf_headD(1) [OF assms] wf_headsD [OF assms(1)] by auto
  then have "file_chain fh t f = ch" using assms(2) by (simp add: file_chain_def)
  then show ?thesis using file_chain_iff [OF assms(1), of p f] by simp
qed

lemma sid_lookup_iff:
  assumes "idx_wf fk sk fh sh t"
  shows "sid_lookup sk sh t s = Some p \<longleftrightarrow> (\<exists>x. heap t p = Some x \<and> sk x = s)"
proof
  assume "sid_lookup sk sh t s = Some p"
  then show "\<exists>x. heap t p = Some x \<and> sk x = s"
    by (auto simp: sid_lookup_def dest: chain_find_SomeD)
next
  assume "\<exists>x. heap t p = Some x \<and> sk x = s"
  then obtain x where x: "heap t p = Some x" "sk x = s" by blast
  with wf_heapD(1) [OF assms x(1)] have "p \<in> set (sid_hash t (sh s))" by simp
  then show "sid_lookup sk sh t s = Some p"
    unfolding sid_lookup_def
    by (rule chain_find_unique [where x = x]) (use x in \<open>auto intro: wf_injD [OF assms]\<close>)
qed

section \<open>Preservation\<close>

lemma idx_wf_empty: "idx_wf fk sk fh sh idx_empty"
  by (simp add: idx_wf_def idx_empty_def)

lemma idx_wf_add_head:
  assumes wf: "idx_wf fk sk fh sh t" and none: "map_of (file_hash t (fh f)) f = None"
  shows "idx_wf fk sk fh sh (idx_add_head fh f t)"
proof (rule idx_wfI)
  let ?t = "idx_add_head fh f t"
  have heads: "(g = f \<and> ch = [] \<and> b = fh f) \<or> (g, ch) \<in> set (file_hash t b)"
    if "(g, ch) \<in> set (file_hash ?t b)" for g ch b
    using that by (auto simp: idx_add_head_def split: if_splits)
  fix b g ch p
  assume *: "(g, ch) \<in> set (file_hash ?t b)"
  show "fh g = b" using heads [OF *] wf_headD(1) [OF wf] by auto
  show "distinct ch" using heads [OF *] wf_headD(2) [OF wf] by auto
  assume "p \<in> set ch"
  then show "\<exists>x. heap ?t p = Some x \<and> fk x = g"
    using heads [OF *] wf_headD(3) [OF wf] by (auto simp: idx_add_head_def)
next
  fix b
  have "f \<notin> set (map fst (file_hash t (fh f)))" using none by (simp add: map_of_eq_None_iff)
  then show "distinct (map fst (file_hash (idx_add_head fh f t) b))"
    using wf_headsD [OF wf] by (simp add: idx_add_head_def)
next
  fix p x assume "heap (idx_add_head fh f t) p = Some x"
  then have x: "heap t p = Some x" by (simp add: idx_add_head_def)
  show "\<exists>ch. (fk x, ch) \<in> set (file_hash (idx_add_head fh f t) (fh (fk x))) \<and> p \<in> set ch"
    using wf_heapD(3) [OF wf x] by (auto simp: idx_add_head_def)
qed (use wf_sidD [OF wf] wf_heapD [OF wf] wf_injD [OF wf] in \<open>auto simp: idx_add_head_def\<close>)

lemma heads_link:
  "(f, ch) \<in> set (file_hash (idx_link fk sk fh sh x t) b) \<longleftrightarrow>
     (\<exists>c. (f, c) \<in> set (file_hash t b) \<and>
          ch = (if b = fh (fk x) \<and> f = fk x then next_ptr t # c else c))"
  by (auto simp: idx_link_def Let_def set_upd_chain)

lemma heads_unlink:
  "(g, ch) \<in> set (file_hash (idx_unlink fh sh f s p t) b) \<longleftrightarrow>
     (\<exists>c. (g, c) \<in> set (file_hash t b) \<and>
          ch = (if b = fh f \<and> g = f then chain_unlink p c else c))"
  by (auto simp: idx_unlink_def set_upd_chain)

lemma idx_link_simps [simp]:
  "heap (idx_link fk sk fh sh x t) = (heap t)(next_ptr t \<mapsto> x)"
  "next_ptr (idx_link fk sk fh sh x t) = Suc (next_ptr t)"
  "map fst (file_hash (idx_link fk sk fh sh x t) b) = map fst (file_hash t b)"
  "sid_hash (idx_link fk sk fh sh x t) b =
     (if b = sh (sk x) then next_ptr t # sid_hash t b else sid_hash t b)"
  by (simp_all add: idx_link_def Let_def)

lemma idx_unlink_simps [simp]:
  "heap (idx_unlink fh sh f s p t) = (heap t)(p := None)"
  "next_ptr (idx_unlink fh sh f s p t) = next_ptr t"
  "map fst (file_hash (idx_unlink fh sh f s p t) b) = map fst (file_hash t b)"
  "sid_hash (idx_unlink fh sh f s p t) b =
     (if b = sh s then chain_unlink p (sid_hash t b) else sid_hash t b)"
  by (simp_all add: idx_unlink_def)

lemma idx_wf_link:
  assumes wf: "idx_wf fk sk fh sh t" and head: "map_of (file_hash t (fh (fk x))) (fk x) \<noteq> None"
    and fresh: "\<And>q y. heap t q = Some y \<Longrightarrow> sk y \<noteq> sk x"
  shows "idx_wf fk sk fh sh (idx_link fk sk fh sh x t)"
proof (rule idx_wfI)
  let ?p = "next_ptr t" and ?t = "idx_link fk sk fh sh x t"
  have new: "heap t ?p = None" using wf_heapD(2) [OF wf, of ?p] by (cases "heap t ?p") auto
  have notin_s: "?p \<notin> set (sid_hash t b)" for b
    using wf_sidD(2) [OF wf, of ?p b] new by auto
  fix b
  show "distinct (map fst (file_hash ?t b))" using wf_headsD [OF wf] by simp
  show "distinct (sid_hash ?t b)" using wf_sidD(1) [OF wf] notin_s by simp
  show "\<exists>y. heap ?t q = Some y \<and> sh (sk y) = b" if "q \<in> set (sid_hash ?t b)" for q
    using that notin_s wf_sidD(2) [OF wf] by (auto split: if_splits)
  fix f ch q
  assume "(f, ch) \<in> set (file_hash ?t b)"
  then obtain c where c: "(f, c) \<in> set (file_hash t b)"
    "ch = (if b = fh (fk x) \<and> f = fk x then ?p # c else c)" by (auto simp: heads_link)
  have notin: "?p \<notin> set c" using wf_headD(3) [OF wf c(1), of ?p] new by auto
  show "fh f = b" using wf_headD(1) [OF wf c(1)] .
  show "distinct ch" using c wf_headD(2) [OF wf c(1)] notin by simp
  assume "q \<in> set ch"
  then show "\<exists>y. heap ?t q = Some y \<and> fk y = f"
    using c(2) wf_headD(3) [OF wf c(1), of q] notin by (auto split: if_splits)
next
  let ?p = "next_ptr t" and ?t = "idx_link fk sk fh sh x t"
  obtain ch0 where ch0: "(fk x, ch0) \<in> set (file_hash t (fh (fk x)))"
    using head by (auto dest: map_of_SomeD)
  fix q y assume *: "heap ?t q = Some y"
  show "q \<in> set (sid_hash ?t (sh (sk y)))" "q < next_ptr ?t"
    using * wf_heapD(1,2) [OF wf, of q y] by (auto split: if_splits)
  obtain c where "(fk y, c) \<in> set (file_hash t (fh (fk y)))" "q = ?p \<and> y = x \<or> q \<in> set c"
    using * ch0 wf_heapD(3) [OF wf, of q y] by (auto split: if_splits)
  then show "\<exists>ch. (fk y, ch) \<in> set (file_hash ?t (fh (fk y))) \<and> q \<in> set ch"
    unfolding heads_link by (cases "fk y = fk x") auto
  fix r z assume z: "heap ?t r = Some z" "sk y = sk z"
  show "q = r"
  proof (cases "q = ?p \<or> r = ?p")
    case True
    with * z fresh [of q y] fresh [of r z] show ?thesis by (auto split: if_splits)
  next
    case False
    with * z have "heap t q = Some y" "heap t r = Some z" by auto
    then show ?thesis using z(2) by (rule wf_injD [OF wf])
  qed
qed

lemma idx_wf_unlink:
  assumes wf: "idx_wf fk sk fh sh t" and x: "heap t p = Some x"
  shows "idx_wf fk sk fh sh (idx_unlink fh sh (fk x) (sk x) p t)"
proof (rule idx_wfI)
  let ?t = "idx_unlink fh sh (fk x) (sk x) p t"
  fix b
  show "distinct (map fst (file_hash ?t b))" using wf_headsD [OF wf] by simp
  show "distinct (sid_hash ?t b)" using wf_sidD(1) [OF wf] by simp
  show "\<exists>y. heap ?t q = Some y \<and> sh (sk y) = b" if "q \<in> set (sid_hash ?t b)" for q
    using that x wf_sidD(1) [OF wf, of b] wf_sidD(2) [OF wf, of q b] by (auto split: if_splits)
  fix f ch q
  assume "(f, ch) \<in> set (file_hash ?t b)"
  then obtain c where c: "(f, c) \<in> set (file_hash t b)"
    "ch = (if b = fh (fk x) \<and> f = fk x then chain_unlink p c else c)" by (auto simp: heads_unlink)
  note d = wf_headD(2) [OF wf c(1)]
  show fb: "fh f = b" using wf_headD(1) [OF wf c(1)] .
  show "distinct ch" using c d by simp
  assume "q \<in> set ch"
  with c d have q: "q \<in> set c" "q = p \<Longrightarrow> \<not> (b = fh (fk x) \<and> f = fk x)" by (auto split: if_splits)
  obtain y where y: "heap t q = Some y" "fk y = f" using wf_headD(3) [OF wf c(1) q(1)] by blast
  with q(2) x fb have "q \<noteq> p" by auto
  with y show "\<exists>y. heap ?t q = Some y \<and> fk y = f" by simp
next
  let ?t = "idx_unlink fh sh (fk x) (sk x) p t"
  fix q y assume "heap ?t q = Some y"
  then have y: "heap t q = Some y" "q \<noteq> p" by (auto split: if_splits)
  show "q \<in> set (sid_hash ?t (sh (sk y)))" "q < next_ptr ?t"
    using wf_heapD(1,2) [OF wf y(1)] y(2) wf_sidD(1) [OF wf] by auto
  obtain c where "(fk y, c) \<in> set (file_hash t (fh (fk y)))" "q \<in> set c"
    using wf_heapD(3) [OF wf y(1)] by blast
  then show "\<exists>ch. (fk y, ch) \<in> set (file_hash ?t (fh (fk y))) \<and> q \<in> set ch"
    unfolding heads_unlink using y(2) by (cases "fk y = fk x") auto
  fix r z assume "heap ?t r = Some z" "sk y = sk z"
  then show "q = r" using wf_injD [OF wf y(1)] by (auto split: if_splits)
qed

text \<open>Updating a node in place, with its keys unchanged.\<close>

lemma idx_wf_update:
  assumes wf: "idx_wf fk sk fh sh t" and x: "heap t p = Some x" "fk y = fk x" "sk y = sk x"
  shows "idx_wf fk sk fh sh (t\<lparr>heap := (heap t)(p \<mapsto> y)\<rparr>)"
proof (rule idx_wfI)
  let ?t = "t\<lparr>heap := (heap t)(p \<mapsto> y)\<rparr>"
  have bwd: "\<exists>w. heap t q = Some w \<and> sk z = sk w \<and> fk z = fk w" if "heap ?t q = Some z" for q z
    using that x by (auto split: if_splits)
  fix q z assume *: "heap ?t q = Some z"
  show "q \<in> set (sid_hash ?t (sh (sk z)))" "q < next_ptr ?t"
    "\<exists>ch. (fk z, ch) \<in> set (file_hash ?t (fh (fk z))) \<and> q \<in> set ch"
    using bwd [OF *] wf_heapD [OF wf] by auto
  show "q = r" if "heap ?t r = Some v" "sk z = sk v" for r v
    using bwd [OF *] bwd [OF that(1)] that(2) wf_injD [OF wf] by metis
next
  let ?t = "t\<lparr>heap := (heap t)(p \<mapsto> y)\<rparr>"
  have fwd: "\<exists>z. heap ?t q = Some z \<and> sk z = sk w \<and> fk z = fk w" if "heap t q = Some w" for q w
    using that x by auto
  fix b
  show "\<exists>z. heap ?t q = Some z \<and> sh (sk z) = b" if "q \<in> set (sid_hash ?t b)" for q
    using that fwd wf_sidD(2) [OF wf, of q b] by fastforce
  fix f ch q
  assume "(f, ch) \<in> set (file_hash ?t b)" "q \<in> set ch"
  then obtain w where "heap t q = Some w" "fk w = f" using wf_headD(3) [OF wf] by (auto, blast)
  with fwd show "\<exists>z. heap ?t q = Some z \<and> fk z = f" by fastforce
qed (use wf_headD(1,2) [OF wf] wf_headsD [OF wf] wf_sidD(1) [OF wf] in auto)

lemma file_chain_update [simp]: "file_chain fh (t\<lparr>heap := h\<rparr>) f = file_chain fh t f"
  by (simp add: file_chain_def)

lemma file_chain_ensure_head:
  "map_of (file_hash t (fh f)) f = None \<Longrightarrow> file_chain fh (idx_add_head fh f t) g = file_chain fh t g"
  by (auto simp: file_chain_def idx_add_head_def split: option.splits)

lemma idx_add_head_simps [simp]:
  "heap (idx_add_head fh f t) = heap t"
  "next_ptr (idx_add_head fh f t) = next_ptr t"
  "sid_hash (idx_add_head fh f t) = sid_hash t"
  "map_of (file_hash (idx_add_head fh f t) (fh f)) f = Some []"
  by (simp_all add: idx_add_head_def)

lemma idx_drop_head_simps [simp]:
  "heap (idx_drop_head fh f t) = heap t" "next_ptr (idx_drop_head fh f t) = next_ptr t"
  "sid_hash (idx_drop_head fh f t) = sid_hash t"
  by (simp_all add: idx_drop_head_def)

lemma idx_wf_drop_head:
  assumes wf: "idx_wf fk sk fh sh t"
  shows "idx_wf fk sk fh sh (idx_drop_head fh f t)"
proof (rule idx_wfI)
  let ?t = "idx_drop_head fh f t"
  have heads: "(g, ch) \<in> set (file_hash t b)" if "(g, ch) \<in> set (file_hash ?t b)" for g ch b
    using that set_remove1_subset [of "(f, [])" "file_hash t b"] by (auto simp: idx_drop_head_def split: if_splits)
  fix b g ch p
  assume *: "(g, ch) \<in> set (file_hash ?t b)"
  show "fh g = b" using wf_headD(1) [OF wf heads [OF *]] .
  show "distinct ch" using wf_headD(2) [OF wf heads [OF *]] .
  assume "p \<in> set ch"
  then show "\<exists>x. heap ?t p = Some x \<and> fk x = g" using wf_headD(3) [OF wf heads [OF *]] by simp
next
  fix b
  have "distinct (map fst (remove1 x xs))" if "distinct (map fst xs)" for x :: "u64 \<times> ptr list" and xs
    using that set_remove1_subset [of x] by (induction xs) auto
  then show "distinct (map fst (file_hash (idx_drop_head fh f t) b))"
    using wf_headsD [OF wf] by (simp add: idx_drop_head_def)
next
  fix p x assume "heap (idx_drop_head fh f t) p = Some x"
  then have x: "heap t p = Some x" by simp
  obtain ch where ch: "(fk x, ch) \<in> set (file_hash t (fh (fk x)))" "p \<in> set ch" using wf_heapD(3) [OF wf x] by blast
  then have "(fk x, ch) \<in> set (remove1 (f, []) (file_hash t (fh (fk x))))" by (subst in_set_remove1) auto
  then show "\<exists>ch. (fk x, ch) \<in> set (file_hash (idx_drop_head fh f t) (fh (fk x))) \<and> p \<in> set ch"
    using ch by (auto simp: idx_drop_head_def)
qed (use wf_sidD [OF wf] wf_heapD [OF wf] wf_injD [OF wf] in auto)

lemma file_chain_drop_head:
  assumes wf: "idx_wf fk sk fh sh t"
  shows "file_chain fh (idx_drop_head fh f t) g = file_chain fh t g"
proof -
  have d: "map_of (remove1 (f, []) xs) g = (if map_of xs g = Some [] \<and> g = f then None else map_of xs g)"
    if "distinct (map fst xs)" for xs :: "(u64 \<times> ptr list) list"
    using that
  proof (induction xs)
    case (Cons y xs)
    have "map_of xs f = None" if "y = (f, [])" using that Cons.prems by (simp add: map_of_eq_None_iff)
    then show ?case using Cons by (cases y) auto
  qed simp
  show ?thesis
    using d [OF wf_headsD [OF wf]] by (auto simp: idx_drop_head_def file_chain_def)
qed

section \<open>The contract\<close>

locale stateid_index =
  fixes inv :: "'t \<Rightarrow> bool"
    and objs :: "'t \<Rightarrow> ptr \<Rightarrow> 'o option"
    and sid_of :: "'o \<Rightarrow> bytes"
    and file_of :: "'o \<Rightarrow> u64"
    and by_sid :: "'t \<Rightarrow> bytes \<Rightarrow> ptr option"
    and chain :: "'t \<Rightarrow> u64 \<Rightarrow> ptr list"
    and new_addr :: "'t \<Rightarrow> ptr"
    and insert_obj :: "'t \<Rightarrow> 'o \<Rightarrow> 't"
    and update_obj :: "'t \<Rightarrow> ptr \<Rightarrow> 'o \<Rightarrow> 't"
    and discard :: "'t \<Rightarrow> ptr \<Rightarrow> 't"
  assumes by_sid_iff: "inv t \<Longrightarrow> by_sid t s = Some p \<longleftrightarrow> (\<exists>x. objs t p = Some x \<and> sid_of x = s)"
    and chain_iff: "inv t \<Longrightarrow> p \<in> set (chain t f) \<longleftrightarrow> (\<exists>x. objs t p = Some x \<and> file_of x = f)"
    and chain_distinct: "inv t \<Longrightarrow> distinct (chain t f)"
    and new_addr: "inv t \<Longrightarrow> objs t (new_addr t) = None"
    and insert_inv: "inv t \<Longrightarrow> \<forall>q y. objs t q = Some y \<longrightarrow> sid_of y \<noteq> sid_of x \<Longrightarrow> inv (insert_obj t x)"
    and insert_objs: "objs (insert_obj t x) = (objs t)(new_addr t \<mapsto> x)"
    and update_inv: "inv t \<Longrightarrow> objs t p = Some x \<Longrightarrow> sid_of y = sid_of x \<Longrightarrow> file_of y = file_of x \<Longrightarrow>
      inv (update_obj t p y)"
    and update_objs: "objs (update_obj t p y) = (objs t)(p \<mapsto> y)"
    and discard_inv: "inv t \<Longrightarrow> objs t p = Some x \<Longrightarrow> inv (discard t p)"
    and discard_objs: "objs t p = Some x \<Longrightarrow> objs (discard t p) = (objs t)(p := None)"
begin

lemma by_sid_None_iff: "inv t \<Longrightarrow> by_sid t s = None \<longleftrightarrow> (\<forall>p x. objs t p = Some x \<longrightarrow> sid_of x \<noteq> s)"
  using by_sid_iff [of t s "the (by_sid t s)"] by_sid_iff [of t s] by (cases "by_sid t s") auto

lemma sid_unique:
  "inv t \<Longrightarrow> objs t p = Some x \<Longrightarrow> objs t q = Some y \<Longrightarrow> sid_of x = sid_of y \<Longrightarrow> p = q"
  using by_sid_iff [of t "sid_of x" p] by_sid_iff [of t "sid_of x" q] by auto

lemma by_sid_discard:
  assumes "inv t" "objs t p = Some x"
  shows "by_sid (discard t p) s = (if s = sid_of x then None else by_sid t s)"
proof -
  have "by_sid (discard t p) s = Some q \<longleftrightarrow> by_sid t s = Some q \<and> s \<noteq> sid_of x" for q
    unfolding by_sid_iff [OF discard_inv [OF assms]] by_sid_iff [OF assms(1)] discard_objs [OF assms(2)]
    using assms(2) sid_unique [OF assms, of q] by (cases "q = p") auto
  then show ?thesis by (metis not_Some_eq)
qed

lemma by_sid_insert:
  assumes "inv t" "\<forall>q y. objs t q = Some y \<longrightarrow> sid_of y \<noteq> sid_of x"
  shows "by_sid (insert_obj t x) s = (if s = sid_of x then Some (new_addr t) else by_sid t s)"
proof -
  have "by_sid (insert_obj t x) s = Some q \<longleftrightarrow>
        (if s = sid_of x then q = new_addr t else by_sid t s = Some q)" for q
    unfolding by_sid_iff [OF insert_inv [OF assms]] by_sid_iff [OF assms(1)] insert_objs
    using assms(2) new_addr [OF assms(1)] by (cases "q = new_addr t") auto
  then show ?thesis by (metis not_Some_eq)
qed

lemma discard_all:
  assumes "inv t" "distinct ps" "\<forall>p \<in> set ps. objs t p \<noteq> None"
  shows "inv (foldl discard t ps) \<and> objs (foldl discard t ps) = objs t |` (- set ps)"
  using assms
proof (induction ps arbitrary: t)
  case Nil
  then show ?case by simp
next
  case (Cons p ps)
  then obtain x where x: "objs t p = Some x" by auto
  note t' = discard_inv [OF Cons.prems(1) x] discard_objs [OF x]
  have "\<forall>q \<in> set ps. objs (discard t p) q \<noteq> None" using Cons.prems t'(2) by auto
  then have IH: "inv (foldl discard (discard t p) ps) \<and>
      objs (foldl discard (discard t p) ps) = objs (discard t p) |` (- set ps)"
    using Cons.IH [OF t'(1)] Cons.prems(2) by simp
  have "(objs t)(p := None) |` (- set ps) = objs t |` (- set (p # ps))"
    by (rule ext) (auto simp: restrict_map_def)
  with IH t'(2) show ?case by simp
qed

lemma visit_all:
  assumes "distinct ps" "\<forall>p \<in> set ps. objs t p \<noteq> None"
  shows "foldl (\<lambda>t p. if P (the (objs t p)) then discard t p else t) t ps =
    foldl discard t (filter (\<lambda>p. P (the (objs t p))) ps)"
  using assms
proof (induction ps arbitrary: t)
  case Nil
  then show ?case by simp
next
  case (Cons p ps)
  then obtain x where x: "objs t p = Some x" by auto
  have h: "objs (discard t p) q = objs t q" if "q \<in> set ps" for q
    using that Cons.prems(1) discard_objs [OF x] by auto
  then have "filter (\<lambda>q. P (the (objs (discard t p) q))) ps = filter (\<lambda>q. P (the (objs t q))) ps"
    by (auto intro: filter_cong)
  then show ?case using Cons h by simp
qed

lemma visit_all_objs:
  assumes "inv t" "distinct ps" "\<forall>p \<in> set ps. objs t p \<noteq> None"
  shows "inv (foldl (\<lambda>t p. if P (the (objs t p)) then discard t p else t) t ps)"
    and "objs (foldl (\<lambda>t p. if P (the (objs t p)) then discard t p else t) t ps) =
      (\<lambda>p. if p \<in> set ps \<and> P (the (objs t p)) then None else objs t p)"
  unfolding visit_all [OF assms(2,3)]
  using discard_all [OF assms(1), of "filter (\<lambda>p. P (the (objs t p))) ps"] assms(2,3)
  by (auto simp: fun_eq_iff restrict_map_def)

lemma discard_all_lookup:
  assumes "inv t" "distinct ps" "\<forall>p \<in> set ps. objs t p \<noteq> None"
  shows "by_sid (foldl discard t ps) s =
    (case by_sid t s of Some p \<Rightarrow> if p \<notin> set ps then Some p else None | None \<Rightarrow> None)"
proof (rule option_filterI)
  note D = discard_all [OF assms]
  show "by_sid (foldl discard t ps) s = Some q \<longleftrightarrow> by_sid t s = Some q \<and> q \<notin> set ps" for q
    using D assms(1) by (auto simp: by_sid_iff restrict_map_def split: if_splits)
qed

end

end
