(* ===== verification/Lock_Range.thy ===== *)
theory Lock_Range
  imports Lattice_Prelude
begin

text \<open>
  Byte-range arithmetic of the lock manager (\<^verbatim>\<open>range_end\<close>, \<^verbatim>\<open>ranges_overlap\<close> and \<^verbatim>\<open>carve_range\<close> of
  \<^verbatim>\<open>src/mds/lock_state.c\<close>). Offsets and lengths are 64-bit words; an exclusive end of
  \<open>UINT64_MAX\<close> stands for end of file.

  The abstract view of one owner's range list is the partial function \<open>held\<close> from byte offsets to
  lock types. \<open>ranges_ok\<close> is the invariant the source states in a comment (ranges of one owner
  never overlap, no length is 0); under it carving removes exactly the given bytes, which is what
  justifies the \<^verbatim>\<open>break\<close> after a split and the single spare node.
\<close>

section \<open>Definitions\<close>

abbreviation READ_LT :: u32 where "READ_LT \<equiv> 1"
abbreviation WRITE_LT :: u32 where "WRITE_LT \<equiv> 2"
abbreviation READW_LT :: u32 where "READW_LT \<equiv> 3"
abbreviation WRITEW_LT :: u32 where "WRITEW_LT \<equiv> 4"

record lock_range =
  lr_offset :: u64
  lr_length :: u64
  lr_type :: u32
  lr_id :: u64

definition range_end :: "u64 \<Rightarrow> u64 \<Rightarrow> u64" where
  "range_end off len = (if len = UINT64_MAX \<or> off + len < off then UINT64_MAX else off + len)"

definition ranges_overlap :: "u64 \<Rightarrow> u64 \<Rightarrow> u64 \<Rightarrow> u64 \<Rightarrow> bool" where
  "ranges_overlap o1 l1 o2 l2 \<longleftrightarrow> o1 < range_end o2 l2 \<and> o2 < range_end o1 l1"

definition lr_end :: "lock_range \<Rightarrow> u64" where
  "lr_end r = range_end (lr_offset r) (lr_length r)"

text \<open>What a step of the carve asks of the shared byte_locks table.\<close>

datatype range_ev = RPut lock_range | RDel u64

text \<open>
  The loop of \<^verbatim>\<open>carve_range\<close>: the result is the new list, the persistence calls in order, the next
  value of the table's counter and whether the spare node was consumed.
\<close>

fun carve_loop :: "u64 \<Rightarrow> u64 \<Rightarrow> u64 \<Rightarrow> lock_range list \<Rightarrow> lock_range list \<times> range_ev list \<times> u64 \<times> bool" where
  "carve_loop off end seq [] = ([], [], seq, False)"
| "carve_loop off end seq (r # rs) =
     (let rend = lr_end r in
      if rend \<le> off \<or> end \<le> lr_offset r then
        (let (rs', ev, seq', used) = carve_loop off end seq rs in (r # rs', ev, seq', used))
      else if lr_offset r < off \<and> end < rend then
        (let spare = \<lparr>lr_offset = end,
                      lr_length = (if rend = UINT64_MAX then UINT64_MAX else rend - end),
                      lr_type = lr_type r, lr_id = seq\<rparr>;
             r' = r\<lparr>lr_length := off - lr_offset r\<rparr>
         in (r' # spare # rs, [RPut r', RPut spare], seq + 1, True))
      else if off \<le> lr_offset r \<and> rend \<le> end then
        (let (rs', ev, seq', used) = carve_loop off end seq rs in (rs', RDel (lr_id r) # ev, seq', used))
      else if lr_offset r < off then
        (let r' = r\<lparr>lr_length := off - lr_offset r\<rparr>;
             (rs', ev, seq', used) = carve_loop off end seq rs
         in (r' # rs', RPut r' # ev, seq', used))
      else
        (let r' = r\<lparr>lr_offset := end,
                    lr_length := (if rend = UINT64_MAX then UINT64_MAX else rend - end)\<rparr>;
             (rs', ev, seq', used) = carve_loop off end seq rs
         in (r' # rs', RPut r' # ev, seq', used)))"

section \<open>Abstract view and invariant\<close>

definition in_range :: "u64 \<Rightarrow> lock_range \<Rightarrow> bool" where
  "in_range b r \<longleftrightarrow> lr_offset r \<le> b \<and> b < lr_end r"

fun held :: "lock_range list \<Rightarrow> u64 \<Rightarrow> u32 option" where
  "held [] b = None"
| "held (r # rs) b = (if in_range b r then Some (lr_type r) else held rs b)"

definition apart :: "lock_range \<Rightarrow> lock_range \<Rightarrow> bool" where
  "apart r s \<longleftrightarrow> lr_end r \<le> lr_offset s \<or> lr_end s \<le> lr_offset r"

definition ranges_ok :: "lock_range list \<Rightarrow> bool" where
  "ranges_ok rs \<longleftrightarrow> (\<forall>r \<in> set rs. lr_length r \<noteq> 0) \<and> sorted_wrt apart rs"

section \<open>Arithmetic\<close>

lemma range_end_ge: "off \<le> range_end off len"
  by (auto simp: range_end_def not_less)

lemma range_end_gt: "len \<noteq> 0 \<Longrightarrow> off \<noteq> UINT64_MAX \<Longrightarrow> off < range_end off len"
proof -
  assume len: "len \<noteq> 0" and off: "off \<noteq> UINT64_MAX"
  then have "off + len \<noteq> off" by simp
  then show ?thesis
    using off by (auto simp: range_end_def not_less order.not_eq_order_implies_strict)
qed

lemma range_end_head: "a < b \<Longrightarrow> range_end a (b - a) = b"
proof -
  assume ab: "a < b"
  have "b = UINT64_MAX" if "b - a = UINT64_MAX"
  proof -
    from that have "b = a - 1" by (simp add: algebra_simps)
    with ab have "a = 0" by unat_arith
    with that show ?thesis by simp
  qed
  with ab show ?thesis by (auto simp: range_end_def)
qed

lemma range_end_tail: "e < r \<Longrightarrow> range_end e (if r = UINT64_MAX then UINT64_MAX else r - e) = r"
  using range_end_head [of e r] by (cases "r = UINT64_MAX") (simp_all add: range_end_def)

lemma head_len_nz: "a < b \<Longrightarrow> b - a \<noteq> (0 :: u64)"
  by auto

lemma not_overlap_apart:
  assumes "lr_length r \<noteq> 0" "lr_length s \<noteq> 0"
  shows "ranges_overlap (lr_offset r) (lr_length r) (lr_offset s) (lr_length s) \<longleftrightarrow> \<not> apart r s"
  by (auto simp: ranges_overlap_def apart_def lr_end_def)

lemma apart_sym: "apart r s \<longleftrightarrow> apart s r"
  by (auto simp: apart_def)

lemma apart_disjoint: "apart r s \<Longrightarrow> in_range b r \<Longrightarrow> \<not> in_range b s"
  by (auto simp: apart_def in_range_def)

section \<open>Carving\<close>

definition carve :: "u64 \<Rightarrow> u64 \<Rightarrow> u64 \<Rightarrow> lock_range list \<Rightarrow> lock_range list" where
  "carve off end seq rs = fst (carve_loop off end seq rs)"

text \<open>What replaces one range that meets the carved region.\<close>

definition cut_head :: "u64 \<Rightarrow> lock_range \<Rightarrow> lock_range" where
  "cut_head off r = r\<lparr>lr_length := off - lr_offset r\<rparr>"

definition cut_tail :: "u64 \<Rightarrow> lock_range \<Rightarrow> lock_range" where
  "cut_tail end r = r\<lparr>lr_offset := end,
     lr_length := (if lr_end r = UINT64_MAX then UINT64_MAX else lr_end r - end)\<rparr>"

lemma cut_head_simps [simp]:
  "lr_offset (cut_head off r) = lr_offset r" "lr_type (cut_head off r) = lr_type r"
  "lr_id (cut_head off r) = lr_id r"
  "lr_offset r < off \<Longrightarrow> lr_end (cut_head off r) = off"
  "lr_offset r < off \<Longrightarrow> lr_length (cut_head off r) \<noteq> 0"
  by (auto simp: cut_head_def lr_end_def range_end_head)

lemma cut_tail_simps [simp]:
  "lr_offset (cut_tail end r) = end" "lr_type (cut_tail end r) = lr_type r"
  "lr_id (cut_tail end r) = lr_id r"
  "end < lr_end r \<Longrightarrow> lr_end (cut_tail end r) = lr_end r"
  "end < lr_end r \<Longrightarrow> lr_length (cut_tail end r) \<noteq> 0"
  using range_end_tail [of "end" "lr_end r"] by (auto simp: cut_tail_def lr_end_def)

lemma lr_end_id [simp]: "lr_end (r\<lparr>lr_id := i\<rparr>) = lr_end r"
  by (simp add: lr_end_def)

lemma carve_simps:
  "carve off end seq [] = []"
  "carve off end seq (r # rs) =
     (if lr_end r \<le> off \<or> end \<le> lr_offset r then r # carve off end seq rs
      else if lr_offset r < off \<and> end < lr_end r then
        cut_head off r # (cut_tail end r)\<lparr>lr_id := seq\<rparr> # rs
      else if off \<le> lr_offset r \<and> lr_end r \<le> end then carve off end seq rs
      else if lr_offset r < off then cut_head off r # carve off end seq rs
      else cut_tail end r # carve off end seq rs)"
  by (simp_all add: carve_def cut_head_def cut_tail_def Let_def case_prod_unfold)

lemma ranges_ok_Cons:
  "ranges_ok (r # rs) \<longleftrightarrow> lr_length r \<noteq> 0 \<and> (\<forall>s \<in> set rs. apart r s) \<and> ranges_ok rs"
  by (auto simp: ranges_ok_def)

lemma ranges_ok_Nil [simp]: "ranges_ok []"
  by (simp add: ranges_ok_def)

lemma in_range_id [simp]: "in_range b (r\<lparr>lr_id := i\<rparr>) = in_range b r"
  by (simp add: in_range_def)

lemma apart_id [simp]: "apart (r\<lparr>lr_id := i\<rparr>) s = apart r s" "apart s (r\<lparr>lr_id := i\<rparr>) = apart s r"
  by (simp_all add: apart_def)

text \<open>Every range of the result lies inside a range of the input.\<close>

definition within :: "lock_range \<Rightarrow> lock_range \<Rightarrow> bool" where
  "within r' r \<longleftrightarrow> lr_offset r \<le> lr_offset r' \<and> lr_end r' \<le> lr_end r"

lemma within_apart: "within r' r \<Longrightarrow> apart r s \<Longrightarrow> apart r' s"
  by (auto simp: within_def apart_def)

lemma within_refl [simp]: "within r r"
  by (simp add: within_def)

lemma carve_within: "r' \<in> set (carve off end seq rs) \<Longrightarrow> \<exists>r \<in> set rs. within r' r \<and> lr_type r' = lr_type r"
proof (induction rs)
  case Nil
  then show ?case by (simp add: carve_simps)
next
  case (Cons r rs)
  have "within (cut_head off r) r" if "lr_offset r < off" "\<not> lr_end r \<le> off"
    using that by (simp add: within_def)
  moreover have "within (cut_tail end r) r" "within ((cut_tail end r)\<lparr>lr_id := seq\<rparr>) r"
    if "end < lr_end r" "\<not> end \<le> lr_offset r"
    using that by (simp_all add: within_def)
  moreover have "\<exists>s \<in> set rs. within r' s \<and> lr_type r' = lr_type s" if "r' \<in> set rs"
    using that within_refl by blast
  ultimately show ?case
    using Cons by (auto simp: carve_simps not_le split: if_splits)
qed

lemma carve_clear:
  assumes "ranges_ok rs" "off \<le> end" "r' \<in> set (carve off end seq rs)"
  shows "lr_end r' \<le> off \<or> end \<le> lr_offset r'"
  using assms
proof (induction rs)
  case Nil
  then show ?case by (simp add: carve_simps)
next
  case (Cons r rs)
  have rest: "lr_end s \<le> off \<or> end \<le> lr_offset s"
    if "s \<in> set rs" "lr_offset r < off" "end < lr_end r" for s
    using that Cons.prems(1) by (force simp: ranges_ok_Cons apart_def)
  from Cons rest show ?case
    by (auto simp: carve_simps ranges_ok_Cons split: if_splits)
qed

lemma carve_ok: "ranges_ok rs \<Longrightarrow> off \<le> end \<Longrightarrow> ranges_ok (carve off end seq rs)"
proof (induction rs)
  case Nil
  then show ?case by (simp add: carve_simps)
next
  case (Cons r rs)
  have ap: "apart r' s" if "within r' r" "s \<in> set (carve off end seq rs)" for r' s
    using that carve_within [OF that(2)] Cons.prems(1)
    by (metis ranges_ok_Cons apart_sym within_apart)
  have ap0: "apart r' s" if "within r' r" "s \<in> set rs" for r' s
    using that Cons.prems(1) by (auto simp: ranges_ok_Cons intro: within_apart)
  have "within (cut_head off r) r" if "lr_offset r < off" "\<not> lr_end r \<le> off"
    using that by (simp add: within_def)
  moreover have "within (cut_tail end r) r" if "end < lr_end r" "\<not> end \<le> lr_offset r"
    using that by (simp add: within_def)
  moreover have "apart (cut_head off r) (cut_tail end r)" if "lr_offset r < off" "end < lr_end r"
    using that Cons.prems(2) by (simp add: apart_def)
  ultimately show ?case
    using Cons ap ap0 by (auto simp: carve_simps ranges_ok_Cons)
qed

lemma held_None_iff: "held rs b = None \<longleftrightarrow> (\<forall>r \<in> set rs. \<not> in_range b r)"
  by (induction rs) auto

lemma carve_held:
  assumes "ranges_ok rs" "off \<le> end"
  shows "held (carve off end seq rs) b = (if off \<le> b \<and> b < end then None else held rs b)"
  using assms
proof (induction rs)
  case Nil
  then show ?case by (simp add: carve_simps)
next
  case (Cons r rs)
  then have IH: "held (carve off end seq rs) b = (if off \<le> b \<and> b < end then None else held rs b)"
    by (simp add: ranges_ok_Cons)
  have "held rs b = None" if "in_range b r"
    using that Cons.prems(1) by (auto simp: held_None_iff ranges_ok_Cons dest: apart_disjoint)
  then show ?case
    using Cons.prems(2) by (auto simp: carve_simps IH in_range_def)
qed

section \<open>Row identifiers and persistence\<close>

text \<open>
  Each range owns the byte_locks row named by its \<open>lr_id\<close>. \<open>apply_ev\<close> is one upsert or delete on a
  file's rows, \<open>rows_of\<close> the rows that mirror a range list.
\<close>

abbreviation range_ids :: "lock_range list \<Rightarrow> u64 list" where
  "range_ids \<equiv> map lr_id"

definition rows_of :: "lock_range list \<Rightarrow> u64 \<rightharpoonup> lock_range" where
  "rows_of rs = map_of (map (\<lambda>r. (lr_id r, r)) rs)"

fun apply_ev :: "(u64 \<rightharpoonup> lock_range) \<Rightarrow> range_ev \<Rightarrow> (u64 \<rightharpoonup> lock_range)" where
  "apply_ev m (RPut r) = m(lr_id r \<mapsto> r)"
| "apply_ev m (RDel i) = m(i := None)"

definition carve_events :: "u64 \<Rightarrow> u64 \<Rightarrow> u64 \<Rightarrow> lock_range list \<Rightarrow> range_ev list" where
  "carve_events off end seq rs = fst (snd (carve_loop off end seq rs))"

definition carve_seq :: "u64 \<Rightarrow> u64 \<Rightarrow> u64 \<Rightarrow> lock_range list \<Rightarrow> u64" where
  "carve_seq off end seq rs = fst (snd (snd (carve_loop off end seq rs)))"

lemma carve_loop_eq:
  "\<exists>used. carve_loop off end seq rs = (carve off end seq rs, carve_events off end seq rs, carve_seq off end seq rs, used)"
  by (cases "carve_loop off end seq rs") (simp add: carve_def carve_events_def carve_seq_def)

lemma carve_events_simps:
  "carve_events off end seq [] = []"
  "carve_events off end seq (r # rs) =
     (if lr_end r \<le> off \<or> end \<le> lr_offset r then carve_events off end seq rs
      else if lr_offset r < off \<and> end < lr_end r then
        [RPut (cut_head off r), RPut ((cut_tail end r)\<lparr>lr_id := seq\<rparr>)]
      else if off \<le> lr_offset r \<and> lr_end r \<le> end then RDel (lr_id r) # carve_events off end seq rs
      else if lr_offset r < off then RPut (cut_head off r) # carve_events off end seq rs
      else RPut (cut_tail end r) # carve_events off end seq rs)"
  by (simp_all add: carve_events_def cut_head_def cut_tail_def Let_def case_prod_unfold)

lemma carve_seq_cases:
  "carve_seq off end seq rs = seq \<and> set (range_ids (carve off end seq rs)) \<subseteq> set (range_ids rs) \<or>
   carve_seq off end seq rs = seq + 1 \<and> set (range_ids (carve off end seq rs)) \<subseteq> insert seq (set (range_ids rs))"
  by (induction rs) (auto simp: carve_seq_def carve_simps Let_def case_prod_unfold)

lemma carve_ids_subset: "set (range_ids (carve off end seq rs)) \<subseteq> insert seq (set (range_ids rs))"
  using carve_seq_cases [of off "end" seq rs] by auto

lemma carve_ids_distinct:
  "distinct (range_ids rs) \<Longrightarrow> seq \<notin> set (range_ids rs) \<Longrightarrow> distinct (range_ids (carve off end seq rs))"
proof (induction rs)
  case Nil
  then show ?case by (simp add: carve_simps)
next
  case (Cons r rs)
  have "lr_id r \<notin> set (range_ids (carve off end seq rs))"
    using carve_ids_subset [of off "end" seq rs] Cons.prems by auto
  with Cons show ?case by (auto simp: carve_simps)
qed

lemma rows_of_None: "rows_of rs i = None \<longleftrightarrow> i \<notin> set (range_ids rs)"
  by (simp add: rows_of_def map_of_eq_None_iff image_image)

lemma rows_of_Cons [simp]: "rows_of (r # rs) = (rows_of rs)(lr_id r \<mapsto> r)"
  by (simp add: rows_of_def)

lemma rows_of_Nil [simp]: "rows_of [] = Map.empty"
  by (simp add: rows_of_def)

text \<open>Replaying the carve's persistence calls keeps the rows a mirror of the range list.\<close>

lemma carve_rows:
  assumes "distinct (range_ids rs)" "seq \<notin> set (range_ids rs)"
    and "\<forall>i \<in> set (range_ids rs). m i = rows_of rs i"
  shows "foldl apply_ev m (carve_events off end seq rs) i =
    (if i \<in> set (range_ids (carve off end seq rs)) then rows_of (carve off end seq rs) i
     else if i \<in> set (range_ids rs) then None else m i)"
  using assms
proof (induction rs arbitrary: m)
  case Nil
  then show ?case by (simp add: carve_simps carve_events_simps)
next
  case (Cons r rs)
  let ?C = "carve off end seq rs"
  have notin: "lr_id r \<notin> set (range_ids ?C)"
    using carve_ids_subset [of off "end" seq rs] Cons.prems by auto
  have ne: "\<And>j. j \<in> set (range_ids rs) \<Longrightarrow> j \<noteq> lr_id r" using Cons.prems(1) by force
  have m: "m (lr_id r) = Some r" "\<And>j. j \<in> set (range_ids rs) \<Longrightarrow> m j = rows_of rs j"
    using Cons.prems(3) ne by (simp, metis fun_upd_other list.set_intros(2) list.simps(9) rows_of_Cons)
  have IH: "foldl apply_ev n (carve_events off end seq rs) i =
      (if i \<in> set (range_ids ?C) then rows_of ?C i else if i \<in> set (range_ids rs) then None else n i)"
    if "\<forall>j. j \<noteq> lr_id r \<longrightarrow> n j = m j" for n
  proof (rule Cons.IH)
    show "\<forall>j \<in> set (range_ids rs). n j = rows_of rs j"
      using that m(2) ne by metis
  qed (use Cons.prems in auto)
  show ?case
  proof (cases "lr_end r \<le> off \<or> end \<le> lr_offset r")
    case True
    then show ?thesis using IH [of m] notin m(1) Cons.prems(1)
      by (auto simp: carve_simps carve_events_simps)
  next
    case outer: False
    show ?thesis
    proof (cases "lr_offset r < off \<and> end < lr_end r")
      case True
      then show ?thesis using outer Cons.prems m
        by (auto simp: carve_simps carve_events_simps)
    next
      case False
      then show ?thesis using outer notin Cons.prems(1)
          IH [of "m(lr_id r := None)"] IH [of "m(lr_id r \<mapsto> cut_head off r)"] IH [of "m(lr_id r \<mapsto> cut_tail end r)"]
        by (auto simp: carve_simps carve_events_simps)
    qed
  qed
qed

end
