(* ===== verification/Lock_State.thy ===== *)
theory Lock_State
  imports Stateid_Index Lock_Range
begin

text \<open>
  The byte-range lock manager, \<^verbatim>\<open>src/mds/lock_state.c\<close>: LOCK, LOCKT, LOCKU, FREE_STATEID and the two
  cleanup paths. The table is 16 stripes; each stripe is an \<open>index_tab\<close> of lock-owner states. A
  stripe's mutex is held from the first access to the last of every operation (the courtesy
  revocation takes it twice), so an operation is one function on the table.

  The \<^verbatim>\<open>calloc\<close> results are an argument: the set of allocation sites that fail in this call. The
  best-effort writes to the shared byte_locks table are recorded in order in \<open>lt_calls\<close>; the code
  ignores their results. Session-table lookups of lease expiry are an argument.
\<close>

section \<open>State\<close>

abbreviation LOCK_OWNER_MAX :: nat where "LOCK_OWNER_MAX \<equiv> 128"
abbreviation LOCK_STRIPES :: nat where "LOCK_STRIPES \<equiv> 16"
abbreviation FILE_HASH_PER_STRIPE :: nat where "FILE_HASH_PER_STRIPE \<equiv> 32"
abbreviation LOCK_REVOKE_MAX_CLIENTS :: nat where "LOCK_REVOKE_MAX_CLIENTS \<equiv> 64"

record lock_owner_state =
  os_fileid :: u64
  os_clientid :: u64
  os_owner :: bytes
  os_stateid :: nfs4_stateid
  os_ranges :: "lock_range list"

type_synonym lock_stripe = "lock_owner_state index_tab"

text \<open>\<^verbatim>\<open>struct mds_coord_lock_row\<close>: one row of the shared byte_locks table.\<close>

record lock_row =
  row_fileid :: u64
  row_lock_id :: u64
  row_offset :: u64
  row_length :: u64
  row_type :: u32
  row_clientid :: u64
  row_owner :: bytes
  row_stateid_other :: bytes
  row_seqid :: u32
  row_open_other :: bytes
  row_owner_mds :: u32
  row_boot_epoch :: u64

datatype lock_cat_call = LockPut lock_row | LockDel u64 u64 | LockReapClient u64

record lock_table =
  stripes :: "u32 \<Rightarrow> lock_stripe"
  next_seq :: u64
  lt_mds_id :: u32
  lt_cat :: bool
  lt_boot_epoch :: u64
  lt_calls :: "lock_cat_call list"

record lock_conflict =
  lc_offset :: u64
  lc_length :: u64
  lc_type :: u32
  lc_clientid :: u64
  lc_owner :: bytes

datatype lock_err = L_INVAL | L_DENIED lock_conflict | L_BAD_STATEID | L_OLD_STATEID | L_LOCKS_HELD | L_NOMEM

datatype lock_alloc = A_range | A_spare | A_file | A_owner

section \<open>Hashing and stateids\<close>

definition fhash :: "u64 \<Rightarrow> u32" where
  "fhash fileid = ucast (os_mix64 fileid mod 32)"

definition shash :: "bytes \<Rightarrow> u32" where
  "shash oth = ucast (os_mix64 (le_load (take 8 (drop 4 oth))) mod 32)"

definition stripe :: "u64 \<Rightarrow> u32" where
  "stripe fileid = ucast (fileid mod 16)"

definition stateid_stripe :: "bytes \<Rightarrow> u32" where
  "stateid_stripe oth = ucast (oth ! 4) mod 16"

definition lock_other :: "u32 \<Rightarrow> u64 \<Rightarrow> u64 \<Rightarrow> bytes" where
  "lock_other mds fileid seq = be_bytes 4 mds @ [ucast (stripe fileid)] @ drop 1 (be_bytes 8 seq)"

definition make_lock_stateid :: "lock_table \<Rightarrow> u64 \<Rightarrow> lock_table \<times> nfs4_stateid" where
  "make_lock_stateid lt fileid =
     (lt\<lparr>next_seq := next_seq lt + 1\<rparr>,
      \<lparr>seqid = 0, other = lock_other (lt_mds_id lt) fileid (next_seq lt)\<rparr>)"

definition owner_match :: "lock_owner_state \<Rightarrow> u64 \<Rightarrow> bytes \<Rightarrow> bool" where
  "owner_match os clientid owner \<longleftrightarrow> os_clientid os = clientid \<and> os_owner os = owner"

section \<open>Table primitives\<close>

abbreviation os_other :: "lock_owner_state \<Rightarrow> bytes" where
  "os_other os \<equiv> other (os_stateid os)"

definition find_file :: "lock_stripe \<Rightarrow> u64 \<Rightarrow> ptr list option" where
  "find_file st fileid = map_of (file_hash st (fhash fileid)) fileid"

definition find_or_create_file :: "lock_alloc set \<Rightarrow> lock_stripe \<Rightarrow> u64 \<Rightarrow> lock_stripe option" where
  "find_or_create_file oom st fileid =
     (case find_file st fileid of
        Some _ \<Rightarrow> Some st
      | None \<Rightarrow> if A_file \<in> oom then None else Some (idx_add_head fhash fileid st))"

definition find_by_sid :: "lock_stripe \<Rightarrow> bytes \<Rightarrow> ptr option" where
  "find_by_sid st oth = chain_find (heap st) (\<lambda>os. os_other os = oth) (sid_hash st (shash oth))"

definition find_owner :: "lock_stripe \<Rightarrow> ptr list \<Rightarrow> u64 \<Rightarrow> bytes \<Rightarrow> ptr option" where
  "find_owner st fl clientid owner = chain_find (heap st) (\<lambda>os. owner_match os clientid owner) fl"

fun range_conflict :: "u32 \<Rightarrow> u64 \<Rightarrow> u64 \<Rightarrow> lock_range list \<Rightarrow> lock_range option" where
  "range_conflict eff off len [] = None"
| "range_conflict eff off len (r # rs) =
     (if \<not> ranges_overlap (lr_offset r) (lr_length r) off len then range_conflict eff off len rs
      else if lr_type r = READ_LT \<and> eff = READ_LT then range_conflict eff off len rs
      else Some r)"

fun scan_conflict ::
  "lock_stripe \<Rightarrow> ptr option \<Rightarrow> u64 \<Rightarrow> bytes \<Rightarrow> u32 \<Rightarrow> u64 \<Rightarrow> u64 \<Rightarrow> ptr list \<Rightarrow>
   (lock_owner_state \<times> lock_range) option" where
  "scan_conflict st self clientid owner eff off len [] = None"
| "scan_conflict st self clientid owner eff off len (p # ps) =
     (let os = deref st p in
      if Some p = self \<or> owner_match os clientid owner
      then scan_conflict st self clientid owner eff off len ps
      else (case range_conflict eff off len (os_ranges os) of
              Some r \<Rightarrow> Some (os, r)
            | None \<Rightarrow> scan_conflict st self clientid owner eff off len ps))"

definition conflict_of :: "lock_owner_state \<Rightarrow> lock_range \<Rightarrow> lock_conflict" where
  "conflict_of cos cr = \<lparr>lc_offset = lr_offset cr, lc_length = lr_length cr, lc_type = lr_type cr,
     lc_clientid = os_clientid cos, lc_owner = os_owner cos\<rparr>"

definition lock_row_of :: "lock_table \<Rightarrow> lock_owner_state \<Rightarrow> lock_range \<Rightarrow> nfs4_stateid option \<Rightarrow> lock_row" where
  "lock_row_of lt os r open_stateid =
     \<lparr>row_fileid = os_fileid os, row_lock_id = lr_id r, row_offset = lr_offset r,
      row_length = lr_length r, row_type = lr_type r, row_clientid = os_clientid os,
      row_owner = os_owner os, row_stateid_other = os_other os, row_seqid = seqid (os_stateid os),
      row_open_other = (case open_stateid of Some s \<Rightarrow> other s | None \<Rightarrow> replicate 12 0),
      row_owner_mds = lt_mds_id lt, row_boot_epoch = lt_boot_epoch lt\<rparr>"

definition lock_call :: "lock_table \<Rightarrow> lock_cat_call \<Rightarrow> lock_table" where
  "lock_call lt c = (if lt_cat lt then lt\<lparr>lt_calls := lt_calls lt @ [c]\<rparr> else lt)"

definition persist_range_put :: "lock_table \<Rightarrow> lock_owner_state \<Rightarrow> lock_range \<Rightarrow> nfs4_stateid option \<Rightarrow> lock_table" where
  "persist_range_put lt os r open_stateid = lock_call lt (LockPut (lock_row_of lt os r open_stateid))"

definition persist_range_del :: "lock_table \<Rightarrow> u64 \<Rightarrow> u64 \<Rightarrow> lock_table" where
  "persist_range_del lt fileid lock_id = lock_call lt (LockDel fileid lock_id)"

definition carve_range :: "lock_table \<Rightarrow> lock_owner_state \<Rightarrow> u64 \<Rightarrow> u64 \<Rightarrow> lock_table \<times> lock_owner_state" where
  "carve_range lt os off end =
     (let (rs, evs, seq, used) = carve_loop off end (next_seq lt) (os_ranges os);
          lt1 = foldl (\<lambda>l e. case e of
                         RPut r \<Rightarrow> persist_range_put l os r None
                       | RDel i \<Rightarrow> persist_range_del l (os_fileid os) i)
                  (lt\<lparr>next_seq := seq\<rparr>) evs
      in (lt1, os\<lparr>os_ranges := rs\<rparr>))"

definition lock_table_init :: "u32 \<Rightarrow> u64 \<Rightarrow> lock_table" where
  "lock_table_init mds_id clock_ns =
     \<lparr>stripes = (\<lambda>_. idx_empty), next_seq = (if clock_ns = 0 then 1 else clock_ns), lt_mds_id = mds_id,
      lt_cat = False, lt_boot_epoch = 0, lt_calls = []\<rparr>"

definition lock_table_set_cat :: "lock_table \<Rightarrow> bool \<Rightarrow> u64 \<Rightarrow> lock_table" where
  "lock_table_set_cat lt cat boot_epoch = lt\<lparr>lt_cat := cat, lt_boot_epoch := boot_epoch\<rparr>"

definition seqid_check :: "lock_owner_state \<Rightarrow> u32 \<Rightarrow> lock_err option" where
  "seqid_check os presented =
     (if presented = 0 \<or> presented = seqid (os_stateid os) then None
      else if presented < seqid (os_stateid os) then Some L_OLD_STATEID
      else Some L_BAD_STATEID)"

definition sid_hash_unlink :: "lock_stripe \<Rightarrow> ptr \<Rightarrow> lock_stripe" where
  "sid_hash_unlink st p =
     (let si = shash (os_other (deref st p))
      in st\<lparr>sid_hash := (sid_hash st)(si := chain_unlink p (sid_hash st si))\<rparr>)"

definition owner_state_unlink :: "lock_stripe \<Rightarrow> ptr \<Rightarrow> lock_stripe" where
  "owner_state_unlink st p =
     (let f = os_fileid (deref st p); fi = fhash f
      in sid_hash_unlink
           (st\<lparr>file_hash := (file_hash st)(fi := upd_chain f (chain_unlink p) (file_hash st fi))\<rparr>) p)"

definition owner_state_free :: "lock_stripe \<Rightarrow> ptr \<Rightarrow> lock_stripe" where
  "owner_state_free st p = st\<lparr>heap := (heap st)(p := None)\<rparr>"

section \<open>LOCK, LOCKT, LOCKU\<close>

abbreviation set_stripe :: "lock_table \<Rightarrow> u32 \<Rightarrow> lock_stripe \<Rightarrow> lock_table" where
  "set_stripe lt s st \<equiv> lt\<lparr>stripes := (stripes lt)(s := st)\<rparr>"

definition eff_lock_type :: "u32 \<Rightarrow> u32" where
  "eff_lock_type t = (if t = READW_LT then READ_LT else if t = WRITEW_LT then WRITE_LT else t)"

definition eff_length :: "u64 \<Rightarrow> u64" where
  "eff_length len = (if len = 0 then UINT64_MAX else len)"

text \<open>The requesting owner state: by (clientid, owner) or by the presented lock stateid.\<close>

definition resolve_owner ::
  "lock_stripe \<Rightarrow> u64 \<Rightarrow> u64 \<Rightarrow> bytes \<Rightarrow> bool \<Rightarrow> nfs4_stateid \<Rightarrow> lock_err + ptr option" where
  "resolve_owner st fileid clientid owner new_lock_owner lock_stateid =
     (if new_lock_owner then
        Inr (find_owner st (case find_file st fileid of Some fl \<Rightarrow> fl | None \<Rightarrow> []) clientid owner)
      else
        (case find_by_sid st (other lock_stateid) of
           None \<Rightarrow> Inl L_BAD_STATEID
         | Some p \<Rightarrow>
             if os_fileid (deref st p) \<noteq> fileid then Inl L_BAD_STATEID
             else (case seqid_check (deref st p) (seqid lock_stateid) of
                     Some e \<Rightarrow> Inl e
                   | None \<Rightarrow> Inr (Some p))))"

text \<open>The part of \<^verbatim>\<open>lock_acquire\<close> after the conflict check, on an owner state that is in the table.\<close>

definition lock_grant ::
  "lock_table \<Rightarrow> u32 \<Rightarrow> ptr \<Rightarrow> u64 \<Rightarrow> u64 \<Rightarrow> u32 \<Rightarrow> nfs4_stateid \<Rightarrow> lock_table \<times> nfs4_stateid" where
  "lock_grant lt s p off len eff open_stateid =
     (let (lt1, os1) = carve_range lt (deref (stripes lt s) p) off (range_end off len);
          nr = \<lparr>lr_offset = off, lr_length = len, lr_type = eff, lr_id = next_seq lt1\<rparr>;
          sid = (os_stateid os1)\<lparr>seqid := seqid (os_stateid os1) + 1\<rparr>;
          os2 = os1\<lparr>os_ranges := nr # os_ranges os1, os_stateid := sid\<rparr>;
          st = stripes lt1 s;
          lt2 = set_stripe (lt1\<lparr>next_seq := next_seq lt1 + 1\<rparr>) s (st\<lparr>heap := (heap st)(p \<mapsto> os2)\<rparr>)
      in (persist_range_put lt2 os2 nr (Some open_stateid), sid))"

definition lock_new_owner :: "lock_table \<Rightarrow> u64 \<Rightarrow> u64 \<Rightarrow> bytes \<Rightarrow> lock_table" where
  "lock_new_owner lt fileid clientid owner =
     (let (lt1, sid) = make_lock_stateid lt fileid;
          os = \<lparr>os_fileid = fileid, os_clientid = clientid, os_owner = owner, os_stateid = sid,
                os_ranges = []\<rparr>;
          s = stripe fileid
      in set_stripe lt1 s (idx_link os_fileid os_other fhash shash os (stripes lt1 s)))"

definition lock_acquire ::
  "lock_table \<Rightarrow> lock_alloc set \<Rightarrow> u64 \<Rightarrow> u32 \<Rightarrow> u64 \<Rightarrow> u64 \<Rightarrow> u64 \<Rightarrow> bytes \<Rightarrow> nfs4_stateid \<Rightarrow> bool \<Rightarrow>
   nfs4_stateid \<Rightarrow> lock_table \<times> (lock_err + nfs4_stateid)" where
  "lock_acquire lt oom fileid lock_type off length0 clientid owner0 open_stateid new_lock_owner lock_stateid =
     (let eff = eff_lock_type lock_type; len = eff_length length0; owner = take LOCK_OWNER_MAX owner0;
          s = stripe fileid
      in if eff \<noteq> READ_LT \<and> eff \<noteq> WRITE_LT then (lt, Inl L_INVAL)
         else if A_range \<in> oom \<or> A_spare \<in> oom then (lt, Inl L_NOMEM)
         else (case find_or_create_file oom (stripes lt s) fileid of
             None \<Rightarrow> (lt, Inl L_NOMEM)
           | Some st \<Rightarrow>
               let lt1 = set_stripe lt s st;
                   fl = (case find_file st fileid of Some fl \<Rightarrow> fl | None \<Rightarrow> [])
               in (case resolve_owner st fileid clientid owner new_lock_owner lock_stateid of
                     Inl e \<Rightarrow> (lt1, Inl e)
                   | Inr self \<Rightarrow>
                       let cid = (case self of Some p \<Rightarrow> os_clientid (deref st p) | None \<Rightarrow> clientid);
                           own = (case self of Some p \<Rightarrow> os_owner (deref st p) | None \<Rightarrow> owner)
                       in (case scan_conflict st self cid own eff off len fl of
                             Some (cos, cr) \<Rightarrow> (lt1, Inl (L_DENIED (conflict_of cos cr)))
                           | None \<Rightarrow>
                               (case self of
                                  Some p \<Rightarrow>
                                    (let (lt2, sid) = lock_grant lt1 s p off len eff open_stateid
                                     in (lt2, Inr sid))
                                | None \<Rightarrow>
                                    if A_owner \<in> oom then (lt1, Inl L_NOMEM)
                                    else (let (lt2, sid) =
                                                lock_grant (lock_new_owner lt1 fileid clientid owner) s
                                                  (next_ptr st) off len eff open_stateid
                                          in (lt2, Inr sid)))))))"

definition lock_test ::
  "lock_table \<Rightarrow> u64 \<Rightarrow> u32 \<Rightarrow> u64 \<Rightarrow> u64 \<Rightarrow> u64 \<Rightarrow> bytes \<Rightarrow> lock_conflict option" where
  "lock_test lt fileid lock_type off length0 clientid owner0 =
     (let st = stripes lt (stripe fileid) in
      case find_file st fileid of
        None \<Rightarrow> None
      | Some fl \<Rightarrow>
          (case scan_conflict st None clientid (take LOCK_OWNER_MAX owner0) (eff_lock_type lock_type) off
                  (eff_length length0) fl of
             Some (cos, cr) \<Rightarrow> Some (conflict_of cos cr)
           | None \<Rightarrow> None))"

definition lock_release ::
  "lock_table \<Rightarrow> lock_alloc set \<Rightarrow> nfs4_stateid \<Rightarrow> u64 \<Rightarrow> u64 \<Rightarrow> lock_table \<times> (lock_err + nfs4_stateid)" where
  "lock_release lt oom lock_stateid off length0 =
     (let len = eff_length length0; s = stateid_stripe (other lock_stateid); st = stripes lt s in
      if A_spare \<in> oom then (lt, Inl L_NOMEM)
      else (case find_by_sid st (other lock_stateid) of
              None \<Rightarrow> (lt, Inl L_BAD_STATEID)
            | Some p \<Rightarrow>
                (case seqid_check (deref st p) (seqid lock_stateid) of
                   Some e \<Rightarrow> (lt, Inl e)
                 | None \<Rightarrow>
                     let (lt1, os1) = carve_range lt (deref st p) off (range_end off len);
                         sid = (os_stateid os1)\<lparr>seqid := seqid (os_stateid os1) + 1\<rparr>;
                         st1 = stripes lt1 s
                     in (set_stripe lt1 s
                           (st1\<lparr>heap := (heap st1)(p \<mapsto> os1\<lparr>os_stateid := sid\<rparr>)\<rparr>), Inr sid))))"

section \<open>Release of owner states\<close>

definition lock_free_stateid :: "lock_table \<Rightarrow> bytes \<Rightarrow> lock_table \<times> (lock_err + unit)" where
  "lock_free_stateid lt oth =
     (let s = stateid_stripe oth; st = stripes lt s in
      case find_by_sid st oth of
        None \<Rightarrow> (lt, Inl L_BAD_STATEID)
      | Some p \<Rightarrow>
          if os_ranges (deref st p) \<noteq> [] then (lt, Inl L_LOCKS_HELD)
          else (set_stripe lt s (owner_state_free (owner_state_unlink st p) p), Inr ()))"

text \<open>Walking one file chain, removing the owner states that satisfy a predicate.\<close>

fun purge_chain ::
  "(lock_owner_state \<Rightarrow> bool) \<Rightarrow> u32 \<Rightarrow> u64 \<Rightarrow> ptr list \<Rightarrow> lock_stripe \<Rightarrow> lock_stripe \<times> nat" where
  "purge_chain P b f [] st = (st, 0)"
| "purge_chain P b f (p # ps) st =
     (if P (deref st p) then
        (let st1 = st\<lparr>file_hash := (file_hash st)(b := upd_chain f (chain_unlink p) (file_hash st b))\<rparr>;
             (st2, n) = purge_chain P b f ps (owner_state_free (sid_hash_unlink st1 p) p)
         in (st2, Suc n))
      else purge_chain P b f ps st)"

definition purge_bucket :: "(lock_owner_state \<Rightarrow> bool) \<Rightarrow> lock_stripe \<Rightarrow> u32 \<Rightarrow> lock_stripe" where
  "purge_bucket P st b = foldl (\<lambda>t (f, ch). fst (purge_chain P b f ch t)) st (file_hash st b)"

definition purge_stripe :: "(lock_owner_state \<Rightarrow> bool) \<Rightarrow> lock_stripe \<Rightarrow> lock_stripe" where
  "purge_stripe P st = foldl (purge_bucket P) st (map of_nat [0..<FILE_HASH_PER_STRIPE])"

definition lock_release_all_for_client :: "lock_table \<Rightarrow> u64 \<Rightarrow> lock_table" where
  "lock_release_all_for_client lt clientid =
     lock_call
       (foldl (\<lambda>l s. set_stripe l s (purge_stripe (\<lambda>os. os_clientid os = clientid) (stripes l s))) lt
          (map of_nat [0..<LOCK_STRIPES]))
       (LockReapClient clientid)"

definition lock_state_exists :: "lock_table \<Rightarrow> bytes \<Rightarrow> bool" where
  "lock_state_exists lt oth \<longleftrightarrow> find_by_sid (stripes lt (stateid_stripe oth)) oth \<noteq> None"

text \<open>Phase 1 of the courtesy revocation: unique clientids on the chain, at most 64.\<close>

fun collect_clientids :: "lock_stripe \<Rightarrow> ptr list \<Rightarrow> u64 list \<Rightarrow> u64 list" where
  "collect_clientids st [] cids = cids"
| "collect_clientids st (p # ps) cids =
     (let c = os_clientid (deref st p)
      in collect_clientids st ps
           (if c \<notin> set cids \<and> length cids < LOCK_REVOKE_MAX_CLIENTS then cids @ [c] else cids))"

text \<open>
  Phases 1 and 2 give the expired clientids (the stripe mutex is dropped before the session table is
  asked); phase 3 works on the table as it is when the mutex has been taken again.
\<close>

definition lock_revoke_collect :: "lock_table \<Rightarrow> (u64 \<Rightarrow> bool) \<Rightarrow> u64 \<Rightarrow> u64 list" where
  "lock_revoke_collect lt expired fileid =
     (let st = stripes lt (stripe fileid)
      in filter expired
           (collect_clientids st (case find_file st fileid of Some fl \<Rightarrow> fl | None \<Rightarrow> []) []))"

definition lock_revoke_remove :: "lock_table \<Rightarrow> u64 \<Rightarrow> u64 list \<Rightarrow> lock_table \<times> nat" where
  "lock_revoke_remove lt fileid gone =
     (let s = stripe fileid; st = stripes lt s;
          fl = (case find_file st fileid of Some fl \<Rightarrow> fl | None \<Rightarrow> []);
          (st1, n) = purge_chain (\<lambda>os. os_clientid os \<in> set gone) (fhash fileid) fileid fl st;
          lt1 = set_stripe lt s st1
      in (if n > 0 then foldl (\<lambda>l c. lock_call l (LockReapClient c)) lt1 gone else lt1, n))"

definition lock_revoke_expired_for_file :: "lock_table \<Rightarrow> (u64 \<Rightarrow> bool) \<Rightarrow> u64 \<Rightarrow> lock_table \<times> nat" where
  "lock_revoke_expired_for_file lt expired fileid =
     (let gone = lock_revoke_collect lt expired fileid
      in if gone = [] then (lt, 0) else lock_revoke_remove lt fileid gone)"

end
