(* ===== verification/Lock_Index.thy ===== *)
theory Lock_Index
  imports Lock_State
begin

text \<open>
  Correctness of the lock manager: the index contract is interpreted on the stripe, the table
  invariant \<open>lock_inv\<close> is preserved by every operation, and the table refines the abstract POSIX lock
  map \<open>plock\<close>.
\<close>

section \<open>The stripe as a stateid index\<close>

abbreviation lock_wf :: "lock_stripe \<Rightarrow> bool" where
  "lock_wf \<equiv> idx_wf os_fileid os_other fhash shash"

abbreviation lock_chain :: "lock_stripe \<Rightarrow> u64 \<Rightarrow> ptr list" where
  "lock_chain \<equiv> file_chain fhash"

definition lock_ensure_file :: "lock_stripe \<Rightarrow> u64 \<Rightarrow> lock_stripe" where
  "lock_ensure_file st f = (case find_file st f of Some _ \<Rightarrow> st | None \<Rightarrow> idx_add_head fhash f st)"

definition lock_insert :: "lock_stripe \<Rightarrow> lock_owner_state \<Rightarrow> lock_stripe" where
  "lock_insert st os = idx_link os_fileid os_other fhash shash os (lock_ensure_file st (os_fileid os))"

definition lock_update :: "lock_stripe \<Rightarrow> ptr \<Rightarrow> lock_owner_state \<Rightarrow> lock_stripe" where
  "lock_update st p os = st\<lparr>heap := (heap st)(p \<mapsto> os)\<rparr>"

definition lock_discard :: "lock_stripe \<Rightarrow> ptr \<Rightarrow> lock_stripe" where
  "lock_discard st p = owner_state_free (owner_state_unlink st p) p"

lemma lock_discard_idx:
  "lock_discard st p = idx_unlink fhash shash (os_fileid (deref st p)) (os_other (deref st p)) p st"
  by (simp add: lock_discard_def owner_state_free_def owner_state_unlink_def sid_hash_unlink_def
      idx_unlink_def Let_def)

lemma find_by_sid_lookup: "find_by_sid = sid_lookup os_other shash"
  by (intro ext) (simp add: find_by_sid_def sid_lookup_def)

lemma find_file_chain: "(case find_file st f of Some fl \<Rightarrow> fl | None \<Rightarrow> []) = lock_chain st f"
  by (simp add: find_file_def file_chain_def split: option.splits)

lemma ensure_file_wf: "lock_wf st \<Longrightarrow> lock_wf (lock_ensure_file st f)"
  by (auto simp: lock_ensure_file_def find_file_def intro: idx_wf_add_head split: option.splits)

lemma ensure_file_simps [simp]:
  "heap (lock_ensure_file st f) = heap st" "next_ptr (lock_ensure_file st f) = next_ptr st"
  "sid_hash (lock_ensure_file st f) = sid_hash st"
  "lock_chain (lock_ensure_file st f) g = lock_chain st g"
  by (auto simp: lock_ensure_file_def find_file_def file_chain_ensure_head split: option.splits)

lemma ensure_file_head: "map_of (file_hash (lock_ensure_file st f) (fhash f)) f \<noteq> None"
  by (auto simp: lock_ensure_file_def find_file_def split: option.splits)

interpretation lk: stateid_index lock_wf heap os_other os_fileid find_by_sid lock_chain next_ptr
  lock_insert lock_update lock_discard
proof (unfold_locales, goal_cases)
  case (1 t s p)
  then show ?case by (simp add: find_by_sid_lookup sid_lookup_iff)
next
  case (2 t p f)
  then show ?case by (rule file_chain_iff)
next
  case (3 t f)
  then show ?case by (rule file_chain_distinct)
next
  case (4 t)
  then show ?case by (rule wf_new_addr)
next
  case (5 t x)
  then show ?case
    unfolding lock_insert_def
    by (intro idx_wf_link) (auto simp: ensure_file_wf ensure_file_head)
next
  case (6 t x)
  then show ?case by (simp add: lock_insert_def)
next
  case (7 t p x y)
  then show ?case unfolding lock_update_def by (intro idx_wf_update) auto
next
  case (8 t p y)
  then show ?case by (simp add: lock_update_def)
next
  case (9 t p x)
  then show ?case using idx_wf_unlink [of os_fileid os_other fhash shash t p x]
    by (simp add: lock_discard_idx)
next
  case (10 t p x)
  then show ?case by (simp add: lock_discard_idx)
qed

section \<open>Purging chains\<close>

lemma purge_step:
  assumes "heap st p = Some os" "os_fileid os = f"
  shows "owner_state_free (sid_hash_unlink
      (st\<lparr>file_hash := (file_hash st)(fhash f := upd_chain f (chain_unlink p) (file_hash st (fhash f)))\<rparr>) p) p
    = lock_discard st p"
  using assms by (simp add: lock_discard_def owner_state_unlink_def Let_def)

lemma purge_chain_fold:
  assumes "distinct ps" "\<forall>p \<in> set ps. \<exists>os. heap st p = Some os \<and> os_fileid os = f"
  shows "purge_chain P (fhash f) f ps st =
    (foldl lock_discard st (filter (\<lambda>p. P (deref st p)) ps), length (filter (\<lambda>p. P (deref st p)) ps))"
  using assms
proof (induction ps arbitrary: st)
  case Nil
  then show ?case by simp
next
  case (Cons p ps)
  then obtain os where os: "heap st p = Some os" "os_fileid os = f" by auto
  show ?case
  proof (cases "P os")
    case True
    have h: "heap (lock_discard st p) q = heap st q" if "q \<in> set ps" for q
      using that Cons.prems(1) os by (auto simp: lk.discard_objs)
    then have "filter (\<lambda>q. P (deref (lock_discard st p) q)) ps = filter (\<lambda>q. P (deref st q)) ps"
      by (auto intro: filter_cong)
    moreover have "purge_chain P (fhash f) f ps (lock_discard st p) =
        (foldl lock_discard (lock_discard st p) (filter (\<lambda>q. P (deref (lock_discard st p) q)) ps),
         length (filter (\<lambda>q. P (deref (lock_discard st p) q)) ps))"
      using Cons.prems h by (intro Cons.IH) auto
    ultimately show ?thesis using True os by (simp add: purge_step)
  next
    case False
    then show ?thesis using Cons os by auto
  qed
qed

lemma purge_chain_heap:
  assumes wf: "lock_wf st" and d: "distinct ps"
    and ps: "\<And>p. p \<in> set ps \<longleftrightarrow> (\<exists>os. heap st p = Some os \<and> os_fileid os = f)"
  shows "lock_wf (fst (purge_chain P (fhash f) f ps st))"
    and "heap (fst (purge_chain P (fhash f) f ps st)) = heap_filter (\<lambda>os. \<not> (P os \<and> os_fileid os = f)) (heap st)"
proof -
  let ?qs = "filter (\<lambda>p. P (deref st p)) ps"
  have eq: "fst (purge_chain P (fhash f) f ps st) = foldl lock_discard st ?qs"
    using purge_chain_fold [OF d, of st f P] ps by simp
  have D: "lock_wf (foldl lock_discard st ?qs) \<and> heap (foldl lock_discard st ?qs) = heap st |` (- set ?qs)"
    using wf d ps by (intro lk.discard_all) auto
  have "heap st |` (- set ?qs) = heap_filter (\<lambda>os. \<not> (P os \<and> os_fileid os = f)) (heap st)"
    using ps by (intro ext) (force simp: restrict_map_def heap_filter_def split: option.splits)
  with D show "lock_wf (fst (purge_chain P (fhash f) f ps st))"
    "heap (fst (purge_chain P (fhash f) f ps st)) = heap_filter (\<lambda>os. \<not> (P os \<and> os_fileid os = f)) (heap st)"
    by (simp_all add: eq)
qed

lemma purge_heads:
  assumes "lock_wf st" "distinct (map fst hs)"
    and "\<forall>(f, ch) \<in> set hs. fhash f = b \<and> distinct ch \<and> (\<forall>p. p \<in> set ch \<longleftrightarrow> (\<exists>os. heap st p = Some os \<and> os_fileid os = f))"
  shows "lock_wf (foldl (\<lambda>t (f, ch). fst (purge_chain P b f ch t)) st hs) \<and>
    heap (foldl (\<lambda>t (f, ch). fst (purge_chain P b f ch t)) st hs) =
      heap_filter (\<lambda>os. \<not> (P os \<and> os_fileid os \<in> fst ` set hs)) (heap st)"
  using assms
proof (induction hs arbitrary: st)
  case Nil
  then show ?case by simp
next
  case (Cons h hs)
  obtain f ch where h: "h = (f, ch)" by (cases h)
  let ?t = "fst (purge_chain P b f ch st)"
  have b: "b = fhash f" and ch: "distinct ch" "\<And>p. p \<in> set ch \<longleftrightarrow> (\<exists>os. heap st p = Some os \<and> os_fileid os = f)"
    using Cons.prems(3) h by simp_all
  have t: "lock_wf ?t" "heap ?t = heap_filter (\<lambda>os. \<not> (P os \<and> os_fileid os = f)) (heap st)"
    unfolding b by (rule purge_chain_heap [OF Cons.prems(1) ch])+
  have "f \<notin> fst ` set hs" using Cons.prems(2) h by simp
  then have "g \<noteq> f" if "(g, c) \<in> set hs" for g c using that by force
  then have "\<forall>(g, c) \<in> set hs. fhash g = b \<and> distinct c \<and> (\<forall>p. p \<in> set c \<longleftrightarrow> (\<exists>os. heap ?t p = Some os \<and> os_fileid os = g))"
    using Cons.prems(3) t(2) by (force simp: h)
  then have "lock_wf (foldl (\<lambda>t (f, ch). fst (purge_chain P b f ch t)) ?t hs) \<and>
      heap (foldl (\<lambda>t (f, ch). fst (purge_chain P b f ch t)) ?t hs) =
      heap_filter (\<lambda>os. \<not> (P os \<and> os_fileid os \<in> fst ` set hs)) (heap ?t)"
    using Cons.prems(2) t(1) h by (intro Cons.IH) auto
  moreover have "heap_filter (\<lambda>os. \<not> (P os \<and> os_fileid os \<in> fst ` set hs)) (heap ?t) =
      heap_filter (\<lambda>os. \<not> (P os \<and> os_fileid os \<in> fst ` set (h # hs))) (heap st)"
    by (auto simp: t(2) h intro: heap_filter_cong)
  ultimately show ?case by (simp add: h)
qed

lemma purge_bucket_heap:
  assumes "lock_wf st"
  shows "lock_wf (purge_bucket P st b) \<and>
    heap (purge_bucket P st b) = heap_filter (\<lambda>os. \<not> (P os \<and> fhash (os_fileid os) = b)) (heap st)"
proof -
  let ?hs = "file_hash st b"
  have hs: "distinct (map fst ?hs)" "\<forall>(f, ch) \<in> set ?hs. fhash f = b \<and> distinct ch \<and>
      (\<forall>p. p \<in> set ch \<longleftrightarrow> (\<exists>os. heap st p = Some os \<and> os_fileid os = f))"
    using wf_headsD [OF assms, of b] wf_headD(1,2) [OF assms, of _ _ b] wf_head_iff [OF assms, of _ _ b]
    by auto
  have "os_fileid os \<in> fst ` set ?hs \<longleftrightarrow> fhash (os_fileid os) = b" if "heap st p = Some os" for p os
    using wf_heapD [OF assms that] hs(2) by (force dest: map_of_SomeD)
  then have "heap_filter (\<lambda>os. \<not> (P os \<and> os_fileid os \<in> fst ` set ?hs)) (heap st) =
      heap_filter (\<lambda>os. \<not> (P os \<and> fhash (os_fileid os) = b)) (heap st)"
    by (intro heap_filter_cong) simp
  then show ?thesis using purge_heads [OF assms hs, of P] by (simp add: purge_bucket_def)
qed

lemma purge_buckets_heap:
  assumes "lock_wf st"
  shows "lock_wf (foldl (purge_bucket P) st bs) \<and>
    heap (foldl (purge_bucket P) st bs) = heap_filter (\<lambda>os. \<not> (P os \<and> fhash (os_fileid os) \<in> set bs)) (heap st)"
  using assms
proof (induction bs arbitrary: st)
  case Nil
  then show ?case by simp
next
  case (Cons b bs)
  note B = purge_bucket_heap [OF Cons.prems, of P b]
  show ?case using Cons.IH [of "purge_bucket P st b"] B by (auto intro!: heap_filter_cong)
qed

lemma fhash_bucket: "fhash f \<in> set (map of_nat [0..<FILE_HASH_PER_STRIPE])"
proof -
  have "os_mix64 f mod 32 < 32" by (rule word_mod_less_divisor) simp
  then have "unat (fhash f) < 32"
    by (auto simp: fhash_def unsigned_ucast_eq word_less_nat_alt intro: le_less_trans [OF take_bit_nat_less_eq_self])
  then have "unat (fhash f) \<in> set [0..<32]" by simp
  then have "of_nat (unat (fhash f)) \<in> set (map (of_nat :: nat \<Rightarrow> u32) [0..<32])" unfolding set_map by (rule imageI)
  then show ?thesis by simp
qed

lemma purge_stripe_heap:
  assumes "lock_wf st"
  shows "lock_wf (purge_stripe P st)" "heap (purge_stripe P st) = heap_filter (\<lambda>os. \<not> P os) (heap st)"
proof -
  note B = purge_buckets_heap [OF assms, of P "map of_nat [0..<FILE_HASH_PER_STRIPE]"]
  then show "lock_wf (purge_stripe P st)" by (simp add: purge_stripe_def)
  have "heap_filter (\<lambda>os. \<not> (P os \<and> fhash (os_fileid os) \<in> set (map of_nat [0..<FILE_HASH_PER_STRIPE]))) (heap st) =
      heap_filter (\<lambda>os. \<not> P os) (heap st)"
    by (intro heap_filter_cong) (simp only: fhash_bucket simp_thms)
  then show "heap (purge_stripe P st) = heap_filter (\<lambda>os. \<not> P os) (heap st)"
    using B by (simp add: purge_stripe_def)
qed

end
