(* ===== verification/Lock_Inv.thy ===== *)
theory Lock_Inv
  imports Lock_Index
begin

text \<open>
  The invariant of the lock table and its preservation by every operation of
  \<^verbatim>\<open>src/mds/lock_state.c\<close>. \<open>w0\<close> is the value the counter \<^verbatim>\<open>next_seq\<close> was seeded with and \<open>n\<close> the number of
  values handed out since; stateids carry the low 56 bits of the counter, so they are distinct as
  long as \<open>n\<close> stays below \<open>2 ^ 56\<close>.
\<close>

section \<open>Invariant\<close>

definition minted :: "u64 \<Rightarrow> nat \<Rightarrow> u64 set" where
  "minted w0 n = (\<lambda>k. w0 + of_nat k) ` {..<n}"

abbreviation os_ids :: "lock_owner_state \<Rightarrow> u64 set" where
  "os_ids os \<equiv> set (range_ids (os_ranges os))"

definition owner_ok :: "u64 \<Rightarrow> nat \<Rightarrow> u32 \<Rightarrow> lock_owner_state \<Rightarrow> bool" where
  "owner_ok w0 n mds os \<longleftrightarrow>
     ranges_ok (os_ranges os) \<and> (\<forall>r \<in> set (os_ranges os). lr_type r = READ_LT \<or> lr_type r = WRITE_LT) \<and>
     distinct (range_ids (os_ranges os)) \<and> os_ids os \<subseteq> minted w0 n \<and>
     (\<exists>x \<in> minted w0 n. os_other os = lock_other mds (os_fileid os) x)"

definition no_clash :: "lock_range list \<Rightarrow> lock_range list \<Rightarrow> bool" where
  "no_clash rs rs' \<longleftrightarrow> (\<forall>r \<in> set rs. \<forall>r' \<in> set rs'. \<not> apart r r' \<longrightarrow> lr_type r = READ_LT \<and> lr_type r' = READ_LT)"

definition owners_apart :: "lock_owner_state \<Rightarrow> lock_owner_state \<Rightarrow> bool" where
  "owners_apart os os' \<longleftrightarrow> no_clash (os_ranges os) (os_ranges os') \<and>
     \<not> owner_match os (os_clientid os') (os_owner os') \<and> os_ids os \<inter> os_ids os' = {}"

definition stripes_inv :: "u64 \<Rightarrow> nat \<Rightarrow> u32 \<Rightarrow> (u32 \<Rightarrow> lock_stripe) \<Rightarrow> bool" where
  "stripes_inv w0 n mds S \<longleftrightarrow>
     (\<forall>s. lock_wf (S s)) \<and>
     (\<forall>s p os. heap (S s) p = Some os \<longrightarrow> stripe (os_fileid os) = s \<and> owner_ok w0 n mds os) \<and>
     (\<forall>s p q os os'. heap (S s) p = Some os \<longrightarrow> heap (S s) q = Some os' \<longrightarrow> p \<noteq> q \<longrightarrow>
        os_fileid os = os_fileid os' \<longrightarrow> owners_apart os os')"

definition lock_inv :: "u64 \<Rightarrow> nat \<Rightarrow> lock_table \<Rightarrow> bool" where
  "lock_inv w0 n lt \<longleftrightarrow> next_seq lt = w0 + of_nat n \<and> stripes_inv w0 n (lt_mds_id lt) (stripes lt)"

section \<open>Counter values\<close>

lemma minted_mono: "n \<le> m \<Longrightarrow> minted w0 n \<subseteq> minted w0 m"
  by (auto simp: minted_def)

lemma minted_here: "n < m \<Longrightarrow> w0 + of_nat n \<in> minted w0 m"
  by (auto simp: minted_def)

lemma minted_fresh: "n < 2 ^ 64 \<Longrightarrow> w0 + of_nat n \<notin> minted w0 n"
  by (auto simp: minted_def dest!: of_nat_u64_inj)

lemma be_bytes_Suc: "be_bytes (Suc n) x = ucast (drop_bit (8 * n) x) # be_bytes n x"
proof (induction n arbitrary: x)
  case 0
  then show ?case by simp
next
  case (Suc n)
  have "be_bytes (Suc (Suc n)) x = be_bytes (Suc n) (drop_bit 8 x) @ [ucast x]" by simp
  also have "\<dots> = ucast (drop_bit (8 * n) (drop_bit 8 x)) # be_bytes n (drop_bit 8 x) @ [ucast x]"
    by (simp add: Suc.IH del: be_bytes.simps)
  also have "\<dots> = ucast (drop_bit (8 * Suc n) x) # be_bytes (Suc n) x"
    by (simp add: ac_simps)
  finally show ?case .
qed

lemma lock_other_tail: "drop 1 (be_bytes 8 x) = be_bytes 7 x"
  using be_bytes_Suc [of 7 x] by (simp del: be_bytes.simps)

lemma lock_other_inj:
  assumes "lock_other mds f x = lock_other mds' f' y"
  shows "take_bit 56 x = take_bit 56 y"
proof -
  have "drop 5 (lock_other mds f x) = drop 5 (lock_other mds' f' y)" using assms by simp
  then have "be_bytes 7 x = be_bytes 7 y"
    unfolding lock_other_def lock_other_tail by simp
  then show ?thesis using be_bytes_inj [of 7 x y] by simp
qed

lemma take_bit_56_fresh:
  fixes w0 :: u64
  assumes "take_bit 56 (w0 + of_nat n) = take_bit 56 (w0 + of_nat k)" "n < 2 ^ 56" "k < 2 ^ 56"
  shows "n = k"
proof -
  have u: "uint (take_bit 56 (w0 + of_nat i)) = (uint w0 + int i) mod 2 ^ 56" for i
  proof -
    have "uint (w0 + of_nat i) = (uint w0 + int i) mod 2 ^ 64"
      by (simp add: uint_word_ariths(1) unsigned_of_nat take_bit_eq_mod zmod_int mod_simps)
    then show ?thesis
      unfolding unsigned_take_bit_eq by (simp add: take_bit_eq_mod mod_mod_cancel)
  qed
  have "(uint w0 + int n) mod 2 ^ 56 = (uint w0 + int k) mod 2 ^ 56"
    using arg_cong [OF assms(1), of uint] by (simp only: u)
  then have "2 ^ 56 dvd int n - int k" by (simp add: mod_eq_dvd_iff)
  then have "int n mod 2 ^ 56 = int k mod 2 ^ 56" by (simp only: mod_eq_dvd_iff)
  then show ?thesis using assms(2,3) by simp
qed

lemma mod_16_take_bit: "x mod 16 = take_bit 4 x" for x :: "'a::len word"
  by (simp add: take_bit_eq_mod)

lemma stateid_stripe_lock_other: "stateid_stripe (lock_other mds f x) = stripe f"
proof -
  have "lock_other mds f x ! 4 = ucast (stripe f)"
    by (simp add: lock_other_def nth_append del: be_bytes.simps)
  moreover have "take_bit 4 (ucast (ucast (ucast (take_bit 4 f) :: u32) :: u8)) = (ucast (take_bit 4 f) :: u32)"
    by (rule bit_word_eqI) (auto simp: bit_simps)
  ultimately show ?thesis by (simp add: stateid_stripe_def stripe_def mod_16_take_bit)
qed

section \<open>Preservation by the heap updates\<close>

lemma stripes_invD:
  assumes "stripes_inv w0 n mds S"
  shows "lock_wf (S s)"
    and "heap (S s) p = Some os \<Longrightarrow> stripe (os_fileid os) = s"
    and "heap (S s) p = Some os \<Longrightarrow> owner_ok w0 n mds os"
    and "heap (S s) p = Some os \<Longrightarrow> heap (S s) q = Some os' \<Longrightarrow> p \<noteq> q \<Longrightarrow> os_fileid os = os_fileid os' \<Longrightarrow>
      owners_apart os os'"
  using assms unfolding stripes_inv_def by blast+

lemma owner_ok_mono: "owner_ok w0 n mds os \<Longrightarrow> n \<le> m \<Longrightarrow> owner_ok w0 m mds os"
  using minted_mono [of n m w0] unfolding owner_ok_def by blast

lemma owners_apart_sym: "owners_apart os os' \<Longrightarrow> owners_apart os' os"
  unfolding owners_apart_def no_clash_def owner_match_def using apart_sym by auto

text \<open>Fewer owner states, or new file heads: every stripe is well formed and its heap a submap.\<close>

lemma stripes_inv_shrink:
  assumes "stripes_inv w0 n mds S" "\<And>s. lock_wf (T s)" "\<And>s. heap (T s) \<subseteq>\<^sub>m heap (S s)"
  shows "stripes_inv w0 n mds T"
proof -
  have "heap (S s) p = Some os" if "heap (T s) p = Some os" for s p os
    using assms(3) [of s] that by (metis domI map_le_def)
  then show ?thesis
    using assms(2) stripes_invD [OF assms(1)] unfolding stripes_inv_def by blast
qed

lemma stripes_inv_update:
  assumes inv: "stripes_inv w0 n mds S" and p: "heap (S s) p = Some os"
    and same: "os_fileid os' = os_fileid os" "os_clientid os' = os_clientid os"
      "os_owner os' = os_owner os" "os_other os' = os_other os"
    and ok: "owner_ok w0 m mds os'" and nm: "n \<le> m"
    and ids: "os_ids os' \<inter> minted w0 n \<subseteq> os_ids os"
    and clash: "\<And>q oq. heap (S s) q = Some oq \<Longrightarrow> q \<noteq> p \<Longrightarrow> os_fileid oq = os_fileid os \<Longrightarrow>
      no_clash (os_ranges os') (os_ranges oq)"
  shows "stripes_inv w0 m mds (S(s := lock_update (S s) p os'))"
proof -
  note I = stripes_invD [OF inv]
  have wf: "lock_wf (lock_update (S s) p os')"
    using I(1) p same by (intro lk.update_inv) auto
  have ap: "owners_apart os' oq" if q: "heap (S s) q = Some oq" "q \<noteq> p" "os_fileid oq = os_fileid os" for q oq
  proof -
    have A: "owners_apart os oq" using I(4) [OF p q(1)] q by simp
    have "os_ids oq \<subseteq> minted w0 n" using I(3) [OF q(1)] by (simp add: owner_ok_def)
    then have "os_ids os' \<inter> os_ids oq = {}" using A ids unfolding owners_apart_def by blast
    then show ?thesis using A clash [OF q] same unfolding owners_apart_def owner_match_def by simp
  qed
  have h: "heap ((S(s := lock_update (S s) p os')) t) q =
      (if t = s \<and> q = p then Some os' else heap (S t) q)" for t q
    by (simp add: lk.update_objs)
  show ?thesis
    unfolding stripes_inv_def h
    using wf I(1) I(2) [OF p] I(2) owner_ok_mono [OF I(3) nm] ok same(1) I(4) ap owners_apart_sym [OF ap]
    by (auto split: if_splits)
qed

lemma stripes_inv_insert:
  assumes inv: "stripes_inv w0 n mds S" and n: "n < 2 ^ 56"
    and os: "stripe (os_fileid os) = s" "os_ranges os = []" "os_other os = lock_other mds (os_fileid os) (w0 + of_nat n)"
    and new: "\<And>q oq. heap (S s) q = Some oq \<Longrightarrow> os_fileid oq = os_fileid os \<Longrightarrow>
      \<not> owner_match oq (os_clientid os) (os_owner os)"
  shows "stripes_inv w0 (Suc n) mds (S(s := lock_insert (S s) os))"
proof -
  note I = stripes_invD [OF inv]
  have fresh: "os_other oq \<noteq> os_other os" if h: "heap (S s) q = Some oq" for q oq
  proof
    assume eq: "os_other oq = os_other os"
    obtain k where "k < n" "os_other oq = lock_other mds (os_fileid oq) (w0 + of_nat k)"
      using I(3) [OF h] by (auto simp: owner_ok_def minted_def)
    then show False using eq os(3) n take_bit_56_fresh [of w0 k n] by (auto dest: lock_other_inj)
  qed
  have wf: "lock_wf (lock_insert (S s) os)" using I(1) fresh by (intro lk.insert_inv) auto
  have ok: "owner_ok w0 (Suc n) mds os" using os minted_here [of n "Suc n" w0] by (auto simp: owner_ok_def)
  have ap: "owners_apart os oq" if "heap (S s) q = Some oq" "os_fileid oq = os_fileid os" for q oq
    using new [OF that] os(2) by (auto simp: owners_apart_def no_clash_def owner_match_def)
  have h: "heap ((S(s := lock_insert (S s) os)) t) q =
      (if t = s \<and> q = next_ptr (S s) then Some os else heap (S t) q)" for t q
    by (simp add: lk.insert_objs)
  show ?thesis
    unfolding stripes_inv_def h
    using wf I(1) os(1) I(2) owner_ok_mono [OF I(3), of _ _ _ "Suc n"] ok I(4) ap owners_apart_sym [OF ap]
    by (auto split: if_splits)
qed

section \<open>Closed forms of the operations\<close>

definition ev_call :: "lock_table \<Rightarrow> lock_owner_state \<Rightarrow> range_ev \<Rightarrow> lock_cat_call" where
  "ev_call lt os e = (case e of RPut r \<Rightarrow> LockPut (lock_row_of lt os r None) | RDel i \<Rightarrow> LockDel (os_fileid os) i)"

lemma lock_call_simps [simp]:
  "stripes (lock_call lt c) = stripes lt" "next_seq (lock_call lt c) = next_seq lt"
  "lt_mds_id (lock_call lt c) = lt_mds_id lt" "lt_cat (lock_call lt c) = lt_cat lt"
  "lt_boot_epoch (lock_call lt c) = lt_boot_epoch lt"
  by (simp_all add: lock_call_def)

lemma ev_call_cong: "lt_mds_id lt' = lt_mds_id lt \<Longrightarrow> lt_boot_epoch lt' = lt_boot_epoch lt \<Longrightarrow> ev_call lt' = ev_call lt"
  by (intro ext) (simp add: ev_call_def lock_row_of_def split: range_ev.splits)

lemma lock_calls_fold:
  "foldl (\<lambda>l e. case e of RPut r \<Rightarrow> persist_range_put l os r None | RDel i \<Rightarrow> persist_range_del l (os_fileid os) i) lt evs
   = lt\<lparr>lt_calls := lt_calls lt @ (if lt_cat lt then map (ev_call lt os) evs else [])\<rparr>"
proof (induction evs arbitrary: lt)
  case Nil
  then show ?case by simp
next
  case (Cons e evs)
  have "(case e of RPut r \<Rightarrow> persist_range_put lt os r None | RDel i \<Rightarrow> persist_range_del lt (os_fileid os) i)
      = lock_call lt (ev_call lt os e)"
    by (simp add: ev_call_def persist_range_put_def persist_range_del_def split: range_ev.splits)
  then show ?case
    using ev_call_cong [of "lock_call lt (ev_call lt os e)" lt] by (simp add: Cons.IH) (simp add: lock_call_def)
qed

lemma carve_range_eq:
  "carve_range lt os off end =
     (lt\<lparr>next_seq := carve_seq off end (next_seq lt) (os_ranges os),
        lt_calls := lt_calls lt @
          (if lt_cat lt then map (ev_call lt os) (carve_events off end (next_seq lt) (os_ranges os)) else [])\<rparr>,
      os\<lparr>os_ranges := carve off end (next_seq lt) (os_ranges os)\<rparr>)"
proof -
  obtain u where u: "carve_loop off end (next_seq lt) (os_ranges os) =
      (carve off end (next_seq lt) (os_ranges os), carve_events off end (next_seq lt) (os_ranges os),
       carve_seq off end (next_seq lt) (os_ranges os), u)"
    using carve_loop_eq by blast
  have "ev_call (lt\<lparr>next_seq := x\<rparr>) = ev_call lt" for x by (rule ev_call_cong) simp_all
  then show ?thesis by (simp add: carve_range_def u lock_calls_fold)
qed

text \<open>The owner state after a grant, and after a release.\<close>

definition bump :: "nfs4_stateid \<Rightarrow> nfs4_stateid" where
  "bump sid = sid\<lparr>seqid := seqid sid + 1\<rparr>"

definition granted :: "u64 \<Rightarrow> u64 \<Rightarrow> u64 \<Rightarrow> u32 \<Rightarrow> lock_owner_state \<Rightarrow> lock_owner_state" where
  "granted seq off len eff os = os\<lparr>
     os_ranges := \<lparr>lr_offset = off, lr_length = len, lr_type = eff,
                   lr_id = carve_seq off (range_end off len) seq (os_ranges os)\<rparr>
                  # carve off (range_end off len) seq (os_ranges os),
     os_stateid := bump (os_stateid os)\<rparr>"

definition released :: "u64 \<Rightarrow> u64 \<Rightarrow> u64 \<Rightarrow> lock_owner_state \<Rightarrow> lock_owner_state" where
  "released seq off len os = os\<lparr>os_ranges := carve off (range_end off len) seq (os_ranges os),
     os_stateid := bump (os_stateid os)\<rparr>"

lemma bump_other [simp]: "other (bump sid) = other sid"
  by (simp add: bump_def)

lemma granted_simps [simp]:
  "os_fileid (granted seq off len eff os) = os_fileid os"
  "os_clientid (granted seq off len eff os) = os_clientid os"
  "os_owner (granted seq off len eff os) = os_owner os"
  "os_stateid (granted seq off len eff os) = bump (os_stateid os)"
  by (simp_all add: granted_def)

lemma released_simps [simp]:
  "os_fileid (released seq off len os) = os_fileid os"
  "os_clientid (released seq off len os) = os_clientid os"
  "os_owner (released seq off len os) = os_owner os"
  "os_stateid (released seq off len os) = bump (os_stateid os)"
  by (simp_all add: released_def)

text \<open>A table that differs from another only in its stripes, its counter and its trace.\<close>

definition moved :: "lock_table \<Rightarrow> (u32 \<Rightarrow> lock_stripe) \<Rightarrow> u64 \<Rightarrow> lock_table \<Rightarrow> bool" where
  "moved lt S seq lt' \<longleftrightarrow> stripes lt' = S \<and> next_seq lt' = seq \<and> lt_mds_id lt' = lt_mds_id lt \<and>
     lt_cat lt' = lt_cat lt \<and> lt_boot_epoch lt' = lt_boot_epoch lt"

lemma lock_grant_form:
  assumes "heap (stripes lt s) p = Some os" "lock_grant lt s p off len eff open_stateid = (lt', sid)"
  shows "moved lt ((stripes lt)(s := lock_update (stripes lt s) p (granted (next_seq lt) off len eff os)))
      (carve_seq off (range_end off len) (next_seq lt) (os_ranges os) + 1) lt'"
    and "sid = bump (os_stateid os)"
    and "lt_calls lt' = lt_calls lt @ (if lt_cat lt then
       map (ev_call lt os) (carve_events off (range_end off len) (next_seq lt) (os_ranges os)) @
       [LockPut (lock_row_of lt (granted (next_seq lt) off len eff os)
          (hd (os_ranges (granted (next_seq lt) off len eff os))) (Some open_stateid))] else [])"
  using assms
  by (cases "lt_cat lt"; force simp: lock_grant_def carve_range_eq Let_def lock_update_def granted_def bump_def
      moved_def persist_range_put_def lock_call_def lock_row_of_def)+

lemma lock_release_form:
  assumes "find_by_sid (stripes lt s) (other lsid) = Some p" "heap (stripes lt s) p = Some os"
    and "s = stateid_stripe (other lsid)" "seqid_check os (seqid lsid) = None" "A_spare \<notin> oom"
    and "lock_release lt oom lsid off len0 = (lt', res)"
  shows "moved lt ((stripes lt)(s := lock_update (stripes lt s) p (released (next_seq lt) off (eff_length len0) os)))
      (carve_seq off (range_end off (eff_length len0)) (next_seq lt) (os_ranges os)) lt'"
    and "res = Inr (bump (os_stateid os))"
    and "lt_calls lt' = lt_calls lt @ (if lt_cat lt then
       map (ev_call lt os) (carve_events off (range_end off (eff_length len0)) (next_seq lt) (os_ranges os)) else [])"
  using assms
  by (auto simp: lock_release_def carve_range_eq Let_def lock_update_def released_def bump_def moved_def)

section \<open>Conflict scan\<close>

lemma range_conflict_None:
  "range_conflict eff off len rs = None \<longleftrightarrow>
     (\<forall>r \<in> set rs. ranges_overlap (lr_offset r) (lr_length r) off len \<longrightarrow> lr_type r = READ_LT \<and> eff = READ_LT)"
  by (induction rs) auto

lemma range_conflict_Some:
  "range_conflict eff off len rs = Some r \<Longrightarrow>
     r \<in> set rs \<and> ranges_overlap (lr_offset r) (lr_length r) off len \<and> \<not> (lr_type r = READ_LT \<and> eff = READ_LT)"
  by (induction rs) (auto split: if_splits)

lemma scan_conflict_None:
  "scan_conflict st self c ow eff off len ps = None \<longleftrightarrow>
     (\<forall>p \<in> set ps. Some p \<noteq> self \<longrightarrow> \<not> owner_match (deref st p) c ow \<longrightarrow>
        range_conflict eff off len (os_ranges (deref st p)) = None)"
  by (induction ps) (auto simp: Let_def split: option.splits)

lemma scan_conflict_Some:
  "scan_conflict st self c ow eff off len ps = Some (os, r) \<Longrightarrow>
     \<exists>p \<in> set ps. Some p \<noteq> self \<and> os = deref st p \<and> \<not> owner_match os c ow \<and>
       range_conflict eff off len (os_ranges os) = Some r"
  by (induction ps) (auto simp: Let_def split: if_splits option.splits)

lemma no_clash_carve: "no_clash rs rs' \<Longrightarrow> no_clash (carve off end seq rs) rs'"
  unfolding no_clash_def by (fastforce dest!: carve_within dest: within_apart)

lemma no_clash_granted:
  assumes "no_clash (os_ranges os) rs" "range_conflict eff off len rs = None" "len \<noteq> 0" "ranges_ok rs"
  shows "no_clash (os_ranges (granted seq off len eff os)) rs"
proof -
  have "eff = READ_LT \<and> lr_type r = READ_LT"
    if "r \<in> set rs" "\<not> apart \<lparr>lr_offset = off, lr_length = len, lr_type = eff, lr_id = i\<rparr> r" for r i
    using that assms(2-4) not_overlap_apart [of r "\<lparr>lr_offset = off, lr_length = len, lr_type = eff, lr_id = i\<rparr>"]
    by (auto simp: range_conflict_None ranges_ok_def apart_sym)
  then show ?thesis using no_clash_carve [OF assms(1)] by (simp add: granted_def no_clash_def)
qed

section \<open>Preservation by LOCK and LOCKU\<close>

lemma eff_length_nz [simp]: "eff_length len \<noteq> 0"
  by (simp add: eff_length_def)

lemma carve_count:
  obtains j where "j \<le> 1" "carve_seq off end seq rs = seq + of_nat j"
    "set (range_ids (carve off end seq rs)) \<subseteq> set (range_ids rs) \<union> (if j = 1 then {seq} else {})"
proof -
  consider "carve_seq off end seq rs = seq" "set (range_ids (carve off end seq rs)) \<subseteq> set (range_ids rs)"
    | "carve_seq off end seq rs = seq + 1" "set (range_ids (carve off end seq rs)) \<subseteq> insert seq (set (range_ids rs))"
    using carve_seq_cases [of off "end" seq rs] by blast
  then show thesis
  proof cases
    case 1
    then show ?thesis using that [of 0] by simp
  next
    case 2
    then show ?thesis using that [of 1] by simp
  qed
qed

lemma carved_ok:
  assumes ok: "owner_ok w0 n mds os" and n: "n < 2 ^ 64"
  obtains j where "j \<le> 1" "carve_seq off (range_end off len) (w0 + of_nat n) (os_ranges os) = w0 + of_nat (n + j)"
    "owner_ok w0 (n + j) mds (released (w0 + of_nat n) off len os)"
    "os_ids (released (w0 + of_nat n) off len os) \<inter> minted w0 n \<subseteq> os_ids os"
proof -
  let ?seq = "w0 + of_nat n" and ?rs = "os_ranges os"
  obtain j where j: "j \<le> 1" "carve_seq off (range_end off len) ?seq ?rs = ?seq + of_nat j"
    "set (range_ids (carve off (range_end off len) ?seq ?rs)) \<subseteq> set (range_ids ?rs) \<union> (if j = 1 then {?seq} else {})"
    by (rule carve_count)
  have fresh: "?seq \<notin> minted w0 n" using n by (rule minted_fresh)
  have ids: "os_ids os \<subseteq> minted w0 n" using ok by (simp add: owner_ok_def)
  have "owner_ok w0 (n + j) mds (released ?seq off len os)"
    unfolding owner_ok_def
  proof (intro conjI)
    show "ranges_ok (os_ranges (released ?seq off len os))"
      using ok by (auto simp: released_def owner_ok_def intro: carve_ok range_end_ge)
    show "\<forall>r \<in> set (os_ranges (released ?seq off len os)). lr_type r = READ_LT \<or> lr_type r = WRITE_LT"
      using ok by (fastforce simp: released_def owner_ok_def dest: carve_within)
    show "distinct (range_ids (os_ranges (released ?seq off len os)))"
      using carve_ids_distinct [of ?rs ?seq off "range_end off len"] ok fresh ids
      by (auto simp: released_def owner_ok_def)
    show "os_ids (released ?seq off len os) \<subseteq> minted w0 (n + j)"
    proof -
      have "os_ids os \<union> (if j = 1 then {?seq} else {}) \<subseteq> minted w0 (n + j)"
        using ids minted_mono [of n "n + j" w0] minted_here [of n "n + j" w0]
        by (auto simp: image_subset_iff)
      from order.trans [OF j(3) this] show ?thesis by (simp add: released_def)
    qed
    show "\<exists>x \<in> minted w0 (n + j). os_other (released ?seq off len os) = lock_other mds (os_fileid (released ?seq off len os)) x"
      using ok minted_mono [of n "n + j" w0] by (auto simp: owner_ok_def)
  qed
  moreover have "os_ids (released ?seq off len os) \<inter> minted w0 n \<subseteq> os_ids os"
    using j(3) fresh by (auto simp: released_def split: if_splits)
  ultimately show thesis using that j(1,2) by (simp add: ac_simps)
qed

lemma granted_ok:
  assumes ok: "owner_ok w0 n mds os" and n: "n + 1 < 2 ^ 64" and len: "len \<noteq> 0"
    and eff: "eff = READ_LT \<or> eff = WRITE_LT"
  obtains m where "n < m" "m \<le> n + 2"
    "carve_seq off (range_end off len) (w0 + of_nat n) (os_ranges os) + 1 = w0 + of_nat m"
    "owner_ok w0 m mds (granted (w0 + of_nat n) off len eff os)"
    "os_ids (granted (w0 + of_nat n) off len eff os) \<inter> minted w0 n \<subseteq> os_ids os"
proof -
  let ?seq = "w0 + of_nat n" and ?rs = "os_ranges os"
  obtain j where j: "j \<le> 1" "carve_seq off (range_end off len) ?seq ?rs = w0 + of_nat (n + j)"
    "owner_ok w0 (n + j) mds (released ?seq off len os)"
    "os_ids (released ?seq off len os) \<inter> minted w0 n \<subseteq> os_ids os"
    using carved_ok [OF ok] n by (metis add_lessD1)
  let ?m = "n + j + 1"
  have fresh: "w0 + of_nat (n + j) \<notin> minted w0 (n + j)" using n j(1) by (intro minted_fresh) simp
  then have fresh': "w0 + of_nat (n + j) \<notin> minted w0 n" using minted_mono [of n "n + j" w0] by auto
  have rok: "ranges_ok ?rs" using ok by (simp add: owner_ok_def)
  have "apart \<lparr>lr_offset = off, lr_length = len, lr_type = eff, lr_id = i\<rparr> r"
    if "r \<in> set (carve off (range_end off len) ?seq ?rs)" for r i
    using carve_clear [OF rok range_end_ge that] by (auto simp: apart_def lr_end_def)
  then have "owner_ok w0 ?m mds (granted ?seq off len eff os)"
    using j(2,3) eff len fresh minted_mono [of "n + j" ?m w0] minted_here [of "n + j" ?m w0]
    by (auto simp: owner_ok_def released_def granted_def ranges_ok_Cons)
  moreover have "os_ids (granted ?seq off len eff os) \<inter> minted w0 n \<subseteq> os_ids os"
    using j(2,4) fresh' by (auto simp: granted_def released_def)
  moreover have "carve_seq off (range_end off len) ?seq ?rs + 1 = w0 + of_nat ?m"
    using j(2) by simp
  ultimately show thesis using that [of ?m] j(1) by simp
qed

lemma lock_inv_grant:
  assumes inv: "lock_inv w0 n lt" and n: "n + 1 < 2 ^ 64" and p: "heap (stripes lt s) p = Some os"
    and len: "len \<noteq> 0" and eff: "eff = READ_LT \<or> eff = WRITE_LT"
    and free: "\<And>q oq. heap (stripes lt s) q = Some oq \<Longrightarrow> q \<noteq> p \<Longrightarrow> os_fileid oq = os_fileid os \<Longrightarrow>
      range_conflict eff off len (os_ranges oq) = None"
    and g: "lock_grant lt s p off len eff osid = (lt', sid)"
  shows "\<exists>m. n < m \<and> m \<le> n + 2 \<and> lock_inv w0 m lt'"
proof -
  have I: "stripes_inv w0 n (lt_mds_id lt) (stripes lt)" and seq: "next_seq lt = w0 + of_nat n"
    using inv by (simp_all add: lock_inv_def)
  obtain m where m: "n < m" "m \<le> n + 2"
    "carve_seq off (range_end off len) (next_seq lt) (os_ranges os) + 1 = w0 + of_nat m"
    "owner_ok w0 m (lt_mds_id lt) (granted (next_seq lt) off len eff os)"
    "os_ids (granted (next_seq lt) off len eff os) \<inter> minted w0 n \<subseteq> os_ids os"
    using granted_ok [OF stripes_invD(3) [OF I p] n len eff] unfolding seq by metis
  have "no_clash (os_ranges (granted (next_seq lt) off len eff os)) (os_ranges oq)"
    if q: "heap (stripes lt s) q = Some oq" "q \<noteq> p" "os_fileid oq = os_fileid os" for q oq
    using stripes_invD(4) [OF I p q(1)] stripes_invD(3) [OF I q(1)] free [OF q] q len
    by (intro no_clash_granted) (auto simp: owners_apart_def owner_ok_def)
  then have "stripes_inv w0 m (lt_mds_id lt)
      ((stripes lt)(s := lock_update (stripes lt s) p (granted (next_seq lt) off len eff os)))"
    using m by (intro stripes_inv_update [OF I p]) auto
  then show ?thesis using lock_grant_form(1) [OF p g] m by (auto simp: moved_def lock_inv_def)
qed

lemma scan_conflict_heap:
  "heap st' = heap st \<Longrightarrow> scan_conflict st' self c ow eff off len ps = scan_conflict st self c ow eff off len ps"
  by (induction ps) (simp_all add: Let_def cong: option.case_cong)

lemma resolve_owner_eq:
  "resolve_owner st f c ow new lsid =
     (if new then Inr (find_owner st (lock_chain st f) c ow)
      else (case find_by_sid st (other lsid) of
              None \<Rightarrow> Inl L_BAD_STATEID
            | Some p \<Rightarrow> if os_fileid (deref st p) \<noteq> f then Inl L_BAD_STATEID
                        else (case seqid_check (deref st p) (seqid lsid) of Some e \<Rightarrow> Inl e | None \<Rightarrow> Inr (Some p))))"
  by (simp add: resolve_owner_def find_file_chain)

lemma resolve_owner_ensure:
  "resolve_owner (lock_ensure_file st f) f c ow new lsid = resolve_owner st f c ow new lsid"
  by (simp add: resolve_owner_eq find_owner_def find_by_sid_def split: option.split)

definition new_owner :: "lock_table \<Rightarrow> u64 \<Rightarrow> u64 \<Rightarrow> bytes \<Rightarrow> lock_owner_state" where
  "new_owner lt f c ow = \<lparr>os_fileid = f, os_clientid = c, os_owner = ow,
     os_stateid = \<lparr>seqid = 0, other = lock_other (lt_mds_id lt) f (next_seq lt)\<rparr>, os_ranges = []\<rparr>"

lemma lock_new_owner_eq:
  "lock_new_owner (set_stripe lt (stripe f) (lock_ensure_file (stripes lt (stripe f)) f)) f c ow =
     lt\<lparr>next_seq := next_seq lt + 1,
        stripes := (stripes lt)(stripe f := lock_insert (stripes lt (stripe f)) (new_owner lt f c ow))\<rparr>"
  by (simp add: lock_new_owner_def make_lock_stateid_def Let_def lock_insert_def new_owner_def)

definition self_client :: "lock_stripe \<Rightarrow> ptr option \<Rightarrow> u64 \<Rightarrow> u64" where
  "self_client st self c = (case self of Some p \<Rightarrow> os_clientid (deref st p) | None \<Rightarrow> c)"

definition self_owner :: "lock_stripe \<Rightarrow> ptr option \<Rightarrow> bytes \<Rightarrow> bytes" where
  "self_owner st self ow = (case self of Some p \<Rightarrow> os_owner (deref st p) | None \<Rightarrow> ow)"

text \<open>The table on which the grant runs: the file head exists and the owner state is linked.\<close>

definition place :: "lock_table \<Rightarrow> u64 \<Rightarrow> u64 \<Rightarrow> bytes \<Rightarrow> ptr option \<Rightarrow> lock_table \<times> ptr" where
  "place lt f c ow self =
     (let s = stripe f; st = stripes lt s in
      case self of
        Some p \<Rightarrow> (set_stripe lt s (lock_ensure_file st f), p)
      | None \<Rightarrow> (lt\<lparr>next_seq := next_seq lt + 1, stripes := (stripes lt)(s := lock_insert st (new_owner lt f c ow))\<rparr>,
                next_ptr st))"

lemma lock_acquire_alt:
  fixes lt f ow0 len0 ty
  defines "s \<equiv> stripe f" and "ow \<equiv> take LOCK_OWNER_MAX ow0" and "eff \<equiv> eff_lock_type ty" and "len \<equiv> eff_length len0"
  defines "st \<equiv> stripes lt s"
  defines "lt1 \<equiv> set_stripe lt s (lock_ensure_file st f)"
  shows "lock_acquire lt oom f ty off len0 c ow0 osid new lsid =
    (if eff \<noteq> READ_LT \<and> eff \<noteq> WRITE_LT then (lt, Inl L_INVAL)
     else if A_range \<in> oom \<or> A_spare \<in> oom \<or> A_file \<in> oom \<and> find_file st f = None then (lt, Inl L_NOMEM)
     else (case resolve_owner st f c ow new lsid of
         Inl e \<Rightarrow> (lt1, Inl e)
       | Inr self \<Rightarrow>
           (case scan_conflict st self (self_client st self c) (self_owner st self ow) eff off len (lock_chain st f) of
              Some (cos, cr) \<Rightarrow> (lt1, Inl (L_DENIED (conflict_of cos cr)))
            | None \<Rightarrow>
                if self = None \<and> A_owner \<in> oom then (lt1, Inl L_NOMEM)
                else (case place lt f c ow self of
                        (lt2, p) \<Rightarrow> map_prod id Inr (lock_grant lt2 s p off len eff osid)))))"
proof (cases "A_file \<in> oom \<and> find_file st f = None")
  case True
  then show ?thesis by (simp add: lock_acquire_def Let_def find_or_create_file_def s_def st_def eff_def)
next
  case False
  then have fc: "find_or_create_file oom st f = Some (lock_ensure_file st f)"
    by (auto simp: find_or_create_file_def lock_ensure_file_def split: option.splits)
  show ?thesis
  proof (cases "(eff \<noteq> READ_LT \<and> eff \<noteq> WRITE_LT) \<or> A_range \<in> oom \<or> A_spare \<in> oom")
    case True
    then show ?thesis using False by (auto simp: lock_acquire_def Let_def eff_def)
  next
    case go: False
    then have go1: "(eff \<noteq> READ_LT \<and> eff \<noteq> WRITE_LT) = False" and go2: "(A_range \<in> oom \<or> A_spare \<in> oom) = False"
      by blast+
    note F = resolve_owner_ensure [of st f c ow new lsid] find_file_chain [of "lock_ensure_file st f" f]
      lock_new_owner_eq [of lt f c ow]
    have A: "lock_acquire lt oom f ty off len0 c ow0 osid new lsid =
      (case resolve_owner st f c ow new lsid of
         Inl e \<Rightarrow> (lt1, Inl e)
       | Inr self \<Rightarrow>
           (case scan_conflict (lock_ensure_file st f) self (self_client (lock_ensure_file st f) self c)
               (self_owner (lock_ensure_file st f) self ow) eff off len (lock_chain st f) of
              Some (cos, cr) \<Rightarrow> (lt1, Inl (L_DENIED (conflict_of cos cr)))
            | None \<Rightarrow>
                (case self of
                   Some p \<Rightarrow> (let (lt2, sid) = lock_grant lt1 s p off len eff osid in (lt2, Inr sid))
                 | None \<Rightarrow>
                     if A_owner \<in> oom then (lt1, Inl L_NOMEM)
                     else (let (lt2, sid) = lock_grant (lock_new_owner lt1 f c ow) s (next_ptr st) off len eff osid
                           in (lt2, Inr sid)))))"
      unfolding lock_acquire_def Let_def self_client_def self_owner_def
      unfolding eff_def [symmetric] len_def [symmetric] s_def [symmetric] ow_def [symmetric] st_def [symmetric]
      by (simp only: go1 go2 fc F(1,2) option.case ensure_file_simps lt1_def if_False)
    have B: "scan_conflict (lock_ensure_file st f) self (self_client (lock_ensure_file st f) self c)
        (self_owner (lock_ensure_file st f) self ow) eff off len (lock_chain st f) =
      scan_conflict st self (self_client st self c) (self_owner st self ow) eff off len (lock_chain st f)" for self
      by (simp add: scan_conflict_heap [of "lock_ensure_file st f" st] self_client_def self_owner_def
          cong: option.case_cong)
    show ?thesis
      unfolding A B using False go F(3) unfolding lt1_def st_def s_def map_prod_def place_def Let_def
      by (auto simp: case_prod_unfold split: option.split sum.split)
  qed
qed

lemma resolve_owner_Some:
  assumes "lock_wf st" "resolve_owner st f c ow new lsid = Inr (Some p)"
  obtains os where "heap st p = Some os" "os_fileid os = f" "new \<Longrightarrow> owner_match os c ow"
    "\<not> new \<Longrightarrow> os_other os = other lsid \<and> seqid_check os (seqid lsid) = None"
proof (cases new)
  case True
  then have "chain_find (heap st) (\<lambda>os. owner_match os c ow) (lock_chain st f) = Some p"
    using assms(2) by (simp add: resolve_owner_eq find_owner_def)
  then show ?thesis using that True lk.chain_iff [OF assms(1), of p f] by (auto dest!: chain_find_SomeD)
next
  case False
  then have "find_by_sid st (other lsid) = Some p" "os_fileid (deref st p) = f"
    "seqid_check (deref st p) (seqid lsid) = None"
    using assms(2) by (auto simp: resolve_owner_eq split: option.splits if_splits)
  then show ?thesis using that False lk.by_sid_iff [OF assms(1), of "other lsid" p] by auto
qed

lemma resolve_owner_None:
  assumes "lock_wf st" "resolve_owner st f c ow new lsid = Inr None" "heap st q = Some oq" "os_fileid oq = f"
  shows "\<not> owner_match oq c ow"
proof -
  have "chain_find (heap st) (\<lambda>os. owner_match os c ow) (lock_chain st f) = None"
    using assms(2) by (auto simp: resolve_owner_eq find_owner_def split: if_splits option.splits)
  then show ?thesis using lk.chain_iff [OF assms(1), of q f] assms(3,4) by (auto simp: chain_find_None_iff)
qed

lemma ensure_inv: "lock_inv w0 n lt \<Longrightarrow> lock_inv w0 n (set_stripe lt s (lock_ensure_file (stripes lt s) f))"
  unfolding lock_inv_def
  by (auto intro!: stripes_inv_shrink [of w0 n "lt_mds_id lt" "stripes lt"] ensure_file_wf dest: stripes_invD(1))

lemma place_inv:
  assumes inv: "lock_inv w0 n lt" and n: "n < 2 ^ 56"
    and r: "resolve_owner (stripes lt (stripe f)) f c ow new lsid = Inr self"
    and p: "place lt f c ow self = (lt2, p)"
  obtains k os where "k \<le> 1" "lock_inv w0 (n + k) lt2" "heap (stripes lt2 (stripe f)) p = Some os" "os_fileid os = f"
    "os_clientid os = self_client (stripes lt (stripe f)) self c" "os_owner os = self_owner (stripes lt (stripe f)) self ow"
    "os_ranges os = (case self of Some q \<Rightarrow> os_ranges (deref (stripes lt (stripe f)) q) | None \<Rightarrow> [])"
    "\<And>q. q \<noteq> p \<Longrightarrow> heap (stripes lt2 (stripe f)) q = heap (stripes lt (stripe f)) q"
proof (cases self)
  case (Some q)
  have wf: "lock_wf (stripes lt (stripe f))" and r': "resolve_owner (stripes lt (stripe f)) f c ow new lsid = Inr (Some q)"
    using inv r Some by (auto simp: lock_inv_def dest: stripes_invD(1))
  obtain os where "heap (stripes lt (stripe f)) q = Some os" "os_fileid os = f"
    by (rule resolve_owner_Some [OF wf r'])
  then show ?thesis
    using that [of 0 os] p Some ensure_inv [OF inv, of "stripe f" f]
    by (auto simp: place_def Let_def self_client_def self_owner_def)
next
  case None
  have I: "stripes_inv w0 n (lt_mds_id lt) (stripes lt)" and seq: "next_seq lt = w0 + of_nat n"
    using inv by (simp_all add: lock_inv_def)
  have "stripes_inv w0 (Suc n) (lt_mds_id lt)
      ((stripes lt)(stripe f := lock_insert (stripes lt (stripe f)) (new_owner lt f c ow)))"
    using resolve_owner_None [OF stripes_invD(1) [OF I]] r None seq n
    by (intro stripes_inv_insert [OF I]) (auto simp: new_owner_def)
  then have "lock_inv w0 (n + 1) lt2" using p None seq by (auto simp: place_def Let_def lock_inv_def)
  then show ?thesis
    using that [of 1 "new_owner lt f c ow"] p None
    by (auto simp: place_def Let_def self_client_def self_owner_def new_owner_def lk.insert_objs)
qed

lemma scan_free:
  assumes "lock_wf st" "scan_conflict st self c ow eff off len (lock_chain st f) = None"
    and "heap st q = Some oq" "os_fileid oq = f" "Some q \<noteq> self" "\<not> owner_match oq c ow"
  shows "range_conflict eff off len (os_ranges oq) = None"
  using assms lk.chain_iff [OF assms(1), of q f] by (auto simp: scan_conflict_None)

lemma placed_free:
  assumes inv: "lock_inv w0 n lt" and r: "resolve_owner (stripes lt (stripe f)) f c ow new lsid = Inr self"
    and p: "place lt f c ow self = (lt2, p)"
    and h: "\<And>q. q \<noteq> p \<Longrightarrow> heap (stripes lt2 (stripe f)) q = heap (stripes lt (stripe f)) q"
    and scan: "scan_conflict (stripes lt (stripe f)) self (self_client (stripes lt (stripe f)) self c)
      (self_owner (stripes lt (stripe f)) self ow) eff off len (lock_chain (stripes lt (stripe f)) f) = None"
    and q: "heap (stripes lt2 (stripe f)) q = Some oq" "q \<noteq> p" "os_fileid oq = f"
  shows "range_conflict eff off len (os_ranges oq) = None"
proof -
  have I: "stripes_inv w0 n (lt_mds_id lt) (stripes lt)" using inv by (simp add: lock_inv_def)
  let ?st = "stripes lt (stripe f)"
  have q': "heap ?st q = Some oq" using q h by simp
  have "\<not> owner_match oq (self_client ?st self c) (self_owner ?st self ow) \<and> Some q \<noteq> self"
  proof (cases self)
    case None
    then show ?thesis
      using resolve_owner_None [OF stripes_invD(1) [OF I] _ q' q(3)] r by (auto simp: self_client_def self_owner_def)
  next
    case (Some p')
    then have pp: "p' = p" using p by (simp add: place_def Let_def)
    have r': "resolve_owner ?st f c ow new lsid = Inr (Some p)" using r Some pp by simp
    obtain os where "heap ?st p = Some os" "os_fileid os = f"
      by (rule resolve_owner_Some [OF stripes_invD(1) [OF I] r'])
    then show ?thesis
      using stripes_invD(4) [OF I q'] q Some pp by (auto simp: owners_apart_def self_client_def self_owner_def)
  qed
  then show ?thesis using scan_free [OF stripes_invD(1) [OF I] scan q' q(3)] by blast
qed

lemma map_prod_Inr_iff: "map_prod id Inr x = (a, b) \<longleftrightarrow> (\<exists>y. x = (a, y) \<and> b = Inr y)"
  by (cases x) auto

lemma lock_acquire_cases:
  assumes a: "lock_acquire lt oom f ty off len0 c ow0 osid new lsid = (lt', res)"
  obtains (fail) e where "res = Inl e"
      "lt' = lt \<or> lt' = set_stripe lt (stripe f) (lock_ensure_file (stripes lt (stripe f)) f)"
    | (grant) self lt2 p sid where "eff_lock_type ty = READ_LT \<or> eff_lock_type ty = WRITE_LT"
      "resolve_owner (stripes lt (stripe f)) f c (take LOCK_OWNER_MAX ow0) new lsid = Inr self"
      "scan_conflict (stripes lt (stripe f)) self (self_client (stripes lt (stripe f)) self c)
         (self_owner (stripes lt (stripe f)) self (take LOCK_OWNER_MAX ow0)) (eff_lock_type ty) off
         (eff_length len0) (lock_chain (stripes lt (stripe f)) f) = None"
      "place lt f c (take LOCK_OWNER_MAX ow0) self = (lt2, p)"
      "lock_grant lt2 (stripe f) p off (eff_length len0) (eff_lock_type ty) osid = (lt', sid)" "res = Inr sid"
  using a unfolding lock_acquire_alt
  by (auto simp: map_prod_Inr_iff split: if_splits sum.splits option.splits prod.splits)

lemma lock_inv_acquire:
  assumes inv: "lock_inv w0 n lt" and n: "n < 2 ^ 56"
    and a: "lock_acquire lt oom f ty off len0 c ow0 osid new lsid = (lt', res)"
  shows "\<exists>m. n \<le> m \<and> m \<le> n + 3 \<and> lock_inv w0 m lt'"
  using a
proof (cases rule: lock_acquire_cases)
  case (fail e)
  then show ?thesis using inv ensure_inv [OF inv] by (intro exI [of _ n]) auto
next
  case (grant self lt2 p sid)
  obtain k os where k: "k \<le> 1" "lock_inv w0 (n + k) lt2" "heap (stripes lt2 (stripe f)) p = Some os" "os_fileid os = f"
    "\<And>q. q \<noteq> p \<Longrightarrow> heap (stripes lt2 (stripe f)) q = heap (stripes lt (stripe f)) q"
    by (rule place_inv [OF inv n grant(2,4)], rule that)
  have "\<exists>m. n + k < m \<and> m \<le> n + k + 2 \<and> lock_inv w0 m lt'"
    using n k(1) placed_free [OF inv grant(2,4) k(5) grant(3)] k(4)
    by (intro lock_inv_grant [OF k(2) _ k(3) eff_length_nz grant(1) _ grant(5)]) auto
  then obtain m where "n + k < m" "m \<le> n + k + 2" "lock_inv w0 m lt'" by blast
  then show ?thesis using k(1) by (intro exI [of _ m]) auto
qed

section \<open>Preservation by the other operations\<close>

lemma lock_inv_stripe:
  assumes "lock_inv w0 n lt" "heap (stripes lt s) p = Some os"
  shows "stateid_stripe (os_other os) = s"
  using assms stripes_invD(2,3) [of w0 n "lt_mds_id lt" "stripes lt" s p os]
  by (auto simp: lock_inv_def owner_ok_def stateid_stripe_lock_other)

lemma lock_inv_wf: "lock_inv w0 n lt \<Longrightarrow> lock_wf (stripes lt s)"
  by (auto simp: lock_inv_def dest: stripes_invD(1))

lemma find_by_sid_inv:
  assumes "lock_inv w0 n lt"
  shows "find_by_sid (stripes lt s) oth = Some p \<longleftrightarrow> (\<exists>os. heap (stripes lt s) p = Some os \<and> os_other os = oth)"
  by (rule lk.by_sid_iff) (rule lock_inv_wf [OF assms])

lemma lock_release_cases:
  assumes "lock_inv w0 n lt" "lock_release lt oom lsid off len0 = (lt', res)"
  obtains (fail) e where "res = Inl e" "lt' = lt"
    | (release) p os where "heap (stripes lt (stateid_stripe (other lsid))) p = Some os" "os_other os = other lsid"
        "find_by_sid (stripes lt (stateid_stripe (other lsid))) (other lsid) = Some p"
        "seqid_check os (seqid lsid) = None" "A_spare \<notin> oom" "res = Inr (bump (os_stateid os))"
proof (cases "find_by_sid (stripes lt (stateid_stripe (other lsid))) (other lsid)")
  case None
  then show ?thesis using fail assms(2) by (auto simp: lock_release_def Let_def split: if_splits)
next
  case (Some p)
  then obtain os where os: "heap (stripes lt (stateid_stripe (other lsid))) p = Some os" "os_other os = other lsid"
    using assms(1) by (auto simp: find_by_sid_inv)
  show ?thesis
  proof (cases "A_spare \<in> oom \<or> seqid_check os (seqid lsid) \<noteq> None")
    case True
    then show ?thesis using fail assms(2) Some os by (auto simp: lock_release_def Let_def split: if_splits)
  next
    case False
    then show ?thesis
      using release os Some lock_release_form(2) [OF Some os(1) refl _ _ assms(2)] by blast
  qed
qed

lemma lock_inv_release:
  assumes inv: "lock_inv w0 n lt" and n: "n < 2 ^ 64" and r: "lock_release lt oom lsid off len0 = (lt', res)"
  shows "\<exists>m. n \<le> m \<and> m \<le> n + 1 \<and> lock_inv w0 m lt'"
  using inv r
proof (cases rule: lock_release_cases)
  case (fail e)
  then show ?thesis using inv by auto
next
  case (release p os)
  let ?s = "stateid_stripe (other lsid)" and ?len = "eff_length len0"
  have I: "stripes_inv w0 n (lt_mds_id lt) (stripes lt)" and seq: "next_seq lt = w0 + of_nat n"
    using inv by (simp_all add: lock_inv_def)
  obtain j where j: "j \<le> 1" "carve_seq off (range_end off ?len) (next_seq lt) (os_ranges os) = w0 + of_nat (n + j)"
    "owner_ok w0 (n + j) (lt_mds_id lt) (released (next_seq lt) off ?len os)"
    "os_ids (released (next_seq lt) off ?len os) \<inter> minted w0 n \<subseteq> os_ids os"
    unfolding seq by (rule carved_ok [OF stripes_invD(3) [OF I release(1)] n])
  have "no_clash (os_ranges (released (next_seq lt) off ?len os)) (os_ranges oq)"
    if q: "heap (stripes lt ?s) q = Some oq" "q \<noteq> p" "os_fileid oq = os_fileid os" for q oq
    using stripes_invD(4) [OF I release(1) q(1)] q by (auto simp: owners_apart_def released_def intro: no_clash_carve)
  then have "stripes_inv w0 (n + j) (lt_mds_id lt)
      ((stripes lt)(?s := lock_update (stripes lt ?s) p (released (next_seq lt) off ?len os)))"
    using j by (intro stripes_inv_update [OF I release(1)]) auto
  then show ?thesis
    using lock_release_form(1) [OF release(3,1) refl release(4,5) r] j
    by (intro exI [of _ "n + j"]) (auto simp: moved_def lock_inv_def)
qed

lemma lock_inv_shrink:
  assumes "lock_inv w0 n lt" "moved lt S (next_seq lt) lt'" "\<And>s. lock_wf (S s)"
    "\<And>s. heap (S s) \<subseteq>\<^sub>m heap (stripes lt s)"
  shows "lock_inv w0 n lt'"
  using assms stripes_inv_shrink [of w0 n "lt_mds_id lt" "stripes lt" S] by (auto simp: lock_inv_def moved_def)

lemma lock_free_cases:
  assumes "lock_inv w0 n lt" "lock_free_stateid lt oth = (lt', res)"
  obtains (bad) "\<And>s p os. heap (stripes lt s) p = Some os \<Longrightarrow> os_other os \<noteq> oth" "lt' = lt" "res = Inl L_BAD_STATEID"
    | (held) p os where "heap (stripes lt (stateid_stripe oth)) p = Some os" "os_other os = oth" "os_ranges os \<noteq> []"
        "lt' = lt" "res = Inl L_LOCKS_HELD"
    | (free) p os where "heap (stripes lt (stateid_stripe oth)) p = Some os" "os_other os = oth" "os_ranges os = []"
        "lt' = set_stripe lt (stateid_stripe oth) (lock_discard (stripes lt (stateid_stripe oth)) p)" "res = Inr ()"
proof (cases "find_by_sid (stripes lt (stateid_stripe oth)) oth")
  case None
  have "os_other os \<noteq> oth" if "heap (stripes lt s) p = Some os" for s p os
    using that None lock_inv_stripe [OF assms(1) that] find_by_sid_inv [OF assms(1), of s oth p] by auto
  then show ?thesis using bad assms(2) None by (auto simp: lock_free_stateid_def Let_def)
next
  case (Some p)
  then obtain os where os: "heap (stripes lt (stateid_stripe oth)) p = Some os" "os_other os = oth"
    using assms(1) by (auto simp: find_by_sid_inv)
  show ?thesis
  proof (cases "os_ranges os = []")
    case True
    then have "lt' = set_stripe lt (stateid_stripe oth) (lock_discard (stripes lt (stateid_stripe oth)) p)" "res = Inr ()"
      using assms(2) Some os(1) by (simp_all add: lock_free_stateid_def Let_def lock_discard_def)
    then show ?thesis by (rule free [OF os True])
  next
    case False
    then have "lt' = lt" "res = Inl L_LOCKS_HELD"
      using assms(2) Some os(1) by (simp_all add: lock_free_stateid_def Let_def)
    then show ?thesis by (rule held [OF os False])
  qed
qed

lemma lock_inv_free:
  assumes inv: "lock_inv w0 n lt" and f: "lock_free_stateid lt oth = (lt', res)"
  shows "lock_inv w0 n lt'"
  using inv f
proof (cases rule: lock_free_cases)
  case (free p os)
  let ?s = "stateid_stripe oth"
  let ?S = "(stripes lt)(?s := lock_discard (stripes lt ?s) p)"
  have "lock_wf (?S s)" for s
    using lk.discard_inv [OF lock_inv_wf [OF inv] free(1)] lock_inv_wf [OF inv, of s] by simp
  moreover have "heap (?S s) \<subseteq>\<^sub>m heap (stripes lt s)" for s
    using lk.discard_objs [OF free(1)] by (simp add: map_le_def)
  moreover have "moved lt ?S (next_seq lt) lt'" using free(4) by (simp add: moved_def)
  ultimately show ?thesis using lock_inv_shrink [OF inv, of ?S lt'] by blast
qed (use inv in simp_all)

lemma heap_filter_le [simp]: "heap_filter Q h \<subseteq>\<^sub>m h"
  by (auto simp: map_le_def dom_def)

lemma stripes_fold:
  assumes "distinct ss"
  shows "foldl (\<lambda>l s. set_stripe l s (F (stripes l s))) lt ss =
    lt\<lparr>stripes := \<lambda>s. if s \<in> set ss then F (stripes lt s) else stripes lt s\<rparr>"
  using assms
proof (induction ss arbitrary: lt)
  case Nil
  then show ?case by simp
next
  case (Cons s ss)
  let ?lt = "set_stripe lt s (F (stripes lt s))"
  have "foldl (\<lambda>l s. set_stripe l s (F (stripes l s))) lt (s # ss) =
      ?lt\<lparr>stripes := \<lambda>t. if t \<in> set ss then F (stripes ?lt t) else stripes ?lt t\<rparr>"
    unfolding foldl_Cons by (rule Cons.IH) (use Cons.prems in simp)
  moreover have "(\<lambda>t. if t \<in> set ss then F (stripes ?lt t) else stripes ?lt t) =
      (\<lambda>t. if t \<in> set (s # ss) then F (stripes lt t) else stripes lt t)"
    using Cons.prems by (intro ext) simp
  moreover have "?lt\<lparr>stripes := G\<rparr> = lt\<lparr>stripes := G\<rparr>" for G by simp
  ultimately show ?case by (simp only:)
qed

lemma stripe_index: "stripe f \<in> set (map of_nat [0..<LOCK_STRIPES])"
proof -
  have "unat (stripe f) < 16"
    using word_mod_less_divisor [of 16 f]
    by (auto simp: stripe_def unsigned_ucast_eq word_less_nat_alt intro: le_less_trans [OF take_bit_nat_less_eq_self])
  then have "unat (stripe f) \<in> set [0..<16]" by simp
  then have "of_nat (unat (stripe f)) \<in> set (map (of_nat :: nat \<Rightarrow> u32) [0..<16])" unfolding set_map by (rule imageI)
  then show ?thesis by simp
qed

lemma stripe_indices_distinct: "distinct (map (of_nat :: nat \<Rightarrow> u32) [0..<LOCK_STRIPES])"
  by code_simp

lemma lock_release_all_moved:
  "moved lt (\<lambda>s. if s \<in> set (map of_nat [0..<LOCK_STRIPES]) then purge_stripe (\<lambda>os. os_clientid os = c) (stripes lt s)
      else stripes lt s) (next_seq lt) (lock_release_all_for_client lt c)"
  unfolding lock_release_all_for_client_def
    stripes_fold [of _ "purge_stripe (\<lambda>os. os_clientid os = c)", OF stripe_indices_distinct]
  by (simp add: moved_def)

lemma lock_release_all_heap:
  assumes "lock_inv w0 n lt"
  shows "lock_wf (stripes (lock_release_all_for_client lt c) s)"
    and "heap (stripes (lock_release_all_for_client lt c) s) = heap_filter (\<lambda>os. os_clientid os \<noteq> c) (heap (stripes lt s))"
proof -
  note wf = lock_inv_wf [OF assms, of s]
  have st: "stripes (lock_release_all_for_client lt c) s =
      (if s \<in> set (map of_nat [0..<LOCK_STRIPES]) then purge_stripe (\<lambda>os. os_clientid os = c) (stripes lt s) else stripes lt s)"
    using lock_release_all_moved [of lt c] by (simp only: moved_def)
  show "lock_wf (stripes (lock_release_all_for_client lt c) s)"
    unfolding st using wf purge_stripe_heap(1) [OF wf] by simp
  have "heap (stripes lt s) = Map.empty" if "s \<notin> set (map of_nat [0..<LOCK_STRIPES])"
  proof (rule ext, rule ccontr)
    fix p
    assume "heap (stripes lt s) p \<noteq> None"
    then obtain os where "heap (stripes lt s) p = Some os" by blast
    then have "stripe (os_fileid os) = s" using assms by (auto simp: lock_inv_def dest: stripes_invD(2))
    then show False using that stripe_index [of "os_fileid os"] by simp
  qed
  then show "heap (stripes (lock_release_all_for_client lt c) s) = heap_filter (\<lambda>os. os_clientid os \<noteq> c) (heap (stripes lt s))"
    unfolding st using purge_stripe_heap(2) [OF wf, of "\<lambda>os. os_clientid os = c"] by (auto simp: heap_filter_def)
qed

lemma lock_inv_release_all: "lock_inv w0 n lt \<Longrightarrow> lock_inv w0 n (lock_release_all_for_client lt c)"
proof -
  assume inv: "lock_inv w0 n lt"
  have "moved lt (stripes (lock_release_all_for_client lt c)) (next_seq lt) (lock_release_all_for_client lt c)"
    using lock_release_all_moved [of lt c] unfolding moved_def by blast
  then show ?thesis
    by (rule lock_inv_shrink [OF inv]) (simp_all only: lock_release_all_heap [OF inv] heap_filter_le)
qed

lemma lock_calls_cat [simp]:
  "stripes (foldl (\<lambda>l c. lock_call l (K c)) lt cs) = stripes lt"
  "next_seq (foldl (\<lambda>l c. lock_call l (K c)) lt cs) = next_seq lt"
  "lt_mds_id (foldl (\<lambda>l c. lock_call l (K c)) lt cs) = lt_mds_id lt"
  "lt_cat (foldl (\<lambda>l c. lock_call l (K c)) lt cs) = lt_cat lt"
  "lt_boot_epoch (foldl (\<lambda>l c. lock_call l (K c)) lt cs) = lt_boot_epoch lt"
  by (induction cs arbitrary: lt) simp_all

lemma lock_revoke_remove_heap:
  assumes "lock_wf (stripes lt (stripe f))" "lock_revoke_remove lt f gone = (lt', k)"
  shows "\<exists>st. moved lt ((stripes lt)(stripe f := st)) (next_seq lt) lt' \<and> lock_wf st \<and>
    heap st = heap_filter (\<lambda>os. \<not> (os_clientid os \<in> set gone \<and> os_fileid os = f)) (heap (stripes lt (stripe f)))"
proof -
  let ?st = "stripes lt (stripe f)"
  obtain st m where P: "purge_chain (\<lambda>os. os_clientid os \<in> set gone) (fhash f) f (lock_chain ?st f) ?st = (st, m)"
    by (cases "purge_chain (\<lambda>os. os_clientid os \<in> set gone) (fhash f) f (lock_chain ?st f) ?st")
  have "lock_wf st \<and> heap st = heap_filter (\<lambda>os. \<not> (os_clientid os \<in> set gone \<and> os_fileid os = f)) (heap ?st)"
    using purge_chain_heap [OF assms(1) lk.chain_distinct [OF assms(1), of f] lk.chain_iff [OF assms(1), of _ f],
        of "\<lambda>os. os_clientid os \<in> set gone"] P by simp
  moreover have "moved lt ((stripes lt)(stripe f := st)) (next_seq lt) lt'"
  proof (cases "m > 0")
    case True
    then have "lt' = foldl (\<lambda>l c. lock_call l (LockReapClient c)) (set_stripe lt (stripe f) st) gone"
      using assms(2) by (simp add: lock_revoke_remove_def Let_def find_file_chain P)
    then show ?thesis by (simp add: moved_def)
  next
    case False
    then have "lt' = set_stripe lt (stripe f) st"
      using assms(2) by (simp add: lock_revoke_remove_def Let_def find_file_chain P)
    then show ?thesis by (simp add: moved_def)
  qed
  ultimately show ?thesis by blast
qed

lemma lock_inv_revoke_remove:
  assumes inv: "lock_inv w0 n lt" and r: "lock_revoke_remove lt f gone = (lt', k)"
  shows "lock_inv w0 n lt'"
proof -
  obtain st where st: "moved lt ((stripes lt)(stripe f := st)) (next_seq lt) lt'" "lock_wf st"
    "heap st = heap_filter (\<lambda>os. \<not> (os_clientid os \<in> set gone \<and> os_fileid os = f)) (heap (stripes lt (stripe f)))"
    using lock_revoke_remove_heap [OF lock_inv_wf [OF inv] r] by blast
  show ?thesis
    using st(2,3) lock_inv_wf [OF inv] by (intro lock_inv_shrink [OF inv st(1)]) simp_all
qed

lemma lock_inv_init: "lock_inv (if ns = 0 then 1 else ns) 0 (lock_table_init mds ns)"
  by (auto simp: lock_inv_def lock_table_init_def stripes_inv_def idx_wf_empty) (simp_all add: idx_empty_def)

end
