(* ===== verification/Lock_Spec.thy ===== *)
theory Lock_Spec
  imports Lock_Inv
begin

text \<open>
  The contract of the lock manager: a finite map from (file, client, lock owner, byte) to the type
  of the lock held there, with the POSIX operations on it. The lock table refines it.
\<close>

section \<open>Abstract lock map\<close>

type_synonym plock = "u64 \<Rightarrow> u64 \<Rightarrow> bytes \<Rightarrow> u64 \<rightharpoonup> u32"

text \<open>
  The bytes a request covers. Length 0 and length \<open>UINT64_MAX\<close> reach to the end of the file; the code
  keeps exclusive ends in 64 bits, so the last representable byte is never covered.
\<close>

definition region :: "u64 \<Rightarrow> u64 \<Rightarrow> u64 set" where
  "region off len0 = {b. off \<le> b \<and> b \<noteq> UINT64_MAX \<and>
     (len0 = 0 \<or> len0 = UINT64_MAX \<or> unat b < unat off + unat len0)}"

definition posix_lock :: "plock \<Rightarrow> u64 \<Rightarrow> u64 \<Rightarrow> bytes \<Rightarrow> u64 set \<Rightarrow> u32 \<Rightarrow> plock" where
  "posix_lock m f c ow B t = (\<lambda>f' c' ow' b. if f' = f \<and> c' = c \<and> ow' = ow \<and> b \<in> B then Some t else m f' c' ow' b)"

definition posix_unlock :: "plock \<Rightarrow> u64 \<Rightarrow> u64 \<Rightarrow> bytes \<Rightarrow> u64 set \<Rightarrow> plock" where
  "posix_unlock m f c ow B = (\<lambda>f' c' ow' b. if f' = f \<and> c' = c \<and> ow' = ow \<and> b \<in> B then None else m f' c' ow' b)"

definition posix_conflict :: "plock \<Rightarrow> u64 \<Rightarrow> u64 \<Rightarrow> bytes \<Rightarrow> u64 set \<Rightarrow> u32 \<Rightarrow> bool" where
  "posix_conflict m f c ow B t \<longleftrightarrow>
     (\<exists>c' ow' b t'. (c', ow') \<noteq> (c, ow) \<and> b \<in> B \<and> m f c' ow' b = Some t' \<and> \<not> (t = READ_LT \<and> t' = READ_LT))"

definition posix_drop_client :: "plock \<Rightarrow> u64 \<Rightarrow> plock" where
  "posix_drop_client m c = (\<lambda>f c' ow b. if c' = c then None else m f c' ow b)"

text \<open>The abstraction of a lock table.\<close>

definition stripe_locks :: "lock_stripe \<Rightarrow> plock" where
  "stripe_locks st f c ow b =
     (case find_owner st (lock_chain st f) c ow of Some p \<Rightarrow> held (os_ranges (deref st p)) b | None \<Rightarrow> None)"

definition locks_of :: "lock_table \<Rightarrow> plock" where
  "locks_of lt f = stripe_locks (stripes lt (stripe f)) f"

section \<open>Regions and ranges\<close>

lemma region_range_end: "b \<in> region off len0 \<longleftrightarrow> off \<le> b \<and> b < range_end off (eff_length len0)"
proof (cases "len0 = 0 \<or> len0 = UINT64_MAX")
  case True
  then show ?thesis by (auto simp: region_def range_end_def eff_length_def)
next
  case False
  show ?thesis
  proof (cases "off + len0 < off")
    case True
    have "unat off + unat len0 \<ge> 2 ^ 64"
      using True no_olen_add_nat [of off len0] by (simp flip: not_less)
    then have "unat b < unat off + unat len0" using unsigned_less [of b, where 'a = nat] by simp
    then show ?thesis using True False by (auto simp: region_def range_end_def eff_length_def)
  next
    case no: False
    then have "unat (off + len0) = unat off + unat len0"
      using unat_plus_simple [of off len0] by (simp add: not_less)
    then have "b < off + len0 \<longleftrightarrow> unat b < unat off + unat len0" by (simp add: word_less_nat_alt)
    then show ?thesis using no False by (auto simp: region_def range_end_def eff_length_def)
  qed
qed

lemma overlap_byte:
  assumes "len \<noteq> 0" "lr_length r \<noteq> 0"
  shows "ranges_overlap (lr_offset r) (lr_length r) off len \<longleftrightarrow> (\<exists>b. in_range b r \<and> off \<le> b \<and> b < range_end off len)"
proof
  assume o: "ranges_overlap (lr_offset r) (lr_length r) off len"
  then have lt: "lr_offset r < range_end off len" "off < lr_end r"
    by (simp_all add: ranges_overlap_def lr_end_def)
  have ne: "lr_offset r \<noteq> UINT64_MAX" "off \<noteq> UINT64_MAX"
    using lt by (metis word_order.extremum_strict)+
  have "lr_offset r < lr_end r" "off < range_end off len"
    using range_end_gt [OF assms(2) ne(1)] range_end_gt [OF assms(1) ne(2)] by (simp_all add: lr_end_def)
  then have "in_range (max off (lr_offset r)) r \<and> off \<le> max off (lr_offset r) \<and> max off (lr_offset r) < range_end off len"
    using lt by (auto simp: in_range_def max_def)
  then show "\<exists>b. in_range b r \<and> off \<le> b \<and> b < range_end off len" by blast
next
  assume "\<exists>b. in_range b r \<and> off \<le> b \<and> b < range_end off len"
  then show "ranges_overlap (lr_offset r) (lr_length r) off len"
    by (auto simp: ranges_overlap_def in_range_def lr_end_def)
qed

lemma held_iff:
  "ranges_ok rs \<Longrightarrow> held rs b = Some t \<longleftrightarrow> (\<exists>r \<in> set rs. in_range b r \<and> lr_type r = t)"
proof (induction rs)
  case (Cons r rs)
  then show ?case using apart_disjoint [of r _ b] by (auto simp: ranges_ok_Cons)
qed simp

section \<open>The abstraction in terms of the heap\<close>

lemma stripe_locks_Some:
  assumes I: "stripes_inv w0 n mds S" and p: "heap (S s) p = Some os" and f: "os_fileid os = f"
    and m: "owner_match os c ow"
  shows "stripe_locks (S s) f c ow b = held (os_ranges os) b"
proof -
  have "chain_find (heap (S s)) (\<lambda>os. owner_match os c ow) (lock_chain (S s) f) = Some p"
  proof (rule chain_find_unique [of p _ _ os])
    show "p \<in> set (lock_chain (S s) f)" using lk.chain_iff [OF stripes_invD(1) [OF I]] p f by blast
    show "q = p" if "q \<in> set (lock_chain (S s) f)" "heap (S s) q = Some oq" "owner_match oq c ow" for q oq
    proof (rule ccontr)
      assume "q \<noteq> p"
      moreover have "os_fileid oq = f" using that(1,2) lk.chain_iff [OF stripes_invD(1) [OF I], of q s f] by auto
      ultimately show False
        using stripes_invD(4) [OF I that(2) p] that(3) m f by (auto simp: owners_apart_def owner_match_def)
    qed
  qed (use p m in auto)
  then show ?thesis using p by (simp add: stripe_locks_def find_owner_def)
qed

lemma stripe_locks_None:
  assumes wf: "lock_wf st" and no: "\<And>p os. heap st p = Some os \<Longrightarrow> os_fileid os = f \<Longrightarrow> \<not> owner_match os c ow"
  shows "stripe_locks st f c ow b = None"
proof -
  have "chain_find (heap st) (\<lambda>os. owner_match os c ow) (lock_chain st f) = None"
    using lk.chain_iff [OF wf] no by (auto simp: chain_find_None_iff)
  then show ?thesis by (simp add: stripe_locks_def find_owner_def)
qed

lemma stripe_locks_iff:
  assumes I: "stripes_inv w0 n mds S"
  shows "stripe_locks (S s) f c ow b = Some t \<longleftrightarrow>
    (\<exists>p os. heap (S s) p = Some os \<and> os_fileid os = f \<and> owner_match os c ow \<and> held (os_ranges os) b = Some t)"
  (is "_ \<longleftrightarrow> ?R")
proof
  assume t: "stripe_locks (S s) f c ow b = Some t"
  then have "\<not> (\<forall>p os. heap (S s) p = Some os \<longrightarrow> os_fileid os = f \<longrightarrow> \<not> owner_match os c ow)"
    using stripe_locks_None [OF stripes_invD(1) [OF I], of s f c ow b] by force
  then obtain p os where p: "heap (S s) p = Some os" "os_fileid os = f" "owner_match os c ow" by blast
  then show ?R using t stripe_locks_Some [OF I p, of b] by auto
next
  assume ?R
  then obtain p os where p: "heap (S s) p = Some os" "os_fileid os = f" "owner_match os c ow" "held (os_ranges os) b = Some t"
    by blast
  then show "stripe_locks (S s) f c ow b = Some t" using stripe_locks_Some [OF I p(1-3)] by simp
qed

lemma locks_of_iff:
  assumes "lock_inv w0 n lt"
  shows "locks_of lt f c ow b = Some t \<longleftrightarrow>
    (\<exists>s p os. heap (stripes lt s) p = Some os \<and> os_fileid os = f \<and> owner_match os c ow \<and> held (os_ranges os) b = Some t)"
proof -
  have I: "stripes_inv w0 n (lt_mds_id lt) (stripes lt)" using assms by (simp add: lock_inv_def)
  show ?thesis unfolding locks_of_def stripe_locks_iff [OF I] using stripes_invD(2) [OF I] by blast
qed

lemma locks_eqI:
  assumes "\<And>f c ow b t. m f c ow b = Some t \<longleftrightarrow> m' f c ow b = Some t"
  shows "m = (m' :: plock)"
proof (intro ext)
  fix f c ow b
  show "m f c ow b = m' f c ow b"
    using assms [of f c ow b "the (m f c ow b)"] assms [of f c ow b "the (m' f c ow b)"]
    by (cases "m f c ow b"; cases "m' f c ow b") simp_all
qed

lemma locks_of_same:
  assumes "lock_inv w0 n lt" "lock_inv w0 m lt'" "\<And>s. heap (stripes lt' s) = heap (stripes lt s)"
  shows "locks_of lt' = locks_of lt"
  by (rule locks_eqI) (simp add: locks_of_iff [OF assms(1)] locks_of_iff [OF assms(2)] assms(3))

lemma locks_of_update:
  assumes inv: "lock_inv w0 n lt" and inv': "lock_inv w0 m lt'" and p: "heap (stripes lt s) p = Some os"
    and S: "stripes lt' = (stripes lt)(s := lock_update (stripes lt s) p os')"
    and same: "os_fileid os' = os_fileid os" "os_clientid os' = os_clientid os" "os_owner os' = os_owner os"
  shows "locks_of lt' f c ow b =
    (if f = os_fileid os \<and> c = os_clientid os \<and> ow = os_owner os then held (os_ranges os') b else locks_of lt f c ow b)"
proof -
  have I: "stripes_inv w0 n (lt_mds_id lt) (stripes lt)" and I': "stripes_inv w0 m (lt_mds_id lt') (stripes lt')"
    using inv inv' by (simp_all add: lock_inv_def)
  have s: "stripe (os_fileid os) = s" by (rule stripes_invD(2) [OF I p])
  have p': "heap (stripes lt' s) p = Some os'" by (simp add: S lk.update_objs)
  show ?thesis
  proof (cases "f = os_fileid os \<and> c = os_clientid os \<and> ow = os_owner os")
    case True
    then show ?thesis
      using stripe_locks_Some [OF I' p', of f c ow b] same s by (simp add: locks_of_def owner_match_def)
  next
    case False
    have "(\<exists>t q oq. heap (stripes lt' t) q = Some oq \<and> os_fileid oq = f \<and> owner_match oq c ow \<and> held (os_ranges oq) b = Some v) \<longleftrightarrow>
        (\<exists>t q oq. heap (stripes lt t) q = Some oq \<and> os_fileid oq = f \<and> owner_match oq c ow \<and> held (os_ranges oq) b = Some v)" for v
    proof -
      have "heap (stripes lt' t) q = Some oq \<and> os_fileid oq = f \<and> owner_match oq c ow \<longleftrightarrow>
          heap (stripes lt t) q = Some oq \<and> os_fileid oq = f \<and> owner_match oq c ow" for t q oq
        using False p same by (auto simp: S lk.update_objs owner_match_def)
      then show ?thesis by metis
    qed
    then have "locks_of lt' f c ow b = Some v \<longleftrightarrow> locks_of lt f c ow b = Some v" for v
      unfolding locks_of_iff [OF inv] locks_of_iff [OF inv'] .
    then show ?thesis using False by (metis option.exhaust)
  qed
qed

section \<open>LOCK and LOCKU refine the lock map\<close>

lemma held_released:
  assumes "ranges_ok (os_ranges os)"
  shows "held (os_ranges (released seq off (eff_length len0) os)) b = (if b \<in> region off len0 then None else held (os_ranges os) b)"
  using carve_held [OF assms range_end_ge] by (simp add: released_def region_range_end)

lemma held_granted:
  assumes "ranges_ok (os_ranges os)"
  shows "held (os_ranges (granted seq off (eff_length len0) eff os)) b =
    (if b \<in> region off len0 then Some eff else held (os_ranges os) b)"
  using carve_held [OF assms range_end_ge] by (simp add: granted_def region_range_end in_range_def lr_end_def)

lemma place_heap:
  assumes "place lt f c ow self = (lt2, p)"
  shows "heap (stripes lt2 s) = (if s = stripe f \<and> self = None
    then (heap (stripes lt s))(p \<mapsto> new_owner lt f c ow) else heap (stripes lt s))"
  using assms by (auto simp: place_def Let_def lk.insert_objs split: option.splits)

lemma locks_of_place:
  assumes inv: "lock_inv w0 n lt" and inv2: "lock_inv w0 m lt2" and p: "place lt f c ow self = (lt2, p)"
  shows "locks_of lt2 = locks_of lt"
proof (rule locks_eqI)
  fix g d w b t
  have "self = None \<Longrightarrow> heap (stripes lt (stripe f)) p = None"
    using p lk.new_addr [OF lock_inv_wf [OF inv]] by (auto simp: place_def Let_def)
  then have "heap (stripes lt2 s) q = Some os \<and> os_fileid os = g \<and> owner_match os d w \<and> held (os_ranges os) b = Some t \<longleftrightarrow>
      heap (stripes lt s) q = Some os \<and> os_fileid os = g \<and> owner_match os d w \<and> held (os_ranges os) b = Some t" for s q os
    by (auto simp: place_heap [OF p] new_owner_def split: if_splits)
  then show "locks_of lt2 g d w b = Some t \<longleftrightarrow> locks_of lt g d w b = Some t"
    unfolding locks_of_iff [OF inv] locks_of_iff [OF inv2] by metis
qed

lemma scan_conflict_posix:
  assumes inv: "lock_inv w0 n lt"
    and self: "\<And>p os. self = Some p \<Longrightarrow> heap (stripes lt (stripe f)) p = Some os \<Longrightarrow> owner_match os c ow"
  shows "scan_conflict (stripes lt (stripe f)) self c ow eff off (eff_length len0) (lock_chain (stripes lt (stripe f)) f) = None
    \<longleftrightarrow> \<not> posix_conflict (locks_of lt) f c ow (region off len0) eff"
proof -
  let ?st = "stripes lt (stripe f)" and ?len = "eff_length len0"
  have I: "stripes_inv w0 n (lt_mds_id lt) (stripes lt)" using inv by (simp add: lock_inv_def)
  have ok: "ranges_ok (os_ranges os)" if "heap ?st p = Some os" for p os
    using stripes_invD(3) [OF I that] by (simp add: owner_ok_def)
  have rc: "range_conflict eff off ?len (os_ranges os) \<noteq> None \<longleftrightarrow>
      (\<exists>b \<in> region off len0. \<exists>t. held (os_ranges os) b = Some t \<and> \<not> (eff = READ_LT \<and> t = READ_LT))"
    if p: "heap ?st p = Some os" for p os
  proof -
    have ov: "ranges_overlap (lr_offset r) (lr_length r) off ?len \<longleftrightarrow> (\<exists>b \<in> region off len0. in_range b r)"
      if "r \<in> set (os_ranges os)" for r
      using overlap_byte [of ?len r off] that ok [OF p] by (auto simp: ranges_ok_def region_range_end)
    have "range_conflict eff off ?len (os_ranges os) \<noteq> None \<longleftrightarrow>
        (\<exists>r \<in> set (os_ranges os). (\<exists>b \<in> region off len0. in_range b r) \<and> \<not> (eff = READ_LT \<and> lr_type r = READ_LT))"
      using ov by (auto simp: range_conflict_None)
    then show ?thesis unfolding held_iff [OF ok [OF p]] by blast
  qed
  have step: "p \<in> set (lock_chain ?st f) \<and> Some p \<noteq> self \<and> \<not> owner_match (deref ?st p) c ow \<and>
        range_conflict eff off ?len (os_ranges (deref ?st p)) \<noteq> None \<longleftrightarrow>
      (\<exists>os. heap ?st p = Some os \<and> os_fileid os = f \<and> \<not> owner_match os c ow \<and>
        (\<exists>b \<in> region off len0. \<exists>t. held (os_ranges os) b = Some t \<and> \<not> (eff = READ_LT \<and> t = READ_LT)))" for p
  proof (cases "heap ?st p")
    case None
    then show ?thesis using lk.chain_iff [OF lock_inv_wf [OF inv], of p "stripe f" f] by simp
  next
    case (Some os)
    then have "p \<in> set (lock_chain ?st f) \<longleftrightarrow> os_fileid os = f"
      using lk.chain_iff [OF lock_inv_wf [OF inv], of p "stripe f" f] by simp
    moreover have "\<not> owner_match os c ow \<Longrightarrow> Some p \<noteq> self" using self [of p os] Some by auto
    ultimately show ?thesis unfolding Some option.sel rc [OF Some] by blast
  qed
  have "scan_conflict ?st self c ow eff off ?len (lock_chain ?st f) \<noteq> None \<longleftrightarrow>
      (\<exists>p. p \<in> set (lock_chain ?st f) \<and> Some p \<noteq> self \<and> \<not> owner_match (deref ?st p) c ow \<and>
        range_conflict eff off ?len (os_ranges (deref ?st p)) \<noteq> None)"
    by (simp only: scan_conflict_None Ball_def not_all not_imp)
  also have "\<dots> \<longleftrightarrow> posix_conflict (locks_of lt) f c ow (region off len0) eff" (is "?L \<longleftrightarrow> ?R")
  proof
    assume ?L
    then obtain p os b t where h: "heap ?st p = Some os" "os_fileid os = f" "\<not> owner_match os c ow"
      "b \<in> region off len0" "held (os_ranges os) b = Some t" "\<not> (eff = READ_LT \<and> t = READ_LT)"
      unfolding step by blast
    then have "locks_of lt f (os_clientid os) (os_owner os) b = Some t"
      unfolding locks_of_def stripe_locks_iff [OF I] by (auto simp: owner_match_def)
    moreover have "(os_clientid os, os_owner os) \<noteq> (c, ow)" using h(3) by (simp add: owner_match_def)
    ultimately show ?R unfolding posix_conflict_def using h(4,6) by blast
  next
    assume ?R
    then obtain c' ow' b t where h: "(c', ow') \<noteq> (c, ow)" "b \<in> region off len0" "locks_of lt f c' ow' b = Some t"
      "\<not> (eff = READ_LT \<and> t = READ_LT)"
      unfolding posix_conflict_def by blast
    then obtain p os where "heap ?st p = Some os" "os_fileid os = f" "owner_match os c' ow'" "held (os_ranges os) b = Some t"
      unfolding locks_of_def stripe_locks_iff [OF I] by blast
    moreover from this(3) h(1) have "\<not> owner_match os c ow" by (auto simp: owner_match_def)
    ultimately show ?L unfolding step using h(2,4) by blast
  qed
  finally show ?thesis by blast
qed

lemma resolve_self_match:
  assumes "heap st p = Some os" "self = Some p"
  shows "owner_match os (self_client st self c) (self_owner st self ow)"
  using assms by (simp add: owner_match_def self_client_def self_owner_def)

lemma acquire_grant_locks:
  assumes inv: "lock_inv w0 n lt" and n: "n < 2 ^ 56"
    and r: "resolve_owner (stripes lt (stripe f)) f c ow new lsid = Inr self"
    and p: "place lt f c ow self = (lt2, p)"
    and g: "lock_grant lt2 (stripe f) p off (eff_length len0) eff osid = (lt', sid)"
    and inv': "lock_inv w0 m lt'"
  shows "locks_of lt' = posix_lock (locks_of lt) f (self_client (stripes lt (stripe f)) self c)
    (self_owner (stripes lt (stripe f)) self ow) (region off len0) eff"
proof -
  let ?st = "stripes lt (stripe f)"
  obtain k os where k: "lock_inv w0 (n + k) lt2" "heap (stripes lt2 (stripe f)) p = Some os" "os_fileid os = f"
    "os_clientid os = self_client ?st self c" "os_owner os = self_owner ?st self ow"
    by (rule place_inv [OF inv n r p], rule that)
  have I2: "stripes_inv w0 (n + k) (lt_mds_id lt2) (stripes lt2)" using k(1) by (simp add: lock_inv_def)
  have ok: "ranges_ok (os_ranges os)" using stripes_invD(3) [OF I2 k(2)] by (simp add: owner_ok_def)
  have old: "locks_of lt2 f (os_clientid os) (os_owner os) b = held (os_ranges os) b" for b
    using stripe_locks_Some [OF I2 k(2), of f "os_clientid os" "os_owner os" b] k(3)
    by (simp add: locks_of_def owner_match_def)
  have S: "stripes lt' = (stripes lt2)(stripe f := lock_update (stripes lt2 (stripe f)) p (granted (next_seq lt2) off (eff_length len0) eff os))"
    using lock_grant_form(1) [OF k(2) g] by (simp add: moved_def)
  show ?thesis
    using locks_of_update [OF k(1) inv' k(2) S] old k(3-5) locks_of_place [OF inv k(1) p]
    by (intro ext) (auto simp: posix_lock_def held_granted [OF ok])
qed

end
