(* ===== verification/Lock_Theorems.thy ===== *)
theory Lock_Theorems
  imports Lock_Spec
begin

text \<open>
  The properties of the byte-range lock manager: refinement of the abstract lock map by LOCK, LOCKU
  and LOCKT, mutual exclusion over all runs of the operations, stateids, cleanup and errors.
\<close>

section \<open>Runs\<close>

text \<open>
  One step is one critical section on the table. The courtesy revocation's third phase takes any
  list of clientids, because the table may have changed since the first phase looked at it.
\<close>

datatype lock_op =
    OpLock "lock_alloc set" u64 u32 u64 u64 u64 bytes nfs4_stateid bool nfs4_stateid
  | OpUnlock "lock_alloc set" nfs4_stateid u64 u64
  | OpFree bytes
  | OpReleaseAll u64
  | OpRevoke u64 "u64 list"

fun lock_step :: "lock_table \<Rightarrow> lock_op \<Rightarrow> lock_table" where
  "lock_step lt (OpLock oom f ty off len c ow osid new lsid) = fst (lock_acquire lt oom f ty off len c ow osid new lsid)"
| "lock_step lt (OpUnlock oom lsid off len) = fst (lock_release lt oom lsid off len)"
| "lock_step lt (OpFree oth) = fst (lock_free_stateid lt oth)"
| "lock_step lt (OpReleaseAll c) = lock_release_all_for_client lt c"
| "lock_step lt (OpRevoke f gone) = fst (lock_revoke_remove lt f gone)"

definition lock_run :: "lock_table \<Rightarrow> lock_op list \<Rightarrow> lock_table" where
  "lock_run lt ops = foldl lock_step lt ops"

lemma lock_inv_step:
  assumes inv: "lock_inv w0 n lt" and n: "n < 2 ^ 56"
  shows "\<exists>m. n \<le> m \<and> m \<le> n + 3 \<and> lock_inv w0 m (lock_step lt op)"
proof (cases op)
  case (OpLock oom f ty off len c ow osid new lsid)
  then show ?thesis
    using lock_inv_acquire [OF inv n, of oom f ty off len c ow osid new lsid] by (metis lock_step.simps(1) prod.collapse)
next
  case (OpUnlock oom lsid off len)
  have n': "n < 2 ^ 64" using n by simp
  obtain m where "n \<le> m" "m \<le> n + 1" "lock_inv w0 m (lock_step lt op)"
    using lock_inv_release [OF inv n', of oom lsid off len] OpUnlock by (metis lock_step.simps(2) prod.collapse)
  then show ?thesis by (intro exI [of _ m]) simp
next
  case (OpFree oth)
  then show ?thesis
    using lock_inv_free [OF inv, of oth] by (intro exI [of _ n]) (metis lock_step.simps(3) prod.collapse le_add1 order_refl)
next
  case (OpReleaseAll c)
  then show ?thesis using lock_inv_release_all [OF inv] by (intro exI [of _ n]) simp
next
  case (OpRevoke f gone)
  then show ?thesis
    using lock_inv_revoke_remove [OF inv, of f gone] by (intro exI [of _ n]) (metis lock_step.simps(5) prod.collapse le_add1 order_refl)
qed

lemma lock_inv_run_from:
  assumes "lock_inv w0 n lt" "n + 3 * length ops < 2 ^ 56"
  shows "\<exists>m. m \<le> n + 3 * length ops \<and> lock_inv w0 m (lock_run lt ops)"
  using assms
proof (induction ops arbitrary: lt n)
  case Nil
  then show ?case by (auto simp: lock_run_def)
next
  case (Cons op ops)
  obtain m where m: "n \<le> m" "m \<le> n + 3" "lock_inv w0 m (lock_step lt op)"
    using lock_inv_step [OF Cons.prems(1)] Cons.prems(2) by force
  then obtain k where "k \<le> m + 3 * length ops" "lock_inv w0 k (lock_run (lock_step lt op) ops)"
    using Cons.IH [OF m(3)] Cons.prems(2) by force
  then show ?case using m(2) by (intro exI [of _ k]) (simp add: lock_run_def)
qed

text \<open>A concrete table: client 3 holds a write lock on bytes 0 to 9 of file 7.\<close>

definition w_sid :: nfs4_stateid where
  "w_sid = \<lparr>seqid = 0, other = replicate 12 0\<rparr>"

definition w_ops :: "lock_op list" where
  "w_ops = [OpLock {} 7 2 0 10 3 [1] w_sid True w_sid]"

definition w_table :: lock_table where
  "w_table = lock_run (lock_table_init 1 5) w_ops"

lemma w_table_inv: obtains n where "lock_inv 5 n w_table" "n < 2 ^ 56"
  using lock_inv_run_from [OF lock_inv_init, of w_ops 5 1] that by (auto simp: w_table_def w_ops_def)

section \<open>Properties\<close>

text \<open>
  C1. LOCK refines the abstract lock map. When the requesting owner has been resolved and no
  allocation fails, the request is denied exactly when another owner holds a conflicting lock on a
  byte of the requested region, and then no lock changes; otherwise it is granted, and afterwards
  the owner holds exactly the requested type on the region and every other lock is as before.
\<close>

theorem lock_acquire_refines:
  assumes "lock_inv w0 n lt" "n < 2 ^ 56" "eff_lock_type ty = READ_LT \<or> eff_lock_type ty = WRITE_LT"
    and "resolve_owner (stripes lt (stripe f)) f c (take LOCK_OWNER_MAX ow0) new lsid = Inr self"
    and "cid = self_client (stripes lt (stripe f)) self c"
    and "own = self_owner (stripes lt (stripe f)) self (take LOCK_OWNER_MAX ow0)"
    and "lock_acquire lt {} f ty off len0 c ow0 osid new lsid = (lt', res)"
  shows "if posix_conflict (locks_of lt) f cid own (region off len0) (eff_lock_type ty)
    then (\<exists>cf. res = Inl (L_DENIED cf)) \<and> locks_of lt' = locks_of lt
    else (\<exists>sid. res = Inr sid) \<and> locks_of lt' = posix_lock (locks_of lt) f cid own (region off len0) (eff_lock_type ty)"
proof -
  let ?st = "stripes lt (stripe f)" and ?ow = "take LOCK_OWNER_MAX ow0"
  have self: "owner_match os cid own" if "self = Some p" "heap ?st p = Some os" for p os
    using resolve_self_match [OF that(2,1)] assms(5,6) by simp
  have scan: "scan_conflict ?st self cid own (eff_lock_type ty) off (eff_length len0) (lock_chain ?st f) = None \<longleftrightarrow>
      \<not> posix_conflict (locks_of lt) f cid own (region off len0) (eff_lock_type ty)"
    by (rule scan_conflict_posix [OF assms(1) self])
  note alt = assms(7) [unfolded lock_acquire_alt]
  obtain m where inv': "lock_inv w0 m lt'" using lock_inv_acquire [OF assms(1,2,7)] by blast
  show ?thesis
  proof (cases "posix_conflict (locks_of lt) f cid own (region off len0) (eff_lock_type ty)")
    case True
    then obtain cos cr where "scan_conflict ?st self cid own (eff_lock_type ty) off (eff_length len0) (lock_chain ?st f) = Some (cos, cr)"
      using scan by fastforce
    then have "res = Inl (L_DENIED (conflict_of cos cr))" "lt' = set_stripe lt (stripe f) (lock_ensure_file ?st f)"
      using alt assms(3-6) by auto
    moreover from this(2) have "locks_of lt' = locks_of lt"
      using ensure_inv [OF assms(1)] by (intro locks_of_same [OF assms(1) inv']) simp
    ultimately show ?thesis using True by simp
  next
    case False
    then have none: "scan_conflict ?st self cid own (eff_lock_type ty) off (eff_length len0) (lock_chain ?st f) = None"
      using scan by blast
    obtain lt2 p where p: "place lt f c ?ow self = (lt2, p)" by (cases "place lt f c ?ow self")
    obtain sid where g: "lock_grant lt2 (stripe f) p off (eff_length len0) (eff_lock_type ty) osid = (lt', sid)" "res = Inr sid"
      using alt assms(3-6) none p by (auto simp: map_prod_Inr_iff)
    show ?thesis
      using acquire_grant_locks [OF assms(1,2,4) p g(1) inv'] g(2) False assms(5,6) by auto
  qed
qed

theorem lock_acquire_refines_witness:
  "\<exists>lt' sid. lock_acquire w_table {} 7 4 10 10 5 [9] w_sid True w_sid = (lt', Inr sid) \<and>
     locks_of lt' = posix_lock (locks_of w_table) 7 5 [9] (region 10 10) WRITE_LT"
proof -
  obtain n where n: "lock_inv 5 n w_table" "n < 2 ^ 56" by (rule w_table_inv)
  obtain lt' res where a: "lock_acquire w_table {} 7 4 10 10 5 [9] w_sid True w_sid = (lt', res)"
    by (cases "lock_acquire w_table {} 7 4 10 10 5 [9] w_sid True w_sid")
  have "isl (snd (lock_acquire w_table {} 7 4 10 10 5 [9] w_sid True w_sid)) = False" by code_simp
  then have g: "\<nexists>e. res = Inl e" using a by auto
  have r: "resolve_owner (stripes w_table (stripe 7)) 7 5 (take LOCK_OWNER_MAX [9]) True w_sid = Inr None"
    by code_simp
  have e: "eff_lock_type 4 = WRITE_LT" by (simp add: eff_lock_type_def)
  show ?thesis
    using lock_acquire_refines [OF n _ r refl refl a] a g
    by (auto simp: e self_client_def self_owner_def split: if_splits)
qed

text \<open>C2. LOCKT reports a conflict exactly when LOCK of the same owner would be refused for it.\<close>

theorem lock_test_iff_conflict:
  assumes "lock_inv w0 n lt"
  shows "lock_test lt f ty off len0 c ow0 = None \<longleftrightarrow>
    \<not> posix_conflict (locks_of lt) f c (take LOCK_OWNER_MAX ow0) (region off len0) (eff_lock_type ty)"
proof -
  let ?st = "stripes lt (stripe f)"
  have "lock_test lt f ty off len0 c ow0 = None \<longleftrightarrow>
      scan_conflict ?st None c (take LOCK_OWNER_MAX ow0) (eff_lock_type ty) off (eff_length len0) (lock_chain ?st f) = None"
    by (auto simp: lock_test_def Let_def file_chain_def find_file_def split: option.splits)
  then show ?thesis using scan_conflict_posix [OF assms, of None] by simp
qed

theorem lock_test_iff_conflict_witness:
  "lock_test w_table 7 1 5 1 4 [2] \<noteq> None \<and>
   posix_conflict (locks_of w_table) 7 4 (take LOCK_OWNER_MAX [2]) (region 5 1) (eff_lock_type 1)"
proof -
  obtain n where n: "lock_inv 5 n w_table" by (rule w_table_inv)
  have "lock_test w_table 7 1 5 1 4 [2] \<noteq> None" by code_simp
  then show ?thesis using lock_test_iff_conflict [OF n, of 7 1 5 1 4 "[2]"] by simp
qed

text \<open>
  C3. LOCKU refines the abstract lock map: with a current stateid and the spare node allocated, it
  succeeds, clears exactly the given region for the owner the stateid belongs to, and returns that
  stateid with its seqid advanced by one.
\<close>

theorem lock_release_refines:
  assumes "lock_inv w0 n lt" "n < 2 ^ 64" "A_spare \<notin> oom"
    and "find_by_sid (stripes lt (stateid_stripe (other lsid))) (other lsid) = Some p"
    and "os = deref (stripes lt (stateid_stripe (other lsid))) p" "seqid_check os (seqid lsid) = None"
    and "lock_release lt oom lsid off len0 = (lt', res)"
  shows "res = Inr ((os_stateid os)\<lparr>seqid := seqid (os_stateid os) + 1\<rparr>) \<and>
    locks_of lt' = posix_unlock (locks_of lt) (os_fileid os) (os_clientid os) (os_owner os) (region off len0)"
proof -
  let ?s = "stateid_stripe (other lsid)"
  have p: "heap (stripes lt ?s) p = Some os" using assms(4,5) by (auto simp: find_by_sid_inv [OF assms(1)])
  note form = lock_release_form [OF assms(4) p refl assms(6,3,7)]
  have res: "res = Inr ((os_stateid os)\<lparr>seqid := seqid (os_stateid os) + 1\<rparr>)" using form(2) by (simp add: bump_def)
  obtain m where inv': "lock_inv w0 m lt'" using lock_inv_release [OF assms(1,2,7)] by blast
  have I: "stripes_inv w0 n (lt_mds_id lt) (stripes lt)" using assms(1) by (simp add: lock_inv_def)
  have ok: "ranges_ok (os_ranges os)" using stripes_invD(3) [OF I p] by (simp add: owner_ok_def)
  have old: "locks_of lt (os_fileid os) (os_clientid os) (os_owner os) b = held (os_ranges os) b" for b
    using stripe_locks_Some [OF I p, of "os_fileid os" "os_clientid os" "os_owner os" b] stripes_invD(2) [OF I p]
    by (simp add: locks_of_def owner_match_def)
  have S: "stripes lt' = (stripes lt)(?s := lock_update (stripes lt ?s) p (released (next_seq lt) off (eff_length len0) os))"
    using form(1) by (simp add: moved_def)
  have "locks_of lt' = posix_unlock (locks_of lt) (os_fileid os) (os_clientid os) (os_owner os) (region off len0)"
    using locks_of_update [OF assms(1) inv' p S] old
    by (intro ext) (auto simp: posix_unlock_def held_released [OF ok])
  with res show ?thesis by blast
qed

definition w_lsid :: nfs4_stateid where
  "w_lsid = \<lparr>seqid = 1, other = lock_other 1 7 5\<rparr>"

theorem lock_release_refines_witness:
  "\<exists>lt' sid. lock_release w_table {} w_lsid 2 3 = (lt', Inr sid) \<and> seqid sid = 2 \<and>
     locks_of lt' = posix_unlock (locks_of w_table) 7 3 [1] (region 2 3)"
proof -
  obtain n where n: "lock_inv 5 n w_table" "n < 2 ^ 56" by (rule w_table_inv)
  then have n': "n < 2 ^ 64" by simp
  obtain lt' res where a: "lock_release w_table {} w_lsid 2 3 = (lt', res)"
    by (cases "lock_release w_table {} w_lsid 2 3")
  let ?os = "deref (stripes w_table (stateid_stripe (other w_lsid))) 0"
  have p: "find_by_sid (stripes w_table (stateid_stripe (other w_lsid))) (other w_lsid) = Some 0" by code_simp
  have q: "seqid_check ?os (seqid w_lsid) = None" by code_simp
  have os: "os_fileid ?os = 7" "os_clientid ?os = 3" "os_owner ?os = [1]" "seqid (os_stateid ?os) = 1"
    by code_simp+
  show ?thesis using lock_release_refines [OF n(1) n' _ p refl q a] a os by simp
qed

text \<open>
  C4. Mutual exclusion over all runs: after any sequence of lock operations on a fresh table, with
  fewer than \<open>2 ^ 56\<close> counter values drawn, two different owners that hold a lock on the same byte
  of a file both hold read locks.
\<close>

theorem lock_run_exclusion:
  assumes "3 * length ops < 2 ^ 56"
    and "locks_of (lock_run (lock_table_init mds ns) ops) f c ow b = Some t"
    and "locks_of (lock_run (lock_table_init mds ns) ops) f c' ow' b = Some t'"
    and "(c, ow) \<noteq> (c', ow')"
  shows "t = READ_LT \<and> t' = READ_LT"
proof -
  let ?lt = "lock_run (lock_table_init mds ns) ops"
  obtain m where inv: "lock_inv (if ns = 0 then 1 else ns) m ?lt"
    using lock_inv_run_from [OF lock_inv_init, of ops ns mds] assms(1) by auto
  then have I: "stripes_inv (if ns = 0 then 1 else ns) m (lt_mds_id ?lt) (stripes ?lt)" by (simp add: lock_inv_def)
  obtain p os where p: "heap (stripes ?lt (stripe f)) p = Some os" "os_fileid os = f" "owner_match os c ow" "held (os_ranges os) b = Some t"
    using assms(2) unfolding locks_of_def stripe_locks_iff [OF I] by blast
  obtain q oq where q: "heap (stripes ?lt (stripe f)) q = Some oq" "os_fileid oq = f" "owner_match oq c' ow'" "held (os_ranges oq) b = Some t'"
    using assms(3) unfolding locks_of_def stripe_locks_iff [OF I] by blast
  have "p \<noteq> q" using p q assms(4) by (auto simp: owner_match_def)
  then have nc: "no_clash (os_ranges os) (os_ranges oq)"
    using stripes_invD(4) [OF I p(1) q(1)] p(2) q(2) by (simp add: owners_apart_def)
  have ok: "ranges_ok (os_ranges os)" "ranges_ok (os_ranges oq)"
    using stripes_invD(3) [OF I p(1)] stripes_invD(3) [OF I q(1)] by (simp_all add: owner_ok_def)
  obtain r r' where r: "r \<in> set (os_ranges os)" "in_range b r" "lr_type r = t"
    and r': "r' \<in> set (os_ranges oq)" "in_range b r'" "lr_type r' = t'"
    using p(4) q(4) held_iff [OF ok(1)] held_iff [OF ok(2)] by blast
  have "\<not> apart r r'" using apart_disjoint r(2) r'(2) by blast
  then show ?thesis using nc r r' by (auto simp: no_clash_def)
qed

theorem lock_run_exclusion_witness:
  "locks_of (lock_run (lock_table_init 1 5) [OpLock {} 7 1 0 10 3 [1] w_sid True w_sid,
     OpLock {} 7 3 5 10 4 [1] w_sid True w_sid]) 7 3 [1] 6 = Some READ_LT"
proof -
  let ?ops = "[OpLock {} 7 1 0 10 3 [1] w_sid True w_sid, OpLock {} 7 3 5 10 4 [1] w_sid True w_sid]"
  obtain t t' where "locks_of (lock_run (lock_table_init 1 5) ?ops) 7 3 [1] 6 = Some t"
    "locks_of (lock_run (lock_table_init 1 5) ?ops) 7 4 [1] 6 = Some t'"
  proof -
    have "locks_of (lock_run (lock_table_init 1 5) ?ops) 7 3 [1] 6 \<noteq> None"
      "locks_of (lock_run (lock_table_init 1 5) ?ops) 7 4 [1] 6 \<noteq> None"
      by code_simp+
    then show thesis using that by auto
  qed
  then show ?thesis using lock_run_exclusion [of ?ops 1 5 7 3 "[1]" 6 t 4 "[1]" t'] by simp
qed

text \<open>
  The denial of a LOCK names a real holder: another owner that holds a lock of the reported type
  on a byte that is both in the requested region and in the reported range.
\<close>

lemma lock_denied_reports_holder:
  assumes "lock_inv w0 n lt" "lock_acquire lt oom f ty off len0 c ow0 osid new lsid = (lt', Inl (L_DENIED cf))"
  shows "\<exists>b. b \<in> region off len0 \<and> lc_offset cf \<le> b \<and> b < range_end (lc_offset cf) (lc_length cf) \<and>
    locks_of lt f (lc_clientid cf) (lc_owner cf) b = Some (lc_type cf) \<and>
    \<not> (eff_lock_type ty = READ_LT \<and> lc_type cf = READ_LT) \<and>
    (\<exists>self. resolve_owner (stripes lt (stripe f)) f c (take LOCK_OWNER_MAX ow0) new lsid = Inr self \<and>
      (lc_clientid cf, lc_owner cf) \<noteq> (self_client (stripes lt (stripe f)) self c,
         self_owner (stripes lt (stripe f)) self (take LOCK_OWNER_MAX ow0)))"
proof -
  let ?st = "stripes lt (stripe f)"
  have I: "stripes_inv w0 n (lt_mds_id lt) (stripes lt)" using assms(1) by (simp add: lock_inv_def)
  have "resolve_owner ?st f c (take LOCK_OWNER_MAX ow0) new lsid \<noteq> Inl (L_DENIED cf)"
    by (auto simp: resolve_owner_eq seqid_check_def split: if_splits option.splits)
  then obtain self cos cr where "scan_conflict ?st self (self_client ?st self c) (self_owner ?st self (take LOCK_OWNER_MAX ow0))
      (eff_lock_type ty) off (eff_length len0) (lock_chain ?st f) = Some (cos, cr)" and cf: "cf = conflict_of cos cr"
    and r: "resolve_owner ?st f c (take LOCK_OWNER_MAX ow0) new lsid = Inr self"
    using assms(2) unfolding lock_acquire_alt
    by (auto simp: map_prod_Inr_iff split: if_splits sum.splits option.splits prod.splits)
  then obtain p where p: "p \<in> set (lock_chain ?st f)" "cos = deref ?st p"
    and no: "\<not> owner_match cos (self_client ?st self c) (self_owner ?st self (take LOCK_OWNER_MAX ow0))"
    and rc: "range_conflict (eff_lock_type ty) off (eff_length len0) (os_ranges cos) = Some cr"
    using scan_conflict_Some by blast
  have h: "heap ?st p = Some cos" "os_fileid cos = f"
    using p lk.chain_iff [OF stripes_invD(1) [OF I], of p "stripe f" f] by auto
  have ok: "ranges_ok (os_ranges cos)" using stripes_invD(3) [OF I h(1)] by (simp add: owner_ok_def)
  have cr: "cr \<in> set (os_ranges cos)" "\<not> (lr_type cr = READ_LT \<and> eff_lock_type ty = READ_LT)"
    and ov: "ranges_overlap (lr_offset cr) (lr_length cr) off (eff_length len0)"
    using range_conflict_Some [OF rc] by auto
  obtain b where b: "in_range b cr" "off \<le> b" "b < range_end off (eff_length len0)"
    using overlap_byte [of "eff_length len0" cr off] ov cr(1) ok by (auto simp: ranges_ok_def)
  have "held (os_ranges cos) b = Some (lr_type cr)" using held_iff [OF ok] cr(1) b(1) by blast
  then have "locks_of lt f (os_clientid cos) (os_owner cos) b = Some (lr_type cr)"
    unfolding locks_of_def stripe_locks_iff [OF I] using h by (auto simp: owner_match_def)
  then show ?thesis
    using b cr(2) r no by (auto simp: cf conflict_of_def region_range_end in_range_def lr_end_def owner_match_def)
qed

text \<open>
  C5. A LOCK, LOCKU or FREE_STATEID that fails leaves every lock of every owner as it was, whichever
  allocations fail.
\<close>

theorem lock_errors_keep_locks:
  assumes "lock_inv w0 n lt"
  shows "(isl (snd (lock_acquire lt oom f ty off len0 c ow0 osid new lsid)) \<longrightarrow>
      locks_of (fst (lock_acquire lt oom f ty off len0 c ow0 osid new lsid)) = locks_of lt) \<and>
    (isl (snd (lock_release lt oom lsid off len0)) \<longrightarrow> fst (lock_release lt oom lsid off len0) = lt) \<and>
    (isl (snd (lock_free_stateid lt oth)) \<longrightarrow> fst (lock_free_stateid lt oth) = lt)"
proof (intro conjI impI)
  assume e: "isl (snd (lock_acquire lt oom f ty off len0 c ow0 osid new lsid))"
  obtain lt' res where a: "lock_acquire lt oom f ty off len0 c ow0 osid new lsid = (lt', res)"
    by (cases "lock_acquire lt oom f ty off len0 c ow0 osid new lsid")
  from a show "locks_of (fst (lock_acquire lt oom f ty off len0 c ow0 osid new lsid)) = locks_of lt"
  proof (cases rule: lock_acquire_cases)
    case (fail e)
    have "locks_of (set_stripe lt (stripe f) (lock_ensure_file (stripes lt (stripe f)) f)) = locks_of lt"
      by (rule locks_of_same [OF assms ensure_inv [OF assms]]) simp
    then show ?thesis using fail a by auto
  next
    case (grant self lt2 p sid)
    then show ?thesis using e a by simp
  qed
next
  assume e: "isl (snd (lock_release lt oom lsid off len0))"
  obtain lt' res where a: "lock_release lt oom lsid off len0 = (lt', res)" by (cases "lock_release lt oom lsid off len0")
  from assms a show "fst (lock_release lt oom lsid off len0) = lt"
    by (cases rule: lock_release_cases) (use e a in auto)
next
  assume e: "isl (snd (lock_free_stateid lt oth))"
  obtain lt' res where a: "lock_free_stateid lt oth = (lt', res)" by (cases "lock_free_stateid lt oth")
  from assms a show "fst (lock_free_stateid lt oth) = lt"
    by (cases rule: lock_free_cases) (use e a in auto)
qed

theorem lock_errors_keep_locks_witness:
  "locks_of (fst (lock_acquire w_table {A_owner} 7 2 40 1 8 [2] w_sid True w_sid)) = locks_of w_table \<and>
   fst (lock_release w_table {} w_sid 0 0) = w_table \<and>
   fst (lock_free_stateid w_table (other w_lsid)) = w_table"
proof -
  obtain n where n: "lock_inv 5 n w_table" by (rule w_table_inv)
  have "isl (snd (lock_acquire w_table {A_owner} 7 2 40 1 8 [2] w_sid True w_sid)) = True"
    "isl (snd (lock_release w_table {} w_sid 0 0)) = True" "isl (snd (lock_free_stateid w_table (other w_lsid))) = True"
    by code_simp+
  then show ?thesis using lock_errors_keep_locks [OF n] by blast
qed

end
