(* ===== verification/Lock_Cleanup.thy ===== *)
theory Lock_Cleanup
  imports Lock_Theorems
begin

text \<open>
  Cleanup of lock state: FREE_STATEID, the release of an expired client's locks, the courtesy
  revocation on one file, and the mirror of the lock table in the shared byte_locks table.
\<close>

section \<open>Releasing owner states\<close>

lemma lock_state_exists_iff:
  assumes "lock_inv w0 n lt"
  shows "lock_state_exists lt oth \<longleftrightarrow> (\<exists>s p os. heap (stripes lt s) p = Some os \<and> os_other os = oth)"
proof -
  have "lock_state_exists lt oth \<longleftrightarrow> (\<exists>p. find_by_sid (stripes lt (stateid_stripe oth)) oth = Some p)"
    by (auto simp: lock_state_exists_def)
  then show ?thesis unfolding find_by_sid_inv [OF assms] using lock_inv_stripe [OF assms] by blast
qed

lemma release_all_locks:
  assumes "lock_inv w0 n lt"
  shows "locks_of (lock_release_all_for_client lt c) = posix_drop_client (locks_of lt) c"
proof (rule locks_eqI)
  fix f d ow b t
  show "locks_of (lock_release_all_for_client lt c) f d ow b = Some t \<longleftrightarrow> posix_drop_client (locks_of lt) c f d ow b = Some t"
    unfolding locks_of_iff [OF lock_inv_release_all [OF assms]] lock_release_all_heap(2) [OF assms] heap_filter_Some posix_drop_client_def
    using locks_of_iff [OF assms, of f d ow b t] by (auto simp: owner_match_def)
qed

text \<open>
  C6. The cleanup of an expired client removes exactly that client's locks, on every file, and
  exactly its lock stateids.
\<close>

theorem lock_release_all_drops_client:
  assumes "lock_inv w0 n lt"
  shows "locks_of (lock_release_all_for_client lt c) = posix_drop_client (locks_of lt) c \<and>
    (lock_state_exists (lock_release_all_for_client lt c) oth \<longleftrightarrow>
       (\<exists>s p os. heap (stripes lt s) p = Some os \<and> os_other os = oth \<and> os_clientid os \<noteq> c))"
proof
  have inv': "lock_inv w0 n (lock_release_all_for_client lt c)" by (rule lock_inv_release_all [OF assms])
  note h = lock_release_all_heap(2) [OF assms, of c]
  show "locks_of (lock_release_all_for_client lt c) = posix_drop_client (locks_of lt) c" by (rule release_all_locks [OF assms])
  show "lock_state_exists (lock_release_all_for_client lt c) oth \<longleftrightarrow>
      (\<exists>s p os. heap (stripes lt s) p = Some os \<and> os_other os = oth \<and> os_clientid os \<noteq> c)"
    unfolding lock_state_exists_iff [OF inv'] h heap_filter_Some by blast
qed

theorem lock_release_all_drops_client_witness:
  "locks_of w_table 7 3 [1] 0 = Some WRITE_LT \<and>
   locks_of (lock_release_all_for_client w_table 3) = posix_drop_client (locks_of w_table) 3"
proof -
  obtain n where n: "lock_inv 5 n w_table" by (rule w_table_inv)
  have "locks_of w_table 7 3 [1] 0 = Some WRITE_LT" by code_simp
  then show ?thesis using lock_release_all_drops_client [OF n, of 3] by blast
qed

text \<open>
  FREE_STATEID succeeds exactly on a known stateid whose owner holds no range; it then removes
  that stateid and nothing else.
\<close>

lemma lock_free_stateid_exact:
  assumes "lock_inv w0 n lt"
  shows "(snd (lock_free_stateid lt oth) = Inr () \<longleftrightarrow>
      (\<exists>s p os. heap (stripes lt s) p = Some os \<and> os_other os = oth \<and> os_ranges os = [])) \<and>
    (snd (lock_free_stateid lt oth) = Inr () \<longrightarrow>
      locks_of (fst (lock_free_stateid lt oth)) = locks_of lt \<and>
      (\<forall>x. lock_state_exists (fst (lock_free_stateid lt oth)) x \<longleftrightarrow> x \<noteq> oth \<and> lock_state_exists lt x))"
proof -
  obtain lt' res where r: "lock_free_stateid lt oth = (lt', res)" by (cases "lock_free_stateid lt oth")
  have uniq: "s = t \<and> p = q" if "heap (stripes lt s) p = Some os" "heap (stripes lt t) q = Some oq" "os_other os = os_other oq"
    for s t p q os oq
    using that lock_inv_stripe [OF assms that(1)] lock_inv_stripe [OF assms that(2)]
      lk.sid_unique [OF lock_inv_wf [OF assms]] by metis
  from assms r show ?thesis
  proof (cases rule: lock_free_cases)
    case bad
    then show ?thesis using r by auto
  next
    case (held p os)
    have "os_ranges oq \<noteq> []" if "heap (stripes lt s) q = Some oq" "os_other oq = oth" for s q oq
      using uniq [OF held(1) that(1)] that held(1-3) by simp
    then show ?thesis using r held(5) by auto
  next
    case (free p os)
    let ?s = "stateid_stripe oth"
    have inv': "lock_inv w0 n lt'" by (rule lock_inv_free [OF assms r])
    have h: "heap (stripes lt' s) q = Some oq \<longleftrightarrow> heap (stripes lt s) q = Some oq \<and> (s, q) \<noteq> (?s, p)" for s q oq
      using lk.discard_objs [OF free(1)] free(4) by auto
    have ne: "held (os_ranges oq) b = Some t \<Longrightarrow> heap (stripes lt ?s) p = Some oq \<Longrightarrow> False" for oq b t
      using free(1,3) by simp
    have "locks_of lt' = locks_of lt"
      by (rule locks_eqI) (use ne in \<open>unfold locks_of_iff [OF assms] locks_of_iff [OF inv'] h, blast\<close>)
    moreover have h': "heap (stripes lt' s) q = Some oq \<longleftrightarrow> heap (stripes lt s) q = Some oq \<and> os_other oq \<noteq> oth" for s q oq
      unfolding h using uniq [OF free(1), of s q oq] free(1,2) by auto
    have "lock_state_exists lt' x \<longleftrightarrow> x \<noteq> oth \<and> lock_state_exists lt x" for x
      unfolding lock_state_exists_iff [OF assms] lock_state_exists_iff [OF inv'] h' by blast
    moreover have "\<exists>s p os. heap (stripes lt s) p = Some os \<and> os_other os = oth \<and> os_ranges os = []"
      using free(1-3) by blast
    ultimately show ?thesis using r free(5) by simp
  qed
qed

section \<open>Courtesy revocation\<close>

lemma collect_clientids_complete:
  assumes "distinct cids" "card (set cids \<union> (\<lambda>p. os_clientid (deref st p)) ` set ps) \<le> LOCK_REVOKE_MAX_CLIENTS"
  shows "set (collect_clientids st ps cids) = set cids \<union> (\<lambda>p. os_clientid (deref st p)) ` set ps"
  using assms
proof (induction ps arbitrary: cids)
  case Nil
  then show ?case by simp
next
  case (Cons p ps)
  let ?c = "os_clientid (deref st p)"
  show ?case
  proof (cases "?c \<in> set cids")
    case True
    then have "set cids \<union> (\<lambda>p. os_clientid (deref st p)) ` set (p # ps) = set cids \<union> (\<lambda>p. os_clientid (deref st p)) ` set ps"
      by auto
    then show ?thesis using Cons True by simp
  next
    case False
    have "card (insert ?c (set cids)) \<le> card (set cids \<union> (\<lambda>p. os_clientid (deref st p)) ` set (p # ps))"
      by (rule card_mono) auto
    then have "card (insert ?c (set cids)) \<le> LOCK_REVOKE_MAX_CLIENTS" using Cons.prems(2) by simp
    then have "length cids < LOCK_REVOKE_MAX_CLIENTS" using False Cons.prems(1) by (simp add: distinct_card)
    then show ?thesis using Cons.IH [of "cids @ [?c]"] Cons.prems False by (simp add: insert_commute)
  qed
qed

lemma chain_clients:
  assumes "lock_wf st"
  shows "(\<lambda>p. os_clientid (deref st p)) ` set (lock_chain st f) =
    {os_clientid os |p os. heap st p = Some os \<and> os_fileid os = f}"
  using lk.chain_iff [OF assms, of _ f] by (force simp: image_iff)

lemma chain_clients_card:
  assumes "lock_wf st"
  shows "card {os_clientid os |p os. heap st p = Some os \<and> os_fileid os = f} \<le> length (lock_chain st f)"
  unfolding chain_clients [OF assms, symmetric] using card_image_le card_length le_trans by blast

text \<open>
  C7. The courtesy revocation on a file with at most 64 lock clients removes exactly the locks that
  clients with an expired lease hold on that file.
\<close>

theorem lock_revoke_expired_exact:
  assumes "lock_inv w0 n lt"
    and "card {os_clientid os |p os. heap (stripes lt (stripe f)) p = Some os \<and> os_fileid os = f} \<le> LOCK_REVOKE_MAX_CLIENTS"
  shows "locks_of (fst (lock_revoke_expired_for_file lt expired f)) =
    (\<lambda>g c ow b. if g = f \<and> expired c then None else locks_of lt g c ow b)"
proof -
  let ?st = "stripes lt (stripe f)" and ?gone = "lock_revoke_collect lt expired f"
  have cl: "(\<lambda>p. os_clientid (deref ?st p)) ` set (lock_chain ?st f) =
      {os_clientid os |p os. heap ?st p = Some os \<and> os_fileid os = f}"
    by (rule chain_clients [OF lock_inv_wf [OF assms(1)]])
  have gone: "set ?gone = {c. expired c \<and> (\<exists>p os. heap ?st p = Some os \<and> os_fileid os = f \<and> os_clientid os = c)}"
    using collect_clientids_complete [of "[]" ?st "lock_chain ?st f"] assms(2)
    by (auto simp: lock_revoke_collect_def Let_def find_file_chain cl)
  obtain lt' k where r: "lock_revoke_remove lt f ?gone = (lt', k)" by (cases "lock_revoke_remove lt f ?gone")
  obtain st where st: "moved lt ((stripes lt)(stripe f := st)) (next_seq lt) lt'"
    "heap st = heap_filter (\<lambda>os. \<not> (os_clientid os \<in> set ?gone \<and> os_fileid os = f)) (heap ?st)"
    using lock_revoke_remove_heap [OF lock_inv_wf [OF assms(1)] r] by blast
  have inv': "lock_inv w0 n lt'" by (rule lock_inv_revoke_remove [OF assms(1) r])
  have h: "heap (stripes lt' s) p = Some os \<longleftrightarrow> heap (stripes lt s) p = Some os \<and> \<not> (os_fileid os = f \<and> expired (os_clientid os))"
    for s p os
  proof -
    have sf: "s = stripe f" if "heap (stripes lt s) p = Some os" "os_fileid os = f"
      using that assms(1) by (auto simp: lock_inv_def dest: stripes_invD(2))
    have "stripes lt' = (stripes lt)(stripe f := st)" using st(1) by (simp add: moved_def)
    then show ?thesis using sf by (cases "s = stripe f") (auto simp: st(2) gone)
  qed
  have "locks_of lt' = (\<lambda>g c ow b. if g = f \<and> expired c then None else locks_of lt g c ow b)"
  proof (rule locks_eqI)
    fix g c ow b t
    show "locks_of lt' g c ow b = Some t \<longleftrightarrow> (if g = f \<and> expired c then None else locks_of lt g c ow b) = Some t"
      unfolding locks_of_iff [OF inv'] h using locks_of_iff [OF assms(1), of g c ow b t] by (auto simp: owner_match_def)
  qed
  moreover have "locks_of lt = locks_of lt'" if "?gone = []"
  proof -
    have no: "\<not> (os_fileid os = f \<and> expired (os_clientid os))" if "heap (stripes lt s) p = Some os" for s p os
    proof
      assume e: "os_fileid os = f \<and> expired (os_clientid os)"
      then have "s = stripe f" using that assms(1) by (auto simp: lock_inv_def dest: stripes_invD(2))
      then have "os_clientid os \<in> set ?gone" using e that unfolding gone by blast
      then show False using \<open>?gone = []\<close> by simp
    qed
    show ?thesis by (rule locks_eqI) (use no in \<open>unfold locks_of_iff [OF inv'] locks_of_iff [OF assms(1)] h, blast\<close>)
  qed
  ultimately show ?thesis using r by (simp add: lock_revoke_expired_for_file_def Let_def)
qed

theorem lock_revoke_expired_exact_witness:
  "locks_of (fst (lock_revoke_expired_for_file w_table (\<lambda>c. c = 3) 7)) 7 3 [1] 0 = None \<and>
   locks_of w_table 7 3 [1] 0 = Some WRITE_LT"
proof -
  obtain n where n: "lock_inv 5 n w_table" by (rule w_table_inv)
  have "locks_of w_table 7 3 [1] 0 = Some WRITE_LT" by code_simp
  moreover have "card {os_clientid os |p os. heap (stripes w_table (stripe 7)) p = Some os \<and> os_fileid os = 7} \<le> LOCK_REVOKE_MAX_CLIENTS"
  proof -
    have "length (lock_chain (stripes w_table (stripe 7)) 7) = 1" by code_simp
    then show ?thesis using chain_clients_card [OF lock_inv_wf [OF n], of "stripe 7" 7] by linarith
  qed
  ultimately show ?thesis using lock_revoke_expired_exact [OF n, of 7 "\<lambda>c. c = 3"] by simp
qed

end
