(* ===== verification/Lock_Mirror.thy ===== *)
theory Lock_Mirror
  imports Lock_Theorems
begin

text \<open>
  The shared byte_locks table as a mirror of the in-memory ranges. The table is what replaying the
  recorded catalogue calls gives when each of them takes effect: a put writes the row at
  (fileid, lock_id), a delete removes it, a reap removes a client's rows.
\<close>

section \<open>Replay\<close>







section \<open>One owner's rows\<close>










section \<open>The operations keep the mirror\<close>

















section \<open>Property\<close>



end
