(* ===== verification/Grace.thy ===== *)
theory Grace
  imports Lattice_Prelude "HOL-Library.Multiset"
begin

text \<open>
  The grace period of \<^verbatim>\<open>src/mds/grace.c\<close>. The file-level variable \<^verbatim>\<open>g_grace\<close> is the record \<open>grace_state\<close>;
  every public function holds its mutex from start to end, so it is one function on the record.
  The clock reading \<^verbatim>\<open>time(NULL)\<close> and the outcome of \<^verbatim>\<open>calloc\<close> are arguments. \<^verbatim>\<open>qsort\<close> is the
  sort by clientid (entries that compare equal are identical when it runs) and \<^verbatim>\<open>bsearch\<close> the
  halving loop on an index interval.
\<close>

section \<open>State and operations\<close>

abbreviation GRACE_MAX_CLIENTS :: nat where "GRACE_MAX_CLIENTS \<equiv> 65536"

record grace_client_entry =
  gc_clientid :: u64
  gc_reclaimed :: bool

record grace_state =
  in_grace :: bool
  duration_sec :: u32
  start_time :: u64
  clients :: "grace_client_entry list"
  client_count :: u32
  reclaimed_count :: u32

definition cmp_clientid :: "grace_client_entry \<Rightarrow> grace_client_entry \<Rightarrow> int" where
  "cmp_clientid a b = (if gc_clientid a < gc_clientid b then - 1 else if gc_clientid a > gc_clientid b then 1 else 0)"

text \<open>\<^verbatim>\<open>bsearch\<close> on the half-open index interval from \<open>lo\<close> to \<open>hi\<close>.\<close>

function bsearch_loop :: "grace_client_entry \<Rightarrow> grace_client_entry list \<Rightarrow> nat \<Rightarrow> nat \<Rightarrow> nat option" where
  "bsearch_loop needle xs lo hi =
     (if lo < hi then
        (let mid = (lo + hi) div 2; c = cmp_clientid needle (xs ! mid)
         in if c = 0 then Some mid
            else if c < 0 then bsearch_loop needle xs lo mid
            else bsearch_loop needle xs (Suc mid) hi)
      else None)"
  by pat_completeness auto
termination by (relation "measure (\<lambda>(_, _, lo, hi). hi - lo)") auto

declare bsearch_loop.simps [simp del]

definition find_client :: "grace_state \<Rightarrow> u64 \<Rightarrow> nat option" where
  "find_client g clientid =
     (if clients g = [] \<or> client_count g = 0 then None
      else bsearch_loop \<lparr>gc_clientid = clientid, gc_reclaimed = False\<rparr> (clients g) 0 (unat (client_count g)))"

definition clear_clients :: "grace_state \<Rightarrow> grace_state" where
  "clear_clients g = g\<lparr>clients := [], client_count := 0, reclaimed_count := 0\<rparr>"

definition grace_init :: grace_state where
  "grace_init = \<lparr>in_grace = False, duration_sec = 0, start_time = 0, clients = [], client_count = 0, reclaimed_count = 0\<rparr>"


text \<open>\<open>recs\<close> is None for a NULL pointer; otherwise it holds the clientids of the \<open>cnt\<close> records.\<close>

definition grace_enter_with_clients :: "u64 \<Rightarrow> bool \<Rightarrow> u32 \<Rightarrow> u64 list option \<Rightarrow> u32 \<Rightarrow> grace_state \<Rightarrow> grace_state" where
  "grace_enter_with_clients now calloc_ok dur recs cnt g =
     (let g1 = (clear_clients g)\<lparr>in_grace := True, duration_sec := dur, start_time := now\<rparr>
      in case recs of
           Some cs \<Rightarrow>
             if cnt > 0 \<and> unat cnt \<le> GRACE_MAX_CLIENTS \<and> calloc_ok then
               g1\<lparr>clients := sort_key gc_clientid
                     (map (\<lambda>c. \<lparr>gc_clientid = c, gc_reclaimed = False\<rparr>) (take (unat cnt) cs)),
                  client_count := cnt, reclaimed_count := 0\<rparr>
             else g1
         | None \<Rightarrow> g1)"


definition grace_client_reclaimed :: "u64 \<Rightarrow> grace_state \<Rightarrow> grace_state \<times> int" where
  "grace_client_reclaimed clientid g =
     (if \<not> in_grace g then (g, - 1)
      else (case find_client g clientid of
              Some i \<Rightarrow>
                if \<not> gc_reclaimed (clients g ! i) then
                  (let g1 = g\<lparr>clients := (clients g)[i := (clients g ! i)\<lparr>gc_reclaimed := True\<rparr>],
                              reclaimed_count := reclaimed_count g + 1\<rparr>
                   in (if client_count g1 > 0 \<and> reclaimed_count g1 \<ge> client_count g1
                       then clear_clients (g1\<lparr>in_grace := False\<rparr>) else g1, 0))
                else (g, - 1)
            | None \<Rightarrow> (g, - 1)))"

definition grace_client_is_recovering :: "u64 \<Rightarrow> grace_state \<Rightarrow> bool" where
  "grace_client_is_recovering clientid g \<longleftrightarrow>
     in_grace g \<and> (case find_client g clientid of Some i \<Rightarrow> \<not> gc_reclaimed (clients g ! i) | None \<Rightarrow> False)"

definition grace_pending_count :: "grace_state \<Rightarrow> u32" where
  "grace_pending_count g =
     (if in_grace g \<and> client_count g > 0 then client_count g - reclaimed_count g else 0)"


section \<open>Binary search\<close>

lemma cmp_clientid_sign [simp]:
  "cmp_clientid a b = 0 \<longleftrightarrow> gc_clientid a = gc_clientid b" "cmp_clientid a b < 0 \<longleftrightarrow> gc_clientid a < gc_clientid b"
  by (auto simp: cmp_clientid_def)

lemma bsearch_sound:
  assumes "hi \<le> length xs" "bsearch_loop needle xs lo hi = Some i"
  shows "lo \<le> i \<and> i < hi \<and> gc_clientid (xs ! i) = gc_clientid needle"
  using assms
proof (induction needle xs lo hi rule: bsearch_loop.induct)
  case (1 needle xs lo hi)
  show ?case
  proof (cases "lo < hi")
    case True
    let ?m = "(lo + hi) div 2"
    have m: "lo \<le> ?m" "?m < hi" using True by auto
    consider (eq) "gc_clientid needle = gc_clientid (xs ! ?m)" | (lt) "gc_clientid needle < gc_clientid (xs ! ?m)"
      | (gt) "gc_clientid needle > gc_clientid (xs ! ?m)" by fastforce
    then show ?thesis
    proof cases
      case eq
      then show ?thesis using "1.prems" True m by (simp add: bsearch_loop.simps [of _ _ lo] Let_def)
    next
      case lt
      then have "bsearch_loop needle xs lo ?m = Some i"
        using "1.prems" True less_imp_neq [OF lt] by (simp add: bsearch_loop.simps [of _ _ lo hi] Let_def)
      then show ?thesis using "1.IH"(1) [OF True refl refl] "1.prems"(1) lt m by force
    next
      case gt
      then have "bsearch_loop needle xs (Suc ?m) hi = Some i"
        using "1.prems" True less_imp_neq [OF gt] less_not_sym [OF gt] by (simp add: bsearch_loop.simps [of _ _ lo hi] Let_def)
      then show ?thesis using "1.IH"(2) [OF True refl refl] "1.prems"(1) gt m less_imp_neq [OF gt] less_not_sym [OF gt] by simp
    qed
  qed (use "1.prems" in \<open>simp add: bsearch_loop.simps [of _ _ lo]\<close>)
qed

lemma bsearch_complete:
  assumes "sorted (map gc_clientid xs)" "hi \<le> length xs" "bsearch_loop needle xs lo hi = None" "lo \<le> i" "i < hi"
  shows "gc_clientid (xs ! i) \<noteq> gc_clientid needle"
  using assms
proof (induction needle xs lo hi rule: bsearch_loop.induct)
  case (1 needle xs lo hi)
  let ?m = "(lo + hi) div 2"
  have lh: "lo < hi" using "1.prems"(4,5) by simp
  then have m: "lo \<le> ?m" "?m < hi" by auto
  have mono: "a \<le> b \<Longrightarrow> b < length xs \<Longrightarrow> gc_clientid (xs ! a) \<le> gc_clientid (xs ! b)" for a b
    using "1.prems"(1) by (simp add: sorted_iff_nth_mono)
  consider (lt) "gc_clientid needle < gc_clientid (xs ! ?m)" "bsearch_loop needle xs lo ?m = None"
    | (gt) "gc_clientid needle > gc_clientid (xs ! ?m)" "bsearch_loop needle xs (Suc ?m) hi = None"
    using "1.prems"(3) lh by (auto simp: bsearch_loop.simps [of _ _ lo hi] Let_def split: if_splits)
  then show ?case
  proof cases
    case lt
    show ?thesis
    proof (cases "i < ?m")
      case True
      then show ?thesis
        using "1.IH"(1) [OF lh refl refl] lt "1.prems" m by force
    next
      case False
      then show ?thesis using mono [of ?m i] lt(1) "1.prems"(2,5) by force
    qed
  next
    case gt
    show ?thesis
    proof (cases "?m < i")
      case True
      then show ?thesis
        using "1.IH"(2) [OF lh refl refl] gt "1.prems" by (auto dest: less_asym)
    next
      case False
      then show ?thesis using mono [of i ?m] gt(1) "1.prems"(2) m(2) by force
    qed
  qed
qed

text \<open>What the search means on the table: the index of the client, if it is recorded.\<close>

definition tracked :: "grace_state \<Rightarrow> u64 \<Rightarrow> nat \<Rightarrow> bool" where
  "tracked g c i \<longleftrightarrow> i < length (clients g) \<and> gc_clientid (clients g ! i) = c"

definition grace_inv :: "grace_state \<Rightarrow> bool" where
  "grace_inv g \<longleftrightarrow>
     sorted (map gc_clientid (clients g)) \<and> unat (client_count g) = length (clients g) \<and>
     length (clients g) \<le> GRACE_MAX_CLIENTS \<and>
     unat (reclaimed_count g) = length (filter gc_reclaimed (clients g)) \<and>
     (\<not> in_grace g \<longrightarrow> clients g = []) \<and>
     (clients g \<noteq> [] \<longrightarrow> (\<exists>e \<in> set (clients g). \<not> gc_reclaimed e))"

lemma find_client_Some: "grace_inv g \<Longrightarrow> find_client g c = Some i \<Longrightarrow> tracked g c i"
  by (auto simp: find_client_def grace_inv_def tracked_def split: if_splits dest!: bsearch_sound [rotated])

lemma find_client_None: "grace_inv g \<Longrightarrow> find_client g c = None \<Longrightarrow> \<not> tracked g c i"
  by (auto simp: find_client_def grace_inv_def tracked_def unat_eq_0 split: if_splits dest: bsearch_complete)

lemma grace_inv_clear: "grace_inv (clear_clients (g\<lparr>in_grace := b\<rparr>))"
  by (simp add: grace_inv_def clear_clients_def)

lemma clear_clients_simps [simp]:
  "clients (clear_clients g) = []" "in_grace (clear_clients g) = in_grace g"
  "client_count (clear_clients g) = 0" "reclaimed_count (clear_clients g) = 0"
  by (simp_all add: clear_clients_def)

lemma grace_inv_enter:
  assumes "unat cnt \<le> length cs"
  shows "grace_inv (grace_enter_with_clients now ok dur (Some cs) cnt g)"
proof (cases "cnt > 0 \<and> unat cnt \<le> GRACE_MAX_CLIENTS \<and> ok")
  case True
  then have "take (unat cnt) cs \<noteq> []" using assms by (auto simp: word_less_nat_alt)
  then have "\<exists>c. c \<in> set (take (unat cnt) cs)" by (metis list.set_sel(1))
  then show ?thesis
    using True assms by (auto simp: grace_inv_def grace_enter_with_clients_def Let_def)
next
  case False
  then show ?thesis by (auto simp: grace_inv_def grace_enter_with_clients_def Let_def)
qed

section \<open>Reclaims\<close>

lemma length_filter_update:
  "i < length xs \<Longrightarrow> \<not> P (xs ! i) \<Longrightarrow> P y \<Longrightarrow> length (filter P (xs[i := y])) = Suc (length (filter P xs))"
proof (induction xs arbitrary: i)
  case (Cons x xs)
  then show ?case by (cases i) auto
qed simp

lemma length_filter_all: "length (filter P xs) \<ge> length xs \<longleftrightarrow> (\<forall>x \<in> set xs. P x)"
proof -
  have "length (filter P xs) \<ge> length xs \<longleftrightarrow> length (filter (\<lambda>x. \<not> P x) xs) = 0"
    using sum_length_filter_compl [of P xs] by linarith
  then show ?thesis by (simp add: filter_empty_conv)
qed

definition pending :: "grace_state \<Rightarrow> u64 set" where
  "pending g = {c. in_grace g \<and> (\<exists>i. tracked g c i \<and> \<not> gc_reclaimed (clients g ! i))}"

lemma reclaim_marks:
  assumes inv: "grace_inv g" and i: "i < length (clients g)" "\<not> gc_reclaimed (clients g ! i)"
  defines "xs \<equiv> (clients g)[i := (clients g ! i)\<lparr>gc_reclaimed := True\<rparr>]"
  shows "map gc_clientid xs = map gc_clientid (clients g)"
    and "unat (reclaimed_count g + 1) = length (filter gc_reclaimed xs)"
    and "client_count g > 0 \<and> reclaimed_count g + 1 \<ge> client_count g \<longleftrightarrow> (\<forall>e \<in> set xs. gc_reclaimed e)"
proof -
  show "map gc_clientid xs = map gc_clientid (clients g)"
    using i by (intro nth_equalityI) (auto simp: xs_def nth_list_update)
  have f: "length (filter gc_reclaimed xs) = Suc (length (filter gc_reclaimed (clients g)))"
    unfolding xs_def using i by (intro length_filter_update) simp_all
  have b: "length (filter gc_reclaimed (clients g)) \<le> GRACE_MAX_CLIENTS"
    using inv by (auto simp: grace_inv_def intro: order.trans [OF length_filter_le])
  have n: "unat (reclaimed_count g) = length (filter gc_reclaimed (clients g))" using inv by (simp add: grace_inv_def)
  have "unat (reclaimed_count g + 1) = Suc (unat (reclaimed_count g))"
    using n b by (simp add: unat_word_ariths)
  then show c: "unat (reclaimed_count g + 1) = length (filter gc_reclaimed xs)" using f n by simp
  have "client_count g > 0 \<and> reclaimed_count g + 1 \<ge> client_count g \<longleftrightarrow> length (filter gc_reclaimed xs) \<ge> length xs"
    using inv i c by (auto simp: word_le_nat_alt word_less_nat_alt grace_inv_def xs_def)
  also have "\<dots> \<longleftrightarrow> (\<forall>e \<in> set xs. gc_reclaimed e)"
    by (rule length_filter_all)
  finally show "client_count g > 0 \<and> reclaimed_count g + 1 \<ge> client_count g \<longleftrightarrow> (\<forall>e \<in> set xs. gc_reclaimed e)" .
qed

lemma reclaim_cases:
  assumes inv: "grace_inv g" and r: "grace_client_reclaimed c g = (g', rc)"
  obtains (no) "g' = g" "rc = - 1" "\<And>i. in_grace g \<Longrightarrow> find_client g c = Some i \<Longrightarrow> gc_reclaimed (clients g ! i)"
    | (yes) i xs where "in_grace g" "find_client g c = Some i" "tracked g c i" "\<not> gc_reclaimed (clients g ! i)" "rc = 0"
        "xs = (clients g)[i := (clients g ! i)\<lparr>gc_reclaimed := True\<rparr>]"
        "g' = (if \<forall>e \<in> set xs. gc_reclaimed e then clear_clients (g\<lparr>clients := xs, reclaimed_count := reclaimed_count g + 1, in_grace := False\<rparr>)
               else g\<lparr>clients := xs, reclaimed_count := reclaimed_count g + 1\<rparr>)"
proof (cases "in_grace g \<and> (\<exists>i. find_client g c = Some i \<and> \<not> gc_reclaimed (clients g ! i))")
  case True
  then obtain i where i: "find_client g c = Some i" "\<not> gc_reclaimed (clients g ! i)" "in_grace g" by blast
  then have t: "tracked g c i" using find_client_Some [OF inv] by blast
  then have len: "i < length (clients g)" by (simp add: tracked_def)
  note M = reclaim_marks(3) [OF inv len i(2)]
  show ?thesis
    using r i M by (intro yes [OF i(3,1) t i(2) _ refl]) (auto simp: grace_client_reclaimed_def Let_def)
next
  case False
  then have "grace_client_reclaimed c g = (g, - 1)" by (auto simp: grace_client_reclaimed_def split: option.split)
  then show ?thesis using r False by (intro no) auto
qed

lemma grace_inv_reclaimed:
  assumes inv: "grace_inv g" and r: "grace_client_reclaimed c g = (g', rc)"
  shows "grace_inv g'"
  using inv r
proof (cases rule: reclaim_cases)
  case no
  then show ?thesis using inv by simp
next
  case (yes i xs)
  have len: "i < length (clients g)" using yes(3) by (simp add: tracked_def)
  note M = reclaim_marks [OF inv len yes(4), folded yes(6)]
  show ?thesis
  proof (cases "\<forall>e \<in> set xs. gc_reclaimed e")
    case True
    then show ?thesis using yes(7) by (simp add: grace_inv_def)
  next
    case False
    then show ?thesis using inv M yes(1,6,7) by (auto simp: grace_inv_def)
  qed
qed





section \<open>Recovery of a recorded set of clients\<close>

lemma tracked_unique: "distinct (map gc_clientid (clients g)) \<Longrightarrow> tracked g c i \<Longrightarrow> tracked g c j \<Longrightarrow> i = j"
  by (auto simp: tracked_def distinct_conv_nth)

lemma reclaim_pending:
  assumes inv: "grace_inv g" and d: "distinct (map gc_clientid (clients g))" and act: "in_grace g" "clients g \<noteq> []"
    and r: "grace_client_reclaimed c g = (g', rc)"
  shows "(rc = 0 \<longleftrightarrow> c \<in> pending g) \<and> pending g' = pending g - {c} \<and>
    (in_grace g' \<longleftrightarrow> pending g' \<noteq> {}) \<and> (in_grace g' \<longrightarrow> map gc_clientid (clients g') = map gc_clientid (clients g))"
  using inv r
proof (cases rule: reclaim_cases)
  case no
  have np: "c \<notin> pending g"
  proof
    assume "c \<in> pending g"
    then obtain i where i: "tracked g c i" "\<not> gc_reclaimed (clients g ! i)" by (auto simp: pending_def)
    obtain j where j: "find_client g c = Some j" using find_client_None [OF inv] i(1) by fastforce
    have "j = i" by (rule tracked_unique [OF d find_client_Some [OF inv j] i(1)])
    then show False using no(3) [OF act(1) j] i(2) by simp
  qed
  have "\<exists>e \<in> set (clients g). \<not> gc_reclaimed e" using inv act(2) by (simp add: grace_inv_def)
  then have "pending g \<noteq> {}" using act(1) by (auto simp: pending_def tracked_def in_set_conv_nth)
  then show ?thesis using no np act(1) by auto
next
  case (yes i xs)
  have i: "i < length (clients g)" "gc_clientid (clients g ! i) = c" using yes(3) by (simp_all add: tracked_def)
  note M = reclaim_marks [OF inv i(1) yes(4), folded yes(6)]
  have len: "length xs = length (clients g)" by (simp add: yes(6))
  have x: "xs ! j = (if j = i then (clients g ! i)\<lparr>gc_reclaimed := True\<rparr> else clients g ! j)" if "j < length xs" for j
    using that yes(6) by (simp add: nth_list_update)
  have P: "pending g - {c} = {gc_clientid e |e. e \<in> set xs \<and> \<not> gc_reclaimed e}" (is "_ = ?R")
  proof -
    have "tracked g a j \<and> \<not> gc_reclaimed (clients g ! j) \<and> a \<noteq> c \<longleftrightarrow>
        j < length xs \<and> gc_clientid (xs ! j) = a \<and> \<not> gc_reclaimed (xs ! j)" for a j
    proof (cases "j = i")
      case True
      then show ?thesis using i x [of i] len by (auto simp: tracked_def)
    next
      case False
      then have "a \<noteq> c" if "tracked g a j" using tracked_unique [OF d yes(3), of j] that by auto
      then show ?thesis using False x [of j] len by (auto simp: tracked_def)
    qed
    then have "a \<in> pending g - {c} \<longleftrightarrow> (\<exists>j. j < length xs \<and> gc_clientid (xs ! j) = a \<and> \<not> gc_reclaimed (xs ! j))" for a
      using act(1) by (simp add: pending_def) blast
    moreover have "(\<exists>j. j < length xs \<and> gc_clientid (xs ! j) = a \<and> \<not> gc_reclaimed (xs ! j)) \<longleftrightarrow> a \<in> ?R" for a
      by (auto simp: in_set_conv_nth)
    ultimately show ?thesis by blast
  qed
  show ?thesis
  proof (cases "\<forall>e \<in> set xs. gc_reclaimed e")
    case True
    then have "pending g - {c} = {}" using P by blast
    then show ?thesis using yes True act(1) by (auto simp: pending_def)
  next
    case False
    have g': "g' = g\<lparr>clients := xs, reclaimed_count := reclaimed_count g + 1\<rparr>" using yes(7) False by simp
    have "pending g' = ?R"
      using act(1) by (auto simp: pending_def tracked_def g' in_set_conv_nth)
    then show ?thesis using P False yes(1-5) M(1) g' by (auto simp: pending_def)
  qed
qed

definition reclaim_all :: "grace_state \<Rightarrow> u64 list \<Rightarrow> grace_state" where
  "reclaim_all g cs = foldl (\<lambda>g c. fst (grace_client_reclaimed c g)) g cs"

lemma reclaim_all_pending:
  assumes "grace_inv g" "distinct (map gc_clientid (clients g))" "in_grace g \<longleftrightarrow> pending g \<noteq> {}"
  shows "grace_inv (reclaim_all g cs) \<and> distinct (map gc_clientid (clients (reclaim_all g cs))) \<and>
    pending (reclaim_all g cs) = pending g - set cs \<and> (in_grace (reclaim_all g cs) \<longleftrightarrow> pending g - set cs \<noteq> {})"
  using assms
proof (induction cs arbitrary: g)
  case Nil
  then show ?case by (simp add: reclaim_all_def)
next
  case (Cons c cs)
  obtain g' rc where r: "grace_client_reclaimed c g = (g', rc)" by (cases "grace_client_reclaimed c g")
  have step: "grace_inv g' \<and> distinct (map gc_clientid (clients g')) \<and> pending g' = pending g - {c} \<and> (in_grace g' \<longleftrightarrow> pending g' \<noteq> {})"
  proof (cases "in_grace g")
    case True
    have "pending g \<noteq> {}" using True Cons.prems(3) by blast
    then obtain x i where "tracked g x i" by (auto simp: pending_def)
    then have ne: "clients g \<noteq> []" by (auto simp: tracked_def)
    note P = reclaim_pending [OF Cons.prems(1,2) True ne r]
    have inv': "grace_inv g'" by (rule grace_inv_reclaimed [OF Cons.prems(1) r])
    have "distinct (map gc_clientid (clients g'))"
    proof (cases "in_grace g'")
      case True
      then show ?thesis using P Cons.prems(2) by simp
    next
      case False
      then show ?thesis using inv' by (simp add: grace_inv_def)
    qed
    then show ?thesis using P inv' by blast
  next
    case False
    then have "g' = g" "pending g = {}" using r by (simp_all add: grace_client_reclaimed_def pending_def)
    then show ?thesis using Cons.prems False by simp
  qed
  have "reclaim_all g (c # cs) = reclaim_all g' cs" using r by (simp add: reclaim_all_def)
  moreover have "pending g' - set cs = pending g - set (c # cs)" using step by auto
  ultimately show ?case using Cons.IH [of g'] step by (simp del: set_simps)
qed

lemma recovering_iff_pending:
  assumes "grace_inv g" "distinct (map gc_clientid (clients g))"
  shows "grace_client_is_recovering c g \<longleftrightarrow> c \<in> pending g"
proof (cases "find_client g c")
  case None
  then show ?thesis using find_client_None [OF assms(1) None] by (auto simp: grace_client_is_recovering_def pending_def)
next
  case (Some i)
  have t: "tracked g c i" by (rule find_client_Some [OF assms(1) Some])
  then have "(\<exists>j. tracked g c j \<and> \<not> gc_reclaimed (clients g ! j)) \<longleftrightarrow> \<not> gc_reclaimed (clients g ! i)"
    using tracked_unique [OF assms(2) t] by blast
  then show ?thesis using Some by (simp add: grace_client_is_recovering_def pending_def)
qed

lemma pending_count_card:
  assumes inv: "grace_inv g" and d: "distinct (map gc_clientid (clients g))"
  shows "unat (grace_pending_count g) = card (pending g)"
proof (cases "in_grace g")
  case True
  have "pending g = gc_clientid ` set (filter (\<lambda>e. \<not> gc_reclaimed e) (clients g))"
    using True by (auto simp: pending_def tracked_def in_set_conv_nth image_iff)
  moreover have "inj_on gc_clientid (set (filter (\<lambda>e. \<not> gc_reclaimed e) (clients g)))"
    using d by (auto simp: distinct_map intro: inj_on_subset)
  moreover have "distinct (filter (\<lambda>e. \<not> gc_reclaimed e) (clients g))" using d by (simp add: distinct_map)
  ultimately have "card (pending g) = length (filter (\<lambda>e. \<not> gc_reclaimed e) (clients g))"
    by (simp add: card_image distinct_card del: set_filter)
  moreover have "unat (client_count g - reclaimed_count g) = length (clients g) - length (filter gc_reclaimed (clients g))"
    using inv by (subst unat_sub) (auto simp: grace_inv_def word_le_nat_alt)
  ultimately show ?thesis
    using True inv sum_length_filter_compl [of gc_reclaimed "clients g"]
    by (auto simp: grace_pending_count_def grace_inv_def word_less_nat_alt)
next
  case False
  then show ?thesis by (simp add: grace_pending_count_def pending_def)
qed

lemma entered_pending:
  fixes now :: u64 and dur :: u32 and g0 :: grace_state and cs :: "u64 list"
  assumes "0 < length cs" "length cs \<le> GRACE_MAX_CLIENTS" "distinct cs"
  defines "g \<equiv> grace_enter_with_clients now True dur (Some cs) (of_nat (length cs)) g0"
  shows "grace_inv g" "distinct (map gc_clientid (clients g))" "pending g = set cs" "in_grace g"
proof -
  let ?e = "\<lambda>c. \<lparr>gc_clientid = c, gc_reclaimed = False\<rparr>"
  have n: "unat (of_nat (length cs) :: u32) = length cs"
    using assms(2) by (simp add: unsigned_of_nat take_bit_nat_eq_self)
  then have pos: "0 < (of_nat (length cs) :: u32)" using assms(1) by (simp add: word_less_nat_alt)
  have c: "clients g = sort_key gc_clientid (map ?e cs)" "in_grace g"
    using n pos assms(2) by (simp_all add: g_def grace_enter_with_clients_def Let_def)
  show "grace_inv g" unfolding g_def using n by (intro grace_inv_enter) simp
  show "in_grace g" by (rule c(2))
  have "image_mset gc_clientid (image_mset ?e (mset cs)) = mset cs" by (induction cs) simp_all
  then have "mset (map gc_clientid (clients g)) = mset cs" by (simp add: c(1))
  then show "distinct (map gc_clientid (clients g))" using assms(3) by (metis mset_eq_imp_distinct_iff)
  have "set (clients g) = ?e ` set cs" by (simp add: c(1))
  moreover have "pending g = {gc_clientid e |e. e \<in> set (clients g) \<and> \<not> gc_reclaimed e}"
    using c(2) by (auto simp: pending_def tracked_def in_set_conv_nth)
  ultimately show "pending g = set cs" by force
qed

section \<open>Properties\<close>

text \<open>
  C9. A grace period with a recorded set of distinct clients ends early exactly when all of them
  have reclaimed: after any sequence of reclaims the period is on iff some recorded client is not
  among them, exactly the missing ones are recovering, and the pending count is their number.
\<close>

theorem grace_ends_when_all_reclaimed:
  assumes "0 < length recs" "length recs \<le> GRACE_MAX_CLIENTS" "distinct recs"
    and "g = reclaim_all (grace_enter_with_clients now True dur (Some recs) (of_nat (length recs)) g0) cs"
  shows "(in_grace g \<longleftrightarrow> \<not> set recs \<subseteq> set cs) \<and> (grace_client_is_recovering c g \<longleftrightarrow> c \<in> set recs - set cs) \<and>
    unat (grace_pending_count g) = card (set recs - set cs)"
proof -
  let ?g = "grace_enter_with_clients now True dur (Some recs) (of_nat (length recs)) g0"
  note E = entered_pending [OF assms(1-3), of now dur g0]
  have on: "in_grace ?g \<longleftrightarrow> pending ?g \<noteq> {}" using E(3,4) assms(1) by auto
  note R = reclaim_all_pending [OF E(1,2) on, of cs, unfolded E(3), folded assms(4)]
  have "(in_grace g \<longleftrightarrow> \<not> set recs \<subseteq> set cs)" using R by blast
  moreover have "grace_client_is_recovering c g \<longleftrightarrow> c \<in> set recs - set cs"
    using R recovering_iff_pending [of g c] by blast
  moreover have "unat (grace_pending_count g) = card (set recs - set cs)"
    using R pending_count_card [of g] by simp
  ultimately show ?thesis by blast
qed

theorem grace_ends_when_all_reclaimed_witness:
  "\<not> in_grace (reclaim_all (grace_enter_with_clients 100 True 90 (Some [7, 3]) (of_nat (length [7, 3 :: u64])) grace_init) [3, 9, 7])"
  using grace_ends_when_all_reclaimed [of "[7, 3]", OF _ _ _ refl, of 100 90 grace_init "[3, 9, 7]"] by simp

text \<open>
  C10. The binary search over the client array returns an index of the client whenever the client is
  recorded, and nothing otherwise.
\<close>

theorem grace_find_client_correct:
  assumes "grace_inv g"
  shows "case find_client g c of
      Some i \<Rightarrow> i < length (clients g) \<and> gc_clientid (clients g ! i) = c
    | None \<Rightarrow> c \<notin> gc_clientid ` set (clients g)"
proof (cases "find_client g c")
  case None
  have "c \<notin> gc_clientid ` set (clients g)"
  proof
    assume "c \<in> gc_clientid ` set (clients g)"
    then obtain i where "tracked g c i" by (auto simp: tracked_def in_set_conv_nth)
    then show False using find_client_None [OF assms None] by blast
  qed
  then show ?thesis using None by simp
next
  case (Some i)
  then show ?thesis using find_client_Some [OF assms Some] by (simp add: tracked_def)
qed

theorem grace_find_client_correct_witness:
  "find_client (grace_enter_with_clients 100 True 90 (Some [7, 3, 12]) 3 grace_init) 5 = None"
proof -
  let ?g = "grace_enter_with_clients 100 True 90 (Some [7, 3, 12]) 3 grace_init"
  have "grace_inv ?g" by (rule grace_inv_enter) simp
  moreover have "5 \<notin> gc_clientid ` set (clients ?g)" by (simp add: grace_enter_with_clients_def Let_def)
  ultimately show ?thesis using grace_find_client_correct [of ?g 5] by (force split: option.splits dest: nth_mem)
qed



end
