(* ===== verification/Open_State.thy ===== *)
theory Open_State
  imports Stateid_Index
begin

text \<open>
  The OPEN state table, \<^verbatim>\<open>src/mds/open_state.c\<close>: OPEN with share reservations, same-owner re-OPEN,
  CLOSE, OPEN_DOWNGRADE, client teardown and courtesy revocation. The table is one \<open>index_tab\<close> of open
  records with configurable bucket counts.

  OPEN drops its locks around the durable write of the open row. It is therefore two functions:
  \<open>open_state_open_begin\<close> is what runs under the first lock section and \<open>open_commit\<close> what runs after
  the write came back with a status; \<open>open_state_open\<close> is their composition for a caller that runs
  alone. CLOSE and OPEN_DOWNGRADE look the record up, relock and look it up again; the second section
  takes the fileid the first one saw. Every other operation is one lock section.

  The open owner is the byte string the caller passes (a NULL owner is the empty string). Records are
  allocated at fresh addresses; the recycling pool behind \<^verbatim>\<open>os_alloc\<close> is modelled in \<^verbatim>\<open>Open_Pool\<close>.
  Writes to the shared open table are recorded in order in \<open>ot_calls\<close>.
\<close>

section \<open>State\<close>

abbreviation OPEN4_SHARE_ACCESS_WRITE :: u32 where "OPEN4_SHARE_ACCESS_WRITE \<equiv> 2"
abbreviation OPEN4_SHARE_ACCESS_BOTH :: u32 where "OPEN4_SHARE_ACCESS_BOTH \<equiv> 3"
abbreviation NFS4_OPEN_OWNER_MAX :: nat where "NFS4_OPEN_OWNER_MAX \<equiv> 128"
abbreviation REVOKE_MAX_CLIENTS :: nat where "REVOKE_MAX_CLIENTS \<equiv> 64"

record nfs4_open_state =
  op_stateid :: nfs4_stateid
  op_clientid :: u64
  op_fileid :: u64
  op_access :: u32
  op_deny :: u32
  op_owner :: bytes
  op_pending :: bool

abbreviation op_other :: "nfs4_open_state \<Rightarrow> bytes" where
  "op_other x \<equiv> other (op_stateid x)"

abbreviation op_seqid :: "nfs4_open_state \<Rightarrow> u32" where
  "op_seqid x \<equiv> seqid (op_stateid x)"

text \<open>\<^verbatim>\<open>struct mds_coord_open_row\<close>: one row of the shared open table.\<close>

record open_row =
  orow_other :: bytes
  orow_seqid :: u32
  orow_clientid :: u64
  orow_fileid :: u64
  orow_access :: u32
  orow_deny :: u32
  orow_owner :: bytes
  orow_mds_id :: u32
  orow_boot_epoch :: u64

datatype open_cat_call = OpenPut open_row | OpenDel bytes

record open_state_table = "nfs4_open_state index_tab" +
  stateid_buckets :: u32
  file_buckets :: u32
  lock_stripes :: u32
  next_other_seq :: u64
  ot_mds_id :: u32
  ot_cat :: bool
  ot_boot_epoch :: u64
  ot_skip_ndb :: bool
  ot_calls :: "open_cat_call list"

datatype open_alloc = A_open | A_file_opens

section \<open>Hashing and stateids\<close>

definition hash_other :: "open_state_table \<Rightarrow> bytes \<Rightarrow> u32" where
  "hash_other ot oth = ucast (os_mix64 (le_load (take 8 (drop 4 oth))) mod ucast (stateid_buckets ot))"

definition hash_fileid :: "open_state_table \<Rightarrow> u64 \<Rightarrow> u32" where
  "hash_fileid ot fileid = ucast (os_mix64 fileid mod ucast (file_buckets ot))"

definition lock_stripe_of :: "open_state_table \<Rightarrow> u64 \<Rightarrow> u32" where
  "lock_stripe_of ot fileid = hash_fileid ot fileid mod lock_stripes ot"

definition stateid_lock_stripe :: "open_state_table \<Rightarrow> bytes \<Rightarrow> u32" where
  "stateid_lock_stripe ot oth = hash_other ot oth mod lock_stripes ot"

definition open_other :: "u32 \<Rightarrow> u64 \<Rightarrow> bytes" where
  "open_other mds seq = be_bytes 4 mds @ be_bytes 8 seq"

definition make_stateid_other :: "open_state_table \<Rightarrow> open_state_table \<times> bytes" where
  "make_stateid_other ot =
     (ot\<lparr>next_other_seq := next_other_seq ot + 1\<rparr>, open_other (ot_mds_id ot) (next_other_seq ot))"

section \<open>Table primitives\<close>

definition find_by_other :: "open_state_table \<Rightarrow> bytes \<Rightarrow> ptr option" where
  "find_by_other ot oth = chain_find (heap ot) (\<lambda>x. op_other x = oth) (sid_hash ot (hash_other ot oth))"

definition find_file_opens :: "open_state_table \<Rightarrow> u64 \<Rightarrow> ptr list option" where
  "find_file_opens ot fileid = map_of (file_hash ot (hash_fileid ot fileid)) fileid"

definition get_or_create_file_opens :: "open_alloc set \<Rightarrow> open_state_table \<Rightarrow> u64 \<Rightarrow> open_state_table option" where
  "get_or_create_file_opens oom ot fileid =
     (case find_file_opens ot fileid of
        Some _ \<Rightarrow> Some ot
      | None \<Rightarrow> if A_file_opens \<in> oom then None else Some (idx_add_head (hash_fileid ot) fileid ot))"

definition maybe_free_file_opens :: "open_state_table \<Rightarrow> u64 \<Rightarrow> open_state_table" where
  "maybe_free_file_opens ot fileid = idx_drop_head (hash_fileid ot) fileid ot"

definition modes_conflict :: "nfs4_open_state \<Rightarrow> u32 \<Rightarrow> u32 \<Rightarrow> bool" where
  "modes_conflict x acc den \<longleftrightarrow> acc AND op_deny x \<noteq> 0 \<or> op_access x AND den \<noteq> 0"

definition share_conflict :: "open_state_table \<Rightarrow> ptr list option \<Rightarrow> u32 \<Rightarrow> u32 \<Rightarrow> bool" where
  "share_conflict ot fo acc den =
     (case fo of None \<Rightarrow> False | Some ch \<Rightarrow> list_ex (\<lambda>p. modes_conflict (deref ot p) acc den) ch)"

definition share_conflict_excluding :: "open_state_table \<Rightarrow> ptr list option \<Rightarrow> ptr \<Rightarrow> u32 \<Rightarrow> u32 \<Rightarrow> bool" where
  "share_conflict_excluding ot fo skip acc den =
     (case fo of None \<Rightarrow> False
      | Some ch \<Rightarrow> list_ex (\<lambda>p. p \<noteq> skip \<and> modes_conflict (deref ot p) acc den) ch)"

definition unhash_stateid :: "open_state_table \<Rightarrow> ptr \<Rightarrow> open_state_table" where
  "unhash_stateid ot p =
     (let b = hash_other ot (op_other (deref ot p))
      in ot\<lparr>sid_hash := (sid_hash ot)(b := chain_unlink p (sid_hash ot b))\<rparr>)"

definition file_chain_unlink :: "open_state_table \<Rightarrow> u64 \<Rightarrow> ptr \<Rightarrow> open_state_table" where
  "file_chain_unlink ot fileid p =
     (let b = hash_fileid ot fileid
      in ot\<lparr>file_hash := (file_hash ot)(b := upd_chain fileid (chain_unlink p) (file_hash ot b))\<rparr>)"

definition unlink_from_file :: "open_state_table \<Rightarrow> ptr \<Rightarrow> open_state_table" where
  "unlink_from_file ot p =
     (let fileid = op_fileid (deref ot p)
      in case find_file_opens ot fileid of
           None \<Rightarrow> ot
         | Some _ \<Rightarrow> maybe_free_file_opens (file_chain_unlink ot fileid p) fileid)"

definition open_record_free :: "open_state_table \<Rightarrow> ptr \<Rightarrow> open_state_table" where
  "open_record_free ot p = ot\<lparr>heap := (heap ot)(p := None)\<rparr>"

definition open_set :: "open_state_table \<Rightarrow> ptr \<Rightarrow> nfs4_open_state \<Rightarrow> open_state_table" where
  "open_set ot p x = ot\<lparr>heap := (heap ot)(p \<mapsto> x)\<rparr>"

section \<open>Construction\<close>

definition open_state_table_init_ex :: "u32 \<Rightarrow> u32 \<Rightarrow> u32 \<Rightarrow> u32 \<Rightarrow> u64 \<Rightarrow> open_state_table" where
  "open_state_table_init_ex mds_id fb sb ls now_ns =
     (let fb1 = (if fb = 0 then 1048576 else fb);
          sb1 = (if sb = 0 then 1048576 else sb);
          ls1 = (if ls = 0 then 1024 else ls);
          ls2 = (if ls1 > fb1 then fb1 else ls1);
          ls3 = (if ls2 > sb1 then sb1 else ls2)
      in \<lparr>heap = Map.empty, next_ptr = 0, file_hash = (\<lambda>_. []), sid_hash = (\<lambda>_. []),
            stateid_buckets = sb1, file_buckets = fb1, lock_stripes = ls3,
            next_other_seq = (if now_ns = 0 then 1 else now_ns), ot_mds_id = mds_id, ot_cat = False,
            ot_boot_epoch = 0, ot_skip_ndb = False, ot_calls = []\<rparr>)"

definition open_state_table_init :: "u32 \<Rightarrow> u64 \<Rightarrow> open_state_table" where
  "open_state_table_init mds_id now_ns = open_state_table_init_ex mds_id 0 0 0 now_ns"

definition open_state_table_set_cat :: "open_state_table \<Rightarrow> bool \<Rightarrow> u64 \<Rightarrow> open_state_table" where
  "open_state_table_set_cat ot cat boot_epoch = ot\<lparr>ot_cat := cat, ot_boot_epoch := boot_epoch\<rparr>"

definition open_state_table_set_skip_ndb :: "open_state_table \<Rightarrow> bool \<Rightarrow> open_state_table" where
  "open_state_table_set_skip_ndb ot skip = ot\<lparr>ot_skip_ndb := skip\<rparr>"

section \<open>OPEN\<close>

definition find_owner_open :: "open_state_table \<Rightarrow> ptr list option \<Rightarrow> u64 \<Rightarrow> bytes \<Rightarrow> ptr option" where
  "find_owner_open ot fo clientid owner =
     (case fo of None \<Rightarrow> None
      | Some ch \<Rightarrow> chain_find (heap ot) (\<lambda>x. op_clientid x = clientid \<and> op_owner x = owner) ch)"

definition open_row_fill ::
  "open_state_table \<Rightarrow> bytes \<Rightarrow> u32 \<Rightarrow> u64 \<Rightarrow> u64 \<Rightarrow> u32 \<Rightarrow> u32 \<Rightarrow> bytes \<Rightarrow> open_row" where
  "open_row_fill ot oth sq clientid fileid acc den owner =
     \<lparr>orow_other = oth, orow_seqid = sq, orow_clientid = clientid, orow_fileid = fileid,
      orow_access = acc, orow_deny = den, orow_owner = owner,
      orow_mds_id = ot_mds_id ot, orow_boot_epoch = ot_boot_epoch ot\<rparr>"

text \<open>An OPEN whose durable write is in flight: the row handed to the catalogue and, for a re-OPEN, the
  values a failed write restores.\<close>

datatype open_flight = Fresh (flight_row: open_row) | Upgrade (flight_row: open_row) u32 u32 u32

datatype open_phase = OpenDone int "nfs4_stateid option" | OpenInFlight open_flight nfs4_stateid

definition persist_on :: "open_state_table \<Rightarrow> bool" where
  "persist_on ot \<longleftrightarrow> ot_cat ot \<and> \<not> ot_skip_ndb ot"

definition next_seqid :: "u32 \<Rightarrow> u32" where
  "next_seqid s = (if s = UINT32_MAX then 1 else s + 1)"

definition open_state_upgrade_existing ::
  "open_state_table \<Rightarrow> ptr list option \<Rightarrow> ptr \<Rightarrow> u64 \<Rightarrow> bytes \<Rightarrow> u64 \<Rightarrow> u32 \<Rightarrow> u32 \<Rightarrow> open_state_table \<times> open_phase" where
  "open_state_upgrade_existing ot fo p clientid owner fileid acc den =
     (let x = deref ot p; acc' = op_access x OR acc; den' = op_deny x OR den;
          x' = x\<lparr>op_stateid := (op_stateid x)\<lparr>seqid := next_seqid (op_seqid x)\<rparr>, op_access := acc', op_deny := den'\<rparr>
      in if share_conflict_excluding ot fo p acc' den' then (ot, OpenDone (-1) None)
         else if \<not> persist_on ot then (open_set ot p x', OpenDone 0 (Some (op_stateid x')))
         else (let row = open_row_fill ot (op_other x) (op_seqid x') clientid fileid acc' den' owner
               in ((open_set ot p (x'\<lparr>op_pending := True\<rparr>))\<lparr>ot_calls := ot_calls ot @ [OpenPut row]\<rparr>,
                   OpenInFlight (Upgrade row (op_seqid x) (op_access x) (op_deny x)) (op_stateid x'))))"

definition open_state_open_fresh ::
  "open_alloc set \<Rightarrow> open_state_table \<Rightarrow> ptr list option \<Rightarrow> u64 \<Rightarrow> bytes \<Rightarrow> u64 \<Rightarrow> u32 \<Rightarrow> u32 \<Rightarrow>
   open_state_table \<times> open_phase" where
  "open_state_open_fresh oom ot fo clientid owner fileid acc den =
     (if A_open \<in> oom then (ot, OpenDone (-2) None)
      else let (ot1, oth) = make_stateid_other ot;
               sid = \<lparr>seqid = 1, other = oth\<rparr>;
               x = \<lparr>op_stateid = sid, op_clientid = clientid, op_fileid = fileid, op_access = acc,
                    op_deny = den, op_owner = owner, op_pending = persist_on ot\<rparr>
           in if share_conflict ot1 fo acc den then (ot1, OpenDone (-1) None)
              else case get_or_create_file_opens oom ot1 fileid of
                None \<Rightarrow> (ot1, OpenDone (-2) None)
              | Some ot2 \<Rightarrow>
                  (let ot3 = idx_link op_fileid op_other (hash_fileid ot2) (hash_other ot2) x ot2
                   in if \<not> persist_on ot then (ot3, OpenDone 0 (Some sid))
                      else (let row = open_row_fill ot oth 1 clientid fileid acc den owner
                            in (ot3\<lparr>ot_calls := ot_calls ot @ [OpenPut row]\<rparr>, OpenInFlight (Fresh row) sid))))"

definition open_state_open_begin ::
  "open_alloc set \<Rightarrow> open_state_table \<Rightarrow> u64 \<Rightarrow> bytes \<Rightarrow> u64 \<Rightarrow> u32 \<Rightarrow> u32 \<Rightarrow> open_state_table \<times> open_phase" where
  "open_state_open_begin oom ot clientid owner fileid acc den =
     (if acc AND OPEN4_SHARE_ACCESS_BOTH = 0 then (ot, OpenDone (-3) None)
      else if length owner > NFS4_OPEN_OWNER_MAX then (ot, OpenDone (-3) None)
      else let fo = find_file_opens ot fileid
           in case find_owner_open ot fo clientid owner of
                Some p \<Rightarrow>
                  if op_pending (deref ot p) then (ot, OpenDone (-5) None)
                  else open_state_upgrade_existing ot fo p clientid owner fileid acc den
              | None \<Rightarrow> open_state_open_fresh oom ot fo clientid owner fileid acc den)"

definition persisted :: "mds_status \<Rightarrow> bool" where
  "persisted pst \<longleftrightarrow> pst = MDS_OK \<or> pst = MDS_ERR_NOSUPPORT"

definition open_state_fresh_persist_commit :: "open_state_table \<Rightarrow> open_row \<Rightarrow> mds_status \<Rightarrow> open_state_table \<times> int" where
  "open_state_fresh_persist_commit ot row pst =
     (case find_by_other ot (orow_other row) of
        None \<Rightarrow> (if pst = MDS_OK then ot\<lparr>ot_calls := ot_calls ot @ [OpenDel (orow_other row)]\<rparr> else ot, -5)
      | Some p \<Rightarrow>
          if \<not> persisted pst then (open_record_free (unlink_from_file (unhash_stateid ot p) p) p, -5)
          else (open_set ot p ((deref ot p)\<lparr>op_pending := False\<rparr>), 0))"

definition open_state_upgrade_commit ::
  "open_state_table \<Rightarrow> open_row \<Rightarrow> u32 \<Rightarrow> u32 \<Rightarrow> u32 \<Rightarrow> mds_status \<Rightarrow> open_state_table \<times> int" where
  "open_state_upgrade_commit ot row prev_seqid prev_access prev_deny pst =
     (case find_by_other ot (orow_other row) of
        None \<Rightarrow> (ot, -5)
      | Some p \<Rightarrow>
          (let x = deref ot p
           in if \<not> persisted pst
              then (open_set ot p ((if op_seqid x = orow_seqid row
                                    then x\<lparr>op_stateid := (op_stateid x)\<lparr>seqid := prev_seqid\<rparr>,
                                           op_access := prev_access, op_deny := prev_deny\<rparr>
                                    else x)\<lparr>op_pending := False\<rparr>), -5)
              else (open_set ot p (x\<lparr>op_pending := False\<rparr>), 0)))"

definition open_commit :: "open_state_table \<Rightarrow> open_flight \<Rightarrow> mds_status \<Rightarrow> open_state_table \<times> int" where
  "open_commit ot fl pst =
     (case fl of
        Fresh row \<Rightarrow> open_state_fresh_persist_commit ot row pst
      | Upgrade row ps pa pd \<Rightarrow> open_state_upgrade_commit ot row ps pa pd pst)"

definition open_state_open ::
  "open_alloc set \<Rightarrow> mds_status \<Rightarrow> open_state_table \<Rightarrow> u64 \<Rightarrow> bytes \<Rightarrow> u64 \<Rightarrow> u32 \<Rightarrow> u32 \<Rightarrow>
   open_state_table \<times> int \<times> nfs4_stateid option" where
  "open_state_open oom pst ot clientid owner fileid acc den =
     (case open_state_open_begin oom ot clientid owner fileid acc den of
        (ot1, OpenDone rc out) \<Rightarrow> (ot1, rc, out)
      | (ot1, OpenInFlight fl out) \<Rightarrow> (let (ot2, rc) = open_commit ot1 fl pst in (ot2, rc, Some out)))"

section \<open>CLOSE, lookup and OPEN_DOWNGRADE\<close>

definition open_close_locked ::
  "open_state_table \<Rightarrow> u64 \<Rightarrow> nfs4_stateid \<Rightarrow> u64 \<Rightarrow> open_state_table \<times> int \<times> nfs4_stateid option" where
  "open_close_locked ot clientid sid fileid =
     (case find_by_other ot (other sid) of
        None \<Rightarrow> (ot, -1, None)
      | Some p \<Rightarrow>
          (let x = deref ot p
           in if op_fileid x \<noteq> fileid then (ot, -1, None)
              else if op_clientid x \<noteq> clientid then (ot, -1, None)
              else if op_pending x then (ot, -6, None)
              else if seqid sid \<noteq> 0 \<and> seqid sid \<noteq> op_seqid x then
                (ot, if seqid sid < op_seqid x then -4 else -1, None)
              else
                (let ot1 = unlink_from_file (unhash_stateid ot p) p;
                     ot2 = (if persist_on ot then ot1\<lparr>ot_calls := ot_calls ot1 @ [OpenDel (other sid)]\<rparr> else ot1)
                 in (open_record_free ot2 p, 0, Some ((op_stateid x)\<lparr>seqid := op_seqid x + 1\<rparr>)))))"

definition open_state_close ::
  "open_state_table \<Rightarrow> u64 \<Rightarrow> nfs4_stateid \<Rightarrow> open_state_table \<times> int \<times> nfs4_stateid option" where
  "open_state_close ot clientid sid =
     (case find_by_other ot (other sid) of
        None \<Rightarrow> (ot, -1, None)
      | Some p \<Rightarrow> open_close_locked ot clientid sid (op_fileid (deref ot p)))"

definition open_state_find :: "open_state_table \<Rightarrow> nfs4_stateid \<Rightarrow> nfs4_open_state option" where
  "open_state_find ot sid = map_option (deref ot) (find_by_other ot (other sid))"

definition open_state_file_has_writers :: "open_state_table \<Rightarrow> u64 \<Rightarrow> bool" where
  "open_state_file_has_writers ot fileid =
     (case find_file_opens ot fileid of None \<Rightarrow> False | Some ch \<Rightarrow> ch \<noteq> [])"

definition open_state_has_other_writer :: "open_state_table \<Rightarrow> u64 \<Rightarrow> u64 \<Rightarrow> bool" where
  "open_state_has_other_writer ot fileid clientid =
     (case find_file_opens ot fileid of None \<Rightarrow> False
      | Some ch \<Rightarrow> list_ex (\<lambda>p. op_clientid (deref ot p) \<noteq> clientid \<and>
                               op_access (deref ot p) AND OPEN4_SHARE_ACCESS_WRITE \<noteq> 0) ch)"

definition open_downgrade_locked ::
  "open_state_table \<Rightarrow> u64 \<Rightarrow> nfs4_stateid \<Rightarrow> u32 \<Rightarrow> u32 \<Rightarrow> u64 \<Rightarrow> open_state_table \<times> int \<times> nfs4_stateid option" where
  "open_downgrade_locked ot clientid sid acc den fileid =
     (case find_by_other ot (other sid) of
        None \<Rightarrow> (ot, -2, None)
      | Some p \<Rightarrow>
          (let x = deref ot p
           in if op_fileid x \<noteq> fileid then (ot, -2, None)
              else if op_clientid x \<noteq> clientid then (ot, -2, None)
              else if op_pending x then (ot, -6, None)
              else if seqid sid \<noteq> 0 \<and> op_seqid x \<noteq> seqid sid then
                (ot, if seqid sid < op_seqid x then -4 else -3, None)
              else if acc AND NOT (op_access x) \<noteq> 0 then (ot, -5, None)
              else
                (let x' = x\<lparr>op_access := acc, op_deny := den,
                            op_stateid := (op_stateid x)\<lparr>seqid := op_seqid x + 1\<rparr>\<rparr>
                 in (open_set ot p x', 0, Some (op_stateid x')))))"

definition open_state_downgrade ::
  "open_state_table \<Rightarrow> u64 \<Rightarrow> nfs4_stateid \<Rightarrow> u32 \<Rightarrow> u32 \<Rightarrow> open_state_table \<times> int \<times> nfs4_stateid option" where
  "open_state_downgrade ot clientid sid acc den =
     (case find_by_other ot (other sid) of
        None \<Rightarrow> (ot, -2, None)
      | Some p \<Rightarrow> open_downgrade_locked ot clientid sid acc den (op_fileid (deref ot p)))"

section \<open>Client teardown and courtesy revocation\<close>

definition close_all_visit :: "u64 \<Rightarrow> open_state_table \<Rightarrow> ptr \<Rightarrow> open_state_table" where
  "close_all_visit clientid ot p =
     (if op_clientid (deref ot p) = clientid
      then open_record_free (unlink_from_file (unhash_stateid ot p) p) p else ot)"

definition close_all_bucket :: "u64 \<Rightarrow> open_state_table \<Rightarrow> u32 \<Rightarrow> open_state_table" where
  "close_all_bucket clientid ot b = foldl (close_all_visit clientid) ot (sid_hash ot b)"

definition open_state_close_all_for_client :: "open_state_table \<Rightarrow> u64 \<Rightarrow> open_state_table" where
  "open_state_close_all_for_client ot clientid =
     (if lock_stripes ot = 0 then ot
      else foldl (close_all_bucket clientid) ot (map of_nat [0..<unat (stateid_buckets ot)]))"

definition revoke_collect_clientids :: "open_state_table \<Rightarrow> u64 \<Rightarrow> nat \<Rightarrow> u64 list" where
  "revoke_collect_clientids ot fileid cap =
     (case find_file_opens ot fileid of
        None \<Rightarrow> []
      | Some ch \<Rightarrow>
          foldl (\<lambda>cids p. let c = op_clientid (deref ot p)
                          in if c \<notin> set cids \<and> length cids < cap then cids @ [c] else cids) [] ch)"

definition revoke_visit :: "u64 list \<Rightarrow> (u64 \<Rightarrow> bool) \<Rightarrow> u64 \<Rightarrow> open_state_table \<times> int \<Rightarrow> ptr \<Rightarrow> open_state_table \<times> int" where
  "revoke_visit cids expired fileid s p =
     (let ot = fst s; c = op_clientid (deref ot p)
      in if c \<in> set cids \<and> expired c
         then (open_record_free (unhash_stateid (file_chain_unlink ot fileid p) p) p, snd s + 1) else s)"

definition revoke_remove_expired_locked ::
  "open_state_table \<Rightarrow> u64 \<Rightarrow> u64 list \<Rightarrow> (u64 \<Rightarrow> bool) \<Rightarrow> open_state_table \<times> int" where
  "revoke_remove_expired_locked ot fileid cids expired =
     (case find_file_opens ot fileid of
        None \<Rightarrow> (ot, 0)
      | Some ch \<Rightarrow>
          (let (ot1, n) = foldl (revoke_visit cids expired fileid) (ot, 0) ch
           in (if find_file_opens ot1 fileid = Some [] then maybe_free_file_opens ot1 fileid else ot1, n)))"

definition open_state_revoke_expired_for_file ::
  "(u64 \<Rightarrow> bool) \<Rightarrow> open_state_table \<Rightarrow> u64 \<Rightarrow> open_state_table \<times> int" where
  "open_state_revoke_expired_for_file expired ot fileid =
     (let cids = revoke_collect_clientids ot fileid REVOKE_MAX_CLIENTS
      in if cids = [] then (ot, 0)
         else if \<not> list_ex expired cids then (ot, 0)
         else revoke_remove_expired_locked ot fileid cids expired)"

end
