(* ===== verification/Open_Index.thy ===== *)
theory Open_Index
  imports Open_State
begin

text \<open>
  The open table as a stateid index: the contract \<open>stateid_index\<close> is interpreted on the table's own
  insertion, update and removal, and the removal loops (client teardown, courtesy revocation) are
  reduced to folds of that removal.
\<close>

section \<open>Operations of the contract\<close>

definition open_wf :: "open_state_table \<Rightarrow> bool" where
  "open_wf ot = idx_wf op_fileid op_other (hash_fileid ot) (hash_other ot) ot"

definition open_chain :: "open_state_table \<Rightarrow> u64 \<Rightarrow> ptr list" where
  "open_chain ot = file_chain (hash_fileid ot) ot"

definition open_ensure_head :: "open_state_table \<Rightarrow> u64 \<Rightarrow> open_state_table" where
  "open_ensure_head ot f = (case find_file_opens ot f of Some _ \<Rightarrow> ot | None \<Rightarrow> idx_add_head (hash_fileid ot) f ot)"

definition open_insert :: "open_state_table \<Rightarrow> nfs4_open_state \<Rightarrow> open_state_table" where
  "open_insert ot x =
     idx_link op_fileid op_other (hash_fileid ot) (hash_other ot) x (open_ensure_head ot (op_fileid x))"

definition open_discard :: "open_state_table \<Rightarrow> ptr \<Rightarrow> open_state_table" where
  "open_discard ot p = open_record_free (unlink_from_file (unhash_stateid ot p) p) p"

section \<open>Frame facts\<close>

lemma hash_more_cong [simp]:
  "hash_other (ot\<lparr>heap := h\<rparr>) = hash_other ot" "hash_fileid (ot\<lparr>heap := h\<rparr>) = hash_fileid ot"
  "hash_other (ot\<lparr>sid_hash := s\<rparr>) = hash_other ot" "hash_fileid (ot\<lparr>sid_hash := s\<rparr>) = hash_fileid ot"
  "hash_other (ot\<lparr>file_hash := fs\<rparr>) = hash_other ot" "hash_fileid (ot\<lparr>file_hash := fs\<rparr>) = hash_fileid ot"
  "hash_other (ot\<lparr>next_ptr := np\<rparr>) = hash_other ot" "hash_fileid (ot\<lparr>next_ptr := np\<rparr>) = hash_fileid ot"
  "hash_other (ot\<lparr>ot_calls := cs\<rparr>) = hash_other ot" "hash_fileid (ot\<lparr>ot_calls := cs\<rparr>) = hash_fileid ot"
  "hash_other (ot\<lparr>next_other_seq := q\<rparr>) = hash_other ot" "hash_fileid (ot\<lparr>next_other_seq := q\<rparr>) = hash_fileid ot"
  by (simp_all add: hash_other_def hash_fileid_def fun_eq_iff)

text \<open>Everything of the table that the index operations leave alone.\<close>

definition cfg :: "open_state_table \<Rightarrow> u32 \<times> u32 \<times> u32 \<times> u64 \<times> u32 \<times> bool \<times> u64 \<times> bool" where
  "cfg ot = (stateid_buckets ot, file_buckets ot, lock_stripes ot, next_other_seq ot, ot_mds_id ot, ot_cat ot,
             ot_boot_epoch ot, ot_skip_ndb ot)"

lemma cfg_simps [simp]:
  "cfg (open_set ot p x) = cfg ot" "cfg (open_discard ot p) = cfg ot" "cfg (open_insert ot x) = cfg ot"
  "cfg (ot\<lparr>ot_calls := cs\<rparr>) = cfg ot"
  by (simp_all add: cfg_def open_set_def open_discard_def open_record_free_def unlink_from_file_def
      unhash_stateid_def file_chain_unlink_def maybe_free_file_opens_def idx_drop_head_def open_insert_def
      idx_link_def open_ensure_head_def idx_add_head_def Let_def split: option.splits)

lemma cfg_D:
  assumes "cfg ot' = cfg ot"
  shows "stateid_buckets ot' = stateid_buckets ot" "lock_stripes ot' = lock_stripes ot"
    "next_other_seq ot' = next_other_seq ot" "ot_mds_id ot' = ot_mds_id ot" "persist_on ot' = persist_on ot"
    "hash_other ot' = hash_other ot" "hash_fileid ot' = hash_fileid ot" "ot_boot_epoch ot' = ot_boot_epoch ot"
  using assms by (simp_all add: cfg_def persist_on_def hash_other_def hash_fileid_def fun_eq_iff)

lemmas open_insert_cfg [simp] = cfg_D [OF cfg_simps(3)]
lemmas open_discard_cfg [simp] = cfg_D [OF cfg_simps(2)]
lemmas open_set_cfg [simp] = cfg_D [OF cfg_simps(1)]

lemma ot_calls_simps [simp]:
  "ot_calls (open_set ot p x) = ot_calls ot" "ot_calls (open_discard ot p) = ot_calls ot"
  "ot_calls (open_insert ot x) = ot_calls ot"
  by (simp_all add: open_set_def open_discard_def open_record_free_def unlink_from_file_def
      unhash_stateid_def file_chain_unlink_def maybe_free_file_opens_def idx_drop_head_def open_insert_def
      idx_link_def open_ensure_head_def idx_add_head_def Let_def split: option.splits)

lemma index_frame [simp]:
  "open_wf (ot\<lparr>ot_calls := cs\<rparr>) = open_wf ot" "open_wf (ot\<lparr>next_other_seq := q\<rparr>) = open_wf ot"
  "open_chain (ot\<lparr>ot_calls := cs\<rparr>) = open_chain ot" "open_chain (ot\<lparr>next_other_seq := q\<rparr>) = open_chain ot"
  "find_by_other (ot\<lparr>ot_calls := cs\<rparr>) = find_by_other ot"
  "find_by_other (ot\<lparr>next_other_seq := q\<rparr>) = find_by_other ot"
  "find_file_opens (ot\<lparr>ot_calls := cs\<rparr>) = find_file_opens ot"
  "find_file_opens (ot\<lparr>next_other_seq := q\<rparr>) = find_file_opens ot"
  by (simp_all add: open_wf_def idx_wf_def open_chain_def file_chain_def find_by_other_def find_file_opens_def
      fun_eq_iff)

section \<open>Interpretation\<close>

lemma find_by_other_lookup: "find_by_other ot = sid_lookup op_other (hash_other ot) ot"
  by (rule ext) (simp add: find_by_other_def sid_lookup_def)

lemma find_file_opens_chain: "(case find_file_opens ot f of Some ch \<Rightarrow> ch | None \<Rightarrow> []) = open_chain ot f"
  by (simp add: find_file_opens_def open_chain_def file_chain_def split: option.splits)

lemma ensure_head_simps [simp]:
  "heap (open_ensure_head ot f) = heap ot" "next_ptr (open_ensure_head ot f) = next_ptr ot"
  "sid_hash (open_ensure_head ot f) = sid_hash ot" "hash_other (open_ensure_head ot f) = hash_other ot"
  "hash_fileid (open_ensure_head ot f) = hash_fileid ot"
  by (auto simp: open_ensure_head_def idx_add_head_def split: option.splits)

lemma ensure_head_wf: "open_wf ot \<Longrightarrow> open_wf (open_ensure_head ot f)"
  unfolding open_wf_def ensure_head_simps
  by (auto simp: open_ensure_head_def find_file_opens_def intro: idx_wf_add_head split: option.splits)

lemma ensure_head_head: "map_of (file_hash (open_ensure_head ot f) (hash_fileid ot f)) f \<noteq> None"
  by (auto simp: open_ensure_head_def find_file_opens_def split: option.splits)

lemma open_insert_wf:
  assumes "open_wf ot" "\<forall>q y. heap ot q = Some y \<longrightarrow> op_other y \<noteq> op_other x"
  shows "open_wf (open_insert ot x)"
  using ensure_head_wf [OF assms(1), of "op_fileid x"] ensure_head_head assms(2)
  unfolding open_wf_def open_insert_cfg ensure_head_simps
  unfolding open_insert_def
  by (intro idx_wf_link) auto

lemma open_discard_idx:
  assumes wf: "open_wf ot" and x: "heap ot p = Some x"
  shows "open_discard ot p = idx_drop_head (hash_fileid ot) (op_fileid x)
           (idx_unlink (hash_fileid ot) (hash_other ot) (op_fileid x) (op_other x) p ot)"
proof -
  have "p \<in> set (file_chain (hash_fileid ot) ot (op_fileid x))"
    using file_chain_iff wf x unfolding open_wf_def by blast
  then have "find_file_opens ot (op_fileid x) \<noteq> None"
    by (intro notI) (simp add: file_chain_def find_file_opens_def)
  moreover have "find_file_opens (ot\<lparr>sid_hash := s\<rparr>) = find_file_opens ot" for s
    by (simp add: find_file_opens_def fun_eq_iff)
  ultimately show ?thesis
    using x by (auto simp: open_discard_def open_record_free_def unlink_from_file_def unhash_stateid_def
        maybe_free_file_opens_def file_chain_unlink_def idx_drop_head_def idx_unlink_def Let_def)
qed

interpretation op: stateid_index open_wf heap op_other op_fileid find_by_other open_chain next_ptr
  open_insert open_set open_discard
proof (unfold_locales, goal_cases)
  case (1 t s p)
  then show ?case by (simp add: find_by_other_lookup open_wf_def sid_lookup_iff)
next
  case (2 t p f)
  then show ?case unfolding open_wf_def open_chain_def by (rule file_chain_iff)
next
  case (3 t f)
  then show ?case unfolding open_wf_def open_chain_def by (rule file_chain_distinct)
next
  case (4 t)
  then show ?case unfolding open_wf_def by (rule wf_new_addr)
next
  case (5 t x)
  then show ?case by (rule open_insert_wf)
next
  case (6 t x)
  then show ?case by (simp add: open_insert_def)
next
  case (7 t p x y)
  then show ?case unfolding open_wf_def open_set_def hash_more_cong by (intro idx_wf_update) auto
next
  case (8 t p y)
  then show ?case by (simp add: open_set_def)
next
  case (9 t p x)
  then show ?case
    unfolding open_wf_def open_discard_cfg
    unfolding open_discard_idx [OF 9] open_wf_def
    by (intro idx_wf_drop_head idx_wf_unlink)
next
  case (10 t p x)
  then show ?case
    by (simp add: open_discard_def open_record_free_def unlink_from_file_def unhash_stateid_def
        maybe_free_file_opens_def file_chain_unlink_def Let_def split: option.splits)
qed

text \<open>The revocation loop unlinks a record from its chain but leaves an empty head to the end of the loop.\<close>

definition open_discard_keep :: "open_state_table \<Rightarrow> ptr \<Rightarrow> open_state_table" where
  "open_discard_keep ot p =
     open_record_free (unhash_stateid (file_chain_unlink ot (op_fileid (deref ot p)) p) p) p"

lemma open_discard_keep_idx:
  "open_discard_keep ot p =
     idx_unlink (hash_fileid ot) (hash_other ot) (op_fileid (deref ot p)) (op_other (deref ot p)) p ot"
  by (simp add: open_discard_keep_def open_record_free_def unhash_stateid_def file_chain_unlink_def idx_unlink_def
      Let_def)

lemma open_discard_keep_cfg [simp]: "cfg (open_discard_keep ot p) = cfg ot"
  by (simp add: cfg_def open_discard_keep_def open_record_free_def unhash_stateid_def file_chain_unlink_def Let_def)

interpretation opk: stateid_index open_wf heap op_other op_fileid find_by_other open_chain next_ptr
  open_insert open_set open_discard_keep
proof (unfold_locales, goal_cases)
  case (9 t p x)
  then have "idx_wf op_fileid op_other (hash_fileid t) (hash_other t) t" by (simp add: open_wf_def)
  then show ?case
    unfolding open_wf_def cfg_D [OF open_discard_keep_cfg]
    unfolding open_discard_keep_idx 9(2) option.sel by (rule idx_wf_unlink) (rule 9(2))
next
  case (10 t p x)
  then show ?case by (simp add: open_discard_keep_idx)
qed (assumption | rule op.by_sid_iff op.chain_iff op.chain_distinct op.new_addr op.insert_inv op.insert_objs
     op.update_inv op.update_objs)+

section \<open>Client teardown\<close>

lemma close_all_visit_eq:
  "close_all_visit clientid = (\<lambda>ot p. if op_clientid (the (heap ot p)) = clientid then open_discard ot p else ot)"
  by (intro ext) (simp add: close_all_visit_def open_discard_def)

lemma fold_cfg: "(\<And>ot p. cfg (g ot p) = cfg ot) \<Longrightarrow> cfg (foldl g ot ps) = cfg ot"
  by (induction ps arbitrary: ot) simp_all

lemma close_all_bucket_heap:
  assumes wf: "open_wf ot"
  shows "open_wf (close_all_bucket c ot b)" "cfg (close_all_bucket c ot b) = cfg ot"
    "heap (close_all_bucket c ot b) =
       heap_filter (\<lambda>x. \<not> (op_clientid x = c \<and> hash_other ot (op_other x) = b)) (heap ot)"
proof -
  have wf': "idx_wf op_fileid op_other (hash_fileid ot) (hash_other ot) ot" using wf by (simp add: open_wf_def)
  have ps: "distinct (sid_hash ot b)" "\<forall>p \<in> set (sid_hash ot b). heap ot p \<noteq> None"
    using wf_sidD [OF wf', where b = b] by auto
  note V = op.visit_all_objs [OF wf ps, of "\<lambda>x. op_clientid x = c"]
  show "open_wf (close_all_bucket c ot b)" using V(1) by (simp add: close_all_bucket_def close_all_visit_eq)
  show "cfg (close_all_bucket c ot b) = cfg ot"
    unfolding close_all_bucket_def by (rule fold_cfg) (simp add: close_all_visit_eq)
  have mem: "p \<in> set (sid_hash ot b) \<longleftrightarrow> hash_other ot (op_other x) = b" if "heap ot p = Some x" for p x
    using wf_sidD(2) [OF wf', of p b] wf_heapD(1) [OF wf' that] that by auto
  have "(\<lambda>p. if p \<in> set (sid_hash ot b) \<and> op_clientid (the (heap ot p)) = c then None else heap ot p) =
      heap_filter (\<lambda>x. \<not> (op_clientid x = c \<and> hash_other ot (op_other x) = b)) (heap ot)" (is "?l = ?r")
  proof
    show "?l p = ?r p" for p using mem [of p] by (cases "heap ot p") (auto simp: heap_filter_def)
  qed
  then show "heap (close_all_bucket c ot b) =
      heap_filter (\<lambda>x. \<not> (op_clientid x = c \<and> hash_other ot (op_other x) = b)) (heap ot)"
    using V(2) by (simp add: close_all_bucket_def close_all_visit_eq)
qed

lemma close_all_buckets_heap:
  assumes "open_wf ot"
  shows "open_wf (foldl (close_all_bucket c) ot bs) \<and> cfg (foldl (close_all_bucket c) ot bs) = cfg ot \<and>
    heap (foldl (close_all_bucket c) ot bs) =
      heap_filter (\<lambda>x. \<not> (op_clientid x = c \<and> hash_other ot (op_other x) \<in> set bs)) (heap ot)"
  using assms
proof (induction bs arbitrary: ot)
  case Nil
  then show ?case by simp
next
  case (Cons b bs)
  note B = close_all_bucket_heap [OF Cons.prems, of c b]
  show ?case using Cons.IH [OF B(1)] B cfg_D(6) [OF B(2)] by (auto intro!: heap_filter_cong)
qed

lemma hash_other_bucket:
  assumes "stateid_buckets ot \<noteq> 0"
  shows "hash_other ot oth \<in> set (map of_nat [0..<unat (stateid_buckets ot)])"
proof -
  let ?m = "os_mix64 (le_load (take 8 (drop 4 oth))) mod ucast (stateid_buckets ot)"
  have "unat (stateid_buckets ot) < 2 ^ 32" by (rule order_less_le_trans [OF unsigned_less]) simp
  then have u: "unat (ucast (stateid_buckets ot) :: u64) = unat (stateid_buckets ot)"
    by (simp add: unsigned_ucast_eq take_bit_nat_eq_self)
  have "ucast (stateid_buckets ot) \<noteq> (0 :: u64)"
  proof
    assume "ucast (stateid_buckets ot) = (0 :: u64)"
    then have "unat (stateid_buckets ot) = 0" using u by simp
    then show False using assms by (simp add: unsigned_eq_0_iff)
  qed
  then have "?m < ucast (stateid_buckets ot)" by (simp add: word_mod_less_divisor word_neq_0_conv)
  then have "unat ?m < unat (stateid_buckets ot)"
    by (simp add: word_less_nat_alt u)
  then have "unat (hash_other ot oth) < unat (stateid_buckets ot)"
    by (auto simp: hash_other_def unsigned_ucast_eq intro: le_less_trans [OF take_bit_nat_less_eq_self])
  then have "unat (hash_other ot oth) \<in> set [0..<unat (stateid_buckets ot)]" by simp
  then have "of_nat (unat (hash_other ot oth)) \<in> set (map (of_nat :: nat \<Rightarrow> u32) [0..<unat (stateid_buckets ot)])"
    unfolding set_map by (rule imageI)
  then show ?thesis by simp
qed

lemma close_all_heap:
  assumes "open_wf ot" "stateid_buckets ot \<noteq> 0" "lock_stripes ot \<noteq> 0"
  shows "open_wf (open_state_close_all_for_client ot c)"
    "cfg (open_state_close_all_for_client ot c) = cfg ot"
    "heap (open_state_close_all_for_client ot c) = heap_filter (\<lambda>x. op_clientid x \<noteq> c) (heap ot)"
proof -
  note B = close_all_buckets_heap [OF assms(1), of c "map of_nat [0..<unat (stateid_buckets ot)]"]
  have "heap_filter (\<lambda>x. \<not> (op_clientid x = c \<and> hash_other ot (op_other x) \<in> set (map of_nat [0..<unat (stateid_buckets ot)]))) (heap ot) =
      heap_filter (\<lambda>x. op_clientid x \<noteq> c) (heap ot)"
    by (intro heap_filter_cong) (simp only: hash_other_bucket [OF assms(2)] simp_thms)
  with B assms(3) show "open_wf (open_state_close_all_for_client ot c)"
    "cfg (open_state_close_all_for_client ot c) = cfg ot"
    "heap (open_state_close_all_for_client ot c) = heap_filter (\<lambda>x. op_clientid x \<noteq> c) (heap ot)"
    by (simp_all add: open_state_close_all_for_client_def)
qed

section \<open>Revocation\<close>

lemma revoke_fold:
  assumes "distinct ps" "\<forall>p \<in> set ps. \<exists>x. heap ot p = Some x \<and> op_fileid x = f"
  shows "foldl (revoke_visit cids expired f) (ot, n) ps =
    (foldl (\<lambda>t p. if op_clientid (the (heap t p)) \<in> set cids \<and> expired (op_clientid (the (heap t p)))
                   then open_discard_keep t p else t) ot ps,
     n + int (length (filter (\<lambda>p. op_clientid (deref ot p) \<in> set cids \<and> expired (op_clientid (deref ot p))) ps)))"
  using assms
proof (induction ps arbitrary: ot n)
  case Nil
  then show ?case by simp
next
  case (Cons p ps)
  then obtain x where x: "heap ot p = Some x" "op_fileid x = f" by auto
  have h: "heap (open_discard_keep ot p) q = heap ot q" if "q \<in> set ps" for q
    using that Cons.prems(1) opk.discard_objs [OF x(1)] by auto
  then have "filter (\<lambda>q. op_clientid (deref (open_discard_keep ot p) q) \<in> set cids \<and> expired (op_clientid (deref (open_discard_keep ot p) q))) ps
      = filter (\<lambda>q. op_clientid (deref ot q) \<in> set cids \<and> expired (op_clientid (deref ot q))) ps"
    by (auto intro: filter_cong)
  then show ?case using Cons h x by (simp add: revoke_visit_def open_discard_keep_def Let_def)
qed

lemma drop_head_wf: "open_wf ot \<Longrightarrow> open_wf (maybe_free_file_opens ot f)"
  using idx_wf_drop_head [of op_fileid op_other "hash_fileid ot" "hash_other ot" ot f]
  by (simp add: open_wf_def maybe_free_file_opens_def idx_drop_head_def)

lemma maybe_free_simps [simp]:
  "heap (maybe_free_file_opens ot f) = heap ot" "cfg (maybe_free_file_opens ot f) = cfg ot"
  by (simp_all add: maybe_free_file_opens_def cfg_def idx_drop_head_def)

lemma revoke_remove_heap:
  assumes wf: "open_wf ot"
  shows "open_wf (fst (revoke_remove_expired_locked ot f cids expired))"
    "cfg (fst (revoke_remove_expired_locked ot f cids expired)) = cfg ot"
    "heap (fst (revoke_remove_expired_locked ot f cids expired)) =
       heap_filter (\<lambda>x. \<not> (op_fileid x = f \<and> op_clientid x \<in> set cids \<and> expired (op_clientid x))) (heap ot)"
    "snd (revoke_remove_expired_locked ot f cids expired) =
       int (card {p. \<exists>x. heap ot p = Some x \<and> op_fileid x = f \<and> op_clientid x \<in> set cids \<and> expired (op_clientid x)})"
proof -
  let ?P = "\<lambda>x. op_clientid x \<in> set cids \<and> expired (op_clientid x)"
  let ?ch = "open_chain ot f"
  let ?v = "\<lambda>t p. if ?P (the (heap t p)) then open_discard_keep t p else t"
  have ch: "distinct ?ch" "\<forall>p \<in> set ?ch. \<exists>x. heap ot p = Some x \<and> op_fileid x = f"
    using op.chain_distinct [OF wf] op.chain_iff [OF wf] by blast+
  have live: "\<forall>p \<in> set ?ch. heap ot p \<noteq> None" using ch(2) by force
  note V = opk.visit_all_objs [OF wf ch(1) live, of ?P]
  have c: "cfg (foldl ?v ot ?ch) = cfg ot" by (rule fold_cfg) simp
  obtain t n where R: "revoke_remove_expired_locked ot f cids expired = (t, n)" by (cases "revoke_remove_expired_locked ot f cids expired") auto
  have eq: "t = foldl ?v ot ?ch \<or> t = maybe_free_file_opens (foldl ?v ot ?ch) f"
    "n = int (length (filter (\<lambda>p. ?P (deref ot p)) ?ch))"
    using revoke_fold [OF ch, of cids expired 0] R find_file_opens_chain [of ot f]
    by (auto simp: revoke_remove_expired_locked_def split: option.splits if_splits)
  have heq: "(\<lambda>p. if p \<in> set ?ch \<and> ?P (the (heap ot p)) then None else heap ot p) =
      heap_filter (\<lambda>x. \<not> (op_fileid x = f \<and> ?P x)) (heap ot)" (is "?l = ?r")
  proof
    show "?l p = ?r p" for p using op.chain_iff [OF wf, of p f] by (cases "heap ot p") (auto simp: heap_filter_def)
  qed
  show "open_wf (fst (revoke_remove_expired_locked ot f cids expired))"
    using eq(1) V(1) drop_head_wf [OF V(1)] by (auto simp: R)
  show "cfg (fst (revoke_remove_expired_locked ot f cids expired)) = cfg ot" using eq(1) c by (auto simp: R)
  show "heap (fst (revoke_remove_expired_locked ot f cids expired)) = ?r" using eq(1) V(2) heq by (auto simp: R)
  have "set (filter (\<lambda>p. ?P (deref ot p)) ?ch) = {p. \<exists>x. heap ot p = Some x \<and> op_fileid x = f \<and> ?P x}"
    using op.chain_iff [OF wf, of _ f] by auto
  then show "snd (revoke_remove_expired_locked ot f cids expired) =
      int (card {p. \<exists>x. heap ot p = Some x \<and> op_fileid x = f \<and> op_clientid x \<in> set cids \<and> expired (op_clientid x)})"
    using distinct_card [of "filter (\<lambda>p. ?P (deref ot p)) ?ch"] ch(1) eq(2) by (simp add: R)
qed

end
