(* ===== verification/Open_Inv.thy ===== *)
theory Open_Inv
  imports Open_Index
begin

text \<open>
  The invariants of the open table. \<open>open_inv\<close> is the well-formedness of the table: index agreement,
  minted stateids, one record per (file, client, owner). \<open>share_safe\<close> is the share reservation
  rule of RFC 8881 section 9.1.1 over the records. \<open>sys_inv\<close> adds the OPENs whose durable write is in flight:
  a pending record and its flight agree, so that the second lock section of OPEN acts on the record that the
  first one published. Each operation is reduced to one of four heap changes, and every invariant is proved
  once per change.
\<close>

section \<open>Invariants\<close>

definition sid_minted :: "u32 \<Rightarrow> u64 \<Rightarrow> nat \<Rightarrow> bytes \<Rightarrow> bool" where
  "sid_minted mds seed n oth \<longleftrightarrow> (\<exists>k < n. oth = open_other mds (seed + of_nat k))"

definition same_owner :: "nfs4_open_state \<Rightarrow> nfs4_open_state \<Rightarrow> bool" where
  "same_owner x y \<longleftrightarrow> op_fileid x = op_fileid y \<and> op_clientid x = op_clientid y \<and> op_owner x = op_owner y"

definition owners_unique :: "(ptr \<rightharpoonup> nfs4_open_state) \<Rightarrow> bool" where
  "owners_unique h \<longleftrightarrow> (\<forall>p q x y. h p = Some x \<longrightarrow> h q = Some y \<longrightarrow> same_owner x y \<longrightarrow> p = q)"

definition open_inv :: "u64 \<Rightarrow> nat \<Rightarrow> open_state_table \<Rightarrow> bool" where
  "open_inv seed n ot \<longleftrightarrow>
     open_wf ot \<and> stateid_buckets ot \<noteq> 0 \<and> lock_stripes ot \<noteq> 0 \<and> next_other_seq ot = seed + of_nat n \<and>
     (\<forall>p x. heap ot p = Some x \<longrightarrow> sid_minted (ot_mds_id ot) seed n (op_other x)) \<and> owners_unique (heap ot)"

definition share_safe :: "(ptr \<rightharpoonup> nfs4_open_state) \<Rightarrow> bool" where
  "share_safe h \<longleftrightarrow> (\<forall>p q x y. h p = Some x \<longrightarrow> h q = Some y \<longrightarrow> p \<noteq> q \<longrightarrow> op_fileid x = op_fileid y \<longrightarrow>
     \<not> modes_conflict x (op_access y) (op_deny y))"

abbreviation flight_other :: "open_flight \<Rightarrow> bytes" where
  "flight_other fl \<equiv> orow_other (flight_row fl)"

definition flight_ok :: "open_flight \<Rightarrow> nfs4_open_state \<Rightarrow> bool" where
  "flight_ok fl x \<longleftrightarrow>
     op_pending x \<and> op_seqid x = orow_seqid (flight_row fl) \<and> op_access x = orow_access (flight_row fl) \<and>
     op_deny x = orow_deny (flight_row fl) \<and>
     (case fl of Fresh _ \<Rightarrow> True
      | Upgrade _ ps pa pd \<Rightarrow> pa AND NOT (op_access x) = 0 \<and> pd AND NOT (op_deny x) = 0)"

definition flights_inv :: "(bytes \<Rightarrow> bool) \<Rightarrow> (ptr \<rightharpoonup> nfs4_open_state) \<Rightarrow> open_flight list \<Rightarrow> bool" where
  "flights_inv M h fls \<longleftrightarrow>
     distinct (map flight_other fls) \<and> (\<forall>fl \<in> set fls. M (flight_other fl)) \<and>
     (\<forall>fl \<in> set fls. \<forall>p x. h p = Some x \<longrightarrow> op_other x = flight_other fl \<longrightarrow> flight_ok fl x) \<and>
     (\<forall>p x. h p = Some x \<longrightarrow> op_pending x \<longrightarrow> op_other x \<in> flight_other ` set fls)"

section \<open>Stateids\<close>

lemma open_other_inj:
  assumes "open_other mds a = open_other mds b"
  shows "a = b"
proof -
  have "be_bytes 8 a = be_bytes 8 b" using assms by (simp add: open_other_def)
  then show ?thesis using be_bytes_inj [of 8 a b] by (simp add: take_bit_word_eq_self)
qed

lemma sid_minted_fresh:
  assumes "sid_minted mds seed n oth" "n < 2 ^ 64"
  shows "oth \<noteq> open_other mds (seed + of_nat n)"
proof
  assume "oth = open_other mds (seed + of_nat n)"
  with assms(1) obtain k where "k < n" "open_other mds (seed + of_nat k) = open_other mds (seed + of_nat n)"
    by (auto simp: sid_minted_def)
  then have "k < n" "(of_nat k :: u64) = of_nat n" using open_other_inj by fastforce+
  then show False using of_nat_u64_inj [of k n] assms(2) by simp
qed

lemma sid_minted_mono: "sid_minted mds seed n oth \<Longrightarrow> n \<le> m \<Longrightarrow> sid_minted mds seed m oth"
  by (auto simp: sid_minted_def intro: less_le_trans)

lemma sid_minted_new: "sid_minted mds seed (Suc n) (open_other mds (seed + of_nat n))"
  by (auto simp: sid_minted_def)

section \<open>Lookups over the heap\<close>

lemma open_chain_cases:
  "(case find_file_opens ot f of None \<Rightarrow> False | Some ch \<Rightarrow> list_ex Q ch) \<longleftrightarrow> (\<exists>p \<in> set (open_chain ot f). Q p)"
  using find_file_opens_chain [of ot f] by (auto simp: list_ex_iff split: option.splits)

lemma share_conflict_iff:
  "open_wf ot \<Longrightarrow> share_conflict ot (find_file_opens ot f) a d \<longleftrightarrow>
     (\<exists>p x. heap ot p = Some x \<and> op_fileid x = f \<and> modes_conflict x a d)"
  unfolding share_conflict_def open_chain_cases Bex_def op.chain_iff by force

lemma share_conflict_excluding_iff:
  "open_wf ot \<Longrightarrow> share_conflict_excluding ot (find_file_opens ot f) p a d \<longleftrightarrow>
     (\<exists>q x. q \<noteq> p \<and> heap ot q = Some x \<and> op_fileid x = f \<and> modes_conflict x a d)"
  unfolding share_conflict_excluding_def open_chain_cases Bex_def op.chain_iff by force

lemma find_owner_open_chain:
  "find_owner_open ot (find_file_opens ot f) c w =
     chain_find (heap ot) (\<lambda>x. op_clientid x = c \<and> op_owner x = w) (open_chain ot f)"
  using find_file_opens_chain [of ot f] by (auto simp: find_owner_open_def split: option.splits)

lemma find_owner_open_Some:
  assumes "open_wf ot" "find_owner_open ot (find_file_opens ot f) c w = Some p"
  obtains x where "heap ot p = Some x" "op_fileid x = f" "op_clientid x = c" "op_owner x = w"
  using assms chain_find_SomeD [of "heap ot" _ "open_chain ot f" p]
  by (fastforce simp: find_owner_open_chain op.chain_iff)

lemma find_owner_open_None:
  assumes "open_wf ot"
  shows "find_owner_open ot (find_file_opens ot f) c w = None \<longleftrightarrow>
    (\<forall>p x. heap ot p = Some x \<longrightarrow> \<not> (op_fileid x = f \<and> op_clientid x = c \<and> op_owner x = w))"
  unfolding find_owner_open_chain chain_find_None_iff Ball_def op.chain_iff [OF assms] by force

section \<open>Share modes\<close>

lemma mode_subset_bit:
  fixes a b :: u32
  assumes "a AND NOT b = 0"
  shows "bit a n \<Longrightarrow> bit b n"
proof -
  assume "bit a n"
  then have "n < 32" using bit_imp_le_length by fastforce
  have "\<not> bit (a AND NOT b) n" using assms by simp
  then show ?thesis using \<open>bit a n\<close> \<open>n < 32\<close> by (simp add: bit_and_iff bit_not_iff)
qed

lemma mode_and_zero_mono:
  fixes a b c d :: u32
  assumes "a AND NOT b = 0" "c AND NOT d = 0" "b AND d = 0"
  shows "a AND c = 0"
proof (rule bit_eqI)
  fix n
  have "\<not> (bit b n \<and> bit d n)" using assms(3) bit_and_iff [of b d n] by simp
  then show "bit (a AND c) n = bit (0 :: u32) n"
    using mode_subset_bit [OF assms(1), of n] mode_subset_bit [OF assms(2), of n] by (auto simp: bit_and_iff)
qed

lemma mode_subset_refl [simp]: "(a :: u32) AND NOT a = 0"
  by (rule bit_eqI) (auto simp: bit_simps)

lemma mode_subset_or [simp]: "(a :: u32) AND (NOT a AND NOT b) = 0"
  by (rule bit_eqI) (auto simp: bit_simps)

lemma modes_conflict_sym:
  "modes_conflict x (op_access y) (op_deny y) \<longleftrightarrow> modes_conflict y (op_access x) (op_deny x)"
  by (auto simp: modes_conflict_def and.commute)

lemma modes_conflict_mono:
  assumes "a AND NOT a' = 0" "d AND NOT d' = 0" "\<not> modes_conflict x a' d'"
  shows "\<not> modes_conflict x a d"
  using assms mode_and_zero_mono [OF assms(1), of "op_deny x" "op_deny x"]
    mode_and_zero_mono [OF mode_subset_refl [of "op_access x"] assms(2)]
  by (auto simp: modes_conflict_def)

section \<open>Heap changes and the table invariant\<close>

lemma open_invD:
  assumes "open_inv seed n ot"
  shows "open_wf ot" "stateid_buckets ot \<noteq> 0" "lock_stripes ot \<noteq> 0" "next_other_seq ot = seed + of_nat n"
    "heap ot p = Some x \<Longrightarrow> sid_minted (ot_mds_id ot) seed n (op_other x)" "owners_unique (heap ot)"
  using assms unfolding open_inv_def by blast+

definition mint :: "open_state_table \<Rightarrow> open_state_table" where
  "mint ot = ot\<lparr>next_other_seq := next_other_seq ot + 1\<rparr>"

lemma mint_simps [simp]:
  "heap (mint ot) = heap ot" "open_wf (mint ot) = open_wf ot" "next_other_seq (mint ot) = next_other_seq ot + 1"
  "stateid_buckets (mint ot) = stateid_buckets ot" "lock_stripes (mint ot) = lock_stripes ot"
  "ot_mds_id (mint ot) = ot_mds_id ot" "persist_on (mint ot) = persist_on ot" "ot_calls (mint ot) = ot_calls ot"
  "find_file_opens (mint ot) = find_file_opens ot" "next_ptr (mint ot) = next_ptr ot"
  "find_by_other (mint ot) = find_by_other ot" "open_chain (mint ot) = open_chain ot"
  by (simp_all add: mint_def persist_on_def)

lemma open_inv_calls [simp]: "open_inv seed n (ot\<lparr>ot_calls := cs\<rparr>) = open_inv seed n ot"
  by (simp add: open_inv_def)

lemma open_inv_mint: "open_inv seed n ot \<Longrightarrow> open_inv seed (Suc n) (mint ot)"
  unfolding open_inv_def
  using sid_minted_mono [of "ot_mds_id ot" seed n _ "Suc n"] by (simp add: add.commute add.left_commute)

lemma open_inv_insert:
  assumes inv: "open_inv seed n ot" and n: "n < 2 ^ 64"
    and oth: "op_other x = open_other (ot_mds_id ot) (next_other_seq ot)"
    and own: "\<forall>p y. heap ot p = Some y \<longrightarrow> \<not> same_owner y x"
  shows "open_inv seed (Suc n) (open_insert (mint ot) x)"
    and "sid_minted (ot_mds_id ot) seed n oth' \<Longrightarrow> oth' \<noteq> op_other x"
proof -
  note I = open_invD [OF inv]
  show fresh: "oth' \<noteq> op_other x" if "sid_minted (ot_mds_id ot) seed n oth'" for oth'
    using sid_minted_fresh [OF that n] oth I(4) by simp
  have "open_wf (open_insert (mint ot) x)" using I(1) fresh I(5) by (intro op.insert_inv) auto
  moreover have "sid_minted (ot_mds_id ot) seed (Suc n) (op_other y)" if "heap (open_insert (mint ot) x) p = Some y" for p y
    using that I(5) [of p y] sid_minted_new [of "ot_mds_id ot" seed n] oth I(4)
    by (auto simp: op.insert_objs intro: sid_minted_mono split: if_splits)
  moreover have "owners_unique (heap (open_insert (mint ot) x))"
    using I(6) own unfolding owners_unique_def op.insert_objs
    by (fastforce simp: same_owner_def split: if_splits)
  ultimately show "open_inv seed (Suc n) (open_insert (mint ot) x)"
    using I by (simp add: open_inv_def add.commute add.left_commute)
qed

lemma open_inv_update:
  assumes inv: "open_inv seed n ot" and x: "heap ot p = Some x" and y: "op_other y = op_other x" "same_owner x y"
  shows "open_inv seed n (open_set ot p y)"
proof -
  note I = open_invD [OF inv]
  have "open_wf (open_set ot p y)" using op.update_inv [OF I(1) x] y by (simp add: same_owner_def)
  moreover have "sid_minted (ot_mds_id ot) seed n (op_other z)" if "heap (open_set ot p y) q = Some z" for q z
    using that I(5) [of q z] I(5) [OF x] y(1) by (auto simp: op.update_objs split: if_splits)
  moreover have "owners_unique (heap (open_set ot p y))"
    using I(6) x y(2) unfolding owners_unique_def op.update_objs
    by (fastforce simp: same_owner_def split: if_splits)
  ultimately show ?thesis using I by (simp add: open_inv_def)
qed

lemma open_inv_shrink:
  assumes inv: "open_inv seed n ot" and wf: "open_wf ot'" "cfg ot' = cfg ot"
    and sub: "\<And>p x. heap ot' p = Some x \<Longrightarrow> heap ot p = Some x"
  shows "open_inv seed n ot'"
proof -
  have "owners_unique (heap ot')" using open_invD(6) [OF inv] sub unfolding owners_unique_def by blast
  moreover have "\<forall>p x. heap ot' p = Some x \<longrightarrow> sid_minted (ot_mds_id ot) seed n (op_other x)"
    using open_invD(5) [OF inv] sub by blast
  ultimately show ?thesis
    using open_invD [OF inv] wf(1) cfg_D(1-4) [OF wf(2)] unfolding open_inv_def by simp
qed

section \<open>Heap changes and share safety\<close>

lemma share_safe_shrink:
  "share_safe h \<Longrightarrow> (\<And>p x. h' p = Some x \<Longrightarrow> h p = Some x) \<Longrightarrow> share_safe h'"
  unfolding share_safe_def by blast

lemma share_safe_put:
  assumes "share_safe h"
    and "\<And>q y. q \<noteq> p \<Longrightarrow> h q = Some y \<Longrightarrow> op_fileid y = op_fileid x \<Longrightarrow> \<not> modes_conflict y (op_access x) (op_deny x)"
  shows "share_safe (h(p \<mapsto> x))"
  using assms modes_conflict_sym unfolding share_safe_def by (auto split: if_splits)

lemma share_safe_narrow:
  assumes "share_safe h" "h p = Some x" "op_fileid y = op_fileid x"
    "op_access y AND NOT (op_access x) = 0" "op_deny y AND NOT (op_deny x) = 0"
  shows "share_safe (h(p \<mapsto> y))"
proof (rule share_safe_put [OF assms(1)])
  fix q z
  assume "q \<noteq> p" "h q = Some z" "op_fileid z = op_fileid y"
  then have "\<not> modes_conflict z (op_access x) (op_deny x)"
    using assms(1,2,3) unfolding share_safe_def by metis
  then show "\<not> modes_conflict z (op_access y) (op_deny y)"
    by (rule modes_conflict_mono [OF assms(4,5)])
qed

section \<open>Heap changes and flights\<close>

lemma flights_invD:
  assumes "flights_inv M h fls"
  shows "distinct (map flight_other fls)" "fl \<in> set fls \<Longrightarrow> M (flight_other fl)"
    "fl \<in> set fls \<Longrightarrow> h p = Some x \<Longrightarrow> op_other x = flight_other fl \<Longrightarrow> flight_ok fl x"
    "h p = Some x \<Longrightarrow> op_pending x \<Longrightarrow> op_other x \<in> flight_other ` set fls"
  using assms unfolding flights_inv_def by blast+

lemma flights_shrink:
  "flights_inv M h fls \<Longrightarrow> (\<And>p x. h' p = Some x \<Longrightarrow> h p = Some x) \<Longrightarrow> flights_inv M h' fls"
  unfolding flights_inv_def by blast

lemma flights_mono:
  "flights_inv M h fls \<Longrightarrow> (\<And>oth. M oth \<Longrightarrow> M' oth) \<Longrightarrow> flights_inv M' h fls"
  unfolding flights_inv_def by blast

text \<open>A record that is not pending appears or changes: no flight concerns it.\<close>

lemma flights_put_idle:
  assumes inv: "flights_inv M h fls" and y: "\<not> op_pending y" "op_other y \<notin> flight_other ` set fls"
  shows "flights_inv M (h(p \<mapsto> y)) fls"
  using flights_invD [OF inv] y unfolding flights_inv_def by (auto split: if_splits)

lemma flights_put_pending:
  assumes inv: "flights_inv M h fls" and y: "op_other y \<notin> flight_other ` set fls"
    and fl: "flight_other fl = op_other y" "flight_ok fl y" "M (flight_other fl)"
    and uniq: "\<And>q z. h q = Some z \<Longrightarrow> op_other z = op_other y \<Longrightarrow> q = p"
  shows "flights_inv M (h(p \<mapsto> y)) (fls @ [fl])"
  using flights_invD [OF inv] y fl uniq unfolding flights_inv_def
  by (auto split: if_splits)

lemma idle_no_flight:
  assumes "flights_inv M h fls" "h p = Some x" "\<not> op_pending x"
  shows "op_other x \<notin> flight_other ` set fls"
  using flights_invD(3) [OF assms(1) _ assms(2)] assms(3) by (auto simp: flight_ok_def)

text \<open>A flight lands: its record is gone, is dropped, or stops being pending.\<close>

lemma flights_land:
  assumes inv: "flights_inv M h fls" and i: "i < length fls"
    and sub: "\<And>q z. h' q = Some z \<Longrightarrow> op_other z \<noteq> flight_other (fls ! i) \<Longrightarrow> h q = Some z"
    and own: "\<And>q z. h' q = Some z \<Longrightarrow> op_other z = flight_other (fls ! i) \<Longrightarrow> \<not> op_pending z"
  shows "flights_inv M h' (take i fls @ drop (Suc i) fls)"
proof -
  let ?rest = "take i fls @ drop (Suc i) fls"
  have split: "fls = take i fls @ fls ! i # drop (Suc i) fls" using i by (rule id_take_nth_drop)
  then have d: "distinct (map flight_other (take i fls @ fls ! i # drop (Suc i) fls))"
    using flights_invD(1) [OF inv] by simp
  then have "flight_other (fls ! i) \<notin> flight_other ` set ?rest" by auto
  then have ne: "flight_other fl \<noteq> flight_other (fls ! i)" if "fl \<in> set ?rest" for fl
    using that by (metis imageI)
  have mem: "set fls = insert (fls ! i) (set ?rest)" using split by (metis Un_insert_right list.simps(15) set_append)
  show ?thesis
    unfolding flights_inv_def
  proof (intro conjI ballI allI impI)
    show "distinct (map flight_other ?rest)" using d by auto
    fix fl assume fl: "fl \<in> set ?rest"
    then have "fl \<in> set fls" using mem by simp
    then show "M (flight_other fl)" using flights_invD(2) [OF inv] by simp
    fix p x assume x: "h' p = Some x" "op_other x = flight_other fl"
    then have "h p = Some x" using sub [of p x] ne [OF fl] by simp
    then show "flight_ok fl x" using flights_invD(3) [OF inv \<open>fl \<in> set fls\<close>] x(2) by simp
  next
    fix p x assume x: "h' p = Some x" "op_pending x"
    then have "op_other x \<noteq> flight_other (fls ! i)" using own by blast
    then show "op_other x \<in> flight_other ` set ?rest" using flights_invD(4) [OF inv sub [OF x(1)] x(2)] mem by auto
  qed
qed

section \<open>OPEN over the heap\<close>

definition fresh_open :: "open_state_table \<Rightarrow> u64 \<Rightarrow> bytes \<Rightarrow> u64 \<Rightarrow> u32 \<Rightarrow> u32 \<Rightarrow> nfs4_open_state" where
  "fresh_open ot c w f a d =
     \<lparr>op_stateid = \<lparr>seqid = 1, other = open_other (ot_mds_id ot) (next_other_seq ot)\<rparr>, op_clientid = c,
      op_fileid = f, op_access = a, op_deny = d, op_owner = w, op_pending = persist_on ot\<rparr>"

definition reopened :: "open_state_table \<Rightarrow> nfs4_open_state \<Rightarrow> u32 \<Rightarrow> u32 \<Rightarrow> nfs4_open_state" where
  "reopened ot x a d =
     x\<lparr>op_stateid := (op_stateid x)\<lparr>seqid := next_seqid (op_seqid x)\<rparr>, op_access := op_access x OR a,
       op_deny := op_deny x OR d, op_pending := persist_on ot\<rparr>"

definition row_of :: "open_state_table \<Rightarrow> nfs4_open_state \<Rightarrow> open_row" where
  "row_of ot x = open_row_fill ot (op_other x) (op_seqid x) (op_clientid x) (op_fileid x) (op_access x) (op_deny x) (op_owner x)"

definition log_put :: "open_state_table \<Rightarrow> open_row \<Rightarrow> open_state_table" where
  "log_put ot row = ot\<lparr>ot_calls := ot_calls ot @ [OpenPut row]\<rparr>"

text \<open>A record is published: at once, or pending with a flight when the table persists.\<close>

definition published :: "open_state_table \<Rightarrow> nfs4_open_state \<Rightarrow> (open_row \<Rightarrow> open_flight) \<Rightarrow> open_state_table \<times> open_phase" where
  "published ot x mk =
     (if persist_on ot then (log_put ot (row_of ot x), OpenInFlight (mk (row_of ot x)) (op_stateid x))
      else (ot, OpenDone 0 (Some (op_stateid x))))"

definition open_args_ok :: "bytes \<Rightarrow> u32 \<Rightarrow> bool" where
  "open_args_ok w a \<longleftrightarrow> a AND OPEN4_SHARE_ACCESS_BOTH \<noteq> 0 \<and> length w \<le> NFS4_OPEN_OWNER_MAX"

lemma upgrade_alt:
  assumes "heap ot p = Some x" "op_clientid x = c" "op_owner x = w" "op_fileid x = f" "\<not> op_pending x"
  shows "open_state_upgrade_existing ot fo p c w f a d =
    (if share_conflict_excluding ot fo p (op_access x OR a) (op_deny x OR d) then (ot, OpenDone (-1) None)
     else published (open_set ot p (reopened ot x a d)) (reopened ot x a d)
            (\<lambda>row. Upgrade row (op_seqid x) (op_access x) (op_deny x)))"
proof -
  let ?x = "x\<lparr>op_stateid := (op_stateid x)\<lparr>seqid := next_seqid (op_seqid x)\<rparr>, op_access := op_access x OR a,
    op_deny := op_deny x OR d\<rparr>"
  have "reopened ot x a d = (if persist_on ot then ?x\<lparr>op_pending := True\<rparr> else ?x)"
    using assms(5) by (cases x) (simp add: reopened_def)
  moreover have "open_row_fill (open_set ot p y) = open_row_fill ot" for y
    by (intro ext) (simp add: open_row_fill_def open_set_def)
  ultimately show ?thesis
    using assms by (simp add: open_state_upgrade_existing_def published_def row_of_def log_put_def Let_def)
qed

lemma fresh_alt:
  "open_state_open_fresh oom ot (find_file_opens ot f) c w f a d =
    (if A_open \<in> oom then (ot, OpenDone (-2) None)
     else if share_conflict ot (find_file_opens ot f) a d then (mint ot, OpenDone (-1) None)
     else if find_file_opens ot f = None \<and> A_file_opens \<in> oom then (mint ot, OpenDone (-2) None)
     else published (open_insert (mint ot) (fresh_open ot c w f a d)) (fresh_open ot c w f a d) Fresh)"
proof -
  have "share_conflict (mint ot) fo = share_conflict ot fo" for fo
    by (intro ext) (simp add: share_conflict_def split: option.split)
  moreover have "get_or_create_file_opens oom (mint ot) f =
      (if find_file_opens ot f = None \<and> A_file_opens \<in> oom then None else Some (open_ensure_head (mint ot) f))"
    by (auto simp: get_or_create_file_opens_def open_ensure_head_def split: option.splits)
  moreover have "open_row_fill (open_insert (mint ot) x) = open_row_fill ot" for x
    using cfg_D(4,8) [OF cfg_simps(3), of "mint ot" x]
    by (intro ext) (simp add: open_row_fill_def mint_def)
  ultimately show ?thesis
    by (simp add: open_state_open_fresh_def make_stateid_other_def mint_def [symmetric] published_def
        fresh_open_def row_of_def log_put_def Let_def) (simp add: open_insert_def)
qed

lemma open_begin_alt:
  assumes "open_wf ot"
  shows "open_state_open_begin oom ot c w f a d =
    (if \<not> open_args_ok w a then (ot, OpenDone (-3) None)
     else case find_owner_open ot (find_file_opens ot f) c w of
       Some p \<Rightarrow>
         let x = deref ot p
         in if op_pending x then (ot, OpenDone (-5) None)
            else if share_conflict_excluding ot (find_file_opens ot f) p (op_access x OR a) (op_deny x OR d)
                 then (ot, OpenDone (-1) None)
            else published (open_set ot p (reopened ot x a d)) (reopened ot x a d)
                   (\<lambda>row. Upgrade row (op_seqid x) (op_access x) (op_deny x))
     | None \<Rightarrow>
         if A_open \<in> oom then (ot, OpenDone (-2) None)
         else if share_conflict ot (find_file_opens ot f) a d then (mint ot, OpenDone (-1) None)
         else if find_file_opens ot f = None \<and> A_file_opens \<in> oom then (mint ot, OpenDone (-2) None)
         else published (open_insert (mint ot) (fresh_open ot c w f a d)) (fresh_open ot c w f a d) Fresh)"
proof (cases "find_owner_open ot (find_file_opens ot f) c w")
  case None
  then show ?thesis by (simp add: open_state_open_begin_def open_args_ok_def fresh_alt not_less)
next
  case (Some p)
  then obtain x where "heap ot p = Some x" "op_fileid x = f" "op_clientid x = c" "op_owner x = w"
    using assms by (rule_tac find_owner_open_Some)
  then show ?thesis
    using Some by (simp add: open_state_open_begin_def open_args_ok_def upgrade_alt Let_def not_less)
qed

end
