(* ===== verification/Open_Sys.thy ===== *)
theory Open_Sys
  imports Open_Inv
begin

text \<open>
  The open table under concurrent callers. A state of \<open>open_sys\<close> is the table together with the OPENs whose
  durable write is in flight; an \<open>open_op\<close> is one lock section of one caller, so a list of them is an
  interleaving. CLOSE and OPEN_DOWNGRADE carry the fileid their first lookup saw and the revocation the
  clients its first section collected, all arbitrary here: whatever happened between the sections of one
  call is covered.
\<close>

section \<open>Steps\<close>

record open_sys =
  sys_tab :: open_state_table
  sys_flights :: "open_flight list"

datatype open_op =
    OpOpen "open_alloc set" u64 bytes u64 u32 u32
  | OpCommit nat mds_status
  | OpClose u64 nfs4_stateid u64
  | OpDowngrade u64 nfs4_stateid u32 u32 u64
  | OpCloseAll u64
  | OpRevoke u64 "u64 list" "u64 \<Rightarrow> bool"
  | OpSetSkip bool

fun open_exec :: "open_sys \<Rightarrow> open_op \<Rightarrow> open_sys" where
  "open_exec s (OpOpen oom c w f a d) =
     (case open_state_open_begin oom (sys_tab s) c w f a d of
        (ot, OpenDone _ _) \<Rightarrow> s\<lparr>sys_tab := ot\<rparr>
      | (ot, OpenInFlight fl _) \<Rightarrow> s\<lparr>sys_tab := ot, sys_flights := sys_flights s @ [fl]\<rparr>)"
| "open_exec s (OpCommit i pst) =
     (if i < length (sys_flights s)
      then s\<lparr>sys_tab := fst (open_commit (sys_tab s) (sys_flights s ! i) pst),
             sys_flights := take i (sys_flights s) @ drop (Suc i) (sys_flights s)\<rparr>
      else s)"
| "open_exec s (OpClose c sid f) = s\<lparr>sys_tab := fst (open_close_locked (sys_tab s) c sid f)\<rparr>"
| "open_exec s (OpDowngrade c sid a d f) = s\<lparr>sys_tab := fst (open_downgrade_locked (sys_tab s) c sid a d f)\<rparr>"
| "open_exec s (OpCloseAll c) = s\<lparr>sys_tab := open_state_close_all_for_client (sys_tab s) c\<rparr>"
| "open_exec s (OpRevoke f cids expired) =
     s\<lparr>sys_tab := fst (revoke_remove_expired_locked (sys_tab s) f cids expired)\<rparr>"
| "open_exec s (OpSetSkip b) = s\<lparr>sys_tab := open_state_table_set_skip_ndb (sys_tab s) b\<rparr>"

definition open_run :: "open_sys \<Rightarrow> open_op list \<Rightarrow> open_sys" where
  "open_run = foldl open_exec"

text \<open>The downgrades of a run keep to the deny bits already held, as RFC 8881 section 18.18.3 asks of the client.\<close>

definition narrows :: "open_state_table \<Rightarrow> open_op \<Rightarrow> bool" where
  "narrows ot op =
     (case op of
        OpDowngrade c sid a d f \<Rightarrow>
          (case open_state_find ot sid of None \<Rightarrow> True | Some x \<Rightarrow> d AND NOT (op_deny x) = 0)
      | _ \<Rightarrow> True)"

fun narrowing_run :: "open_sys \<Rightarrow> open_op list \<Rightarrow> bool" where
  "narrowing_run s [] = True"
| "narrowing_run s (op # ops) = (narrows (sys_tab s) op \<and> narrowing_run (open_exec s op) ops)"

section \<open>The system invariant\<close>

definition sys_inv :: "u64 \<Rightarrow> nat \<Rightarrow> open_sys \<Rightarrow> bool" where
  "sys_inv seed n s \<longleftrightarrow>
     open_inv seed n (sys_tab s) \<and>
     flights_inv (sid_minted (ot_mds_id (sys_tab s)) seed n) (heap (sys_tab s)) (sys_flights s)"

lemma sys_invD:
  assumes "sys_inv seed n s"
  shows "open_inv seed n (sys_tab s)"
    "flights_inv (sid_minted (ot_mds_id (sys_tab s)) seed n) (heap (sys_tab s)) (sys_flights s)"
  using assms unfolding sys_inv_def by blast+

lemma log_put_simps [simp]:
  "heap (log_put ot r) = heap ot" "open_inv seed n (log_put ot r) = open_inv seed n ot"
  "ot_mds_id (log_put ot r) = ot_mds_id ot" "find_by_other (log_put ot r) = find_by_other ot"
  by (simp_all add: log_put_def)

lemma reopened_simps [simp]:
  "op_other (reopened ot x a d) = op_other x" "same_owner x (reopened ot x a d)"
  "op_fileid (reopened ot x a d) = op_fileid x" "op_access (reopened ot x a d) = op_access x OR a"
  "op_deny (reopened ot x a d) = op_deny x OR d" "op_pending (reopened ot x a d) = persist_on ot"
  by (simp_all add: reopened_def same_owner_def)

lemma fresh_open_simps [simp]:
  "op_other (fresh_open ot c w f a d) = open_other (ot_mds_id ot) (next_other_seq ot)"
  "op_fileid (fresh_open ot c w f a d) = f" "op_access (fresh_open ot c w f a d) = a"
  "op_deny (fresh_open ot c w f a d) = d" "op_pending (fresh_open ot c w f a d) = persist_on ot"
  "op_clientid (fresh_open ot c w f a d) = c" "op_owner (fresh_open ot c w f a d) = w"
  by (simp_all add: fresh_open_def)

lemma row_of_simps [simp]:
  "orow_other (row_of ot x) = op_other x" "orow_seqid (row_of ot x) = op_seqid x"
  "orow_access (row_of ot x) = op_access x" "orow_deny (row_of ot x) = op_deny x"
  by (simp_all add: row_of_def open_row_fill_def)

text \<open>What the first section of OPEN can do to the heap.\<close>

lemma open_begin_cases:
  assumes wf: "open_wf ot" and eq: "open_state_open_begin oom ot c w f a d = (ot', ph)"
  obtains (Refuse) rc where "ph = OpenDone rc None" "rc < 0" "ot' = ot \<or> ot' = mint ot"
  | (New) x where "x = fresh_open ot c w f a d" "(ot', ph) = published (open_insert (mint ot) x) x Fresh"
      "\<forall>p y. heap ot p = Some y \<longrightarrow> \<not> same_owner y x"
      "\<forall>p y. heap ot p = Some y \<longrightarrow> op_fileid y = f \<longrightarrow> \<not> modes_conflict y a d"
  | (Again) p x where "heap ot p = Some x" "op_fileid x = f" "op_clientid x = c" "op_owner x = w" "\<not> op_pending x"
      "(ot', ph) = published (open_set ot p (reopened ot x a d)) (reopened ot x a d)
         (\<lambda>row. Upgrade row (op_seqid x) (op_access x) (op_deny x))"
      "\<forall>q y. q \<noteq> p \<longrightarrow> heap ot q = Some y \<longrightarrow> op_fileid y = f \<longrightarrow> \<not> modes_conflict y (op_access x OR a) (op_deny x OR d)"
proof (cases "find_owner_open ot (find_file_opens ot f) c w")
  case None
  then have own: "\<forall>p y. heap ot p = Some y \<longrightarrow> \<not> same_owner y (fresh_open ot c w f a d)"
    using find_owner_open_None [OF wf, of f c w] by (auto simp: same_owner_def)
  let ?go = "open_args_ok w a \<and> A_open \<notin> oom \<and> \<not> share_conflict ot (find_file_opens ot f) a d \<and>
    \<not> (find_file_opens ot f = None \<and> A_file_opens \<in> oom)"
  note E = eq [symmetric, unfolded open_begin_alt [OF wf] None option.case]
  show ?thesis
  proof (cases ?go)
    case True
    show ?thesis
    proof (rule New [OF refl _ own])
      show "(ot', ph) = published (open_insert (mint ot) (fresh_open ot c w f a d)) (fresh_open ot c w f a d) Fresh"
        using E True by auto
      show "\<forall>p y. heap ot p = Some y \<longrightarrow> op_fileid y = f \<longrightarrow> \<not> modes_conflict y a d"
        using True share_conflict_iff [OF wf, of f a d] by auto
    qed
  next
    case False
    then obtain rc where "ph = OpenDone rc None" "rc < 0" "ot' = ot \<or> ot' = mint ot"
      using E by (auto split: if_splits)
    then show ?thesis by (rule Refuse)
  qed
next
  case (Some p)
  obtain x where x: "heap ot p = Some x" "op_fileid x = f" "op_clientid x = c" "op_owner x = w"
    by (rule find_owner_open_Some [OF wf Some])
  let ?go = "open_args_ok w a \<and> \<not> op_pending x \<and>
    \<not> share_conflict_excluding ot (find_file_opens ot f) p (op_access x OR a) (op_deny x OR d)"
  note E = eq [symmetric, unfolded open_begin_alt [OF wf] Some option.case x(1) option.sel Let_def]
  show ?thesis
  proof (cases ?go)
    case True
    show ?thesis
    proof (rule Again [OF x])
      show "\<not> op_pending x" using True by simp
      show "(ot', ph) = published (open_set ot p (reopened ot x a d)) (reopened ot x a d)
         (\<lambda>row. Upgrade row (op_seqid x) (op_access x) (op_deny x))" using E True by auto
      show "\<forall>q y. q \<noteq> p \<longrightarrow> heap ot q = Some y \<longrightarrow> op_fileid y = f \<longrightarrow>
          \<not> modes_conflict y (op_access x OR a) (op_deny x OR d)"
        using True share_conflict_excluding_iff [OF wf, of f p "op_access x OR a" "op_deny x OR d"] by auto
    qed
  next
    case False
    then obtain rc where "ph = OpenDone rc None" "rc < 0" "ot' = ot \<or> ot' = mint ot"
      using E by (auto split: if_splits)
    then show ?thesis by (rule Refuse)
  qed
qed

section \<open>Preservation\<close>

lemma published_tab:
  assumes "(ot', ph) = published T x mk"
  shows "heap ot' = heap T" "open_inv seed n ot' = open_inv seed n T" "ot_mds_id ot' = ot_mds_id T"
  using assms by (auto simp: published_def split: if_splits)

lemma exec_open_published:
  assumes "open_state_open_begin oom (sys_tab s) c w f a d = (ot', ph)" "(ot', ph) = published T x mk"
    "persist_on T = persist_on (sys_tab s)"
  shows "sys_tab (open_exec s (OpOpen oom c w f a d)) = ot'"
    "sys_flights (open_exec s (OpOpen oom c w f a d)) =
       sys_flights s @ (if persist_on (sys_tab s) then [mk (row_of T x)] else [])"
  using assms by (auto simp: published_def split: if_splits)

lemma flights_begin:
  assumes "flights_inv M h fls" "y_other \<notin> flight_other ` set fls" "op_other y = y_other" "M y_other"
    "\<And>q z. h q = Some z \<Longrightarrow> op_other z = y_other \<Longrightarrow> q = p"
    "flight_other fl = y_other" "op_pending y \<Longrightarrow> flight_ok fl y" "op_pending y = b"
  shows "flights_inv M (h(p \<mapsto> y)) (fls @ (if b then [fl] else []))"
  using assms flights_put_pending [of M h fls y fl p] flights_put_idle [of M h fls y p] by auto

lemma sys_new:
  fixes s f a d and x :: nfs4_open_state
  defines "ot \<equiv> sys_tab s"
  defines "T \<equiv> open_insert (mint ot) x"
  assumes inv: "sys_inv seed n s" and n: "n < 2 ^ 64" and x: "x = fresh_open ot c w f a d"
    and own: "\<forall>p y. heap ot p = Some y \<longrightarrow> \<not> same_owner y x"
    and conf: "\<forall>p y. heap ot p = Some y \<longrightarrow> op_fileid y = f \<longrightarrow> \<not> modes_conflict y a d"
  shows "open_inv seed (Suc n) T"
    "flights_inv (sid_minted (ot_mds_id ot) seed (Suc n)) (heap T)
       (sys_flights s @ (if persist_on ot then [Fresh (row_of T x)] else []))"
    "share_safe (heap ot) \<Longrightarrow> share_safe (heap T)"
proof -
  note I = sys_invD [OF inv, folded ot_def]
  note O = open_invD [OF I(1)]
  have o: "op_other x = open_other (ot_mds_id ot) (next_other_seq ot)" using x by simp
  note Ins = open_inv_insert [OF I(1) n o own, folded T_def]
  have h: "heap T = (heap ot)(next_ptr ot \<mapsto> x)" by (simp add: T_def op.insert_objs)
  show "open_inv seed (Suc n) T" by (rule Ins(1))
  show "share_safe (heap T)" if "share_safe (heap ot)"
    unfolding h using that x conf by (intro share_safe_put) auto
  show "flights_inv (sid_minted (ot_mds_id ot) seed (Suc n)) (heap T)
      (sys_flights s @ (if persist_on ot then [Fresh (row_of T x)] else []))"
    unfolding h
  proof (rule flights_begin [where y_other = "op_other x"])
    show "flights_inv (sid_minted (ot_mds_id ot) seed (Suc n)) (heap ot) (sys_flights s)"
      using I(2) by (rule flights_mono) (auto intro: sid_minted_mono)
    show "op_other x \<notin> flight_other ` set (sys_flights s)"
      using Ins(2) [OF flights_invD(2) [OF I(2)]] by (auto simp: eq_commute)
    show "sid_minted (ot_mds_id ot) seed (Suc n) (op_other x)" using o O(4) sid_minted_new by simp
    show "q = next_ptr ot" if "heap ot q = Some z" "op_other z = op_other x" for q z
      using Ins(2) [OF O(5) [OF that(1)]] that(2) by simp
  qed (use x in \<open>auto simp: flight_ok_def\<close>)
qed

lemma sys_again:
  fixes s p x a d
  defines "ot \<equiv> sys_tab s"
  defines "y \<equiv> reopened ot x a d"
  defines "T \<equiv> open_set ot p y"
  assumes inv: "sys_inv seed n s" and x: "heap ot p = Some x" "\<not> op_pending x"
    and conf: "\<forall>q z. q \<noteq> p \<longrightarrow> heap ot q = Some z \<longrightarrow> op_fileid z = op_fileid x \<longrightarrow>
      \<not> modes_conflict z (op_access x OR a) (op_deny x OR d)"
  shows "open_inv seed n T"
    "flights_inv (sid_minted (ot_mds_id ot) seed n) (heap T) (sys_flights s @
       (if persist_on ot then [Upgrade (row_of T y) (op_seqid x) (op_access x) (op_deny x)] else []))"
    "share_safe (heap ot) \<Longrightarrow> share_safe (heap T)"
proof -
  note I = sys_invD [OF inv, folded ot_def]
  note O = open_invD [OF I(1)]
  have h: "heap T = (heap ot)(p \<mapsto> y)" by (simp add: T_def op.update_objs)
  show "open_inv seed n T" using open_inv_update [OF I(1) x(1)] by (simp add: T_def y_def)
  show "share_safe (heap T)" if "share_safe (heap ot)"
    unfolding h using that conf by (intro share_safe_put) (auto simp: y_def)
  show "flights_inv (sid_minted (ot_mds_id ot) seed n) (heap T) (sys_flights s @
      (if persist_on ot then [Upgrade (row_of T y) (op_seqid x) (op_access x) (op_deny x)] else []))"
    unfolding h
  proof (rule flights_begin [where y_other = "op_other x", OF I(2)])
    show "op_other x \<notin> flight_other ` set (sys_flights s)" by (rule idle_no_flight [OF I(2) x])
    show "q = p" if "heap ot q = Some z" "op_other z = op_other x" for q z
      using op.sid_unique [OF O(1) that(1) x(1)] that(2) by simp
  qed (use O(5) [OF x(1)] in \<open>auto simp: flight_ok_def y_def\<close>)
qed

lemma exec_open_inv:
  assumes inv: "sys_inv seed n s" and n: "n < 2 ^ 64"
  shows "(\<exists>m \<in> {n, Suc n}. sys_inv seed m (open_exec s (OpOpen oom c w f a d))) \<and>
    (share_safe (heap (sys_tab s)) \<longrightarrow> share_safe (heap (sys_tab (open_exec s (OpOpen oom c w f a d)))))"
    (is "?inv \<and> ?safe")
proof -
  let ?ot = "sys_tab s" and ?s = "open_exec s (OpOpen oom c w f a d)"
  note I = sys_invD [OF inv]
  obtain ot' ph where eq: "open_state_open_begin oom ?ot c w f a d = (ot', ph)" by fastforce
  show ?thesis
  proof (cases rule: open_begin_cases [OF open_invD(1) [OF I(1)] eq])
    case (1 rc)
    then have "sys_tab ?s = ot'" "sys_flights ?s = sys_flights s" using eq by auto
    moreover have "flights_inv (sid_minted (ot_mds_id ?ot) seed (Suc n)) (heap ?ot) (sys_flights s)"
      using I(2) by (rule flights_mono) (auto intro: sid_minted_mono)
    ultimately show ?thesis using 1(3) I open_inv_mint [OF I(1)] by (auto simp: sys_inv_def)
  next
    case (2 x)
    note E = exec_open_published [OF eq 2(2)] and P = published_tab [OF 2(2)]
    show ?thesis using sys_new [OF inv n 2(1,3,4)] E P by (auto simp: sys_inv_def)
  next
    case (3 p x)
    note E = exec_open_published [OF eq 3(6)] and P = published_tab [OF 3(6)]
    show ?thesis using sys_again [OF inv 3(1,5), of a d] 3(2,7) E P by (auto simp: sys_inv_def)
  qed
qed

lemma open_commit_cases:
  assumes inv: "open_inv seed n ot"
    and ok: "\<forall>p x. heap ot p = Some x \<longrightarrow> op_other x = flight_other fl \<longrightarrow> flight_ok fl x"
  obtains (Gone) "\<forall>p x. heap ot p = Some x \<longrightarrow> op_other x \<noteq> flight_other fl"
      "heap (fst (open_commit ot fl pst)) = heap ot" "cfg (fst (open_commit ot fl pst)) = cfg ot"
      "open_inv seed n (fst (open_commit ot fl pst))" "snd (open_commit ot fl pst) = -5"
  | (Drop) p x where "heap ot p = Some x" "op_other x = flight_other fl" "\<not> persisted pst" "fl = Fresh (flight_row fl)"
      "open_commit ot fl pst = (open_discard ot p, -5)" "open_inv seed n (open_discard ot p)"
  | (Land) p x y where "heap ot p = Some x" "op_other x = flight_other fl"
      "y = (if persisted pst then x\<lparr>op_pending := False\<rparr>
            else case fl of Fresh _ \<Rightarrow> x | Upgrade _ ps pa pd \<Rightarrow>
              x\<lparr>op_stateid := (op_stateid x)\<lparr>seqid := ps\<rparr>, op_access := pa, op_deny := pd, op_pending := False\<rparr>)"
      "open_commit ot fl pst = (open_set ot p y, if persisted pst then 0 else -5)" "open_inv seed n (open_set ot p y)"
      "op_other y = op_other x" "op_fileid y = op_fileid x" "\<not> op_pending y"
      "op_access y AND NOT (op_access x) = 0" "op_deny y AND NOT (op_deny x) = 0"
proof (cases "find_by_other ot (flight_other fl)")
  case None
  note O = open_invD [OF inv]
  have h: "heap (fst (open_commit ot fl pst)) = heap ot \<and> cfg (fst (open_commit ot fl pst)) = cfg ot \<and>
      open_inv seed n (fst (open_commit ot fl pst)) \<and> snd (open_commit ot fl pst) = -5"
    using None inv by (auto simp: open_commit_def open_state_fresh_persist_commit_def open_state_upgrade_commit_def
        split: open_flight.splits)
  then show ?thesis using op.by_sid_None_iff [OF O(1)] None by (intro Gone) auto
next
  case (Some p)
  note O = open_invD [OF inv]
  obtain x where x: "heap ot p = Some x" "op_other x = flight_other fl" using Some op.by_sid_iff [OF O(1)] by auto
  have fo: "flight_ok fl x" using ok x by blast
  show ?thesis
  proof (cases "\<exists>row. fl = Fresh row \<and> \<not> persisted pst")
    case True
    have "open_inv seed n (open_discard ot p)"
      using op.discard_objs [OF x(1)] by (intro open_inv_shrink [OF inv op.discard_inv [OF O(1) x(1)]]) (auto split: if_splits)
    then show ?thesis
      using True Some x by (intro Drop) (auto simp: open_commit_def open_state_fresh_persist_commit_def open_discard_def)
  next
    case False
    define y where "y = (if persisted pst then x\<lparr>op_pending := False\<rparr>
            else case fl of Fresh _ \<Rightarrow> x | Upgrade _ ps pa pd \<Rightarrow>
              x\<lparr>op_stateid := (op_stateid x)\<lparr>seqid := ps\<rparr>, op_access := pa, op_deny := pd, op_pending := False\<rparr>)"
    have y: "op_other y = op_other x" "same_owner x y" "\<not> op_pending y"
        "op_access y AND NOT (op_access x) = 0" "op_deny y AND NOT (op_deny x) = 0"
      using False fo by (auto simp: y_def same_owner_def flight_ok_def split: open_flight.splits)
    have "open_commit ot fl pst = (open_set ot p y, if persisted pst then 0 else -5)"
      using False fo Some x by (auto simp: y_def flight_ok_def open_commit_def open_state_fresh_persist_commit_def
          open_state_upgrade_commit_def split: open_flight.splits)
    then show ?thesis
      using open_inv_update [OF inv x(1) y(1,2)] y by (intro Land [OF x y_def]) (auto simp: same_owner_def)
  qed
qed

lemma sys_shrink:
  assumes inv: "sys_inv seed n s" and wf: "open_wf ot'" "cfg ot' = cfg (sys_tab s)"
    and sub: "\<And>p x. heap ot' p = Some x \<Longrightarrow> heap (sys_tab s) p = Some x"
  shows "sys_inv seed n (s\<lparr>sys_tab := ot'\<rparr>) \<and> (share_safe (heap (sys_tab s)) \<longrightarrow> share_safe (heap ot'))"
proof -
  note I = sys_invD [OF inv]
  have "open_inv seed n ot'" by (rule open_inv_shrink [OF I(1) wf sub])
  moreover have "flights_inv (sid_minted (ot_mds_id ot') seed n) (heap ot') (sys_flights s)"
    unfolding cfg_D(4) [OF wf(2)] by (rule flights_shrink [OF I(2) sub])
  moreover have "share_safe (heap ot')" if "share_safe (heap (sys_tab s))" by (rule share_safe_shrink [OF that sub])
  ultimately show ?thesis by (simp add: sys_inv_def)
qed

lemma exec_commit_inv:
  assumes inv: "sys_inv seed n s"
  shows "sys_inv seed n (open_exec s (OpCommit i pst)) \<and>
    (share_safe (heap (sys_tab s)) \<longrightarrow> share_safe (heap (sys_tab (open_exec s (OpCommit i pst)))))"
proof (cases "i < length (sys_flights s)")
  case False
  then show ?thesis using inv by simp
next
  case True
  let ?ot = "sys_tab s" and ?fl = "sys_flights s ! i"
  note I = sys_invD [OF inv] and O = open_invD [OF sys_invD(1) [OF inv]]
  have ok: "\<forall>p x. heap ?ot p = Some x \<longrightarrow> op_other x = flight_other ?fl \<longrightarrow> flight_ok ?fl x"
    using flights_invD(3) [OF I(2)] True by simp
  note land = flights_land [OF I(2) True]
  show ?thesis
  proof (cases rule: open_commit_cases [OF I(1) ok, where pst = pst])
    case 1
    then show ?thesis using True I land [of "heap ?ot"] cfg_D(4) [OF 1(3)] by (auto simp: sys_inv_def)
  next
    case (2 p x)
    note D = op.discard_objs [OF 2(1)]
    have "flights_inv (sid_minted (ot_mds_id ?ot) seed n) (heap (open_discard ?ot p))
        (take i (sys_flights s) @ drop (Suc i) (sys_flights s))"
      unfolding D using op.sid_unique [OF O(1) _ 2(1)] 2(2) by (intro land) (auto split: if_splits)
    moreover have "share_safe (heap (open_discard ?ot p))" if "share_safe (heap ?ot)"
      by (rule share_safe_shrink [OF that]) (auto simp: D split: if_splits)
    ultimately show ?thesis using True 2 by (simp add: sys_inv_def)
  next
    case (3 p x y)
    have "flights_inv (sid_minted (ot_mds_id ?ot) seed n) (heap (open_set ?ot p y))
        (take i (sys_flights s) @ drop (Suc i) (sys_flights s))"
      unfolding op.update_objs using op.sid_unique [OF O(1) _ 3(1)] 3(2,6,8) by (intro land) (auto split: if_splits)
    moreover have "share_safe (heap (open_set ?ot p y))" if "share_safe (heap ?ot)"
      unfolding op.update_objs by (rule share_safe_narrow [OF that 3(1,7,9,10)])
    ultimately show ?thesis using True 3(4,5) by (simp add: sys_inv_def)
  qed
qed

lemma open_close_cases:
  assumes wf: "open_wf ot"
  obtains (Refuse) rc where "open_close_locked ot c sid f = (ot, rc, None)" "rc < 0"
  | (Done) p x where "heap ot p = Some x" "op_other x = other sid" "op_fileid x = f" "op_clientid x = c"
      "\<not> op_pending x" "seqid sid = 0 \<or> seqid sid = op_seqid x"
      "open_close_locked ot c sid f =
         ((open_discard ot p)\<lparr>ot_calls := ot_calls ot @ (if persist_on ot then [OpenDel (other sid)] else [])\<rparr>, 0,
          Some ((op_stateid x)\<lparr>seqid := op_seqid x + 1\<rparr>))"
proof (cases "find_by_other ot (other sid)")
  case None
  then show ?thesis by (intro Refuse [of "-1"]) (simp_all add: open_close_locked_def)
next
  case (Some p)
  then obtain x where x: "heap ot p = Some x" "op_other x = other sid" using op.by_sid_iff [OF wf] by auto
  let ?go = "op_fileid x = f \<and> op_clientid x = c \<and> \<not> op_pending x \<and> (seqid sid = 0 \<or> seqid sid = op_seqid x)"
  show ?thesis
  proof (cases ?go)
    case True
    have calls: "ot_calls (unlink_from_file (unhash_stateid ot p) p) = ot_calls ot"
      using ot_calls_simps(2) [of ot p] by (simp add: open_discard_def open_record_free_def)
    have "open_discard ot p = (open_discard ot p)\<lparr>ot_calls := ot_calls ot\<rparr>"
      using ot_calls_simps(2) [of ot p] by (metis open_state_table.surjective open_state_table.update_convs(9))
    then have "open_close_locked ot c sid f =
         ((open_discard ot p)\<lparr>ot_calls := ot_calls ot @ (if persist_on ot then [OpenDel (other sid)] else [])\<rparr>, 0,
          Some ((op_stateid x)\<lparr>seqid := op_seqid x + 1\<rparr>))"
      using Some x True calls by (auto simp: open_close_locked_def Let_def open_discard_def open_record_free_def)
    then show ?thesis using Done [OF x] True by blast
  next
    case False
    then have "\<exists>rc. open_close_locked ot c sid f = (ot, rc, None) \<and> rc < 0"
      using Some x by (auto simp: open_close_locked_def Let_def)
    then show ?thesis using Refuse by blast
  qed
qed

lemma open_downgrade_cases:
  assumes wf: "open_wf ot"
  obtains (Refuse) rc where "open_downgrade_locked ot c sid a d f = (ot, rc, None)" "rc < 0"
  | (Done) p x y where "heap ot p = Some x" "op_other x = other sid" "op_fileid x = f" "op_clientid x = c"
      "\<not> op_pending x" "seqid sid = 0 \<or> seqid sid = op_seqid x" "a AND NOT (op_access x) = 0"
      "y = x\<lparr>op_access := a, op_deny := d, op_stateid := (op_stateid x)\<lparr>seqid := op_seqid x + 1\<rparr>\<rparr>"
      "open_downgrade_locked ot c sid a d f = (open_set ot p y, 0, Some (op_stateid y))"
proof (cases "find_by_other ot (other sid)")
  case None
  then show ?thesis by (intro Refuse [of "-2"]) (simp_all add: open_downgrade_locked_def)
next
  case (Some p)
  then obtain x where x: "heap ot p = Some x" "op_other x = other sid" using op.by_sid_iff [OF wf] by auto
  let ?go = "op_fileid x = f \<and> op_clientid x = c \<and> \<not> op_pending x \<and> (seqid sid = 0 \<or> seqid sid = op_seqid x) \<and>
    a AND NOT (op_access x) = 0"
  show ?thesis
  proof (cases ?go)
    case True
    then show ?thesis using Some x by (intro Done [OF x]) (auto simp: open_downgrade_locked_def Let_def)
  next
    case False
    then have "\<exists>rc. open_downgrade_locked ot c sid a d f = (ot, rc, None) \<and> rc < 0"
      using Some x by (auto simp: open_downgrade_locked_def Let_def)
    then show ?thesis using Refuse by blast
  qed
qed

lemma exec_close_inv:
  assumes inv: "sys_inv seed n s"
  shows "sys_inv seed n (open_exec s (OpClose c sid f)) \<and>
    (share_safe (heap (sys_tab s)) \<longrightarrow> share_safe (heap (sys_tab (open_exec s (OpClose c sid f)))))"
proof (cases rule: open_close_cases [OF open_invD(1) [OF sys_invD(1) [OF inv]], of c sid f])
  case (1 rc)
  then show ?thesis using inv by simp
next
  case (2 p x)
  let ?t = "(open_discard (sys_tab s) p)\<lparr>ot_calls := ot_calls (sys_tab s) @
    (if persist_on (sys_tab s) then [OpenDel (other sid)] else [])\<rparr>"
  have "heap (sys_tab s) q = Some y" if "heap ?t q = Some y" for q y
    using that op.discard_objs [OF 2(1)] by (auto split: if_splits)
  then have "sys_inv seed n (s\<lparr>sys_tab := ?t\<rparr>) \<and> (share_safe (heap (sys_tab s)) \<longrightarrow> share_safe (heap ?t))"
    using op.discard_inv [OF open_invD(1) [OF sys_invD(1) [OF inv]] 2(1)] by (intro sys_shrink [OF inv]) auto
  then show ?thesis using 2(7) by simp
qed

lemma exec_downgrade_inv:
  assumes inv: "sys_inv seed n s"
  shows "sys_inv seed n (open_exec s (OpDowngrade c sid a d f)) \<and>
    (narrows (sys_tab s) (OpDowngrade c sid a d f) \<longrightarrow> share_safe (heap (sys_tab s)) \<longrightarrow>
     share_safe (heap (sys_tab (open_exec s (OpDowngrade c sid a d f)))))"
proof (cases rule: open_downgrade_cases [OF open_invD(1) [OF sys_invD(1) [OF inv]], of c sid a d f])
  case (1 rc)
  then show ?thesis using inv by simp
next
  case (2 p x y)
  note I = sys_invD [OF inv]
  have y: "op_other y = op_other x" "same_owner x y" "\<not> op_pending y" "op_fileid y = op_fileid x"
    "op_access y = a" "op_deny y = d" using 2(5,8) by (simp_all add: same_owner_def)
  have "open_state_find (sys_tab s) sid = Some x"
    using op.by_sid_iff [OF open_invD(1) [OF I(1)], of "other sid" p] 2(1,2) by (simp add: open_state_find_def)
  then have safe: "share_safe (heap (open_set (sys_tab s) p y))"
    if "narrows (sys_tab s) (OpDowngrade c sid a d f)" "share_safe (heap (sys_tab s))"
    unfolding op.update_objs using that y 2(1,7) by (intro share_safe_narrow) (auto simp: narrows_def)
  have "flights_inv (sid_minted (ot_mds_id (sys_tab s)) seed n) (heap (open_set (sys_tab s) p y)) (sys_flights s)"
    unfolding op.update_objs using idle_no_flight [OF I(2) 2(1,5)] y by (intro flights_put_idle [OF I(2)]) auto
  then show ?thesis using open_inv_update [OF I(1) 2(1) y(1,2)] safe 2(9) by (simp add: sys_inv_def)
qed

lemma exec_inv:
  assumes inv: "sys_inv seed n s" and n: "n < 2 ^ 64"
  shows "(\<exists>m \<in> {n, Suc n}. sys_inv seed m (open_exec s op)) \<and>
    (narrows (sys_tab s) op \<longrightarrow> share_safe (heap (sys_tab s)) \<longrightarrow> share_safe (heap (sys_tab (open_exec s op))))"
proof -
  note O = open_invD [OF sys_invD(1) [OF inv]]
  show ?thesis
  proof (cases op)
    case (OpOpen oom c w f a d)
    then show ?thesis using exec_open_inv [OF inv n, of oom c w f a d] by blast
  next
    case (OpCommit i pst)
    then show ?thesis using exec_commit_inv [OF inv, of i pst] by blast
  next
    case (OpClose c sid f)
    then show ?thesis using exec_close_inv [OF inv, of c sid f] by blast
  next
    case (OpDowngrade c sid a d f)
    then show ?thesis using exec_downgrade_inv [OF inv, of c sid a d f] by blast
  next
    case (OpCloseAll c)
    then show ?thesis using sys_shrink [OF inv close_all_heap(1,2) [OF O(1-3), of c]] close_all_heap(3) [OF O(1-3), of c] by auto
  next
    case (OpRevoke f cids expired)
    then show ?thesis
      using sys_shrink [OF inv revoke_remove_heap(1,2) [OF O(1), of f cids expired]] revoke_remove_heap(3) [OF O(1), of f cids expired]
      by auto
  next
    case (OpSetSkip b)
    have "open_wf (sys_tab s\<lparr>ot_skip_ndb := b\<rparr>) = open_wf (sys_tab s)"
      by (simp add: open_wf_def idx_wf_def hash_other_def hash_fileid_def)
    then show ?thesis using OpSetSkip inv by (auto simp: sys_inv_def open_inv_def open_state_table_set_skip_ndb_def)
  qed
qed

lemma run_inv:
  assumes "sys_inv seed n s" "n + length ops \<le> 2 ^ 64"
  shows "(\<exists>m \<le> n + length ops. sys_inv seed m (open_run s ops)) \<and>
    (narrowing_run s ops \<longrightarrow> share_safe (heap (sys_tab s)) \<longrightarrow> share_safe (heap (sys_tab (open_run s ops))))"
  using assms
proof (induction ops arbitrary: n s)
  case Nil
  then show ?case by (auto simp: open_run_def)
next
  case (Cons op ops)
  have "n < 2 ^ 64" using Cons.prems(2) by simp
  note E = exec_inv [OF Cons.prems(1) this, of op]
  then obtain m where "m \<in> {n, Suc n}" "sys_inv seed m (open_exec s op)" by blast
  then have m: "m \<le> Suc n" "sys_inv seed m (open_exec s op)" by auto
  have "m + length ops \<le> 2 ^ 64" using m(1) Cons.prems(2) by simp
  note IH = Cons.IH [OF m(2) this]
  then obtain k where "k \<le> m + length ops" "sys_inv seed k (open_run (open_exec s op) ops)" by blast
  then have "\<exists>k \<le> n + length (op # ops). sys_inv seed k (open_run s (op # ops))"
    using m(1) by (intro exI [of _ k]) (simp add: open_run_def)
  then show ?case using IH E by (simp add: open_run_def)
qed

end
