(* ===== verification/Open_Spec.thy ===== *)
theory Open_Spec
  imports Open_Sys
begin

text \<open>
  What the open table promises: a map from (file, client, open owner) to the share modes that owner holds.
  OPEN adds the requested modes to the owner's entry unless another owner's reservation forbids it, CLOSE
  removes an entry, teardown and revocation remove the entries of a client.
\<close>

type_synonym open_key = "u64 \<times> u64 \<times> bytes"

definition key_of :: "nfs4_open_state \<Rightarrow> open_key" where
  "key_of x = (op_fileid x, op_clientid x, op_owner x)"

definition modes_of :: "nfs4_open_state \<Rightarrow> u32 \<times> u32" where
  "modes_of x = (op_access x, op_deny x)"

definition opens_of :: "open_state_table \<Rightarrow> open_key \<Rightarrow> (u32 \<times> u32) option" where
  "opens_of ot k =
     (case k of (f, c, w) \<Rightarrow>
        map_option (\<lambda>p. modes_of (deref ot p)) (find_owner_open ot (find_file_opens ot f) c w))"

definition reserve_conflict :: "(open_key \<rightharpoonup> u32 \<times> u32) \<Rightarrow> open_key \<Rightarrow> u32 \<Rightarrow> u32 \<Rightarrow> bool" where
  "reserve_conflict m k a d \<longleftrightarrow>
     (\<exists>k' a' d'. fst k' = fst k \<and> k' \<noteq> k \<and> m k' = Some (a', d') \<and> (a AND d' \<noteq> 0 \<or> a' AND d \<noteq> 0))"

definition merged_modes :: "(u32 \<times> u32) option \<Rightarrow> u32 \<Rightarrow> u32 \<Rightarrow> u32 \<times> u32" where
  "merged_modes held a d = (case held of None \<Rightarrow> (a, d) | Some (a0, d0) \<Rightarrow> (a0 OR a, d0 OR d))"

lemma same_owner_key: "same_owner x y \<longleftrightarrow> key_of x = key_of y"
  by (simp add: same_owner_def key_of_def)

lemma opens_of_iff:
  assumes "open_inv seed n ot"
  shows "opens_of ot k = Some m \<longleftrightarrow> (\<exists>p x. heap ot p = Some x \<and> key_of x = k \<and> modes_of x = m)"
proof -
  obtain f c w where k: "k = (f, c, w)" by (cases k)
  note O = open_invD [OF assms]
  show ?thesis
  proof (cases "find_owner_open ot (find_file_opens ot f) c w")
    case None
    then show ?thesis using find_owner_open_None [OF O(1), of f c w] by (auto simp: opens_of_def k key_of_def)
  next
    case (Some p)
    obtain x where x: "heap ot p = Some x" "op_fileid x = f" "op_clientid x = c" "op_owner x = w"
      by (rule find_owner_open_Some [OF O(1) Some])
    then have kx: "key_of x = k" and o: "opens_of ot k = Some (modes_of x)"
      using Some by (simp_all add: opens_of_def k key_of_def)
    have "y = x" if "heap ot q = Some y" "key_of y = k" for q y
    proof -
      have "q = p" using O(6) that x(1) kx unfolding owners_unique_def same_owner_key by blast
      then show ?thesis using that(1) x(1) by simp
    qed
    then show ?thesis unfolding o using x(1) kx by blast
  qed
qed

lemma opens_eqI:
  assumes "\<And>m. a = Some m \<longleftrightarrow> b = Some m"
  shows "a = b"
  using assms by (metis option.exhaust)

lemma opens_put:
  assumes inv: "open_inv seed n ot" "open_inv seed' n' ot'" and h: "heap ot' = (heap ot)(p \<mapsto> y)"
    and old: "\<And>x. heap ot p = Some x \<Longrightarrow> key_of x = key_of y"
  shows "opens_of ot' = (opens_of ot)(key_of y \<mapsto> modes_of y)"
proof (rule ext, rule opens_eqI)
  fix k m
  have "owners_unique (heap ot')" using open_invD(6) [OF inv(2)] .
  then have u: "q = p" if "heap ot' q = Some x" "key_of x = key_of y" for q x
    using that h unfolding owners_unique_def same_owner_key by (metis fun_upd_same)
  show "opens_of ot' k = Some m \<longleftrightarrow> ((opens_of ot)(key_of y \<mapsto> modes_of y)) k = Some m"
  proof (cases "k = key_of y")
    case True
    have "x = y" if "heap ot' q = Some x" "key_of x = key_of y" for q x
      using u [OF that] that(1) by (simp add: h)
    moreover have "heap ot' p = Some y" by (simp add: h)
    ultimately have "(\<exists>q x. heap ot' q = Some x \<and> key_of x = key_of y \<and> modes_of x = m) \<longleftrightarrow> modes_of y = m" by blast
    then show ?thesis unfolding opens_of_iff [OF inv(2)] True by simp
  next
    case False
    then have "heap ot' q = Some x \<and> key_of x = k \<longleftrightarrow> heap ot q = Some x \<and> key_of x = k" for q x
      using old by (auto simp: h)
    then show ?thesis using False opens_of_iff [OF inv(1), of k m] opens_of_iff [OF inv(2), of k m] by (simp, blast)
  qed
qed

lemma opens_drop:
  assumes inv: "open_inv seed n ot" "open_inv seed' n' ot'" and h: "heap ot' = (heap ot)(p := None)"
    and x: "heap ot p = Some x"
  shows "opens_of ot' = (opens_of ot)(key_of x := None)"
proof (rule ext, rule opens_eqI)
  fix k m
  have u: "q = p" if "heap ot q = Some z" "key_of z = key_of x" for q z
    using open_invD(6) [OF inv(1)] that x unfolding owners_unique_def same_owner_key by blast
  have "heap ot' q = Some z \<and> key_of z = k \<longleftrightarrow> heap ot q = Some z \<and> key_of z = k \<and> k \<noteq> key_of x" for q z
    using u [of q z] x by (auto simp: h)
  then have "opens_of ot' k = Some m \<longleftrightarrow> opens_of ot k = Some m \<and> k \<noteq> key_of x"
    unfolding opens_of_iff [OF inv(1)] opens_of_iff [OF inv(2)] by blast
  then show "opens_of ot' k = Some m \<longleftrightarrow> ((opens_of ot)(key_of x := None)) k = Some m" by simp
qed

lemma opens_filter:
  assumes inv: "open_inv seed n ot" "open_inv seed' n' ot'" and h: "heap ot' = heap_filter P (heap ot)"
    and P: "\<And>p x. heap ot p = Some x \<Longrightarrow> P x \<longleftrightarrow> Q (key_of x)"
  shows "opens_of ot' k = (if Q k then opens_of ot k else None)"
proof (rule opens_eqI)
  fix m
  show "opens_of ot' k = Some m \<longleftrightarrow> (if Q k then opens_of ot k else None) = Some m"
    unfolding opens_of_iff [OF inv(2)] using opens_of_iff [OF inv(1), of k m] P by (auto simp: h)
qed

lemma opens_heap_cong:
  assumes "open_inv seed n ot" "open_inv seed' n' ot'" "heap ot' = heap ot"
  shows "opens_of ot' = opens_of ot"
  using assms by (intro ext opens_eqI) (simp add: opens_of_iff)

lemma reserve_conflict_iff:
  assumes inv: "open_inv seed n ot"
  shows "reserve_conflict (opens_of ot) k a d \<longleftrightarrow>
    (\<exists>p x. heap ot p = Some x \<and> op_fileid x = fst k \<and> key_of x \<noteq> k \<and> modes_conflict x a d)"
proof
  assume "reserve_conflict (opens_of ot) k a d"
  then obtain p x where x: "heap ot p = Some x" "fst (key_of x) = fst k" "key_of x \<noteq> k" "modes_conflict x a d"
    unfolding reserve_conflict_def opens_of_iff [OF inv] modes_conflict_def modes_of_def by force
  have "op_fileid x = fst k" using x(2) by (simp add: key_of_def)
  then show "\<exists>p x. heap ot p = Some x \<and> op_fileid x = fst k \<and> key_of x \<noteq> k \<and> modes_conflict x a d"
    using x by blast
next
  assume "\<exists>p x. heap ot p = Some x \<and> op_fileid x = fst k \<and> key_of x \<noteq> k \<and> modes_conflict x a d"
  then obtain p x where x: "heap ot p = Some x" "op_fileid x = fst k" "key_of x \<noteq> k" "modes_conflict x a d" by blast
  have "opens_of ot (key_of x) = Some (op_access x, op_deny x)" unfolding opens_of_iff [OF inv] modes_of_def using x(1) by blast
  moreover have "fst (key_of x) = fst k" using x(2) by (simp add: key_of_def)
  ultimately show "reserve_conflict (opens_of ot) k a d"
    unfolding reserve_conflict_def using x(3,4) unfolding modes_conflict_def by blast
qed

text \<open>The first section of OPEN on valid arguments and enough memory.\<close>

lemma open_begin_spec:
  assumes inv: "open_inv seed n ot" and ok: "open_args_ok w a"
    and idle: "\<forall>p x. heap ot p = Some x \<longrightarrow> key_of x = (f, c, w) \<longrightarrow> \<not> op_pending x"
    and m: "merged_modes (opens_of ot (f, c, w)) a d = (a', d')"
  shows "reserve_conflict (opens_of ot) (f, c, w) a' d' \<Longrightarrow>
      \<exists>ot1 \<in> {ot, mint ot}. open_state_open_begin {} ot c w f a d = (ot1, OpenDone (-1) None)"
    and "\<not> reserve_conflict (opens_of ot) (f, c, w) a' d' \<Longrightarrow> open_state_open_begin {} ot c w f a d = (ot', ph) \<Longrightarrow>
      \<not> (\<exists>rc. ph = OpenDone rc None)"
proof -
  note O = open_invD [OF inv]
  have key: "key_of x = (f, c, w) \<longleftrightarrow> op_fileid x = f \<and> op_clientid x = c \<and> op_owner x = w" for x
    by (auto simp: key_of_def)
  note R = reserve_conflict_iff [OF inv, of "(f, c, w)" a' d']
  have "(reserve_conflict (opens_of ot) (f, c, w) a' d' \<longrightarrow>
      (\<exists>ot1 \<in> {ot, mint ot}. open_state_open_begin {} ot c w f a d = (ot1, OpenDone (-1) None))) \<and>
    (\<not> reserve_conflict (opens_of ot) (f, c, w) a' d' \<longrightarrow> open_state_open_begin {} ot c w f a d = (ot', ph) \<longrightarrow>
      \<not> (\<exists>rc. ph = OpenDone rc None))"
  proof (cases "find_owner_open ot (find_file_opens ot f) c w")
    case None
    then have none: "\<forall>p x. heap ot p = Some x \<longrightarrow> key_of x \<noteq> (f, c, w)"
      using find_owner_open_None [OF O(1), of f c w] by (simp add: key)
    have "(a', d') = (a, d)" using m None by (simp add: opens_of_def merged_modes_def)
    then have "share_conflict ot (find_file_opens ot f) a d \<longleftrightarrow> reserve_conflict (opens_of ot) (f, c, w) a' d'"
      unfolding R share_conflict_iff [OF O(1)] using none by auto
    then show ?thesis using None ok by (auto simp: open_begin_alt [OF O(1)] published_def)
  next
    case (Some p)
    obtain x where x: "heap ot p = Some x" "op_fileid x = f" "op_clientid x = c" "op_owner x = w"
      by (rule find_owner_open_Some [OF O(1) Some])
    then have k: "key_of x = (f, c, w)" by (simp add: key)
    have m': "(a', d') = (op_access x OR a, op_deny x OR d)"
      using m Some x(1) by (simp add: opens_of_def merged_modes_def modes_of_def)
    have "q = p \<longleftrightarrow> key_of y = (f, c, w)" if "heap ot q = Some y" for q y
      using O(6) that x(1) k unfolding owners_unique_def same_owner_key by auto
    then have "share_conflict_excluding ot (find_file_opens ot f) p a' d' \<longleftrightarrow>
        reserve_conflict (opens_of ot) (f, c, w) a' d'"
      unfolding R share_conflict_excluding_iff [OF O(1)] by auto
    moreover have "\<not> op_pending x" using idle x(1) k by blast
    ultimately show ?thesis
      using Some ok x(1) m' by (auto simp: open_begin_alt [OF O(1)] published_def Let_def)
  qed
  then show "reserve_conflict (opens_of ot) (f, c, w) a' d' \<Longrightarrow>
      \<exists>ot1 \<in> {ot, mint ot}. open_state_open_begin {} ot c w f a d = (ot1, OpenDone (-1) None)"
    "\<not> reserve_conflict (opens_of ot) (f, c, w) a' d' \<Longrightarrow> open_state_open_begin {} ot c w f a d = (ot', ph) \<Longrightarrow>
      \<not> (\<exists>rc. ph = OpenDone rc None)" by blast+
qed

end
