(* ===== verification/Open_Theorems.thy ===== *)
theory Open_Theorems
  imports Open_Spec
begin

text \<open>
  The properties of the OPEN state table. The states they speak of are those the table reaches from
  initialisation by any interleaving of lock sections (\<open>open_run\<close> from \<open>open_boot\<close>).
\<close>

definition open_boot :: "u32 \<Rightarrow> u32 \<Rightarrow> u32 \<Rightarrow> u32 \<Rightarrow> u64 \<Rightarrow> bool \<Rightarrow> u64 \<Rightarrow> open_sys" where
  "open_boot mds fb sb ls now cat epoch =
     \<lparr>sys_tab = open_state_table_set_cat (open_state_table_init_ex mds fb sb ls now) cat epoch, sys_flights = []\<rparr>"

lemma open_boot_inv: "\<exists>seed. sys_inv seed 0 (open_boot mds fb sb ls now cat epoch)"
proof -
  let ?ot = "sys_tab (open_boot mds fb sb ls now cat epoch)"
  have h: "heap ?ot = Map.empty" "next_ptr ?ot = 0" "file_hash ?ot = (\<lambda>_. [])" "sid_hash ?ot = (\<lambda>_. [])"
    by (simp_all add: open_boot_def open_state_table_set_cat_def open_state_table_init_ex_def Let_def)
  have wf: "open_wf ?ot" by (simp add: open_wf_def idx_wf_def h)
  have "stateid_buckets ?ot \<noteq> 0 \<and> lock_stripes ?ot \<noteq> 0"
    by (auto simp: open_boot_def open_state_table_set_cat_def open_state_table_init_ex_def Let_def)
  with wf h have "open_inv (next_other_seq ?ot) 0 ?ot" by (simp add: open_inv_def owners_unique_def)
  then have "sys_inv (next_other_seq ?ot) 0 (open_boot mds fb sb ls now cat epoch)"
    using h(1) by (simp add: sys_inv_def flights_inv_def open_boot_def)
  then show ?thesis ..
qed

lemma reach_inv:
  assumes "length ops < 2 ^ 64"
  obtains seed n where "n < 2 ^ 64" "sys_inv seed n (open_run (open_boot mds fb sb ls now cat epoch) ops)"
proof -
  obtain seed where "sys_inv seed 0 (open_boot mds fb sb ls now cat epoch)" using open_boot_inv by blast
  then obtain m where "m \<le> length ops" "sys_inv seed m (open_run (open_boot mds fb sb ls now cat epoch) ops)"
    using run_inv [of seed 0 _ ops] assms by auto
  then show thesis using assms by (intro that) auto
qed

section \<open>OPEN as a whole\<close>

lemma commit_own:
  assumes inv: "open_inv seed m ot" and x: "heap ot p = Some x" "op_other x = flight_other fl" "flight_ok fl x"
    and C: "open_commit ot fl pst = (ot', rc)"
  shows "open_inv seed m ot'" "rc = (if persisted pst then 0 else -5)"
    "persisted pst \<Longrightarrow> heap ot' = (heap ot)(p \<mapsto> x\<lparr>op_pending := False\<rparr>)"
    "\<not> persisted pst \<Longrightarrow> fl = Fresh row \<Longrightarrow> heap ot' = (heap ot)(p := None)"
    "\<not> persisted pst \<Longrightarrow> fl = Upgrade row ps pa pd \<Longrightarrow> heap ot' = (heap ot)(p \<mapsto>
       x\<lparr>op_stateid := (op_stateid x)\<lparr>seqid := ps\<rparr>, op_access := pa, op_deny := pd, op_pending := False\<rparr>)"
proof -
  have u: "q = p \<and> y = x" if "heap ot q = Some y" "op_other y = flight_other fl" for q y
  proof -
    have "q = p" by (rule op.sid_unique [OF open_invD(1) [OF inv] that(1) x(1)]) (simp add: that(2) x(2))
    then show ?thesis using that(1) x(1) by simp
  qed
  then have ok: "\<forall>q y. heap ot q = Some y \<longrightarrow> op_other y = flight_other fl \<longrightarrow> flight_ok fl y" using x(3) by blast
  have "open_inv seed m ot' \<and> rc = (if persisted pst then 0 else -5) \<and>
    (persisted pst \<longrightarrow> heap ot' = (heap ot)(p \<mapsto> x\<lparr>op_pending := False\<rparr>)) \<and>
    (\<not> persisted pst \<longrightarrow> fl = Fresh row \<longrightarrow> heap ot' = (heap ot)(p := None)) \<and>
    (\<not> persisted pst \<longrightarrow> fl = Upgrade row ps pa pd \<longrightarrow> heap ot' = (heap ot)(p \<mapsto>
       x\<lparr>op_stateid := (op_stateid x)\<lparr>seqid := ps\<rparr>, op_access := pa, op_deny := pd, op_pending := False\<rparr>))"
  proof (cases rule: open_commit_cases [OF inv ok, where pst = pst])
    case 1
    then show ?thesis using x by blast
  next
    case (2 q y)
    have "q = p" using u [OF 2(1,2)] by simp
    moreover have "fl \<noteq> Upgrade row ps pa pd" using 2(4) by (metis open_flight.distinct(1))
    ultimately show ?thesis using 2(3,5,6) C op.discard_objs [OF 2(1)] by simp
  next
    case (3 q y z)
    have qy: "q = p" "y = x" using u [OF 3(1,2)] by simp_all
    have "persisted pst" if "fl = Fresh row" using 3(3,8) that qy x(3) by (auto simp: flight_ok_def split: if_splits)
    then show ?thesis using 3(3,4,5) qy C by (auto simp: op.update_objs)
  qed
  then show "open_inv seed m ot'" "rc = (if persisted pst then 0 else -5)"
    "persisted pst \<Longrightarrow> heap ot' = (heap ot)(p \<mapsto> x\<lparr>op_pending := False\<rparr>)"
    "\<not> persisted pst \<Longrightarrow> fl = Fresh row \<Longrightarrow> heap ot' = (heap ot)(p := None)"
    "\<not> persisted pst \<Longrightarrow> fl = Upgrade row ps pa pd \<Longrightarrow> heap ot' = (heap ot)(p \<mapsto>
       x\<lparr>op_stateid := (op_stateid x)\<lparr>seqid := ps\<rparr>, op_access := pa, op_deny := pd, op_pending := False\<rparr>)"
    by blast+
qed

text \<open>The table after an OPEN that was not refused: the record is published, and when the table persists it
  is committed or put back, by the status of the write.\<close>

lemma open_run_published:
  assumes run: "open_state_open oom pst ot c w f a d = (ot', rc, out)"
    and eq: "open_state_open_begin oom ot c w f a d = (ot1, ph)" and pub: "(ot1, ph) = published T x mk"
    and on: "persist_on T = persist_on ot"
  shows "out = Some (op_stateid x)"
    "\<not> persist_on ot \<Longrightarrow> ot' = T \<and> rc = 0"
    "persist_on ot \<Longrightarrow> open_commit (log_put T (row_of T x)) (mk (row_of T x)) pst = (ot', rc)"
  using assms by (auto simp: open_state_open_def published_def split: if_splits prod.splits)

lemma grant_new:
  fixes s c w f a d
  defines "ot \<equiv> sys_tab s"
  defines "x \<equiv> fresh_open ot c w f a d"
  assumes inv: "sys_inv seed n s" and n: "n < 2 ^ 64"
    and eq: "open_state_open_begin oom ot c w f a d = (ot1, ph)" and pub: "(ot1, ph) = published (open_insert (mint ot) x) x Fresh"
    and own: "\<forall>p y. heap ot p = Some y \<longrightarrow> \<not> same_owner y x"
    and run: "open_state_open oom pst ot c w f a d = (ot', rc, out)"
  shows "rc = (if persist_on ot \<and> \<not> persisted pst then -5 else 0)"
    "open_inv seed (Suc n) ot'" "out = Some (op_stateid x)"
    "heap ot' = (if rc = 0 then (heap ot)(next_ptr ot \<mapsto> x\<lparr>op_pending := False\<rparr>) else heap ot)"
proof -
  let ?T = "open_insert (mint ot) x"
  note I = sys_invD [OF inv, folded ot_def]
  have fr: "op_pending x = persist_on ot" "op_other x = open_other (ot_mds_id ot) (next_other_seq ot)"
    by (simp_all add: x_def)
  note Ins = open_inv_insert(1) [OF I(1) n fr(2) own]
  note R = open_run_published [OF run eq pub]
  have h: "heap ?T = (heap ot)(next_ptr ot \<mapsto> x)" "heap ot (next_ptr ot) = None"
    using op.new_addr [OF open_invD(1) [OF I(1)]] by (simp_all add: op.insert_objs)
  have C: "open_inv seed (Suc n) ot' \<and> rc = (if persisted pst then 0 else -5) \<and>
      heap ot' = (if persisted pst then (heap ot)(next_ptr ot \<mapsto> x\<lparr>op_pending := False\<rparr>) else heap ot)" if on: "persist_on ot"
  proof -
    have i: "open_inv seed (Suc n) (log_put ?T (row_of ?T x))" "heap (log_put ?T (row_of ?T x)) (next_ptr ot) = Some x"
      "op_other x = flight_other (Fresh (row_of ?T x))" "flight_ok (Fresh (row_of ?T x)) x"
      using Ins h on fr by (simp_all add: flight_ok_def)
    have "open_commit (log_put ?T (row_of ?T x)) (Fresh (row_of ?T x)) pst = (ot', rc)" using R(3) on by simp
    note CO = commit_own [OF i this]
    show ?thesis using CO(1,2,3) CO(4) [OF _ refl] h by (auto simp: fun_upd_idem)
  qed
  have "rc = (if persist_on ot \<and> \<not> persisted pst then -5 else 0) \<and>
    open_inv seed (Suc n) ot' \<and>
    out = Some (op_stateid x) \<and>
    heap ot' = (if rc = 0 then (heap ot)(next_ptr ot \<mapsto> x\<lparr>op_pending := False\<rparr>) else heap ot)"
  proof (cases "persist_on ot")
    case True
    then show ?thesis using C [OF True] R(1) by simp
  next
    case False
    then have "x\<lparr>op_pending := False\<rparr> = x" using fr(1) by (cases x) simp
    then show ?thesis using R(1) R(2) [OF _ False] Ins h(1) False by simp
  qed
  then show "rc = (if persist_on ot \<and> \<not> persisted pst then -5 else 0)" "open_inv seed (Suc n) ot'" "out = Some (op_stateid x)"
    "heap ot' = (if rc = 0 then (heap ot)(next_ptr ot \<mapsto> x\<lparr>op_pending := False\<rparr>) else heap ot)"
    by blast+
qed

lemma grant_again:
  fixes s p x a d
  defines "ot \<equiv> sys_tab s"
  defines "y \<equiv> reopened ot x a d"
  assumes inv: "sys_inv seed n s" and x: "heap ot p = Some x" "\<not> op_pending x"
    and eq: "open_state_open_begin oom ot c w f a d = (ot1, ph)"
    and pub: "(ot1, ph) = published (open_set ot p y) y (\<lambda>row. Upgrade row (op_seqid x) (op_access x) (op_deny x))"
    and run: "open_state_open oom pst ot c w f a d = (ot', rc, out)"
  shows "rc = (if persist_on ot \<and> \<not> persisted pst then -5 else 0)"
    "open_inv seed n ot'" "out = Some (op_stateid y)"
    "heap ot' = (if rc = 0 then (heap ot)(p \<mapsto> y\<lparr>op_pending := False\<rparr>) else heap ot)"
proof -
  let ?T = "open_set ot p y" and ?fl = "Upgrade (row_of (open_set ot p y) y) (op_seqid x) (op_access x) (op_deny x)"
  note I = sys_invD [OF inv, folded ot_def]
  have y: "op_pending y = persist_on ot" "op_other y = op_other x" by (simp_all add: y_def)
  have Upd: "open_inv seed n ?T" using open_inv_update [OF I(1) x(1)] by (simp add: y_def)
  note R = open_run_published [OF run eq pub]
  have h: "heap ?T = (heap ot)(p \<mapsto> y)" by (simp add: op.update_objs)
  have restored: "y\<lparr>op_stateid := (op_stateid y)\<lparr>seqid := op_seqid x\<rparr>, op_access := op_access x, op_deny := op_deny x,
      op_pending := False\<rparr> = x" using x(2) by (cases x) (simp add: y_def reopened_def)
  have C: "open_inv seed n ot' \<and> rc = (if persisted pst then 0 else -5) \<and>
      heap ot' = (if persisted pst then (heap ot)(p \<mapsto> y\<lparr>op_pending := False\<rparr>) else heap ot)" if on: "persist_on ot"
  proof -
    have i: "open_inv seed n (log_put ?T (row_of ?T y))" "heap (log_put ?T (row_of ?T y)) p = Some y"
      "op_other y = flight_other ?fl" "flight_ok ?fl y"
      using Upd h on by (simp_all add: flight_ok_def y_def)
    have "open_commit (log_put ?T (row_of ?T y)) ?fl pst = (ot', rc)" using R(3) on by simp
    note CO = commit_own [OF i this]
    show ?thesis using CO(1,2,3) CO(5) [OF _ refl] h x(1) by (auto simp: fun_upd_idem restored)
  qed
  have "rc = (if persist_on ot \<and> \<not> persisted pst then -5 else 0) \<and>
    open_inv seed n ot' \<and>
    out = Some (op_stateid y) \<and>
    heap ot' = (if rc = 0 then (heap ot)(p \<mapsto> y\<lparr>op_pending := False\<rparr>) else heap ot)"
  proof (cases "persist_on ot")
    case True
    then show ?thesis using C [OF True] R(1) by simp
  next
    case False
    then have "y\<lparr>op_pending := False\<rparr> = y" using y(1) by (cases y) simp
    then show ?thesis using R(1) R(2) [OF _ False] Upd h False by simp
  qed
  then show "rc = (if persist_on ot \<and> \<not> persisted pst then -5 else 0)" "open_inv seed n ot'" "out = Some (op_stateid y)"
    "heap ot' = (if rc = 0 then (heap ot)(p \<mapsto> y\<lparr>op_pending := False\<rparr>) else heap ot)"
    by blast+
qed

section \<open>Lookups by stateid\<close>

lemma open_find_iff:
  assumes "open_inv seed n ot"
  shows "open_state_find ot sid = Some x \<longleftrightarrow> (\<exists>p. heap ot p = Some x \<and> op_other x = other sid)"
proof -
  note B = op.by_sid_iff [OF open_invD(1) [OF assms], of "other sid"]
  show ?thesis
  proof
    assume "open_state_find ot sid = Some x"
    then obtain p where "find_by_other ot (other sid) = Some p" "x = deref ot p" by (auto simp: open_state_find_def)
    then show "\<exists>p. heap ot p = Some x \<and> op_other x = other sid" using B [of p] by auto
  next
    assume "\<exists>p. heap ot p = Some x \<and> op_other x = other sid"
    then obtain p where "heap ot p = Some x" "op_other x = other sid" by blast
    then show "open_state_find ot sid = Some x" using B [of p] by (auto simp: open_state_find_def)
  qed
qed

lemma open_find_shrink:
  assumes inv: "open_inv seed n ot" "open_inv seed' n' ot'" and h: "heap ot' = heap_filter P (heap ot)"
  shows "open_state_find ot' sid =
    (case open_state_find ot sid of Some x \<Rightarrow> if P x then Some x else None | None \<Rightarrow> None)"
proof (rule option_filterI)
  fix x
  show "open_state_find ot' sid = Some x \<longleftrightarrow> open_state_find ot sid = Some x \<and> P x"
    unfolding open_find_iff [OF inv(1)] open_find_iff [OF inv(2)] by (auto simp: h)
qed

lemma open_find_frame:
  assumes inv: "open_inv seed n ot" "open_inv seed' n' ot'"
    and h: "\<And>p x. op_other x = other sid \<Longrightarrow> heap ot' p = Some x \<longleftrightarrow> heap ot p = Some x"
  shows "open_state_find ot' sid = open_state_find ot sid"
proof (rule opens_eqI)
  show "open_state_find ot' sid = Some x \<longleftrightarrow> open_state_find ot sid = Some x" for x
    unfolding open_find_iff [OF inv(1)] open_find_iff [OF inv(2)] using h by blast
qed

definition owner_open :: "open_state_table \<Rightarrow> open_key \<Rightarrow> nfs4_open_state option" where
  "owner_open ot k =
     (case k of (f, c, w) \<Rightarrow> map_option (deref ot) (find_owner_open ot (find_file_opens ot f) c w))"

lemma owner_open_iff:
  assumes inv: "open_inv seed n ot"
  shows "owner_open ot k = Some x \<longleftrightarrow> (\<exists>p. heap ot p = Some x \<and> key_of x = k)"
proof -
  obtain f c w where k: "k = (f, c, w)" by (cases k)
  note O = open_invD [OF inv]
  show ?thesis
  proof (cases "find_owner_open ot (find_file_opens ot f) c w")
    case None
    then show ?thesis using find_owner_open_None [OF O(1), of f c w] by (auto simp: owner_open_def k key_of_def)
  next
    case (Some p)
    obtain y where y: "heap ot p = Some y" "op_fileid y = f" "op_clientid y = c" "op_owner y = w"
      by (rule find_owner_open_Some [OF O(1) Some])
    then have ky: "key_of y = k" and o: "owner_open ot k = Some y" using Some by (simp_all add: owner_open_def k key_of_def)
    have "q = p" if "heap ot q = Some x" "key_of x = k" for q
      using O(6) that y(1) ky unfolding owners_unique_def same_owner_key by blast
    then show ?thesis unfolding o using y(1) ky by fastforce
  qed
qed

lemma opens_none:
  assumes "open_inv seed n ot" "\<forall>p y. heap ot p = Some y \<longrightarrow> \<not> same_owner y x"
  shows "opens_of ot (key_of x) = None"
proof (rule ccontr)
  assume "opens_of ot (key_of x) \<noteq> None"
  then obtain m where "opens_of ot (key_of x) = Some m" by blast
  then show False using assms(2) unfolding opens_of_iff [OF assms(1)] same_owner_key by blast
qed

section \<open>Properties of OPEN\<close>

text \<open>C12. OPEN refines the map of share reservations: on valid arguments and enough memory, in every reachable
  state in which the owner has no OPEN of its own in flight, it is refused with SHARE_DENIED exactly when
  another owner's reservation on the file conflicts with the union of the modes held and asked for; otherwise
  it enters that union, or, when the durable write fails, answers DELAY and leaves the map as it was.\<close>

theorem open_refines:
  assumes "length ops < 2 ^ 64" and s: "s = open_run (open_boot mds fb sb ls now cat epoch) ops" "ot = sys_tab s"
    and args: "open_args_ok w a" and idle: "map_option op_pending (owner_open ot (f, c, w)) \<noteq> Some True"
    and m: "merged_modes (opens_of ot (f, c, w)) a d = (a', d')"
    and run: "open_state_open {} pst ot c w f a d = (ot', rc, out)"
  shows "rc = (if reserve_conflict (opens_of ot) (f, c, w) a' d' then -1
               else if persist_on ot \<and> \<not> persisted pst then -5 else 0) \<and>
    opens_of ot' = (if rc = 0 then (opens_of ot)((f, c, w) \<mapsto> (a', d')) else opens_of ot)"
proof -
  obtain seed n where inv: "n < 2 ^ 64" "sys_inv seed n s" by (rule reach_inv [OF assms(1)]) (auto simp: s(1))
  note I = sys_invD(1) [OF inv(2), folded s(2)]
  have np: "\<forall>p x. heap ot p = Some x \<longrightarrow> key_of x = (f, c, w) \<longrightarrow> \<not> op_pending x"
    using idle owner_open_iff [OF I, of "(f, c, w)"] by fastforce
  obtain ot1 ph where eq: "open_state_open_begin {} ot c w f a d = (ot1, ph)" by fastforce
  note B = open_begin_spec [OF I args np m]
  show ?thesis
  proof (cases "reserve_conflict (opens_of ot) (f, c, w) a' d'")
    case True
    then have "rc = -1" "ot' = ot \<or> ot' = mint ot" using B(1) run by (auto simp: open_state_open_def)
    moreover have "opens_of (mint ot) = opens_of ot" by (rule opens_heap_cong [OF I open_inv_mint [OF I]]) simp
    ultimately show ?thesis using True by auto
  next
    case False
    then have go: "\<nexists>rc. ph = OpenDone rc None" using B(2) [OF False eq] by blast
    show ?thesis
    proof (cases rule: open_begin_cases [OF open_invD(1) [OF I] eq])
      case (1 rc)
      then show ?thesis using go by blast
    next
      case (2 x)
      note G = grant_new [OF inv(2,1), folded s(2), OF eq 2(2) [unfolded 2(1)] 2(3) [unfolded 2(1)] run]
      have "opens_of ot (f, c, w) = None" using opens_none [OF I 2(3)] 2(1) by (simp add: key_of_def)
      then have ad: "a' = a" "d' = d" using m by (simp_all add: merged_modes_def)
      have new: "heap ot (next_ptr ot) = None" by (rule op.new_addr [OF open_invD(1) [OF I]])
      show ?thesis
        using G(1,4) False ad opens_heap_cong [OF I G(2)] opens_put [OF I G(2), of "next_ptr ot"] new
        by (auto simp: key_of_def modes_of_def)
    next
      case (3 p x)
      note G = grant_again [OF inv(2), folded s(2), OF 3(1,5) eq 3(6) run]
      have k: "key_of x = (f, c, w)" using 3(2-4) by (simp add: key_of_def)
      have "opens_of ot (f, c, w) = Some (modes_of x)" unfolding opens_of_iff [OF I] using 3(1) k by blast
      then have ad: "a' = op_access x OR a" "d' = op_deny x OR d" using m by (simp_all add: merged_modes_def modes_of_def)
      let ?y = "(reopened ot x a d)\<lparr>op_pending := False\<rparr>"
      have ky: "key_of ?y = (f, c, w)" "modes_of ?y = (a', d')" using k ad by (simp_all add: key_of_def modes_of_def reopened_def)
      show ?thesis
        using G(1,4) False opens_heap_cong [OF I G(2)] opens_put [OF I G(2), of p ?y] 3(1) k ky by auto
    qed
  qed
qed

definition wo_boot :: open_sys where "wo_boot = open_boot 7 2 2 1 1000 True 3"

definition wo_ops :: "open_op list" where
  "wo_ops = [OpOpen {} 1 [65] 9 1 0, OpCommit 0 MDS_OK, OpOpen {} 2 [66] 9 1 0]"

definition wo_sys :: open_sys where "wo_sys = open_run wo_boot wo_ops"

definition wo_sid :: nfs4_stateid where "wo_sid = \<lparr>seqid = 1, other = open_other 7 1000\<rparr>"

lemma wo_reach: "length wo_ops < 2 ^ 64" "wo_sys = open_run (open_boot 7 2 2 1 1000 True 3) wo_ops"
  by (simp_all add: wo_ops_def wo_sys_def wo_boot_def)

lemma wo_open_facts:
  "map_option op_pending (owner_open (sys_tab wo_sys) (9, 1, [65])) = Some False"
  "opens_of (sys_tab wo_sys) (9, 1, [65]) = Some (1, 0)"
  "fst (snd (open_state_open {} MDS_OK (sys_tab wo_sys) 1 [65] 9 2 0)) = 0"
  by code_simp+

theorem open_refines_witness:
  "opens_of (fst (open_state_open {} MDS_OK (sys_tab wo_sys) 1 [65] 9 2 0)) =
     (opens_of (sys_tab wo_sys))((9, 1, [65]) \<mapsto> (3, 0))"
proof -
  obtain ot' rc out where r: "open_state_open {} MDS_OK (sys_tab wo_sys) 1 [65] 9 2 0 = (ot', rc, out)"
    by (rule prod_cases3)
  have "open_args_ok [65] 2" by code_simp
  moreover have "map_option op_pending (owner_open (sys_tab wo_sys) (9, 1, [65])) \<noteq> Some True"
    by (subst wo_open_facts(1)) simp
  moreover have "merged_modes (opens_of (sys_tab wo_sys) (9, 1, [65])) 2 0 = (3, 0)"
    by (simp add: wo_open_facts(2) merged_modes_def)
  ultimately show ?thesis using open_refines [OF wo_reach refl _ _ _ r] wo_open_facts(3) r by simp
qed

text \<open>C13. Share reservations hold under every interleaving: as long as no OPEN_DOWNGRADE asks for deny bits its
  open does not hold, no two opens of a file ever conflict, whatever OPENs, commits and roll-backs of durable
  writes, CLOSEs, teardowns and revocations are interleaved.\<close>

theorem open_run_share_safe:
  assumes "length ops < 2 ^ 64" "narrowing_run (open_boot mds fb sb ls now cat epoch) ops"
  shows "share_safe (heap (sys_tab (open_run (open_boot mds fb sb ls now cat epoch) ops)))"
proof -
  obtain seed where "sys_inv seed 0 (open_boot mds fb sb ls now cat epoch)" using open_boot_inv by blast
  moreover have "share_safe (heap (sys_tab (open_boot mds fb sb ls now cat epoch)))"
    by (simp add: share_safe_def open_boot_def open_state_table_set_cat_def open_state_table_init_ex_def Let_def)
  ultimately show ?thesis using run_inv [of seed 0 _ ops] assms by simp
qed

definition wo_down :: "open_op list" where
  "wo_down = [OpOpen {} 1 [65] 9 3 3, OpCommit 0 MDS_OK, OpDowngrade 1 wo_sid 1 2 9, OpOpen {} 2 [66] 9 1 0]"

theorem open_run_share_safe_witness:
  "share_safe (heap (sys_tab (open_run (open_boot 7 2 2 1 1000 True 3) wo_down)))"
proof (rule open_run_share_safe)
  show "length wo_down < 2 ^ 64" by (simp add: wo_down_def)
  show "narrowing_run (open_boot 7 2 2 1 1000 True 3) wo_down" by code_simp
qed



text \<open>C15. No open is left pending: once the durable writes in flight have come back, with whatever statuses, no
  record refuses CLOSE, OPEN_DOWNGRADE or re-OPEN with DELAY any more.\<close>

lemma commits_land:
  assumes "sys_inv seed n s" "length psts = length (sys_flights s)"
  shows "sys_inv seed n (open_run s (map (OpCommit 0) psts)) \<and> sys_flights (open_run s (map (OpCommit 0) psts)) = []"
  using assms
proof (induction psts arbitrary: s)
  case Nil
  then show ?case by (simp add: open_run_def)
next
  case (Cons pst psts)
  have "sys_inv seed n (open_exec s (OpCommit 0 pst))" using exec_commit_inv [OF Cons.prems(1), of 0 pst] by blast
  moreover have "length psts = length (sys_flights (open_exec s (OpCommit 0 pst)))" using Cons.prems(2) by auto
  ultimately show ?case using Cons.IH by (simp add: open_run_def)
qed

theorem open_flights_land:
  assumes "length ops < 2 ^ 64" and s: "s = open_run (open_boot mds fb sb ls now cat epoch) ops"
    and "length psts = length (sys_flights s)" "open_state_find (sys_tab (open_run s (map (OpCommit 0) psts))) sid = Some x"
  shows "\<not> op_pending x"
proof -
  obtain seed n where "n < 2 ^ 64" "sys_inv seed n s" by (rule reach_inv [OF assms(1)]) (auto simp: s)
  note L = commits_land [OF this(2) assms(3)]
  obtain p where p: "heap (sys_tab (open_run s (map (OpCommit 0) psts))) p = Some x"
    using assms(4) open_find_iff [OF sys_invD(1) [OF conjunct1 [OF L]]] by blast
  show ?thesis using flights_invD(4) [OF sys_invD(2) [OF conjunct1 [OF L]] p] L by auto
qed

theorem open_flights_land_witness:
  "length (sys_flights wo_sys) = 1 \<and>
   \<not> op_pending (the (open_state_find (sys_tab (open_run wo_sys (map (OpCommit 0) [MDS_OK]))) \<lparr>seqid = 0, other = open_other 7 1001\<rparr>))"
proof -
  have l: "length [MDS_OK] = length (sys_flights wo_sys)" by code_simp
  have f: "open_state_find (sys_tab (open_run wo_sys (map (OpCommit 0) [MDS_OK]))) \<lparr>seqid = 0, other = open_other 7 1001\<rparr> \<noteq> None"
    by code_simp
  show ?thesis using open_flights_land [OF wo_reach l] f l by auto
qed

lemma next_seqid_nonzero: "next_seqid q \<noteq> 0"
  using eq_neg_iff_add_eq_0 [of q 1] by (simp add: next_seqid_def)

text \<open>C16. The stateid of a successful OPEN: a re-OPEN by the same owner returns the same stateid with the next
  seqid, a first OPEN returns a stateid that named nothing before, with seqid 1; the seqid is never the reserved
  0, and the stateid names the owner's open from then on.\<close>

theorem open_stateid_lifecycle:
  assumes "length ops < 2 ^ 64" and s: "s = open_run (open_boot mds fb sb ls now cat epoch) ops" "ot = sys_tab s"
    and run: "open_state_open oom pst ot c w f a d = (ot', 0, out)"
  shows "\<exists>sid y. out = Some sid \<and> seqid sid \<noteq> 0 \<and>
    (case owner_open ot (f, c, w) of
       Some x \<Rightarrow> sid = (op_stateid x)\<lparr>seqid := next_seqid (op_seqid x)\<rparr>
     | None \<Rightarrow> seqid sid = 1 \<and> open_state_find ot sid = None) \<and>
    open_state_find ot' sid = Some y \<and> op_stateid y = sid \<and> key_of y = (f, c, w) \<and> \<not> op_pending y"
proof -
  obtain seed n where inv: "n < 2 ^ 64" "sys_inv seed n s" by (rule reach_inv [OF assms(1)]) (auto simp: s(1))
  note I = sys_invD(1) [OF inv(2), folded s(2)]
  obtain ot1 ph where eq: "open_state_open_begin oom ot c w f a d = (ot1, ph)" by fastforce
  show ?thesis
  proof (cases rule: open_begin_cases [OF open_invD(1) [OF I] eq])
    case (1 rc)
    then show ?thesis using run eq by (auto simp: open_state_open_def)
  next
    case (2 x)
    note G = grant_new [OF inv(2,1), folded s(2), OF eq 2(2) [unfolded 2(1)] 2(3) [unfolded 2(1)] run]
    let ?x = "fresh_open ot c w f a d"
    have "owner_open ot (f, c, w) = None"
      using owner_open_iff [OF I, of "(f, c, w)"] 2(1,3) by (cases "owner_open ot (f, c, w)") (auto simp: same_owner_def key_of_def)
    moreover have "open_state_find ot (op_stateid ?x) = None"
    proof (rule ccontr)
      assume "open_state_find ot (op_stateid ?x) \<noteq> None"
      then obtain p y where "heap ot p = Some y" "op_other y = op_other ?x" using open_find_iff [OF I] by fastforce
      then show False using sid_minted_fresh [OF open_invD(5) [OF I] inv(1)] open_invD(4) [OF I] by fastforce
    qed
    moreover have "open_state_find ot' (op_stateid ?x) = Some (?x\<lparr>op_pending := False\<rparr>)"
      unfolding open_find_iff [OF G(2)] using G(4) by (intro exI [of _ "next_ptr ot"]) simp
    ultimately show ?thesis using G(3) by (auto simp: fresh_open_def key_of_def)
  next
    case (3 p x)
    note G = grant_again [OF inv(2), folded s(2), OF 3(1,5) eq 3(6) run]
    let ?y = "reopened ot x a d"
    have k: "key_of x = (f, c, w)" using 3(2-4) by (simp add: key_of_def)
    then have "owner_open ot (f, c, w) = Some x" using owner_open_iff [OF I] 3(1) by blast
    moreover have "open_state_find ot' (op_stateid ?y) = Some (?y\<lparr>op_pending := False\<rparr>)"
      unfolding open_find_iff [OF G(2)] using G(4) by (intro exI [of _ p]) simp
    ultimately show ?thesis using G(3) k next_seqid_nonzero [of "op_seqid x"] by (auto simp: reopened_def key_of_def)
  qed
qed

theorem open_stateid_lifecycle_witness:
  "\<exists>ot'. open_state_open {} MDS_OK (sys_tab wo_sys) 1 [65] 9 2 0 = (ot', 0, Some \<lparr>seqid = 2, other = open_other 7 1000\<rparr>) \<and>
     open_state_find ot' \<lparr>seqid = 2, other = open_other 7 1000\<rparr> \<noteq> None"
proof -
  obtain ot' rc out where r: "open_state_open {} MDS_OK (sys_tab wo_sys) 1 [65] 9 2 0 = (ot', rc, out)"
    by (rule prod_cases3)
  then have rc: "rc = 0" using wo_open_facts(3) by simp
  have "map_option op_stateid (owner_open (sys_tab wo_sys) (9, 1, [65])) = Some wo_sid" by code_simp
  then obtain x where x: "owner_open (sys_tab wo_sys) (9, 1, [65]) = Some x" "op_stateid x = wo_sid" by blast
  show ?thesis
    using open_stateid_lifecycle [OF wo_reach refl r [unfolded rc]] r rc x by (auto simp: wo_sid_def next_seqid_def)
qed

text \<open>C17. A failed durable write leaves no trace: when the write of an in-flight OPEN fails, in any reachable state
  and whatever ran since the OPEN began, a first OPEN's record is gone, a re-OPEN's record is back at the seqid
  and modes it had before (unless it was revoked meanwhile), it is not pending, and every other stateid names what it named.\<close>

theorem open_failed_write_rolls_back:
  assumes "length ops < 2 ^ 64" and s: "s = open_run (open_boot mds fb sb ls now cat epoch) ops"
    and i: "i < length (sys_flights s)" "other sid = flight_other (sys_flights s ! i)" and fail: "\<not> persisted pst"
    and s': "s' = open_exec s (OpCommit i pst)"
  shows "(case open_state_find (sys_tab s) sid of
      None \<Rightarrow> open_state_find (sys_tab s') sid = None
    | Some x \<Rightarrow>
        (case sys_flights s ! i of
           Fresh _ \<Rightarrow> open_state_find (sys_tab s') sid = None
         | Upgrade _ ps pa pd \<Rightarrow> open_state_find (sys_tab s') sid = Some (x\<lparr>op_stateid := (op_stateid x)\<lparr>seqid := ps\<rparr>,
             op_access := pa, op_deny := pd, op_pending := False\<rparr>))) \<and>
    (\<forall>sid'. other sid' \<noteq> other sid \<longrightarrow> open_state_find (sys_tab s') sid' = open_state_find (sys_tab s) sid')"
proof -
  obtain seed n where inv: "n < 2 ^ 64" "sys_inv seed n s" by (rule reach_inv [OF assms(1)]) (auto simp: s)
  let ?ot = "sys_tab s" and ?fl = "sys_flights s ! i"
  note I = sys_invD [OF inv(2)]
  obtain ot' rc where C: "open_commit ?ot ?fl pst = (ot', rc)" by fastforce
  have ot': "sys_tab s' = ot'" using s' i(1) C by simp
  have inv': "open_inv seed n ot'" using sys_invD(1) [OF conjunct1 [OF exec_commit_inv [OF inv(2), of i pst]]] ot' s' by simp
  show ?thesis
  proof (cases "open_state_find ?ot sid")
    case None
    then have no: "\<forall>p x. heap ?ot p = Some x \<longrightarrow> op_other x \<noteq> flight_other ?fl"
      using open_find_iff [OF I(1), of sid] i(2) by auto
    then have "heap ot' = heap ?ot"
      using C by (cases rule: open_commit_cases [OF I(1), of ?fl pst]) auto
    then have "open_state_find ot' sid' = open_state_find ?ot sid'" for sid'
      by (intro open_find_frame [OF I(1) inv']) simp
    then show ?thesis using None ot' by simp
  next
    case (Some x)
    then obtain p where p: "heap ?ot p = Some x" "op_other x = other sid" using open_find_iff [OF I(1)] by blast
    have ok: "flight_ok ?fl x" using flights_invD(3) [OF I(2) _ p(1)] i p(2) by simp
    note CO = commit_own [OF I(1) p(1) p(2) [unfolded i(2)] ok C]
    have u: "q = p" if "heap ?ot q = Some y" "op_other y = other sid" for q y
      by (rule op.sid_unique [OF open_invD(1) [OF I(1)] that(1) p(1)]) (simp add: that p(2))
    have "open_state_find ot' sid' = open_state_find ?ot sid'" if "other sid' \<noteq> other sid" for sid'
      using that p CO(4,5) [OF fail] by (intro open_find_frame [OF I(1) inv']) (cases ?fl; auto split: if_splits)
    moreover have "open_state_find ot' sid = None" if "?fl = Fresh row" for row
    proof (rule ccontr)
      assume "open_state_find ot' sid \<noteq> None"
      then obtain q y where "heap ot' q = Some y" "op_other y = other sid" using open_find_iff [OF inv'] by fastforce
      then show False using CO(4) [OF fail that] u by (auto split: if_splits)
    qed
    moreover have "open_state_find ot' sid = Some (x\<lparr>op_stateid := (op_stateid x)\<lparr>seqid := ps\<rparr>,
        op_access := pa, op_deny := pd, op_pending := False\<rparr>)" if "?fl = Upgrade row ps pa pd" for row ps pa pd
      unfolding open_find_iff [OF inv'] using CO(5) [OF fail that] p(2) by (intro exI [of _ p]) simp
    ultimately show ?thesis using Some ot' by (auto split: open_flight.splits)
  qed
qed

definition wo_up :: "open_op list" where
  "wo_up = [OpOpen {} 1 [65] 9 1 0, OpCommit 0 MDS_OK, OpOpen {} 1 [65] 9 2 0, OpOpen {} 2 [66] 9 1 0]"

theorem open_failed_write_rolls_back_witness:
  "map_option op_access (open_state_find (sys_tab (open_exec (open_run wo_boot wo_up) (OpCommit 0 MDS_ERR_IO))) wo_sid) = Some 1 \<and>
   map_option op_access (open_state_find (sys_tab (open_run wo_boot wo_up)) wo_sid) = Some 3"
proof -
  let ?s = "open_run wo_boot wo_up"
  have s: "?s = open_run (open_boot 7 2 2 1 1000 True 3) wo_up" by (simp add: wo_boot_def)
  have l: "length wo_up < 2 ^ 64" by (simp add: wo_up_def)
  have i: "0 < length (sys_flights ?s)" "other wo_sid = flight_other (sys_flights ?s ! 0)" by code_simp+
  have up: "(case sys_flights ?s ! 0 of Upgrade row ps pa pd \<Rightarrow> pa = 1 | _ \<Rightarrow> False)" by code_simp
  have f: "map_option op_access (open_state_find (sys_tab ?s) wo_sid) = Some 3" by code_simp
  then obtain x where x: "open_state_find (sys_tab ?s) wo_sid = Some x" by blast
  have np: "\<not> persisted MDS_ERR_IO" by (simp add: persisted_def)
  show ?thesis
    using open_failed_write_rolls_back [OF l s i np refl] f up x i(1) by (auto split: open_flight.splits)
qed

section \<open>Properties of CLOSE, teardown and revocation\<close>

lemma heap_drop_filter:
  assumes "open_wf ot" "heap ot p = Some x"
  shows "(heap ot)(p := None) = heap_filter (\<lambda>z. op_other z \<noteq> op_other x) (heap ot)"
proof
  fix q
  have "op_other z \<noteq> op_other x" if "heap ot q = Some z" "q \<noteq> p" for z
    using op.sid_unique [OF assms(1) that(1) assms(2)] that(2) by auto
  then show "((heap ot)(p := None)) q = heap_filter (\<lambda>z. op_other z \<noteq> op_other x) (heap ot) q"
    using assms(2) by (auto simp: heap_filter_def split: option.splits)
qed

text \<open>C18. CLOSE succeeds exactly on a stateid that names an open of the calling client, is not pending and carries
  the current seqid or 0; it then removes that open and nothing else. Every refusal leaves the table as it was.\<close>

theorem open_close_exact:
  assumes "length ops < 2 ^ 64" and s: "s = open_run (open_boot mds fb sb ls now cat epoch) ops" "ot = sys_tab s"
    and run: "open_state_close ot c sid = (ot', rc, out)"
  shows "(rc = 0 \<longleftrightarrow> (\<exists>x. open_state_find ot sid = Some x \<and> op_clientid x = c \<and> \<not> op_pending x \<and>
                         (seqid sid = 0 \<or> seqid sid = op_seqid x))) \<and>
    (rc \<noteq> 0 \<longrightarrow> ot' = ot) \<and>
    (rc = 0 \<longrightarrow> open_state_find ot' sid = None \<and>
       opens_of ot' = (opens_of ot)(key_of (the (open_state_find ot sid)) := None) \<and>
       (\<forall>sid'. other sid' \<noteq> other sid \<longrightarrow> open_state_find ot' sid' = open_state_find ot sid'))"
proof -
  obtain seed n where inv: "n < 2 ^ 64" "sys_inv seed n s" by (rule reach_inv [OF assms(1)]) (auto simp: s(1))
  note I = sys_invD(1) [OF inv(2), folded s(2)] and wf = open_invD(1) [OF sys_invD(1) [OF inv(2), folded s(2)]]
  show ?thesis
  proof (cases "find_by_other ot (other sid)")
    case None
    then show ?thesis using run by (auto simp: open_state_close_def open_state_find_def)
  next
    case (Some p)
    then obtain x where x: "heap ot p = Some x" "op_other x = other sid" using op.by_sid_iff [OF wf] by blast
    then have fx: "open_state_find ot sid = Some x" using Some by (simp add: open_state_find_def)
    have close: "open_close_locked ot c sid (op_fileid x) = (ot', rc, out)"
      using run Some x by (simp add: open_state_close_def)
    show ?thesis
    proof (cases rule: open_close_cases [OF wf, of c sid "op_fileid x"])
      case (1 r)
      then show ?thesis using close fx Some x by (auto simp: open_close_locked_def Let_def split: if_splits)
    next
      case (2 q y)
      have "q = p" by (rule op.sid_unique [OF wf 2(1) x(1)]) (simp add: 2(2) x(2))
      then have y: "y = x" "q = p" using 2(1) x(1) by simp_all
      have h: "heap ot' = (heap ot)(p := None)" "rc = 0" using 2(7) close y op.discard_objs [OF x(1)] by auto
      have inv': "open_inv seed n ot'"
        using conjunct1 [OF exec_close_inv [OF inv(2), of c sid "op_fileid x"]] close s(2) by (simp add: sys_inv_def)
      have P: "heap ot' = heap_filter (\<lambda>z. op_other z \<noteq> other sid) (heap ot)"
        using heap_drop_filter [OF wf x(1)] by (simp add: h x(2))
      have "open_state_find ot' sid' = (case open_state_find ot sid' of
          Some z \<Rightarrow> if op_other z \<noteq> other sid then Some z else None | None \<Rightarrow> None)" for sid'
        by (rule open_find_shrink [OF I inv' P])
      moreover have "op_other z = other sid'" if "open_state_find ot sid' = Some z" for z sid'
        using that open_find_iff [OF I] by blast
      ultimately have "open_state_find ot' sid = None"
        "\<forall>sid'. other sid' \<noteq> other sid \<longrightarrow> open_state_find ot' sid' = open_state_find ot sid'"
        by (auto split: option.splits)
      then show ?thesis using opens_drop [OF I inv' h(1) x(1)] fx h(2) 2(4,5,6) y by auto
    qed
  qed
qed

theorem open_close_exact_witness:
  "open_state_find (fst (open_state_close (sys_tab wo_sys) 1 wo_sid)) wo_sid = None \<and>
   fst (snd (open_state_close (sys_tab wo_sys) 1 wo_sid)) = 0"
proof -
  obtain ot' rc out where r: "open_state_close (sys_tab wo_sys) 1 wo_sid = (ot', rc, out)" by (rule prod_cases3)
  have "fst (snd (open_state_close (sys_tab wo_sys) 1 wo_sid)) = 0" by code_simp
  then show ?thesis using open_close_exact [OF wo_reach refl r] r by simp
qed

lemma close_all_inv:
  assumes I: "open_inv seed n ot"
  shows "open_inv seed n (open_state_close_all_for_client ot c)"
    "heap (open_state_close_all_for_client ot c) = heap_filter (\<lambda>x. op_clientid x \<noteq> c) (heap ot)"
    "opens_of (open_state_close_all_for_client ot c) k = (if fst (snd k) \<noteq> c then opens_of ot k else None)"
proof -
  note H = close_all_heap [OF open_invD(1-3) [OF I], of c]
  show inv': "open_inv seed n (open_state_close_all_for_client ot c)" by (rule open_inv_shrink [OF I H(1,2)]) (simp add: H(3))
  show "heap (open_state_close_all_for_client ot c) = heap_filter (\<lambda>x. op_clientid x \<noteq> c) (heap ot)" by (rule H(3))
  show "opens_of (open_state_close_all_for_client ot c) k = (if fst (snd k) \<noteq> c then opens_of ot k else None)"
    by (rule opens_filter [OF I inv' H(3)]) (simp add: key_of_def)
qed

text \<open>Client teardown closes every open of the client, on every file and in every bucket, and none of another client.\<close>

lemma open_close_all_exact:
  assumes "length ops < 2 ^ 64" and s: "s = open_run (open_boot mds fb sb ls now cat epoch) ops" "ot = sys_tab s"
  shows "opens_of (open_state_close_all_for_client ot c) = (\<lambda>(f, c', w). if c' = c then None else opens_of ot (f, c', w)) \<and>
    open_state_find (open_state_close_all_for_client ot c) sid =
      (case open_state_find ot sid of Some x \<Rightarrow> if op_clientid x \<noteq> c then Some x else None | None \<Rightarrow> None)"
proof -
  obtain seed n where inv: "n < 2 ^ 64" "sys_inv seed n s" by (rule reach_inv [OF assms(1)]) (auto simp: s(1))
  note I = sys_invD(1) [OF inv(2), folded s(2)]
  note C = close_all_inv [OF I, of c]
  show ?thesis using C(3) open_find_shrink [OF I C(1,2), of sid] by (auto simp: fun_eq_iff)
qed

text \<open>C19. The courtesy revocation on a file that at most 64 clients have open removes exactly the opens on that file
  of the clients whose lease has expired, and returns how many there were.\<close>

lemma collect_clients:
  fixes g :: "ptr \<Rightarrow> u64"
  assumes "distinct cs" "card (set cs \<union> g ` set ps) \<le> cap"
  shows "set (foldl (\<lambda>cs p. let c = g p in if c \<notin> set cs \<and> length cs < cap then cs @ [c] else cs) cs ps) = set cs \<union> g ` set ps"
  using assms
proof (induction ps arbitrary: cs)
  case Nil
  then show ?case by simp
next
  case (Cons p ps)
  show ?case
  proof (cases "g p \<in> set cs")
    case True
    then have "set cs \<union> g ` set (p # ps) = set cs \<union> g ` set ps" by auto
    then show ?thesis using Cons True by simp
  next
    case False
    have "card (insert (g p) (set cs)) \<le> card (set cs \<union> g ` set (p # ps))" by (rule card_mono) auto
    then have "length cs < cap" using False Cons.prems by (simp add: distinct_card)
    then show ?thesis using Cons.IH [of "cs @ [g p]"] Cons.prems False by (simp add: Let_def insert_commute)
  qed
qed

definition open_clients :: "open_state_table \<Rightarrow> u64 \<Rightarrow> u64 list" where
  "open_clients ot f = remdups (map (\<lambda>p. op_clientid (deref ot p)) (open_chain ot f))"

lemma revoke_collect_complete:
  assumes "open_wf ot" "length (open_clients ot f) \<le> REVOKE_MAX_CLIENTS"
  shows "set (revoke_collect_clientids ot f REVOKE_MAX_CLIENTS) = {c. \<exists>p x. heap ot p = Some x \<and> op_fileid x = f \<and> op_clientid x = c}"
proof -
  have "card ((\<lambda>p. op_clientid (deref ot p)) ` set (open_chain ot f)) \<le> REVOKE_MAX_CLIENTS"
    using assms(2) by (simp add: open_clients_def length_remdups_card_conv)
  then have "set (revoke_collect_clientids ot f REVOKE_MAX_CLIENTS) = (\<lambda>p. op_clientid (deref ot p)) ` set (open_chain ot f)"
    using collect_clients [of "[]" "\<lambda>p. op_clientid (deref ot p)" "open_chain ot f" REVOKE_MAX_CLIENTS] find_file_opens_chain [of ot f]
    by (auto simp: revoke_collect_clientids_def split: option.splits)
  also have "\<dots> = {c. \<exists>p x. heap ot p = Some x \<and> op_fileid x = f \<and> op_clientid x = c}"
    using op.chain_iff [OF assms(1), of _ f] by force
  finally show ?thesis .
qed

theorem open_revoke_exact:
  assumes "length ops < 2 ^ 64" and s: "s = open_run (open_boot mds fb sb ls now cat epoch) ops" "ot = sys_tab s"
    and few: "length (open_clients ot f) \<le> REVOKE_MAX_CLIENTS"
    and run: "open_state_revoke_expired_for_file expired ot f = (ot', k)"
  shows "opens_of ot' = (\<lambda>(g, c, w). if g = f \<and> expired c then None else opens_of ot (g, c, w)) \<and>
    k = int (card {p. \<exists>x. heap ot p = Some x \<and> op_fileid x = f \<and> expired (op_clientid x)})"
proof -
  obtain seed n where inv: "n < 2 ^ 64" "sys_inv seed n s" by (rule reach_inv [OF assms(1)]) (auto simp: s(1))
  note I = sys_invD(1) [OF inv(2), folded s(2)]
  let ?cids = "revoke_collect_clientids ot f REVOKE_MAX_CLIENTS"
  have C: "op_clientid x \<in> set ?cids" if "heap ot p = Some x" "op_fileid x = f" for p x
    using revoke_collect_complete [OF open_invD(1) [OF I] few] that by blast
  have "opens_of ot' k' = (if \<not> (fst k' = f \<and> expired (fst (snd k'))) then opens_of ot k' else None) \<and>
      k = int (card {p. \<exists>x. heap ot p = Some x \<and> op_fileid x = f \<and> expired (op_clientid x)})" for k'
  proof (cases "list_ex expired ?cids")
    case False
    then have no: "\<not> expired (op_clientid x)" if "heap ot p = Some x" "op_fileid x = f" for p x
      using C [OF that] by (auto simp: list_ex_iff)
    have e: "ot' = ot" "k = 0" using run False by (auto simp: open_state_revoke_expired_for_file_def Let_def split: if_splits)
    have h: "heap ot = heap_filter (\<lambda>x. \<not> (op_fileid x = f \<and> expired (op_clientid x))) (heap ot)"
      using no by (auto simp: fun_eq_iff heap_filter_def split: option.splits)
    have "{p. \<exists>x. heap ot p = Some x \<and> op_fileid x = f \<and> expired (op_clientid x)} = {}" using no by blast
    then have "card {p. \<exists>x. heap ot p = Some x \<and> op_fileid x = f \<and> expired (op_clientid x)} = 0" by (simp only: card.empty)
    moreover have "opens_of ot k' = (if \<not> (fst k' = f \<and> expired (fst (snd k'))) then opens_of ot k' else None)"
      by (rule opens_filter [OF I I h]) (simp add: key_of_def)
    ultimately show ?thesis using e by simp
  next
    case True
    then have r: "revoke_remove_expired_locked ot f ?cids expired = (ot', k)"
      using run by (auto simp: open_state_revoke_expired_for_file_def Let_def split: if_splits)
    note R = revoke_remove_heap [OF open_invD(1) [OF I], of f ?cids expired, unfolded r fst_conv snd_conv]
    have h: "heap ot' = heap_filter (\<lambda>x. \<not> (op_fileid x = f \<and> expired (op_clientid x))) (heap ot)"
      unfolding R(3) using C by (intro heap_filter_cong) blast
    have inv': "open_inv seed n ot'" by (rule open_inv_shrink [OF I R(1,2)]) (simp add: h)
    have "opens_of ot' k' = (if \<not> (fst k' = f \<and> expired (fst (snd k'))) then opens_of ot k' else None)"
      by (rule opens_filter [OF I inv' h]) (simp add: key_of_def)
    moreover have "k = int (card {p. \<exists>x. heap ot p = Some x \<and> op_fileid x = f \<and> expired (op_clientid x)})"
      unfolding R(4) using C by (intro arg_cong [where f = int] arg_cong [where f = card]) blast
    ultimately show ?thesis by blast
  qed
  then show ?thesis by (auto simp: fun_eq_iff)
qed

theorem open_revoke_exact_witness:
  "opens_of (fst (open_state_revoke_expired_for_file (\<lambda>c. c = 1) (sys_tab wo_sys) 9)) (9, 1, [65]) = None \<and>
   opens_of (fst (open_state_revoke_expired_for_file (\<lambda>c. c = 1) (sys_tab wo_sys) 9)) (9, 2, [66]) = Some (1, 0)"
proof -
  obtain ot' k where r: "open_state_revoke_expired_for_file (\<lambda>c. c = 1) (sys_tab wo_sys) 9 = (ot', k)" by fastforce
  have few: "length (open_clients (sys_tab wo_sys) 9) \<le> REVOKE_MAX_CLIENTS" by code_simp
  have "opens_of (sys_tab wo_sys) (9, 2, [66]) = Some (1, 0)" by code_simp
  then show ?thesis using open_revoke_exact [OF wo_reach refl few r] r by simp
qed

text \<open>The writer probe used before granting a delegation answers whether another client has the file open for
  writing.\<close>

lemma open_has_other_writer_iff:
  assumes "length ops < 2 ^ 64" and s: "s = open_run (open_boot mds fb sb ls now cat epoch) ops" "ot = sys_tab s"
  shows "open_state_has_other_writer ot f c \<longleftrightarrow>
    (\<exists>c' w a d. c' \<noteq> c \<and> opens_of ot (f, c', w) = Some (a, d) \<and> a AND OPEN4_SHARE_ACCESS_WRITE \<noteq> 0)"
proof -
  obtain seed n where inv: "n < 2 ^ 64" "sys_inv seed n s" by (rule reach_inv [OF assms(1)]) (auto simp: s(1))
  note I = sys_invD(1) [OF inv(2), folded s(2)]
  have "open_state_has_other_writer ot f c \<longleftrightarrow>
      (\<exists>p x. heap ot p = Some x \<and> op_fileid x = f \<and> op_clientid x \<noteq> c \<and> op_access x AND OPEN4_SHARE_ACCESS_WRITE \<noteq> 0)"
    unfolding open_state_has_other_writer_def open_chain_cases Bex_def op.chain_iff [OF open_invD(1) [OF I]] by force
  also have "\<dots> \<longleftrightarrow> (\<exists>c' w a d. c' \<noteq> c \<and> (\<exists>p x. heap ot p = Some x \<and> key_of x = (f, c', w) \<and> modes_of x = (a, d)) \<and>
      a AND OPEN4_SHARE_ACCESS_WRITE \<noteq> 0)"
    unfolding key_of_def modes_of_def prod.inject by blast
  finally show ?thesis unfolding opens_of_iff [OF I] .
qed

end
