(* ===== verification/Open_Pool.thy ===== *)
theory Open_Pool
  imports Lattice_Prelude
begin

text \<open>
  The allocation pool behind the open table, \<^verbatim>\<open>os_alloc\<close> and \<^verbatim>\<open>os_free\<close> of \<^verbatim>\<open>src/mds/open_state.c\<close>. A record is an
  address; a chunk is 64 consecutive addresses. \<^verbatim>\<open>calloc\<close> is a bump allocator: it returns addresses that were
  never returned before, or fails as the two flags of \<open>os_alloc\<close> say. The free list of a stripe is the list its
  \<^verbatim>\<open>hash_next\<close> links spell. The open table takes fresh addresses; the property here is what makes that faithful.
\<close>

abbreviation OPEN_STATE_POOL_CHUNK :: nat where "OPEN_STATE_POOL_CHUNK \<equiv> 64"

record os_pools =
  free_head :: "u32 \<Rightarrow> ptr list"
  chunks :: "u32 \<Rightarrow> ptr list"
  pooled :: "ptr \<Rightarrow> bool"
  brk :: ptr

fun push_entries :: "ptr \<Rightarrow> nat \<Rightarrow> nat \<Rightarrow> ptr list \<Rightarrow> ptr list" where
  "push_entries base i 0 fl = fl"
| "push_entries base i (Suc k) fl = push_entries base (Suc i) k ((base + i) # fl)"

definition pool_grow :: "os_pools \<Rightarrow> u32 \<Rightarrow> os_pools" where
  "pool_grow ps stripe =
     (let base = brk ps
      in ps\<lparr>chunks := (chunks ps)(stripe := base # chunks ps stripe),
            free_head := (free_head ps)(stripe := push_entries base 0 OPEN_STATE_POOL_CHUNK (free_head ps stripe)),
            brk := base + OPEN_STATE_POOL_CHUNK\<rparr>)"

definition os_alloc :: "bool \<Rightarrow> bool \<Rightarrow> os_pools \<Rightarrow> u32 \<Rightarrow> os_pools \<times> ptr option" where
  "os_alloc chunk_ok one_ok ps stripe =
     (if free_head ps stripe = [] \<and> \<not> chunk_ok then
        (if one_ok then (ps\<lparr>brk := Suc (brk ps), pooled := (pooled ps)(brk ps := False)\<rparr>, Some (brk ps)) else (ps, None))
      else let ps1 = (if free_head ps stripe = [] then pool_grow ps stripe else ps)
           in case free_head ps1 stripe of
                [] \<Rightarrow> (ps1, None)
              | os # rest \<Rightarrow>
                  (ps1\<lparr>free_head := (free_head ps1)(stripe := rest), pooled := (pooled ps1)(os := True)\<rparr>, Some os))"

definition os_free :: "os_pools \<Rightarrow> u32 \<Rightarrow> ptr \<Rightarrow> os_pools" where
  "os_free ps stripe os =
     (if \<not> pooled ps os then ps
      else ps\<lparr>free_head := (free_head ps)(stripe := os # free_head ps stripe)\<rparr>)"

section \<open>Runs\<close>

text \<open>The callers' side: the records handed out and not yet returned, each with its stripe. Only such a record is
  returned, to the stripe it came from.\<close>

datatype pool_op = PAlloc bool bool u32 | PFree u32 ptr

fun pool_step :: "os_pools \<times> (ptr \<times> u32) list \<Rightarrow> pool_op \<Rightarrow> os_pools \<times> (ptr \<times> u32) list" where
  "pool_step (ps, live) (PAlloc ck one st) =
     (case os_alloc ck one ps st of (ps', None) \<Rightarrow> (ps', live) | (ps', Some p) \<Rightarrow> (ps', (p, st) # live))"
| "pool_step (ps, live) (PFree st p) =
     (if (p, st) \<in> set live then (os_free ps st p, remove1 (p, st) live) else (ps, live))"

definition pool_run :: "pool_op list \<Rightarrow> os_pools \<times> (ptr \<times> u32) list" where
  "pool_run = foldl pool_step (\<lparr>free_head = (\<lambda>_. []), chunks = (\<lambda>_. []), pooled = (\<lambda>_. False), brk = 0\<rparr>, [])"

definition pool_inv :: "os_pools \<times> (ptr \<times> u32) list \<Rightarrow> bool" where
  "pool_inv s \<longleftrightarrow>
     (let ps = fst s; live = map fst (snd s)
      in distinct live \<and> (\<forall>p \<in> set live. p < brk ps) \<and>
         (\<forall>st. distinct (free_head ps st) \<and>
            (\<forall>p \<in> set (free_head ps st). p < brk ps \<and> p \<notin> set live \<and> (\<forall>st'. st' \<noteq> st \<longrightarrow> p \<notin> set (free_head ps st')))))"

lemma push_entries_eq: "push_entries base i k fl = rev [base + i..<base + i + k] @ fl"
proof (induction k arbitrary: i fl)
  case (Suc k)
  have "[base + i..<base + i + Suc k] = (base + i) # [base + Suc i..<base + Suc i + k]" by (simp add: upt_rec)
  then show ?case using Suc [of "Suc i"] by simp
qed simp

lemma pool_invD:
  assumes "pool_inv (ps, live)"
  shows "distinct (map fst live)" "p \<in> fst ` set live \<Longrightarrow> p < brk ps" "distinct (free_head ps st)"
    "p \<in> set (free_head ps st) \<Longrightarrow> p < brk ps" "p \<in> set (free_head ps st) \<Longrightarrow> p \<notin> fst ` set live"
    "p \<in> set (free_head ps st) \<Longrightarrow> st' \<noteq> st \<Longrightarrow> p \<notin> set (free_head ps st')"
  using assms unfolding pool_inv_def Let_def by auto

lemma pool_grow_inv:
  assumes inv: "pool_inv (ps, live)" and e: "free_head ps st = []"
  shows "pool_inv (pool_grow ps st, live)"
    and "free_head (pool_grow ps st) st = rev [brk ps..<brk ps + OPEN_STATE_POOL_CHUNK]"
proof -
  note D = pool_invD [OF inv]
  show fh: "free_head (pool_grow ps st) st = rev [brk ps..<brk ps + OPEN_STATE_POOL_CHUNK]"
    by (simp add: pool_grow_def push_entries_eq e Let_def)
  have other: "free_head (pool_grow ps st) st' = free_head ps st'" if "st' \<noteq> st" for st'
    using that by (simp add: pool_grow_def Let_def)
  have b: "brk (pool_grow ps st) = brk ps + OPEN_STATE_POOL_CHUNK" by (simp add: pool_grow_def Let_def)
  show "pool_inv (pool_grow ps st, live)"
    unfolding pool_inv_def Let_def fst_conv snd_conv
  proof (intro conjI allI ballI impI)
    show "distinct (map fst live)" by (rule D(1))
    show "p < brk (pool_grow ps st)" if "p \<in> set (map fst live)" for p using D(2) [of p] that b by auto
    fix st'
    show "distinct (free_head (pool_grow ps st) st')" using D(3) fh other [of st'] by (cases "st' = st") simp_all
    fix p assume p: "p \<in> set (free_head (pool_grow ps st) st')"
    show "p < brk (pool_grow ps st)" using p D(4) [of p st'] fh other [of st'] b by (cases "st' = st") auto
    show "p \<notin> set (map fst live)" using p D(2) [of p] D(5) [of p st'] fh other [of st'] by (cases "st' = st") auto
    fix st'' assume "st'' \<noteq> st'"
    then show "p \<notin> set (free_head (pool_grow ps st) st'')"
      using p D(4) [of p] D(6) [of p st' st''] fh other [of st'] other [of st'']
      by (cases "st' = st"; cases "st'' = st") fastforce+
  qed
qed

lemma pool_inv_hand_out:
  assumes inv: "pool_inv (ps, live)" and p: "p \<notin> fst ` set live" "p < brk ps'" and b: "brk ps \<le> brk ps'"
    and fh: "\<And>s. set (free_head ps' s) \<subseteq> set (free_head ps s) - {p}" "\<And>s. distinct (free_head ps' s)"
  shows "pool_inv (ps', (p, st) # live)"
  unfolding pool_inv_def Let_def fst_conv snd_conv
proof (intro conjI allI ballI impI)
  note D = pool_invD [OF inv]
  show "distinct (map fst ((p, st) # live))" using D(1) p(1) by simp
  show "q < brk ps'" if "q \<in> set (map fst ((p, st) # live))" for q
    using that D(2) [of q] p(2) b by (auto intro: less_le_trans)
  fix s
  show "distinct (free_head ps' s)" by (rule fh(2))
  fix q assume "q \<in> set (free_head ps' s)"
  then have q: "q \<in> set (free_head ps s)" "q \<noteq> p" using fh(1) by blast+
  show "q < brk ps'" using D(4) [OF q(1)] b by simp
  show "q \<notin> set (map fst ((p, st) # live))" using D(5) [OF q(1)] q(2) by auto
  fix s' assume "s' \<noteq> s"
  then show "q \<notin> set (free_head ps' s')" using D(6) [OF q(1), of s'] fh(1) [of s'] by blast
qed

lemma os_alloc_inv:
  assumes inv: "pool_inv (ps, live)" and r: "os_alloc ck one ps st = (ps', Some p)"
  shows "p \<notin> fst ` set live \<and> pool_inv (ps', (p, st) # live)"
proof (cases "free_head ps st = [] \<and> \<not> ck")
  case True
  then have ps': "ps' = ps\<lparr>brk := Suc (brk ps), pooled := (pooled ps)(brk ps := False)\<rparr>" "p = brk ps"
    using r by (auto simp: os_alloc_def split: if_splits)
  note D = pool_invD [OF inv]
  have new: "p \<notin> fst ` set live" "p \<notin> set (free_head ps s)" for s using D(2) [of p] D(4) [of p s] ps'(2) by auto
  have "pool_inv (ps', (p, st) # live)" using new D(3) by (intro pool_inv_hand_out [OF inv]) (auto simp: ps')
  then show ?thesis using new(1) by blast
next
  case False
  define ps1 where "ps1 = (if free_head ps st = [] then pool_grow ps st else ps)"
  have inv1: "pool_inv (ps1, live)" using pool_grow_inv(1) [OF inv] inv by (simp add: ps1_def)
  obtain rest where fh: "free_head ps1 st = p # rest"
    and ps': "ps' = ps1\<lparr>free_head := (free_head ps1)(st := rest), pooled := (pooled ps1)(p := True)\<rparr>"
    using r False by (auto simp: os_alloc_def ps1_def [symmetric] Let_def split: list.splits if_splits)
  note D = pool_invD [OF inv1]
  have p: "p \<in> set (free_head ps1 st)" "p \<notin> set rest" using fh D(3) [of st] by auto
  have "set (free_head ps' s) \<subseteq> set (free_head ps1 s) - {p}" "distinct (free_head ps' s)" for s
    using fh D(3) [of s] p(2) D(6) [OF p(1), of s] by (auto simp: ps')
  then have "pool_inv (ps', (p, st) # live)"
    using D(5) [OF p(1)] D(4) [OF p(1)] by (intro pool_inv_hand_out [OF inv1]) (simp_all add: ps')
  then show ?thesis using D(5) [OF p(1)] by blast
qed

lemma map_fst_remove1: "distinct (map fst xs) \<Longrightarrow> x \<in> set xs \<Longrightarrow> map fst (remove1 x xs) = remove1 (fst x) (map fst xs)"
  by (induction xs) (auto simp: image_iff)

lemma os_alloc_None: "os_alloc ck one ps st = (ps', None) \<Longrightarrow> ps' = ps \<and> \<not> ck \<and> \<not> one"
  by (auto simp: os_alloc_def Let_def pool_grow_def push_entries_eq split: if_splits list.splits)

lemma os_free_inv:
  assumes inv: "pool_inv (ps, live)" and p: "(p, st) \<in> set live"
  shows "pool_inv (os_free ps st p, remove1 (p, st) live)"
proof -
  note D = pool_invD [OF inv]
  have pl: "p \<in> fst ` set live" using p by force
  have m: "map fst (remove1 (p, st) live) = remove1 p (map fst live)" using map_fst_remove1 [OF D(1) p] by simp
  then have dr: "distinct (map fst (remove1 (p, st) live))" using D(1) by (simp add: distinct_remove1)
  have rm: "set (map fst (remove1 (p, st) live)) = fst ` set live - {p}" unfolding m using D(1) by simp
  have fh: "set (free_head (os_free ps st p) s) \<subseteq> set (free_head ps s) \<union> (if s = st then {p} else {})"
    "distinct (free_head (os_free ps st p) s)" for s
    using D(3) [of s] D(5) [of p s] pl by (auto simp: os_free_def)
  have b: "brk (os_free ps st p) = brk ps" by (simp add: os_free_def)
  show ?thesis
    unfolding pool_inv_def Let_def fst_conv snd_conv b rm
  proof (intro conjI allI ballI impI)
    show "distinct (map fst (remove1 (p, st) live))" by (rule dr)
    show "q < brk ps" if "q \<in> fst ` set live - {p}" for q using that D(2) by blast
    fix s
    show "distinct (free_head (os_free ps st p) s)" by (rule fh(2))
    fix q assume q: "q \<in> set (free_head (os_free ps st p) s)"
    then have q': "q \<in> set (free_head ps s) \<or> s = st \<and> q = p" using fh(1) [of s] by (auto split: if_splits)
    then show "q < brk ps" using D(4) [of q s] D(2) [OF pl] by blast
    show "q \<notin> fst ` set live - {p}" using q' D(5) [of q s] by blast
    fix s' assume s': "s' \<noteq> s"
    show "q \<notin> set (free_head (os_free ps st p) s')"
      using q' fh(1) [of s'] s' D(6) [of q s s'] D(5) [of p] pl by (auto split: if_splits)
  qed
qed

lemma pool_run_inv: "pool_inv (pool_run ops)"
proof (induction ops rule: rev_induct)
  case Nil
  then show ?case by (simp add: pool_run_def pool_inv_def)
next
  case (snoc op ops)
  obtain ps live where s: "pool_run ops = (ps, live)" by fastforce
  have "pool_inv (pool_step (ps, live) op)"
  proof (cases op)
    case (PAlloc ck one st)
    then show ?thesis
      using os_alloc_inv [of ps live ck one st] os_alloc_None [of ck one ps st] snoc s
      by (auto split: prod.splits option.splits)
  next
    case (PFree st p)
    then show ?thesis using os_free_inv [of ps live p st] snoc s by simp
  qed
  then show ?case using s by (simp add: pool_run_def)
qed

text \<open>C20. The open-state pool never hands out a record that is in use: after any sequence of allocations, on any
  stripes, and returns, with any of the underlying allocations failing, a successful allocation yields a record that no
  caller holds, and an allocation fails only when both the chunk and the single record could not be had.\<close>

theorem os_alloc_never_live:
  assumes "pool_run ops = (ps, live)" "os_alloc chunk_ok one_ok ps stripe = (ps', r)"
  shows "case r of Some p \<Rightarrow> p \<notin> fst ` set live | None \<Rightarrow> ps' = ps \<and> \<not> chunk_ok \<and> \<not> one_ok"
  using os_alloc_inv [of ps live chunk_ok one_ok stripe ps'] os_alloc_None [of chunk_ok one_ok ps stripe ps'] pool_run_inv [of ops] assms
  by (auto split: option.splits)

theorem os_alloc_never_live_witness:
  "snd (pool_run [PAlloc True True 0, PAlloc False True 1, PFree 0 63]) = [(64, 1)] \<and>
   (\<exists>p. snd (os_alloc True True (fst (pool_run [PAlloc True True 0, PAlloc False True 1, PFree 0 63])) 0) = Some p \<and> p \<noteq> 64)"
proof -
  let ?r = "pool_run [PAlloc True True 0, PAlloc False True 1, PFree 0 63]"
  have l: "snd ?r = [(64, 1)]" by code_simp
  then have s: "?r = (fst ?r, [(64, 1)])" by (metis prod.collapse)
  obtain ps' r where a: "os_alloc True True (fst ?r) 0 = (ps', r)" by fastforce
  show ?thesis using os_alloc_never_live [OF s a] l a by (cases r) auto
qed

end
