(* ===== verification/Fdb_Cursor.thy ===== *)
theory Fdb_Cursor
  imports Lattice_Prelude "HOL-Library.State_Monad" "HOL-Library.Signed_Division"
begin

text \<open>
  The bounded cursors and integer formats of the FoundationDB value codec, \<^verbatim>\<open>src/catalogue/fdb_codec.c\<close>. A write
  cursor holds the bytes written so far (the prefix of the caller's buffer up to \<^verbatim>\<open>pos\<close>), the capacity and the
  failure flag; an encoder is a list of writes applied in order. A read cursor is the value, the position and the
  failure flag; a decoder is a state-monad computation over it. A failed read yields zero bytes, as the
  zero-initialised locals of the code do.

  The locale \<open>value_codec\<close> is the contract of \<^verbatim>\<open>fdb_codec.h\<close> that every encoder and decoder pair interprets.
\<close>

type_synonym u16 = "16 word"

section \<open>Little-endian integers\<close>

definition fdb_le64_put :: "u64 \<Rightarrow> bytes" where
  "fdb_le64_put v = map (\<lambda>i. ucast (drop_bit (8 * i) v)) [0..<8]"

definition fdb_le64_get :: "bytes \<Rightarrow> u64" where
  "fdb_le64_get src = foldl (\<lambda>v i. v OR push_bit (8 * i) (ucast (src ! i))) 0 [0..<8]"

definition fdb_le32_put :: "u32 \<Rightarrow> bytes" where
  "fdb_le32_put v = map (\<lambda>i. ucast (drop_bit (8 * i) v)) [0..<4]"

definition fdb_le32_get :: "bytes \<Rightarrow> u32" where
  "fdb_le32_get src = foldl (\<lambda>v i. v OR push_bit (8 * i) (ucast (src ! i))) 0 [0..<4]"

definition le16_put :: "u16 \<Rightarrow> bytes" where
  "le16_put v = [ucast v, ucast (drop_bit 8 v)]"

definition le16_get :: "bytes \<Rightarrow> u16" where
  "le16_get b = ucast (b ! 0) OR push_bit 8 (ucast (b ! 1))"

definition fdb_le64_decode :: "bytes \<Rightarrow> u64 option" where
  "fdb_le64_decode src = (if length src \<noteq> 8 then None else Some (fdb_le64_get src))"

definition fdb_le32_decode :: "bytes \<Rightarrow> u32 option" where
  "fdb_le32_decode src = (if length src \<noteq> 4 then None else Some (fdb_le32_get src))"

lemma length_le_put [simp]: "length (fdb_le64_put v) = 8" "length (fdb_le32_put w) = 4" "length (le16_put x) = 2"
  by (simp_all add: fdb_le64_put_def fdb_le32_put_def le16_put_def)

lemma le_get_put:
  fixes v :: "'a::len word"
  assumes "k \<le> n"
  shows "foldl (\<lambda>a i. a OR push_bit (8 * i) (ucast (map (\<lambda>i. ucast (drop_bit (8 * i) v) :: u8) [0..<n] ! i))) 0 [0..<k]
    = take_bit (8 * k) v"
  using assms
proof (induction k)
  case (Suc k)
  have "take_bit (8 * k) v OR push_bit (8 * k) (ucast (ucast (drop_bit (8 * k) v) :: u8)) = take_bit (8 * Suc k) v"
    by (rule bit_word_eqI) (auto simp: bit_simps)
  then show ?case using Suc by simp
qed simp

lemma bit_le_get:
  fixes bs :: bytes
  shows "bit (foldl (\<lambda>a i. a OR push_bit (8 * i) (ucast (bs ! i))) (0 :: 'a::len word) [0..<k]) n \<longleftrightarrow>
    n < LENGTH('a) \<and> n < 8 * k \<and> bit (bs ! (n div 8)) (n mod 8)"
proof (induction k)
  case (Suc k)
  have "bit (ucast (bs ! k) :: 'a word) (n - 8 * k) \<longleftrightarrow> bit (bs ! (n div 8)) (n mod 8)" if "8 * k \<le> n" "n < 8 * Suc k" "n < LENGTH('a)"
  proof -
    have "n div 8 = k" "n mod 8 = n - 8 * k" using that by (auto simp: div_nat_eqI minus_mult_div_eq_mod [symmetric])
    then show ?thesis using that by (auto simp: bit_ucast_iff)
  qed
  moreover have "\<not> bit (ucast (bs ! k) :: 'a word) (n - 8 * k)" if "8 * Suc k \<le> n"
    using that bit_imp_le_length [of "bs ! k" "n - 8 * k"] by (auto simp: bit_ucast_iff)
  ultimately show ?case
    using Suc by (cases "n < 8 * k"; cases "n < 8 * Suc k") (auto simp: bit_or_iff bit_push_bit_iff)
qed simp

lemma le_put_get:
  fixes bs :: bytes
  assumes "length bs = k" "8 * k \<le> LENGTH('a::len)"
  shows "map (\<lambda>i. ucast (drop_bit (8 * i) (foldl (\<lambda>a i. a OR push_bit (8 * i) (ucast (bs ! i))) (0 :: 'a word) [0..<k]))) [0..<k] = bs"
proof (rule nth_equalityI)
  fix i assume "i < length (map (\<lambda>i. ucast (drop_bit (8 * i) (foldl (\<lambda>a i. a OR push_bit (8 * i) (ucast (bs ! i))) (0 :: 'a word) [0..<k])) :: u8) [0..<k])"
  then have i: "i < k" by simp
  have "(ucast (drop_bit (8 * i) (foldl (\<lambda>a i. a OR push_bit (8 * i) (ucast (bs ! i))) (0 :: 'a word) [0..<k])) :: u8) = bs ! i"
  proof (rule bit_word_eqI)
    fix n assume "n < LENGTH(8)"
    then have "(8 * i + n) div 8 = i" "(8 * i + n) mod 8 = n" "8 * i + n < 8 * k" "8 * i + n < LENGTH('a)"
      using i assms(2) by auto
    then show "bit (ucast (drop_bit (8 * i) (foldl (\<lambda>a i. a OR push_bit (8 * i) (ucast (bs ! i))) (0 :: 'a word) [0..<k])) :: u8) n = bit (bs ! i) n"
      using \<open>n < LENGTH(8)\<close> by (simp add: bit_ucast_iff bit_drop_bit_eq bit_le_get)
  qed
  then show "map (\<lambda>i. ucast (drop_bit (8 * i) (foldl (\<lambda>a i. a OR push_bit (8 * i) (ucast (bs ! i))) (0 :: 'a word) [0..<k]))) [0..<k] ! i = bs ! i"
    using i by simp
qed (simp add: assms(1))

lemma le32_put_get: "length bs = 4 \<Longrightarrow> fdb_le32_put (fdb_le32_get bs) = bs"
  unfolding fdb_le32_put_def fdb_le32_get_def by (rule le_put_get) simp_all

lemma le64_put_get: "length bs = 8 \<Longrightarrow> fdb_le64_put (fdb_le64_get bs) = bs"
  unfolding fdb_le64_put_def fdb_le64_get_def by (rule le_put_get) simp_all

lemma le32_get_put [simp]: "fdb_le32_get (fdb_le32_put v) = v"
  unfolding fdb_le32_get_def fdb_le32_put_def by (simp add: le_get_put take_bit_word_eq_self)

lemma le64_get_put [simp]: "fdb_le64_get (fdb_le64_put v) = v"
  unfolding fdb_le64_get_def fdb_le64_put_def by (simp add: le_get_put take_bit_word_eq_self)

lemma le16_get_put [simp]: "le16_get (le16_put v) = v"
proof (rule bit_word_eqI)
  fix n assume "n < LENGTH(16)"
  then show "bit (le16_get (le16_put v)) n = bit v n" by (auto simp: le16_get_def le16_put_def bit_simps)
qed

lemma le16_put_get:
  assumes "length bs = 2"
  shows "le16_put (le16_get bs) = bs"
proof -
  obtain a b where bs: "bs = [a, b]" using assms by (metis (no_types) length_0_conv length_Suc_conv numeral_2_eq_2)
  have "ucast (ucast a OR push_bit 8 (ucast b) :: u16) = a" "ucast (drop_bit 8 (ucast a OR push_bit 8 (ucast b) :: u16)) = b"
    by (rule bit_word_eqI; auto simp: bit_simps dest: bit_imp_le_length)+
  then show ?thesis by (simp add: bs le16_put_def le16_get_def)
qed

section \<open>Timestamps\<close>

record timespec =
  tv_sec :: int
  tv_nsec :: int

abbreviation NS_PER_SEC :: int where "NS_PER_SEC \<equiv> 1000000000"
abbreviation INT64_MAX :: int where "INT64_MAX \<equiv> 9223372036854775807"
abbreviation INT64_MIN :: int where "INT64_MIN \<equiv> -9223372036854775808"

definition fdb_ts_to_ns :: "timespec \<Rightarrow> int" where
  "fdb_ts_to_ns ts =
     (if tv_sec ts > INT64_MAX sdiv NS_PER_SEC - 1 then INT64_MAX
      else if tv_sec ts < INT64_MIN sdiv NS_PER_SEC + 1 then INT64_MIN
      else tv_sec ts * NS_PER_SEC + tv_nsec ts)"

definition fdb_ns_to_ts :: "int \<Rightarrow> timespec" where
  "fdb_ns_to_ts ns =
     (let sec = ns sdiv NS_PER_SEC; rem = ns smod NS_PER_SEC
      in if rem < 0 then \<lparr>tv_sec = sec - 1, tv_nsec = rem + NS_PER_SEC\<rparr>
         else \<lparr>tv_sec = sec, tv_nsec = rem\<rparr>)"

text \<open>The timestamps whose nanoseconds fit: the range outside of which \<open>fdb_ts_to_ns\<close> saturates.\<close>

definition ts_fits :: "timespec \<Rightarrow> bool" where
  "ts_fits ts \<longleftrightarrow> INT64_MIN sdiv NS_PER_SEC + 1 \<le> tv_sec ts \<and> tv_sec ts \<le> INT64_MAX sdiv NS_PER_SEC - 1 \<and>
     0 \<le> tv_nsec ts \<and> tv_nsec ts < NS_PER_SEC"

lemma sdiv_consts: "INT64_MAX sdiv NS_PER_SEC = 9223372036" "INT64_MIN sdiv NS_PER_SEC = -9223372036"
  by (simp_all add: signed_divide_int_def)

lemma ns_to_ts_floor: "fdb_ns_to_ts ns = \<lparr>tv_sec = ns div NS_PER_SEC, tv_nsec = ns mod NS_PER_SEC\<rparr>"
proof (cases "ns < 0")
  case False
  then have "ns sdiv NS_PER_SEC = ns div NS_PER_SEC" "ns smod NS_PER_SEC = ns mod NS_PER_SEC"
    by (simp_all add: signed_divide_int_def signed_modulo_int_def sgn_if)
  then show ?thesis by (simp add: fdb_ns_to_ts_def Let_def)
next
  case True
  then have "ns sdiv NS_PER_SEC = - ((- ns) div NS_PER_SEC)" "ns smod NS_PER_SEC = - ((- ns) mod NS_PER_SEC)"
    by (simp_all add: signed_divide_int_def signed_modulo_int_def)
  then show ?thesis
    unfolding fdb_ns_to_ts_def Let_def by (auto simp: zdiv_zminus1_eq_if zmod_zminus1_eq_if)
qed

section \<open>Cursors\<close>

record wcur =
  w_buf :: bytes
  w_cap :: nat
  w_fail :: bool

record rcur =
  r_buf :: bytes
  r_pos :: nat
  r_fail :: bool

definition w_bytes :: "bytes \<Rightarrow> wcur \<Rightarrow> wcur" where
  "w_bytes p w =
     (if w_fail w \<or> length p > w_cap w - length (w_buf w) then w\<lparr>w_fail := True\<rparr>
      else w\<lparr>w_buf := w_buf w @ p\<rparr>)"

definition w_u8 :: "u8 \<Rightarrow> wcur \<Rightarrow> wcur" where "w_u8 v = w_bytes [v]"
definition w_u16 :: "u16 \<Rightarrow> wcur \<Rightarrow> wcur" where "w_u16 v = w_bytes (le16_put v)"
definition w_u32 :: "u32 \<Rightarrow> wcur \<Rightarrow> wcur" where "w_u32 v = w_bytes (fdb_le32_put v)"
definition w_u64 :: "u64 \<Rightarrow> wcur \<Rightarrow> wcur" where "w_u64 v = w_bytes (fdb_le64_put v)"

definition w_ts :: "timespec \<Rightarrow> (wcur \<Rightarrow> wcur) list" where
  "w_ts ts = [w_u64 (word_of_int (tv_sec ts)), w_u32 (word_of_int (tv_nsec ts))]"

text \<open>An encoder body: the writes in order, then \<^verbatim>\<open>w.fail\<close> decides.\<close>

definition w_all :: "nat \<Rightarrow> (wcur \<Rightarrow> wcur) list \<Rightarrow> bytes option" where
  "w_all cap ws =
     (let w = fold (\<lambda>f. f) ws \<lparr>w_buf = [], w_cap = cap, w_fail = False\<rparr>
      in if w_fail w then None else Some (w_buf w))"

definition r_bytes :: "nat \<Rightarrow> (rcur, bytes) state" where
  "r_bytes n = State (\<lambda>r.
     if r_fail r \<or> n > length (r_buf r) - r_pos r then (replicate n 0, r\<lparr>r_fail := True\<rparr>)
     else (take n (drop (r_pos r) (r_buf r)), r\<lparr>r_pos := r_pos r + n\<rparr>))"

definition r_u8 :: "(rcur, u8) state" where
  "r_u8 = do { b \<leftarrow> r_bytes 1; State_Monad.return (b ! 0) }"

definition r_u16 :: "(rcur, u16) state" where
  "r_u16 = do { b \<leftarrow> r_bytes 2; State_Monad.return (le16_get b) }"

definition r_u32 :: "(rcur, u32) state" where
  "r_u32 = do { b \<leftarrow> r_bytes 4; State_Monad.return (fdb_le32_get b) }"

definition r_u64 :: "(rcur, u64) state" where
  "r_u64 = do { b \<leftarrow> r_bytes 8; State_Monad.return (fdb_le64_get b) }"

definition r_set_fail :: "(rcur, unit) state" where
  "r_set_fail = State (\<lambda>r. ((), r\<lparr>r_fail := True\<rparr>))"

definition r_ts :: "(rcur, timespec) state" where
  "r_ts = do {
     sec \<leftarrow> r_u64;
     nsec \<leftarrow> r_u32;
     if nsec \<ge> 1000000000
     then do { r_set_fail; State_Monad.return \<lparr>tv_sec = sint sec, tv_nsec = 0\<rparr> }
     else State_Monad.return \<lparr>tv_sec = sint sec, tv_nsec = uint nsec\<rparr>
   }"

definition r_failed :: "(rcur, bool) state" where
  "r_failed = State (\<lambda>r. (r_fail r, r))"

definition r_done :: "(rcur, bool) state" where
  "r_done = State (\<lambda>r. (\<not> r_fail r \<and> r_pos r = length (r_buf r), r))"

definition r_str_body :: "nat \<Rightarrow> nat \<Rightarrow> (rcur, bytes) state" where
  "r_str_body cap n =
     (if n \<ge> cap then do { r_set_fail; State_Monad.return [] } else r_bytes n)"

definition r_run :: "(rcur, 'a option) state \<Rightarrow> bytes \<Rightarrow> 'a option" where
  "r_run m buf = fst (run_state m \<lparr>r_buf = buf, r_pos = 0, r_fail = False\<rparr>)"

definition type_ok :: "u32 \<Rightarrow> bool" where
  "type_ok t \<longleftrightarrow> t \<ge> 1 \<and> t \<le> 7"

definition strnlen :: "bytes \<Rightarrow> nat \<Rightarrow> nat" where
  "strnlen s cap = min (length s) cap"

definition bounded_strlen :: "bytes \<Rightarrow> nat \<Rightarrow> nat option" where
  "bounded_strlen s cap = (let n = strnlen s cap in if n = cap then None else Some n)"

lemma strnlen_eq: "length s < cap \<Longrightarrow> strnlen s cap = length s"
  by (simp add: strnlen_def)

lemma strnlen_less: "m < cap \<Longrightarrow> m < strnlen s cap \<longleftrightarrow> m < length s"
  by (auto simp: strnlen_def)

lemma strnlen_0: "0 < cap \<Longrightarrow> strnlen s cap = 0 \<longleftrightarrow> s = []"
  by (auto simp: strnlen_def min_def)

lemma bounded_strlen_eq: "bounded_strlen s cap = (if length s < cap then Some (length s) else None)"
  by (auto simp: bounded_strlen_def strnlen_def Let_def)

section \<open>Writing\<close>

named_theorems codec_simps \<open>symbolic execution of encoders and decoders\<close>

lemma w_fold_fail: "w_fail w \<Longrightarrow> w_fail (fold (\<lambda>f. f) (map w_bytes bss) w)"
  by (induction bss arbitrary: w) (auto simp: w_bytes_def)

lemma w_fold_bytes:
  assumes "\<not> w_fail w" "length (w_buf w) \<le> w_cap w"
  shows "w_fail (fold (\<lambda>f. f) (map w_bytes bss) w) \<longleftrightarrow> length (w_buf w) + length (concat bss) > w_cap w"
    "length (w_buf w) + length (concat bss) \<le> w_cap w \<Longrightarrow>
       w_buf (fold (\<lambda>f. f) (map w_bytes bss) w) = w_buf w @ concat bss"
  using assms
proof (induction bss arbitrary: w)
  case (Cons b bss)
  {
    case 1
    then have le: "w_cap w - length (w_buf w) < length b \<longleftrightarrow> w_cap w < length (w_buf w) + length b" by linarith
    show ?case using 1 Cons.IH(1) [of "w_bytes b w"] w_fold_fail [of "w_bytes b w" bss]
      by (auto simp: w_bytes_def [of b w] le)
  next
    case 2
    then show ?case using Cons.IH(2) [of "w_bytes b w"] by (auto simp: w_bytes_def [of b w])
  }
qed simp_all

lemma w_all_bytes:
  "w_all cap (map w_bytes bss) = (if length (concat bss) \<le> cap then Some (concat bss) else None)"
  using w_fold_bytes [of "\<lparr>w_buf = [], w_cap = cap, w_fail = False\<rparr>" bss] by (simp add: w_all_def Let_def)

section \<open>Reading\<close>

text \<open>A cursor that has consumed \<open>pre\<close> and has \<open>rest\<close> before it.\<close>

definition r_at :: "bytes \<Rightarrow> bytes \<Rightarrow> rcur" where
  "r_at pre rest = \<lparr>r_buf = pre @ rest, r_pos = length pre, r_fail = False\<rparr>"

lemma r_run_at: "r_run m buf = fst (run_state m (r_at [] buf))"
  by (simp add: r_run_def r_at_def)

lemma run_r_bytes [codec_simps]:
  "length bs = n \<Longrightarrow> run_state (r_bytes n) (r_at pre (bs @ rest)) = (bs, r_at (pre @ bs) rest)"
  by (auto simp: r_bytes_def r_at_def)

lemma run_r_u8 [codec_simps]: "run_state r_u8 (r_at pre (x # rest)) = (x, r_at (pre @ [x]) rest)"
  using run_r_bytes [of "[x]" 1 pre rest] by (simp add: r_u8_def)

lemma run_r_u16 [codec_simps]: "run_state r_u16 (r_at pre (le16_put x @ rest)) = (x, r_at (pre @ le16_put x) rest)"
  using run_r_bytes [of "le16_put x" 2 pre rest] by (simp add: r_u16_def)

lemma run_r_u32 [codec_simps]: "run_state r_u32 (r_at pre (fdb_le32_put x @ rest)) = (x, r_at (pre @ fdb_le32_put x) rest)"
  using run_r_bytes [of "fdb_le32_put x" 4 pre rest] by (simp add: r_u32_def)

lemma run_r_u64 [codec_simps]: "run_state r_u64 (r_at pre (fdb_le64_put x @ rest)) = (x, r_at (pre @ fdb_le64_put x) rest)"
  using run_r_bytes [of "fdb_le64_put x" 8 pre rest] by (simp add: r_u64_def)

text \<open>The same reads at the end of the value.\<close>

lemma run_r_end [codec_simps]:
  "length bs = n \<Longrightarrow> run_state (r_bytes n) (r_at pre bs) = (bs, r_at (pre @ bs) [])"
  "run_state r_u16 (r_at pre (le16_put x)) = (x, r_at (pre @ le16_put x) [])"
  "run_state r_u32 (r_at pre (fdb_le32_put y)) = (y, r_at (pre @ fdb_le32_put y) [])"
  "run_state r_u64 (r_at pre (fdb_le64_put z)) = (z, r_at (pre @ fdb_le64_put z) [])"
  using run_r_bytes [of bs n pre "[]"] run_r_u16 [of pre x "[]"] run_r_u32 [of pre y "[]"] run_r_u64 [of pre z "[]"]
  by simp_all

text \<open>Every value long enough starts with the encoding of something.\<close>

lemma split_u8: "1 \<le> length r \<Longrightarrow> \<exists>x r'. r = x # r' \<and> length r' = length r - 1"
  by (cases r) auto

lemma split_u16: "2 \<le> length r \<Longrightarrow> \<exists>x r'. r = le16_put x @ r' \<and> length r' = length r - 2"
  using le16_put_get [of "take 2 r"] append_take_drop_id [of 2 r] by (metis length_drop length_take min.absorb2)

lemma split_u32: "4 \<le> length r \<Longrightarrow> \<exists>x r'. r = fdb_le32_put x @ r' \<and> length r' = length r - 4"
  using le32_put_get [of "take 4 r"] append_take_drop_id [of 4 r] by (metis length_drop length_take min.absorb2)

lemma split_u64: "8 \<le> length r \<Longrightarrow> \<exists>x r'. r = fdb_le64_put x @ r' \<and> length r' = length r - 8"
  using le64_put_get [of "take 8 r"] append_take_drop_id [of 8 r] by (metis length_drop length_take min.absorb2)

lemma split_bytes: "n \<le> length r \<Longrightarrow> \<exists>x r'. r = x @ r' \<and> length x = n"
  by (metis append_take_drop_id length_take min.absorb2)

text \<open>A failed cursor stays failed.\<close>

definition r_bad :: "bytes \<Rightarrow> bytes \<Rightarrow> rcur" where
  "r_bad pre rest = \<lparr>r_buf = pre @ rest, r_pos = length pre, r_fail = True\<rparr>"

lemma run_r_bad [codec_simps]:
  "run_state (r_bytes n) (r_bad pre rest) = (replicate n 0, r_bad pre rest)"
  "run_state r_u8 (r_bad pre rest) = (0, r_bad pre rest)"
  "run_state r_u16 (r_bad pre rest) = (le16_get [0, 0], r_bad pre rest)"
  "run_state r_u32 (r_bad pre rest) = (fdb_le32_get (replicate 4 0), r_bad pre rest)"
  "run_state r_u64 (r_bad pre rest) = (fdb_le64_get (replicate 8 0), r_bad pre rest)"
  "run_state r_failed (r_bad pre rest) = (True, r_bad pre rest)"
  "run_state r_done (r_bad pre rest) = (False, r_bad pre rest)"
  by (simp_all add: r_bad_def r_bytes_def r_u8_def r_u16_def r_u32_def r_u64_def r_failed_def r_done_def numeral_2_eq_2)

lemma run_r_bytes_gen:
  "run_state (r_bytes n) (r_at pre rest) =
     (if n \<le> length rest then (take n rest, r_at (pre @ take n rest) (drop n rest)) else (replicate n 0, r_bad pre rest))"
  by (auto simp: r_bytes_def r_at_def r_bad_def)

lemma run_r_gen:
  "run_state r_u8 (r_at pre rest) =
     (if 1 \<le> length rest then (rest ! 0, r_at (pre @ take 1 rest) (drop 1 rest)) else (0, r_bad pre rest))"
  "run_state r_u16 (r_at pre rest) =
     (if 2 \<le> length rest then (le16_get (take 2 rest), r_at (pre @ take 2 rest) (drop 2 rest))
      else (le16_get [0, 0], r_bad pre rest))"
  "run_state r_u32 (r_at pre rest) =
     (if 4 \<le> length rest then (fdb_le32_get (take 4 rest), r_at (pre @ take 4 rest) (drop 4 rest))
      else (fdb_le32_get (replicate 4 0), r_bad pre rest))"
  "run_state r_u64 (r_at pre rest) =
     (if 8 \<le> length rest then (fdb_le64_get (take 8 rest), r_at (pre @ take 8 rest) (drop 8 rest))
      else (fdb_le64_get (replicate 8 0), r_bad pre rest))"
  by (simp_all add: r_u8_def r_u16_def r_u32_def r_u64_def run_r_bytes_gen numeral_2_eq_2)

lemma run_r_failed [codec_simps]: "run_state r_failed (r_at pre rest) = (False, r_at pre rest)"
  by (simp add: r_failed_def r_at_def)

lemma run_r_done [codec_simps]: "run_state r_done (r_at pre rest) = (rest = [], r_at pre rest)"
  by (simp add: r_done_def r_at_def)

lemma run_r_str_body [codec_simps]:
  "length bs = n \<Longrightarrow> n < cap \<Longrightarrow> run_state (r_str_body cap n) (r_at pre (bs @ rest)) = (bs, r_at (pre @ bs) rest)"
  "length bs = n \<Longrightarrow> n < cap \<Longrightarrow> run_state (r_str_body cap n) (r_at pre bs) = (bs, r_at (pre @ bs) [])"
  by (simp_all add: r_str_body_def codec_simps)

text \<open>Timestamps as the file system has them: whole nanoseconds and a 64-bit second.\<close>

definition ts_ok :: "timespec \<Rightarrow> bool" where
  "ts_ok ts \<longleftrightarrow> INT64_MIN \<le> tv_sec ts \<and> tv_sec ts \<le> INT64_MAX \<and> 0 \<le> tv_nsec ts \<and> tv_nsec ts < NS_PER_SEC"

lemma sint_u64: "INT64_MIN \<le> i \<Longrightarrow> i \<le> INT64_MAX \<Longrightarrow> sint (word_of_int i :: u64) = i"
  by (simp add: signed_of_int signed_take_bit_int_eq_self)

lemma sint_u64_bounds [codec_simps]: "INT64_MIN \<le> sint (x :: u64)" "sint (x :: u64) \<le> INT64_MAX"
  using sint_greater_eq [of x] sint_less [of x] by simp_all

lemma uint_u32: "0 \<le> i \<Longrightarrow> i < 4294967296 \<Longrightarrow> uint (word_of_int i :: u32) = i"
  by (simp add: unsigned_of_int take_bit_int_eq_self)

lemma uint_u32_le: "uint (x :: u32) \<le> 4294967295"
proof -
  have "uint x < 2 ^ LENGTH(32)" by (rule unsigned_less)
  then show ?thesis by simp
qed

lemma run_r_ts [codec_simps]:
  assumes "ts_ok ts"
  shows "run_state r_ts (r_at pre (fdb_le64_put (word_of_int (tv_sec ts)) @ fdb_le32_put (word_of_int (tv_nsec ts)) @ rest)) =
    (ts, r_at (pre @ fdb_le64_put (word_of_int (tv_sec ts)) @ fdb_le32_put (word_of_int (tv_nsec ts))) rest)"
proof -
  have u: "uint (word_of_int (tv_nsec ts) :: u32) = tv_nsec ts" using assms by (intro uint_u32) (auto simp: ts_ok_def)
  then have "\<not> (1000000000 :: u32) \<le> word_of_int (tv_nsec ts)" using assms by (simp add: word_le_def ts_ok_def)
  then show ?thesis
    using u sint_u64 [of "tv_sec ts"] assms by (simp add: r_ts_def codec_simps ts_ok_def)
qed

text \<open>Length prefixes.\<close>

lemma unat_len:
  "n < 4294967296 \<Longrightarrow> unat (of_nat n :: u32) = n" "n < 65536 \<Longrightarrow> unat (of_nat n :: u16) = n" "n < 256 \<Longrightarrow> unat (of_nat n :: u8) = n"
  by (simp_all add: unsigned_of_nat take_bit_nat_eq_self)

lemma len16_0: "n < 65536 \<Longrightarrow> (of_nat n :: u16) = 0 \<longleftrightarrow> n = 0"
  by (simp add: word_unat_eq_iff unat_len)

lemma len16_nz: "(a :: u16) \<noteq> 0 \<Longrightarrow> length x = unat a \<Longrightarrow> x \<noteq> []"
  by (auto simp: unat_eq_zero)

lemma u32_lt: "unat (x :: u32) < 4294967296"
proof -
  have "unat x < 2 ^ LENGTH(32)" by (rule unsigned_less)
  then show ?thesis by simp
qed

lemma byte_bool: "1 < (a :: u8) \<longleftrightarrow> a \<noteq> 0 \<and> a \<noteq> 1"
  by (auto simp: word_less_nat_alt word_unat_eq_iff)

section \<open>The contract of an encoder and decoder pair\<close>

lemma enc_fields:
  assumes "ws = map w_bytes fs" "ok \<longleftrightarrow> \<not> bad"
  shows "(if bad then None else w_all cap ws) = (if ok \<and> length (concat fs) \<le> cap then Some (concat fs) else None)"
  using assms by (simp add: w_all_bytes)

text \<open>\<open>fields\<close> is the documented value format, \<open>ok\<close> the documented field bounds and \<open>rep\<close> what the C
  representation of a value guarantees (a string has no NUL before its end, a fixed array has its size).\<close>

locale value_codec =
  fixes enc :: "'v \<Rightarrow> nat \<Rightarrow> bytes option"
    and dec :: "bytes \<Rightarrow> 'v option"
    and fields :: "'v \<Rightarrow> bytes list"
    and ok :: "'v \<Rightarrow> bool"
    and rep :: "'v \<Rightarrow> bool"
    and max_len :: nat
  assumes enc_eq: "rep v \<Longrightarrow> enc v cap =
      (if ok v \<and> length (concat (fields v)) \<le> cap then Some (concat (fields v)) else None)"
    and dec_fields: "rep v \<Longrightarrow> ok v \<Longrightarrow> dec (concat (fields v)) = Some v"
    and fields_max: "rep v \<Longrightarrow> ok v \<Longrightarrow> length (concat (fields v)) \<le> max_len"
begin

lemma roundtrip:
  assumes "rep v" "enc v cap = Some bs"
  shows "dec bs = Some v"
  using assms by (auto simp: enc_eq dec_fields split: if_splits)

lemma encodable:
  assumes "rep v" "ok v" "max_len \<le> cap"
  shows "\<exists>bs. enc v cap = Some bs \<and> length bs \<le> max_len"
  using assms fields_max [OF assms(1,2)] by (simp add: enc_eq)

lemma rejected: "rep v \<Longrightarrow> \<not> ok v \<Longrightarrow> enc v cap = None"
  by (simp add: enc_eq)

lemma refused: "rep v \<and> enc v max_len = None \<longleftrightarrow> rep v \<and> \<not> ok v"
  using encodable [of v max_len] rejected [of v max_len] by fastforce

lemma enc_inj:
  assumes "rep v" "rep v'" "enc v cap = Some bs" "enc v' cap' = Some bs"
  shows "v = v'"
  using roundtrip [OF assms(1,3)] roundtrip [OF assms(2,4)] by simp

text \<open>The whole contract in one statement: a value in bounds is stored in any buffer of the documented size and read
  back unchanged, a value out of bounds is refused.\<close>

lemma contract:
  assumes "rep v" "max_len \<le> cap"
  shows "if ok v then \<exists>bs. enc v cap = Some bs \<and> length bs \<le> max_len \<and> dec bs = Some v else enc v cap = None"
  using encodable [OF assms(1) _ assms(2)] roundtrip [OF assms(1)] rejected [OF assms(1)] by auto

end

text \<open>A codec whose decoder accepts nothing but what its encoder writes.\<close>

locale strict_codec = value_codec +
  assumes dec_strict: "dec bs = Some v \<Longrightarrow> rep v \<and> ok v \<and> bs = concat (fields v)"
begin

lemma accepts_exactly: "dec bs = Some v \<longleftrightarrow> rep v \<and> ok v \<and> bs = concat (fields v)"
  using dec_strict dec_fields by blast

lemma canonical:
  assumes "dec bs = Some v"
  shows "enc v (length bs) = Some bs"
  using dec_strict [OF assms] by (simp add: enc_eq)

lemma exact: "dec bs = Some v \<longleftrightarrow> rep v \<and> enc v (length bs) = Some bs"
  using canonical dec_strict roundtrip by blast

lemma dec_inj: "dec bs = Some v \<Longrightarrow> dec bs' = Some v \<Longrightarrow> bs = bs'"
  using dec_strict by blast

end

end
