(* ===== verification/Fdb_Rows.thy ===== *)
theory Fdb_Rows
  imports Fdb_Cursor
begin

text \<open>
  The namespace rows of the FoundationDB backend (\<^verbatim>\<open>src/catalogue/fdb_codec.c\<close>, first part): inode blobs with the
  directory split, directory entries and their sequence index, stripe maps and the garbage-collection queue.

  A C (length, array) pair is the list of its first \<^verbatim>\<open>len\<close> bytes; a C string is the list of its bytes before the NUL.
  NULL arguments, which every function refuses first, have no counterpart; \<^verbatim>\<open>ds_map\<close> is never serialised.
\<close>

abbreviation MDS_NFS_FH_MAX :: nat where "MDS_NFS_FH_MAX \<equiv> 128"
abbreviation MDS_MAX_NAME :: nat where "MDS_MAX_NAME \<equiv> 255"
abbreviation MDS_FTYPE_DIR :: u32 where "MDS_FTYPE_DIR \<equiv> 2"
abbreviation FDB_INODE_ENC_FIXED :: nat where "FDB_INODE_ENC_FIXED \<equiv> 152"
abbreviation FDB_INODE_ENC_MAX :: nat where "FDB_INODE_ENC_MAX \<equiv> FDB_INODE_ENC_FIXED + MDS_NFS_FH_MAX"

lemmas w_defs = w_u8_def w_u16_def w_u32_def w_u64_def w_ts_def

section \<open>Inodes\<close>

record mds_inode =
  ino_fileid :: u64
  ino_type :: u32
  ino_mode :: u32
  ino_nlink :: u32
  ino_uid :: u64
  ino_gid :: u64
  ino_size :: u64
  ino_space_used :: u64
  ino_atime :: timespec
  ino_mtime :: timespec
  ino_ctime :: timespec
  ino_change :: u64
  ino_generation :: u64
  ino_flags :: u32
  ino_create_verf :: u64
  ino_parent_fileid :: u64
  ino_synth_suid :: u32
  ino_synth_sgid :: u32
  ino_stripe_count :: u32
  ino_stripe_unit :: u32
  ino_mirror_count :: u32
  ino_inline_ds_id :: u32
  ino_inline_fh :: bytes

definition nsec_bad :: "timespec \<Rightarrow> bool" where
  "nsec_bad ts \<longleftrightarrow> (word_of_int (tv_nsec ts) :: u64) \<ge> 1000000000"

definition fdb_inode_encode :: "mds_inode \<Rightarrow> nat \<Rightarrow> bytes option" where
  "fdb_inode_encode ino cap =
     (if length (ino_inline_fh ino) > MDS_NFS_FH_MAX \<or> \<not> type_ok (ino_type ino) \<or>
         nsec_bad (ino_atime ino) \<or> nsec_bad (ino_mtime ino) \<or> nsec_bad (ino_ctime ino) then None
      else w_all cap ([w_u8 1, w_u8 (ucast (ino_type ino)), w_u16 0, w_u32 (ino_mode ino), w_u32 (ino_nlink ino),
         w_u32 (ino_flags ino), w_u64 (ino_fileid ino), w_u64 (ino_uid ino), w_u64 (ino_gid ino),
         w_u64 (ino_size ino), w_u64 (ino_space_used ino)]
         @ w_ts (ino_atime ino) @ w_ts (ino_mtime ino) @ w_ts (ino_ctime ino) @
        [w_u64 (ino_change ino), w_u64 (ino_generation ino), w_u64 (ino_create_verf ino),
         w_u64 (ino_parent_fileid ino), w_u32 (ino_synth_suid ino), w_u32 (ino_synth_sgid ino),
         w_u32 (ino_stripe_count ino), w_u32 (ino_stripe_unit ino), w_u32 (ino_mirror_count ino),
         w_u32 (ino_inline_ds_id ino), w_u32 (of_nat (length (ino_inline_fh ino))), w_bytes (ino_inline_fh ino)]))"

definition fdb_inode_decode :: "bytes \<Rightarrow> mds_inode option" where
  "fdb_inode_decode buf =
     (if length buf < FDB_INODE_ENC_FIXED \<or> length buf > FDB_INODE_ENC_MAX then None
      else r_run (do {
        ver \<leftarrow> r_u8;
        if ver \<noteq> 1 then State_Monad.return None
        else do {
          ty \<leftarrow> r_u8; reserved \<leftarrow> r_u16;
          mode \<leftarrow> r_u32; nlink \<leftarrow> r_u32; flags \<leftarrow> r_u32;
          fileid \<leftarrow> r_u64; uid \<leftarrow> r_u64; gid \<leftarrow> r_u64; sz \<leftarrow> r_u64; space \<leftarrow> r_u64;
          at \<leftarrow> r_ts; mt \<leftarrow> r_ts; ct \<leftarrow> r_ts;
          change \<leftarrow> r_u64; gen \<leftarrow> r_u64; verf \<leftarrow> r_u64; parent \<leftarrow> r_u64;
          suid \<leftarrow> r_u32; sgid \<leftarrow> r_u32; sc \<leftarrow> r_u32; su \<leftarrow> r_u32; mc \<leftarrow> r_u32; ds \<leftarrow> r_u32; fh_len \<leftarrow> r_u32;
          bad \<leftarrow> r_failed;
          if bad \<or> \<not> type_ok (ucast ty) \<or> unat fh_len > MDS_NFS_FH_MAX then State_Monad.return None
          else do {
            fh \<leftarrow> r_bytes (unat fh_len);
            done \<leftarrow> r_done;
            State_Monad.return (if \<not> done then None else Some
              \<lparr>ino_fileid = fileid, ino_type = ucast ty, ino_mode = mode, ino_nlink = nlink, ino_uid = uid, ino_gid = gid,
               ino_size = sz, ino_space_used = space, ino_atime = at, ino_mtime = mt, ino_ctime = ct,
               ino_change = change, ino_generation = gen, ino_flags = flags, ino_create_verf = verf,
               ino_parent_fileid = parent, ino_synth_suid = suid, ino_synth_sgid = sgid, ino_stripe_count = sc,
               ino_stripe_unit = su, ino_mirror_count = mc, ino_inline_ds_id = ds, ino_inline_fh = fh\<rparr>)
          }
        }
      }) buf)"

definition inode_fields :: "mds_inode \<Rightarrow> bytes list" where
  "inode_fields i = [[1], [ucast (ino_type i)], le16_put 0, fdb_le32_put (ino_mode i), fdb_le32_put (ino_nlink i),
     fdb_le32_put (ino_flags i), fdb_le64_put (ino_fileid i), fdb_le64_put (ino_uid i), fdb_le64_put (ino_gid i),
     fdb_le64_put (ino_size i), fdb_le64_put (ino_space_used i),
     fdb_le64_put (word_of_int (tv_sec (ino_atime i))), fdb_le32_put (word_of_int (tv_nsec (ino_atime i))),
     fdb_le64_put (word_of_int (tv_sec (ino_mtime i))), fdb_le32_put (word_of_int (tv_nsec (ino_mtime i))),
     fdb_le64_put (word_of_int (tv_sec (ino_ctime i))), fdb_le32_put (word_of_int (tv_nsec (ino_ctime i))),
     fdb_le64_put (ino_change i), fdb_le64_put (ino_generation i), fdb_le64_put (ino_create_verf i),
     fdb_le64_put (ino_parent_fileid i), fdb_le32_put (ino_synth_suid i), fdb_le32_put (ino_synth_sgid i),
     fdb_le32_put (ino_stripe_count i), fdb_le32_put (ino_stripe_unit i), fdb_le32_put (ino_mirror_count i),
     fdb_le32_put (ino_inline_ds_id i), fdb_le32_put (of_nat (length (ino_inline_fh i))), ino_inline_fh i]"

definition inode_ok :: "mds_inode \<Rightarrow> bool" where
  "inode_ok i \<longleftrightarrow> length (ino_inline_fh i) \<le> MDS_NFS_FH_MAX \<and> type_ok (ino_type i) \<and>
     tv_nsec (ino_atime i) \<in> {0..<NS_PER_SEC} \<and> tv_nsec (ino_mtime i) \<in> {0..<NS_PER_SEC} \<and> tv_nsec (ino_ctime i) \<in> {0..<NS_PER_SEC}"

definition ts_rep :: "timespec \<Rightarrow> bool" where
  "ts_rep ts \<longleftrightarrow> tv_sec ts \<in> {INT64_MIN..INT64_MAX} \<and> tv_nsec ts \<in> {INT64_MIN..INT64_MAX}"

definition inode_rep :: "mds_inode \<Rightarrow> bool" where
  "inode_rep i \<longleftrightarrow> ts_rep (ino_atime i) \<and> ts_rep (ino_mtime i) \<and> ts_rep (ino_ctime i)"

lemma nsec_bad_iff:
  assumes "ts_rep ts"
  shows "nsec_bad ts \<longleftrightarrow> tv_nsec ts \<notin> {0..<NS_PER_SEC}"
proof (cases "tv_nsec ts < 0")
  case True
  have "uint (word_of_int (tv_nsec ts) :: u64) = tv_nsec ts mod 2 ^ 64" by (simp add: unsigned_of_int take_bit_eq_mod)
  also have "\<dots> = (tv_nsec ts + 2 ^ 64) mod 2 ^ 64" by simp
  also have "\<dots> = tv_nsec ts + 2 ^ 64" using True assms by (intro mod_pos_pos_trivial) (auto simp: ts_rep_def)
  finally show ?thesis using True assms by (auto simp: nsec_bad_def word_le_def ts_rep_def)
next
  case False
  then have "uint (word_of_int (tv_nsec ts) :: u64) = tv_nsec ts"
    using assms by (simp add: unsigned_of_int take_bit_int_eq_self ts_rep_def)
  then show ?thesis using False by (auto simp: nsec_bad_def word_le_def)
qed

lemma type_ok_byte: "type_ok t \<Longrightarrow> ucast (ucast t :: u8) = t"
  by (simp add: type_ok_def word_unat_eq_iff unsigned_ucast_eq unsigned_take_bit_eq take_bit_nat_eq_self word_le_nat_alt)


interpretation inode: value_codec fdb_inode_encode fdb_inode_decode inode_fields inode_ok inode_rep FDB_INODE_ENC_MAX
proof (unfold_locales, goal_cases)
  case (1 v cap)
  then have "inode_ok v \<longleftrightarrow> \<not> (length (ino_inline_fh v) > MDS_NFS_FH_MAX \<or> \<not> type_ok (ino_type v) \<or>
         nsec_bad (ino_atime v) \<or> nsec_bad (ino_mtime v) \<or> nsec_bad (ino_ctime v))"
    by (auto simp: inode_ok_def inode_rep_def nsec_bad_iff)
  then show ?case unfolding fdb_inode_encode_def by (intro enc_fields) (simp add: inode_fields_def w_defs)
next
  case (2 v)
  then have "ts_ok (ino_atime v)" "ts_ok (ino_mtime v)" "ts_ok (ino_ctime v)"
    by (auto simp: inode_ok_def inode_rep_def ts_rep_def ts_ok_def)
  then show ?case
    using 2 by (simp add: fdb_inode_decode_def inode_fields_def r_run_at codec_simps inode_ok_def unat_len type_ok_byte)
next
  case (3 v)
  then show ?case by (simp add: inode_fields_def inode_ok_def)
qed

section \<open>The directory split\<close>

record fdb_dir_counters =
  dc_nlink :: u64
  dc_change :: u64
  dc_mtime_ns :: u64
  dc_ctime_ns :: u64

definition fdb_inode_is_dir :: "mds_inode \<Rightarrow> bool" where
  "fdb_inode_is_dir ino \<longleftrightarrow> ino_type ino = MDS_FTYPE_DIR"

definition fdb_inode_split :: "mds_inode \<Rightarrow> mds_inode \<times> fdb_dir_counters" where
  "fdb_inode_split ino =
     (if \<not> fdb_inode_is_dir ino then (ino, \<lparr>dc_nlink = 0, dc_change = 0, dc_mtime_ns = 0, dc_ctime_ns = 0\<rparr>)
      else (ino\<lparr>ino_nlink := 0, ino_change := 0, ino_mtime := \<lparr>tv_sec = 0, tv_nsec = 0\<rparr>,
               ino_ctime := \<lparr>tv_sec = 0, tv_nsec = 0\<rparr>\<rparr>,
            \<lparr>dc_nlink = ucast (ino_nlink ino), dc_change = ino_change ino,
             dc_mtime_ns = word_of_int (fdb_ts_to_ns (ino_mtime ino)),
             dc_ctime_ns = word_of_int (fdb_ts_to_ns (ino_ctime ino))\<rparr>))"

definition fdb_inode_compose :: "mds_inode \<Rightarrow> fdb_dir_counters \<Rightarrow> mds_inode" where
  "fdb_inode_compose io c =
     (if \<not> fdb_inode_is_dir io then io
      else let nlink = sint (dc_nlink c)
           in io\<lparr>ino_nlink := (if nlink < 0 then 0 else if nlink > 4294967295 then UINT32_MAX else word_of_int nlink),
                 ino_change := dc_change c,
                 ino_mtime := fdb_ns_to_ts (sint (dc_mtime_ns c)),
                 ino_ctime := fdb_ns_to_ts (sint (dc_ctime_ns c))\<rparr>)"

lemma ts_ns_bounds: "ts_fits ts \<Longrightarrow> INT64_MIN \<le> fdb_ts_to_ns ts \<and> fdb_ts_to_ns ts \<le> INT64_MAX"
  by (auto simp: ts_fits_def fdb_ts_to_ns_def sdiv_consts)

lemma ts_ns_roundtrip: "ts_fits ts \<Longrightarrow> fdb_ns_to_ts (fdb_ts_to_ns ts) = ts"
  by (cases ts) (auto simp: ts_fits_def fdb_ts_to_ns_def sdiv_consts ns_to_ts_floor)

lemma sint_ucast_u32: "sint (ucast (x :: u32) :: u64) = uint x"
proof -
  have "ucast x = (word_of_int (uint x) :: u64)" by simp
  moreover have "0 \<le> uint x" by simp
  then have "INT64_MIN \<le> uint x" by linarith
  ultimately show ?thesis using sint_u64 [of "uint x"] uint_u32_le [of x] by (simp del: word_of_int_uint)
qed

lemma scast_ucast_u32: "scast (ucast (x :: u32) :: u64) = x"
proof -
  have "scast (ucast x :: u64) = (word_of_int (sint (ucast x :: u64)) :: u32)" by simp
  also have "\<dots> = x" by (simp only: sint_ucast_u32 word_of_int_uint)
  finally show ?thesis .
qed

lemma compose_split:
  assumes "ts_fits (ino_mtime i)" "ts_fits (ino_ctime i)" "fdb_inode_split i = (blob, c)"
  shows "fdb_inode_compose blob c = i"
proof (cases "fdb_inode_is_dir i")
  case False
  then show ?thesis using assms(3) by (auto simp: fdb_inode_split_def fdb_inode_compose_def)
next
  case True
  have ts: "fdb_ns_to_ts (sint (word_of_int (fdb_ts_to_ns t) :: u64)) = t" if "ts_fits t" for t
    using ts_ns_bounds [OF that] ts_ns_roundtrip [OF that] by (simp add: sint_u64)
  show ?thesis
    using assms True uint_u32_le [of "ino_nlink i"]
    by (auto simp: fdb_inode_split_def fdb_inode_compose_def fdb_inode_is_dir_def Let_def sint_ucast_u32 scast_ucast_u32 ts)
qed

section \<open>Directory entries\<close>

abbreviation FDB_DIRENT_ENC_SIZE :: nat where "FDB_DIRENT_ENC_SIZE \<equiv> 18"
abbreviation FDB_DIRENT_SEQ_ENC_FIXED :: nat where "FDB_DIRENT_SEQ_ENC_FIXED \<equiv> 10"
abbreviation FDB_DIRENT_SEQ_ENC_MAX :: nat where "FDB_DIRENT_SEQ_ENC_MAX \<equiv> FDB_DIRENT_SEQ_ENC_FIXED + MDS_MAX_NAME"

record fdb_dirent_val =
  de_child_fileid :: u64
  de_seq :: u64
  de_type :: u8

definition fdb_dirent_encode :: "fdb_dirent_val \<Rightarrow> nat \<Rightarrow> bytes option" where
  "fdb_dirent_encode v cap =
     (if \<not> type_ok (ucast (de_type v)) then None
      else w_all cap [w_u8 1, w_u64 (de_child_fileid v), w_u8 (de_type v), w_u64 (de_seq v)])"

definition fdb_dirent_decode :: "bytes \<Rightarrow> fdb_dirent_val option" where
  "fdb_dirent_decode buf =
     (if length buf \<noteq> FDB_DIRENT_ENC_SIZE then None
      else r_run (do {
        ver \<leftarrow> r_u8;
        if ver \<noteq> 1 then State_Monad.return None
        else do {
          child \<leftarrow> r_u64; ty \<leftarrow> r_u8; sq \<leftarrow> r_u64; done \<leftarrow> r_done;
          State_Monad.return (if \<not> done \<or> \<not> type_ok (ucast ty) then None
            else Some \<lparr>de_child_fileid = child, de_seq = sq, de_type = ty\<rparr>)
        }
      }) buf)"

definition dirent_fields :: "fdb_dirent_val \<Rightarrow> bytes list" where
  "dirent_fields v = [[1], fdb_le64_put (de_child_fileid v), [de_type v], fdb_le64_put (de_seq v)]"

interpretation dirent: strict_codec fdb_dirent_encode fdb_dirent_decode dirent_fields "\<lambda>v. type_ok (ucast (de_type v))"
  "\<lambda>_. True" FDB_DIRENT_ENC_SIZE
proof (unfold_locales, goal_cases)
  case (1 v cap)
  then show ?case unfolding fdb_dirent_encode_def by (intro enc_fields) (simp_all add: dirent_fields_def w_defs)
next
  case (2 v)
  then show ?case by (simp add: fdb_dirent_decode_def dirent_fields_def r_run_at codec_simps)
next
  case (3 v)
  then show ?case by (simp add: dirent_fields_def)
next
  case (4 bs v)
  then have l: "length bs = 18" by (auto simp: fdb_dirent_decode_def split: if_splits)
  obtain ver r1 where r1: "bs = ver # r1" "length r1 = 17" using split_u8 [of bs] l by auto
  obtain c r2 where r2: "r1 = fdb_le64_put c @ r2" "length r2 = 9" using split_u64 [of r1] r1(2) by auto
  obtain ty r3 where r3: "r2 = ty # r3" "length r3 = 8" using split_u8 [of r2] r2(2) by auto
  obtain q where "r3 = fdb_le64_put q" using split_u64 [of r3] r3(2) by auto
  then show ?case
    using 4 r1 r2 r3 by (auto simp: fdb_dirent_decode_def r_run_at codec_simps dirent_fields_def split: if_splits)
qed

record fdb_dirent_seq_val =
  ds_child_fileid :: u64
  ds_type :: u8
  ds_name :: bytes

definition fdb_dirent_seq_encode :: "fdb_dirent_seq_val \<Rightarrow> nat \<Rightarrow> bytes option" where
  "fdb_dirent_seq_encode v cap =
     (if \<not> type_ok (ucast (ds_type v)) then None
      else let n = strnlen (ds_name v) (MDS_MAX_NAME + 1)
           in if n = 0 \<or> n > MDS_MAX_NAME then None
              else w_all cap [w_u8 1, w_u64 (ds_child_fileid v), w_u8 (ds_type v), w_bytes (take n (ds_name v))])"

definition fdb_dirent_seq_decode :: "bytes \<Rightarrow> fdb_dirent_seq_val option" where
  "fdb_dirent_seq_decode buf =
     (if length buf \<le> FDB_DIRENT_SEQ_ENC_FIXED \<or> length buf > FDB_DIRENT_SEQ_ENC_MAX then None
      else r_run (do {
        ver \<leftarrow> r_u8;
        if ver \<noteq> 1 then State_Monad.return None
        else do {
          child \<leftarrow> r_u64; ty \<leftarrow> r_u8;
          name \<leftarrow> r_bytes (length buf - FDB_DIRENT_SEQ_ENC_FIXED);
          done \<leftarrow> r_done;
          State_Monad.return (if \<not> done \<or> \<not> type_ok (ucast ty) \<or> 0 \<in> set name then None
            else Some \<lparr>ds_child_fileid = child, ds_type = ty, ds_name = name\<rparr>)
        }
      }) buf)"

definition dirent_seq_fields :: "fdb_dirent_seq_val \<Rightarrow> bytes list" where
  "dirent_seq_fields v = [[1], fdb_le64_put (ds_child_fileid v), [ds_type v], ds_name v]"

definition dirent_seq_ok :: "fdb_dirent_seq_val \<Rightarrow> bool" where
  "dirent_seq_ok v \<longleftrightarrow> type_ok (ucast (ds_type v)) \<and> ds_name v \<noteq> [] \<and> length (ds_name v) \<le> MDS_MAX_NAME"

interpretation dirent_seq: strict_codec fdb_dirent_seq_encode fdb_dirent_seq_decode dirent_seq_fields dirent_seq_ok
  "\<lambda>v. 0 \<notin> set (ds_name v)" FDB_DIRENT_SEQ_ENC_MAX
proof (unfold_locales, goal_cases)
  case (1 v cap)
  let ?ws = "[w_u8 1, w_u64 (ds_child_fileid v), w_u8 (ds_type v), w_bytes (ds_name v)]"
  have "fdb_dirent_seq_encode v cap = (if \<not> dirent_seq_ok v then None else w_all cap ?ws)"
    by (auto simp: fdb_dirent_seq_encode_def dirent_seq_ok_def Let_def strnlen_def min_def)
  also have "\<dots> = (if dirent_seq_ok v \<and> length (concat (dirent_seq_fields v)) \<le> cap then Some (concat (dirent_seq_fields v)) else None)"
    by (intro enc_fields) (simp_all add: dirent_seq_fields_def w_defs)
  finally show ?case .
next
  case (2 v)
  then show ?case
    by (simp add: fdb_dirent_seq_decode_def dirent_seq_fields_def r_run_at codec_simps dirent_seq_ok_def Suc_le_eq)
next
  case (3 v)
  then show ?case by (simp add: dirent_seq_fields_def dirent_seq_ok_def)
next
  case (4 bs v)
  then have l: "10 < length bs" "length bs \<le> 265" by (auto simp: fdb_dirent_seq_decode_def split: if_splits)
  obtain ver r1 where r1: "bs = ver # r1" using split_u8 [of bs] l by auto
  obtain c r2 where r2: "r1 = fdb_le64_put c @ r2" using split_u64 [of r1] l r1 by auto
  obtain ty r3 where r3: "r2 = ty # r3" using l r1 r2 by (cases r2) auto
  show ?case
    using 4 r1 r2 r3 l
    by (auto simp: fdb_dirent_seq_decode_def r_run_at codec_simps dirent_seq_fields_def dirent_seq_ok_def split: if_splits)
qed

section \<open>Stripe maps\<close>

abbreviation MDS_MAX_STRIPES :: u32 where "MDS_MAX_STRIPES \<equiv> 1024"
abbreviation MDS_MAX_MIRRORS :: u32 where "MDS_MAX_MIRRORS \<equiv> 4"
abbreviation FDB_STRIPE_HDR_ENC_SIZE :: nat where "FDB_STRIPE_HDR_ENC_SIZE \<equiv> 13"
abbreviation FDB_STRIPE_ENT_ENC_FIXED :: nat where "FDB_STRIPE_ENT_ENC_FIXED \<equiv> 17"
abbreviation FDB_STRIPE_ENT_ENC_MAX :: nat where "FDB_STRIPE_ENT_ENC_MAX \<equiv> FDB_STRIPE_ENT_ENC_FIXED + MDS_NFS_FH_MAX"
abbreviation FDB_GC_ENC_FIXED :: nat where "FDB_GC_ENC_FIXED \<equiv> 25"
abbreviation FDB_GC_ENC_MAX :: nat where "FDB_GC_ENC_MAX \<equiv> FDB_GC_ENC_FIXED + MDS_NFS_FH_MAX"

record fdb_stripe_hdr_val =
  sh_stripe_count :: u32
  sh_stripe_unit :: u32
  sh_mirror_count :: u32

definition stripe_hdr_ok :: "fdb_stripe_hdr_val \<Rightarrow> bool" where
  "stripe_hdr_ok v \<longleftrightarrow> sh_stripe_count v \<ge> 1 \<and> sh_stripe_count v \<le> MDS_MAX_STRIPES \<and>
     sh_mirror_count v \<ge> 1 \<and> sh_mirror_count v \<le> MDS_MAX_MIRRORS \<and> sh_stripe_unit v \<noteq> 0"

definition fdb_stripe_hdr_encode :: "fdb_stripe_hdr_val \<Rightarrow> nat \<Rightarrow> bytes option" where
  "fdb_stripe_hdr_encode v cap =
     (if \<not> stripe_hdr_ok v then None
      else w_all cap
        [w_u8 1, w_u32 (sh_stripe_count v), w_u32 (sh_stripe_unit v), w_u32 (sh_mirror_count v)])"

definition fdb_stripe_hdr_decode :: "bytes \<Rightarrow> fdb_stripe_hdr_val option" where
  "fdb_stripe_hdr_decode buf =
     (if length buf \<noteq> FDB_STRIPE_HDR_ENC_SIZE then None
      else r_run (do {
        ver \<leftarrow> r_u8;
        if ver \<noteq> 1 then State_Monad.return None
        else do {
          x_stripe_count \<leftarrow> r_u32; x_stripe_unit \<leftarrow> r_u32; x_mirror_count \<leftarrow> r_u32;
          done \<leftarrow> r_done;
          State_Monad.return (if \<not> done \<or> \<not> stripe_hdr_ok \<lparr>sh_stripe_count = x_stripe_count, sh_stripe_unit = x_stripe_unit, sh_mirror_count = x_mirror_count\<rparr> then None
            else Some \<lparr>sh_stripe_count = x_stripe_count, sh_stripe_unit = x_stripe_unit,
                         sh_mirror_count = x_mirror_count\<rparr>)
        }
      }) buf)"

definition stripe_hdr_fields :: "fdb_stripe_hdr_val \<Rightarrow> bytes list" where
  "stripe_hdr_fields v =
     [[1], fdb_le32_put (sh_stripe_count v), fdb_le32_put (sh_stripe_unit v),
      fdb_le32_put (sh_mirror_count v)]"

interpretation stripe_hdr: strict_codec fdb_stripe_hdr_encode fdb_stripe_hdr_decode stripe_hdr_fields stripe_hdr_ok
  "\<lambda>_. True" FDB_STRIPE_HDR_ENC_SIZE
proof (unfold_locales, goal_cases)
  case (1 v cap)
  then show ?case
  proof (cases "stripe_hdr_ok v")
    case True
    then show ?thesis using w_all_bytes [of cap "stripe_hdr_fields v"]
      by (auto simp: fdb_stripe_hdr_encode_def stripe_hdr_fields_def w_defs stripe_hdr_ok_def strnlen_eq strnlen_less strnlen_0 bounded_strlen_eq)
  qed (auto simp: fdb_stripe_hdr_encode_def stripe_hdr_ok_def strnlen_less strnlen_0 bounded_strlen_eq not_le)
next
  case (2 v)
  then show ?case by (auto simp: fdb_stripe_hdr_decode_def stripe_hdr_fields_def r_run_at codec_simps stripe_hdr_ok_def unat_len sint_u64)
next
  case (3 v)
  then show ?case by (auto simp: stripe_hdr_fields_def stripe_hdr_ok_def)
next
  case (4 bs v)
  note d = 4 [unfolded fdb_stripe_hdr_decode_def r_run_at]
  then have l: "\<not> (length bs \<noteq> FDB_STRIPE_HDR_ENC_SIZE)" by (auto split: if_splits)
  obtain a1 r1 where r1: "bs = a1 # r1" using l  by (cases bs) auto
  obtain a2 r2 where r2: "r1 = fdb_le32_put a2 @ r2" using split_u32 [of r1] l r1 by auto
  obtain a3 r3 where r3: "r2 = fdb_le32_put a3 @ r3" using split_u32 [of r2] l r1 r2 by auto
  obtain a4 r4 where r4: "r3 = fdb_le32_put a4 @ r4" using split_u32 [of r3] l r1 r2 r3 by auto
  have z: "r4 = []" using l r1 r2 r3 r4 by auto
  show ?case using d l r1 r2 r3 r4 z
    by (auto simp: codec_simps stripe_hdr_fields_def stripe_hdr_ok_def unat_len r_str_body_def byte_bool split: if_splits)
qed

record mds_ds_map_entry =
  se_ds_id :: u32
  se_nfs_fh :: bytes
  se_synth_suid :: u32
  se_synth_sgid :: u32

definition fdb_stripe_ent_encode :: "mds_ds_map_entry \<Rightarrow> nat \<Rightarrow> bytes option" where
  "fdb_stripe_ent_encode v cap =
     (if length (se_nfs_fh v) > MDS_NFS_FH_MAX then None
      else w_all cap
        [w_u8 1, w_u32 (se_ds_id v), w_u32 (se_synth_suid v), w_u32 (se_synth_sgid v),
         w_u32 (of_nat (length (se_nfs_fh v))), w_bytes (se_nfs_fh v)])"

definition fdb_stripe_ent_decode :: "bytes \<Rightarrow> mds_ds_map_entry option" where
  "fdb_stripe_ent_decode buf =
     (if length buf < FDB_STRIPE_ENT_ENC_FIXED \<or> length buf > FDB_STRIPE_ENT_ENC_MAX then None
      else r_run (do {
        ver \<leftarrow> r_u8;
        if ver \<noteq> 1 then State_Monad.return None
        else do {
          x_ds_id \<leftarrow> r_u32; x_synth_suid \<leftarrow> r_u32; x_synth_sgid \<leftarrow> r_u32;
          n_nfs_fh \<leftarrow> r_u32;
          bad \<leftarrow> r_failed;
          if bad \<or> unat n_nfs_fh > MDS_NFS_FH_MAX then State_Monad.return None
          else do {
            x_nfs_fh \<leftarrow> r_bytes (unat n_nfs_fh);
            done \<leftarrow> r_done;
            State_Monad.return (if \<not> done then None
              else Some \<lparr>se_ds_id = x_ds_id, se_nfs_fh = x_nfs_fh, se_synth_suid = x_synth_suid,
                           se_synth_sgid = x_synth_sgid\<rparr>)
          }
        }
      }) buf)"

definition stripe_ent_fields :: "mds_ds_map_entry \<Rightarrow> bytes list" where
  "stripe_ent_fields v =
     [[1], fdb_le32_put (se_ds_id v), fdb_le32_put (se_synth_suid v), fdb_le32_put (se_synth_sgid v),
      fdb_le32_put (of_nat (length (se_nfs_fh v))), se_nfs_fh v]"

definition stripe_ent_ok :: "mds_ds_map_entry \<Rightarrow> bool" where
  "stripe_ent_ok v \<longleftrightarrow> length (se_nfs_fh v) \<le> MDS_NFS_FH_MAX"

interpretation stripe_ent: strict_codec fdb_stripe_ent_encode fdb_stripe_ent_decode stripe_ent_fields stripe_ent_ok
  "\<lambda>_. True" FDB_STRIPE_ENT_ENC_MAX
proof (unfold_locales, goal_cases)
  case (1 v cap)
  then show ?case
  proof (cases "stripe_ent_ok v")
    case True
    then show ?thesis using w_all_bytes [of cap "stripe_ent_fields v"]
      by (auto simp: fdb_stripe_ent_encode_def stripe_ent_fields_def w_defs stripe_ent_ok_def strnlen_eq strnlen_less strnlen_0 bounded_strlen_eq)
  qed (auto simp: fdb_stripe_ent_encode_def stripe_ent_ok_def strnlen_less strnlen_0 bounded_strlen_eq not_le)
next
  case (2 v)
  then show ?case by (auto simp: fdb_stripe_ent_decode_def stripe_ent_fields_def r_run_at codec_simps stripe_ent_ok_def unat_len sint_u64)
next
  case (3 v)
  then show ?case by (auto simp: stripe_ent_fields_def stripe_ent_ok_def)
next
  case (4 bs v)
  note d = 4 [unfolded fdb_stripe_ent_decode_def r_run_at]
  then have l: "\<not> (length bs < FDB_STRIPE_ENT_ENC_FIXED \<or> length bs > FDB_STRIPE_ENT_ENC_MAX)" by (auto split: if_splits)
  obtain a1 r1 where r1: "bs = a1 # r1" using l  by (cases bs) auto
  obtain a2 r2 where r2: "r1 = fdb_le32_put a2 @ r2" using split_u32 [of r1] l r1 by auto
  obtain a3 r3 where r3: "r2 = fdb_le32_put a3 @ r3" using split_u32 [of r2] l r1 r2 by auto
  obtain a4 r4 where r4: "r3 = fdb_le32_put a4 @ r4" using split_u32 [of r3] l r1 r2 r3 by auto
  obtain a5 r5 where r5: "r4 = fdb_le32_put a5 @ r5" using split_u32 [of r4] l r1 r2 r3 r4 by auto
  have q6: "length r5 = unat a5" using d l r1 r2 r3 r4 r5
    by (auto simp: codec_simps run_r_gen run_r_bytes_gen r_str_body_def split: if_splits)
  obtain a6 r6 where r6: "r5 = a6 @ r6" "length a6 = unat a5" using split_bytes [of "unat a5" r5] q6 by auto
  have z: "r6 = []" using l q6 r1 r2 r3 r4 r5 r6 by auto
  show ?case using d l q6 r1 r2 r3 r4 r5 r6 z
    by (auto simp: codec_simps stripe_ent_fields_def stripe_ent_ok_def unat_len r_str_body_def byte_bool split: if_splits)
qed

section \<open>The garbage-collection queue\<close>

text \<open>\<^verbatim>\<open>gc_seq\<close> is the key of the row; the decoder leaves it zero for the caller to fill.\<close>

record mds_gc_entry =
  gc_seq :: u64
  gc_fileid :: u64
  gc_ds_id :: u32
  gc_nfs_fh :: bytes
  gc_owner_mds_id :: u32
  gc_sweep_hint :: u32

definition fdb_gc_encode :: "mds_gc_entry \<Rightarrow> nat \<Rightarrow> bytes option" where
  "fdb_gc_encode v cap =
     (if length (gc_nfs_fh v) > MDS_NFS_FH_MAX then None
      else w_all cap
        [w_u8 1, w_u64 (gc_fileid v), w_u32 (gc_ds_id v), w_u32 (gc_owner_mds_id v),
         w_u32 (gc_sweep_hint v), w_u32 (of_nat (length (gc_nfs_fh v))), w_bytes (gc_nfs_fh v)])"

definition fdb_gc_decode :: "bytes \<Rightarrow> mds_gc_entry option" where
  "fdb_gc_decode buf =
     (if length buf < FDB_GC_ENC_FIXED \<or> length buf > FDB_GC_ENC_MAX then None
      else r_run (do {
        ver \<leftarrow> r_u8;
        if ver \<noteq> 1 then State_Monad.return None
        else do {
          x_fileid \<leftarrow> r_u64; x_ds_id \<leftarrow> r_u32; x_owner_mds_id \<leftarrow> r_u32;
          x_sweep_hint \<leftarrow> r_u32; n_nfs_fh \<leftarrow> r_u32;
          bad \<leftarrow> r_failed;
          if bad \<or> unat n_nfs_fh > MDS_NFS_FH_MAX then State_Monad.return None
          else do {
            x_nfs_fh \<leftarrow> r_bytes (unat n_nfs_fh);
            done \<leftarrow> r_done;
            State_Monad.return (if \<not> done then None
              else Some \<lparr>gc_seq = 0, gc_fileid = x_fileid, gc_ds_id = x_ds_id, gc_nfs_fh = x_nfs_fh,
                           gc_owner_mds_id = x_owner_mds_id, gc_sweep_hint = x_sweep_hint\<rparr>)
          }
        }
      }) buf)"

definition gc_fields :: "mds_gc_entry \<Rightarrow> bytes list" where
  "gc_fields v =
     [[1], fdb_le64_put (gc_fileid v), fdb_le32_put (gc_ds_id v), fdb_le32_put (gc_owner_mds_id v),
      fdb_le32_put (gc_sweep_hint v), fdb_le32_put (of_nat (length (gc_nfs_fh v))), gc_nfs_fh v]"

definition gc_ok :: "mds_gc_entry \<Rightarrow> bool" where
  "gc_ok v \<longleftrightarrow> length (gc_nfs_fh v) \<le> MDS_NFS_FH_MAX"

interpretation gc: strict_codec fdb_gc_encode fdb_gc_decode gc_fields gc_ok
  "\<lambda>v. gc_seq v = 0" FDB_GC_ENC_MAX
proof (unfold_locales, goal_cases)
  case (1 v cap)
  then show ?case
  proof (cases "gc_ok v")
    case True
    then show ?thesis using w_all_bytes [of cap "gc_fields v"]
      by (auto simp: fdb_gc_encode_def gc_fields_def w_defs gc_ok_def strnlen_eq strnlen_less strnlen_0 bounded_strlen_eq)
  qed (auto simp: fdb_gc_encode_def gc_ok_def strnlen_less strnlen_0 bounded_strlen_eq not_le)
next
  case (2 v)
  then show ?case by (auto simp: fdb_gc_decode_def gc_fields_def r_run_at codec_simps gc_ok_def unat_len sint_u64)
next
  case (3 v)
  then show ?case by (auto simp: gc_fields_def gc_ok_def)
next
  case (4 bs v)
  note d = 4 [unfolded fdb_gc_decode_def r_run_at]
  then have l: "\<not> (length bs < FDB_GC_ENC_FIXED \<or> length bs > FDB_GC_ENC_MAX)" by (auto split: if_splits)
  obtain a1 r1 where r1: "bs = a1 # r1" using l  by (cases bs) auto
  obtain a2 r2 where r2: "r1 = fdb_le64_put a2 @ r2" using split_u64 [of r1] l r1 by auto
  obtain a3 r3 where r3: "r2 = fdb_le32_put a3 @ r3" using split_u32 [of r2] l r1 r2 by auto
  obtain a4 r4 where r4: "r3 = fdb_le32_put a4 @ r4" using split_u32 [of r3] l r1 r2 r3 by auto
  obtain a5 r5 where r5: "r4 = fdb_le32_put a5 @ r5" using split_u32 [of r4] l r1 r2 r3 r4 by auto
  obtain a6 r6 where r6: "r5 = fdb_le32_put a6 @ r6" using split_u32 [of r5] l r1 r2 r3 r4 r5 by auto
  have q7: "length r6 = unat a6" using d l r1 r2 r3 r4 r5 r6
    by (auto simp: codec_simps run_r_gen run_r_bytes_gen r_str_body_def split: if_splits)
  obtain a7 r7 where r7: "r6 = a7 @ r7" "length a7 = unat a6" using split_bytes [of "unat a6" r6] q7 by auto
  have z: "r7 = []" using l q7 r1 r2 r3 r4 r5 r6 r7 by auto
  show ?case using d l q7 r1 r2 r3 r4 r5 r6 r7 z
    by (auto simp: codec_simps gc_fields_def gc_ok_def unat_len r_str_body_def byte_bool split: if_splits)
qed

end
