(* ===== verification/Fdb_Ext.thy ===== *)
theory Fdb_Ext
  imports Fdb_Rows
begin

text \<open>
  The extended authority tables of the FoundationDB backend (\<^verbatim>\<open>src/catalogue/fdb_codec.c\<close>, ext track): pending
  removes, the data-server registry and its provisioning secrets, quota rules and usage, cross-shard directory entries
  and link anchors.

  A string of an array of \<^verbatim>\<open>cap\<close> bytes is the list of its bytes up to the NUL, so a list of length \<^verbatim>\<open>cap\<close> or more is an
  array with no NUL, which \<^verbatim>\<open>strnlen\<close> measures as \<^verbatim>\<open>cap\<close>.
\<close>

abbreviation FDB_REMOVE_PENDING_ENC_FIXED :: nat where "FDB_REMOVE_PENDING_ENC_FIXED \<equiv> 57"
abbreviation FDB_REMOVE_PENDING_ENC_MAX :: nat where "FDB_REMOVE_PENDING_ENC_MAX \<equiv> FDB_REMOVE_PENDING_ENC_FIXED + MDS_MAX_NAME"
abbreviation MDS_DS_STR_MAX :: nat where "MDS_DS_STR_MAX \<equiv> 256"
abbreviation FDB_DS_INFO_ENC_FIXED :: nat where "FDB_DS_INFO_ENC_FIXED \<equiv> 51"
abbreviation FDB_DS_INFO_ENC_MAX :: nat where "FDB_DS_INFO_ENC_MAX \<equiv> FDB_DS_INFO_ENC_FIXED + 3 * (MDS_DS_STR_MAX - 1)"
abbreviation FDB_DS_SECRET_MAX :: nat where "FDB_DS_SECRET_MAX \<equiv> 64"
abbreviation FDB_DS_PROVISION_ENC_FIXED :: nat where "FDB_DS_PROVISION_ENC_FIXED \<equiv> 10"
abbreviation FDB_DS_PROVISION_ENC_MAX :: nat where "FDB_DS_PROVISION_ENC_MAX \<equiv> FDB_DS_PROVISION_ENC_FIXED + FDB_DS_SECRET_MAX"
abbreviation FDB_QUOTA_RULE_ENC_SIZE :: nat where "FDB_QUOTA_RULE_ENC_SIZE \<equiv> 37"
abbreviation FDB_QUOTA_USAGE_ENC_SIZE :: nat where "FDB_QUOTA_USAGE_ENC_SIZE \<equiv> 33"
abbreviation FDB_EXT_DIRENT_ENC_SIZE :: nat where "FDB_EXT_DIRENT_ENC_SIZE \<equiv> 22"
abbreviation FDB_LINK_ANCHOR_ENC_FIXED :: nat where "FDB_LINK_ANCHOR_ENC_FIXED \<equiv> 13"
abbreviation FDB_LINK_ANCHOR_ENC_MAX :: nat where "FDB_LINK_ANCHOR_ENC_MAX \<equiv> FDB_LINK_ANCHOR_ENC_FIXED + MDS_MAX_NAME"

section \<open>Pending removes\<close>

record mds_remove_pending_entry =
  rp_remove_seq :: u64
  rp_dir_fileid :: u64
  rp_child_fileid :: u64
  rp_child_generation :: u64
  rp_enqueued_ns :: u64
  rp_claim_boot :: u64
  rp_claim_expires_ns :: u64
  rp_claim_mds_id :: u32
  rp_retries :: u32
  rp_name :: bytes

definition fdb_remove_pending_encode :: "mds_remove_pending_entry \<Rightarrow> nat \<Rightarrow> bytes option" where
  "fdb_remove_pending_encode v cap =
     (if strnlen (rp_name v) (MDS_MAX_NAME + 1) = 0 \<or> strnlen (rp_name v) (MDS_MAX_NAME + 1) > MDS_MAX_NAME then None
      else w_all cap
        [w_u8 1, w_u64 (rp_dir_fileid v), w_u64 (rp_child_fileid v), w_u64 (rp_child_generation v),
         w_u64 (rp_enqueued_ns v), w_u64 (rp_claim_boot v), w_u64 (rp_claim_expires_ns v),
         w_u32 (rp_claim_mds_id v), w_u32 (rp_retries v),
         w_bytes (take (strnlen (rp_name v) (MDS_MAX_NAME + 1)) (rp_name v))])"

definition fdb_remove_pending_decode :: "bytes \<Rightarrow> mds_remove_pending_entry option" where
  "fdb_remove_pending_decode buf =
     (if length buf \<le> FDB_REMOVE_PENDING_ENC_FIXED \<or> length buf > FDB_REMOVE_PENDING_ENC_MAX then None
      else r_run (do {
        ver \<leftarrow> r_u8;
        if ver \<noteq> 1 then State_Monad.return None
        else do {
          x_dir_fileid \<leftarrow> r_u64; x_child_fileid \<leftarrow> r_u64; x_child_generation \<leftarrow> r_u64;
          x_enqueued_ns \<leftarrow> r_u64; x_claim_boot \<leftarrow> r_u64; x_claim_expires_ns \<leftarrow> r_u64;
          x_claim_mds_id \<leftarrow> r_u32; x_retries \<leftarrow> r_u32; x_name \<leftarrow> r_str_body (MDS_MAX_NAME + 1) (length buf - FDB_REMOVE_PENDING_ENC_FIXED);
          done \<leftarrow> r_done;
          State_Monad.return (if \<not> done \<or> 0 \<in> set x_name then None
            else Some \<lparr>rp_remove_seq = 0, rp_dir_fileid = x_dir_fileid, rp_child_fileid = x_child_fileid,
                         rp_child_generation = x_child_generation, rp_enqueued_ns = x_enqueued_ns,
                         rp_claim_boot = x_claim_boot, rp_claim_expires_ns = x_claim_expires_ns,
                         rp_claim_mds_id = x_claim_mds_id, rp_retries = x_retries, rp_name = x_name\<rparr>)
        }
      }) buf)"

definition remove_pending_fields :: "mds_remove_pending_entry \<Rightarrow> bytes list" where
  "remove_pending_fields v =
     [[1], fdb_le64_put (rp_dir_fileid v), fdb_le64_put (rp_child_fileid v),
      fdb_le64_put (rp_child_generation v), fdb_le64_put (rp_enqueued_ns v), fdb_le64_put (rp_claim_boot v),
      fdb_le64_put (rp_claim_expires_ns v), fdb_le32_put (rp_claim_mds_id v), fdb_le32_put (rp_retries v),
      rp_name v]"

definition remove_pending_ok :: "mds_remove_pending_entry \<Rightarrow> bool" where
  "remove_pending_ok v \<longleftrightarrow> rp_name v \<noteq> [] \<and> length (rp_name v) \<le> MDS_MAX_NAME"

interpretation remove_pending: strict_codec fdb_remove_pending_encode fdb_remove_pending_decode remove_pending_fields remove_pending_ok
  "\<lambda>v. rp_remove_seq v = 0 \<and> 0 \<notin> set (rp_name v)" FDB_REMOVE_PENDING_ENC_MAX
proof (unfold_locales, goal_cases)
  case (1 v cap)
  then show ?case
  proof (cases "remove_pending_ok v")
    case True
    then show ?thesis using w_all_bytes [of cap "remove_pending_fields v"]
      by (auto simp: fdb_remove_pending_encode_def remove_pending_fields_def w_defs remove_pending_ok_def strnlen_eq strnlen_less strnlen_0 bounded_strlen_eq)
  qed (auto simp: fdb_remove_pending_encode_def remove_pending_ok_def strnlen_less strnlen_0 bounded_strlen_eq not_le)
next
  case (2 v)
  then show ?case by (auto simp: fdb_remove_pending_decode_def remove_pending_fields_def r_run_at codec_simps remove_pending_ok_def unat_len sint_u64)
next
  case (3 v)
  then show ?case by (auto simp: remove_pending_fields_def remove_pending_ok_def)
next
  case (4 bs v)
  note d = 4 [unfolded fdb_remove_pending_decode_def r_run_at]
  then have l: "\<not> (length bs \<le> FDB_REMOVE_PENDING_ENC_FIXED \<or> length bs > FDB_REMOVE_PENDING_ENC_MAX)" by (auto split: if_splits)
  obtain a1 r1 where r1: "bs = a1 # r1" using l  by (cases bs) auto
  obtain a2 r2 where r2: "r1 = fdb_le64_put a2 @ r2" using split_u64 [of r1] l r1 by auto
  obtain a3 r3 where r3: "r2 = fdb_le64_put a3 @ r3" using split_u64 [of r2] l r1 r2 by auto
  obtain a4 r4 where r4: "r3 = fdb_le64_put a4 @ r4" using split_u64 [of r3] l r1 r2 r3 by auto
  obtain a5 r5 where r5: "r4 = fdb_le64_put a5 @ r5" using split_u64 [of r4] l r1 r2 r3 r4 by auto
  obtain a6 r6 where r6: "r5 = fdb_le64_put a6 @ r6" using split_u64 [of r5] l r1 r2 r3 r4 r5 by auto
  obtain a7 r7 where r7: "r6 = fdb_le64_put a7 @ r7" using split_u64 [of r6] l r1 r2 r3 r4 r5 r6 by auto
  obtain a8 r8 where r8: "r7 = fdb_le32_put a8 @ r8" using split_u32 [of r7] l r1 r2 r3 r4 r5 r6 r7 by auto
  obtain a9 r9 where r9: "r8 = fdb_le32_put a9 @ r9" using split_u32 [of r8] l r1 r2 r3 r4 r5 r6 r7 r8 by auto
  show ?case using d l r1 r2 r3 r4 r5 r6 r7 r8 r9
    by (auto simp: codec_simps remove_pending_fields_def remove_pending_ok_def unat_len r_str_body_def byte_bool split: if_splits)
qed

section \<open>Data servers\<close>

text \<open>A decoded string ends at its first NUL, and the decoder does not look for one inside the stored bytes.\<close>

definition cstr :: "bytes \<Rightarrow> bytes" where
  "cstr b = takeWhile (\<lambda>x. x \<noteq> 0) b"

lemma cstr_id: "0 \<notin> set b \<Longrightarrow> cstr b = b"
  unfolding cstr_def takeWhile_eq_all_conv by auto

record mds_ds_info =
  di_ds_id :: u32
  di_state :: u32
  di_tier :: u32
  di_total_bytes :: u64
  di_used_bytes :: u64
  di_port :: u16
  di_addr :: bytes
  di_mode :: u8
  di_transport :: u8
  di_host :: bytes
  di_export_path :: bytes
  di_tcp_port :: u16
  di_rdma_port :: u16
  di_capabilities :: u32
  di_weight :: u32

definition fdb_ds_info_encode :: "mds_ds_info \<Rightarrow> nat \<Rightarrow> bytes option" where
  "fdb_ds_info_encode v cap =
     (case (bounded_strlen (di_addr v) MDS_DS_STR_MAX, bounded_strlen (di_host v) MDS_DS_STR_MAX,
            bounded_strlen (di_export_path v) MDS_DS_STR_MAX) of
        (Some addr_n, Some host_n, Some export_n) \<Rightarrow> w_all cap
        [w_u8 1, w_u32 (di_ds_id v), w_u32 (di_state v), w_u32 (di_tier v), w_u64 (di_total_bytes v),
         w_u64 (di_used_bytes v), w_u16 (di_port v), w_u16 (di_tcp_port v), w_u16 (di_rdma_port v),
         w_u8 (di_mode v), w_u8 (di_transport v), w_u32 (di_capabilities v), w_u32 (di_weight v),
         w_u16 (of_nat addr_n),
         w_u16 (of_nat host_n),
         w_u16 (of_nat export_n),
         w_bytes (take addr_n (di_addr v)),
         w_bytes (take host_n (di_host v)),
         w_bytes (take export_n (di_export_path v))]
      | _ \<Rightarrow> None)"

definition fdb_ds_info_decode :: "bytes \<Rightarrow> mds_ds_info option" where
  "fdb_ds_info_decode buf =
     (if length buf < FDB_DS_INFO_ENC_FIXED \<or> length buf > FDB_DS_INFO_ENC_MAX then None
      else r_run (do {
        ver \<leftarrow> r_u8;
        if ver \<noteq> 1 then State_Monad.return None
        else do {
          x_ds_id \<leftarrow> r_u32; x_state \<leftarrow> r_u32; x_tier \<leftarrow> r_u32;
          x_total_bytes \<leftarrow> r_u64; x_used_bytes \<leftarrow> r_u64; x_port \<leftarrow> r_u16;
          x_tcp_port \<leftarrow> r_u16; x_rdma_port \<leftarrow> r_u16; x_mode \<leftarrow> r_u8;
          x_transport \<leftarrow> r_u8; x_capabilities \<leftarrow> r_u32; x_weight \<leftarrow> r_u32;
          n_addr \<leftarrow> r_u16; n_host \<leftarrow> r_u16; n_export_path \<leftarrow> r_u16;
          bad \<leftarrow> r_failed;
          if bad then State_Monad.return None
          else do {
            x_addr \<leftarrow> r_str_body MDS_DS_STR_MAX (unat n_addr); x_host \<leftarrow> r_str_body MDS_DS_STR_MAX (unat n_host);
            x_export_path \<leftarrow> r_str_body MDS_DS_STR_MAX (unat n_export_path);
            done \<leftarrow> r_done;
            State_Monad.return (if \<not> done then None
              else Some \<lparr>di_ds_id = x_ds_id, di_state = x_state, di_tier = x_tier,
                           di_total_bytes = x_total_bytes, di_used_bytes = x_used_bytes, di_port = x_port,
                           di_addr = cstr x_addr, di_mode = x_mode, di_transport = x_transport,
                           di_host = cstr x_host, di_export_path = cstr x_export_path,
                           di_tcp_port = x_tcp_port, di_rdma_port = x_rdma_port,
                           di_capabilities = x_capabilities, di_weight = x_weight\<rparr>)
          }
        }
      }) buf)"

definition ds_info_fields :: "mds_ds_info \<Rightarrow> bytes list" where
  "ds_info_fields v =
     [[1], fdb_le32_put (di_ds_id v), fdb_le32_put (di_state v), fdb_le32_put (di_tier v),
      fdb_le64_put (di_total_bytes v), fdb_le64_put (di_used_bytes v), le16_put (di_port v),
      le16_put (di_tcp_port v), le16_put (di_rdma_port v), [di_mode v], [di_transport v],
      fdb_le32_put (di_capabilities v), fdb_le32_put (di_weight v), le16_put (of_nat (length (di_addr v))),
      le16_put (of_nat (length (di_host v))), le16_put (of_nat (length (di_export_path v))), di_addr v,
      di_host v, di_export_path v]"

definition ds_info_ok :: "mds_ds_info \<Rightarrow> bool" where
  "ds_info_ok v \<longleftrightarrow> length (di_addr v) < MDS_DS_STR_MAX \<and> length (di_host v) < MDS_DS_STR_MAX \<and> length (di_export_path v) < MDS_DS_STR_MAX"

interpretation ds_info: value_codec fdb_ds_info_encode fdb_ds_info_decode ds_info_fields ds_info_ok
  "\<lambda>v. 0 \<notin> set (di_addr v) \<and> 0 \<notin> set (di_host v) \<and> 0 \<notin> set (di_export_path v)" FDB_DS_INFO_ENC_MAX
proof (unfold_locales, goal_cases)
  case (1 v cap)
  then show ?case
  proof (cases "ds_info_ok v")
    case True
    then show ?thesis using w_all_bytes [of cap "ds_info_fields v"]
      by (auto simp: fdb_ds_info_encode_def ds_info_fields_def w_defs ds_info_ok_def strnlen_eq strnlen_less strnlen_0 bounded_strlen_eq)
  qed (auto simp: fdb_ds_info_encode_def ds_info_ok_def strnlen_less strnlen_0 bounded_strlen_eq not_le)
next
  case (2 v)
  then show ?case by (auto simp: fdb_ds_info_decode_def ds_info_fields_def r_run_at codec_simps ds_info_ok_def unat_len cstr_id)
next
  case (3 v)
  then show ?case by (auto simp: ds_info_fields_def ds_info_ok_def)
qed

record fdb_ds_provision_val =
  dp_epoch :: u64
  dp_secret :: bytes

definition fdb_ds_provision_encode :: "fdb_ds_provision_val \<Rightarrow> nat \<Rightarrow> bytes option" where
  "fdb_ds_provision_encode v cap =
     (if length (dp_secret v) > FDB_DS_SECRET_MAX then None
      else w_all cap
        [w_u8 1, w_u64 (dp_epoch v), w_u8 (of_nat (length (dp_secret v))), w_bytes (dp_secret v)])"

definition fdb_ds_provision_decode :: "bytes \<Rightarrow> fdb_ds_provision_val option" where
  "fdb_ds_provision_decode buf =
     (if length buf < FDB_DS_PROVISION_ENC_FIXED \<or> length buf > FDB_DS_PROVISION_ENC_MAX then None
      else r_run (do {
        ver \<leftarrow> r_u8;
        if ver \<noteq> 1 then State_Monad.return None
        else do {
          x_epoch \<leftarrow> r_u64; n_secret \<leftarrow> r_u8;
          bad \<leftarrow> r_failed;
          if bad \<or> unat n_secret > FDB_DS_SECRET_MAX then State_Monad.return None
          else do {
            x_secret \<leftarrow> r_bytes (unat n_secret);
            done \<leftarrow> r_done;
            State_Monad.return (if \<not> done then None
              else Some \<lparr>dp_epoch = x_epoch, dp_secret = x_secret\<rparr>)
          }
        }
      }) buf)"

definition ds_provision_fields :: "fdb_ds_provision_val \<Rightarrow> bytes list" where
  "ds_provision_fields v =
     [[1], fdb_le64_put (dp_epoch v), [of_nat (length (dp_secret v))], dp_secret v]"

definition ds_provision_ok :: "fdb_ds_provision_val \<Rightarrow> bool" where
  "ds_provision_ok v \<longleftrightarrow> length (dp_secret v) \<le> FDB_DS_SECRET_MAX"

interpretation ds_provision: strict_codec fdb_ds_provision_encode fdb_ds_provision_decode ds_provision_fields ds_provision_ok
  "\<lambda>_. True" FDB_DS_PROVISION_ENC_MAX
proof (unfold_locales, goal_cases)
  case (1 v cap)
  then show ?case
  proof (cases "ds_provision_ok v")
    case True
    then show ?thesis using w_all_bytes [of cap "ds_provision_fields v"]
      by (auto simp: fdb_ds_provision_encode_def ds_provision_fields_def w_defs ds_provision_ok_def strnlen_eq strnlen_less strnlen_0 bounded_strlen_eq)
  qed (auto simp: fdb_ds_provision_encode_def ds_provision_ok_def strnlen_less strnlen_0 bounded_strlen_eq not_le)
next
  case (2 v)
  then show ?case by (auto simp: fdb_ds_provision_decode_def ds_provision_fields_def r_run_at codec_simps ds_provision_ok_def unat_len sint_u64)
next
  case (3 v)
  then show ?case by (auto simp: ds_provision_fields_def ds_provision_ok_def)
next
  case (4 bs v)
  note d = 4 [unfolded fdb_ds_provision_decode_def r_run_at]
  then have l: "\<not> (length bs < FDB_DS_PROVISION_ENC_FIXED \<or> length bs > FDB_DS_PROVISION_ENC_MAX)" by (auto split: if_splits)
  obtain a1 r1 where r1: "bs = a1 # r1" using l  by (cases bs) auto
  obtain a2 r2 where r2: "r1 = fdb_le64_put a2 @ r2" using split_u64 [of r1] l r1 by auto
  obtain a3 r3 where r3: "r2 = a3 # r3" using l r1 r2 by (cases r2) auto
  have q4: "length r3 = unat a3" using d l r1 r2 r3
    by (auto simp: codec_simps run_r_gen run_r_bytes_gen r_str_body_def split: if_splits)
  obtain a4 r4 where r4: "r3 = a4 @ r4" "length a4 = unat a3" using split_bytes [of "unat a3" r3] q4 by auto
  have z: "r4 = []" using l q4 r1 r2 r3 r4 by auto
  show ?case using d l q4 r1 r2 r3 r4 z
    by (auto simp: codec_simps ds_provision_fields_def ds_provision_ok_def unat_len r_str_body_def byte_bool split: if_splits)
qed

section \<open>Quotas\<close>

record mds_quota_rule =
  qr_hard_bytes :: u64
  qr_soft_bytes :: u64
  qr_hard_inodes :: u64
  qr_soft_inodes :: u64
  qr_grace_sec :: u32

definition fdb_quota_rule_encode :: "mds_quota_rule \<Rightarrow> nat \<Rightarrow> bytes option" where
  "fdb_quota_rule_encode v cap =
     w_all cap
       [w_u8 1, w_u64 (qr_hard_bytes v), w_u64 (qr_soft_bytes v), w_u64 (qr_hard_inodes v),
        w_u64 (qr_soft_inodes v), w_u32 (qr_grace_sec v)]"

definition fdb_quota_rule_decode :: "bytes \<Rightarrow> mds_quota_rule option" where
  "fdb_quota_rule_decode buf =
     (if length buf \<noteq> FDB_QUOTA_RULE_ENC_SIZE then None
      else r_run (do {
        ver \<leftarrow> r_u8;
        if ver \<noteq> 1 then State_Monad.return None
        else do {
          x_hard_bytes \<leftarrow> r_u64; x_soft_bytes \<leftarrow> r_u64; x_hard_inodes \<leftarrow> r_u64;
          x_soft_inodes \<leftarrow> r_u64; x_grace_sec \<leftarrow> r_u32;
          done \<leftarrow> r_done;
          State_Monad.return (if \<not> done then None
            else Some \<lparr>qr_hard_bytes = x_hard_bytes, qr_soft_bytes = x_soft_bytes,
                         qr_hard_inodes = x_hard_inodes, qr_soft_inodes = x_soft_inodes,
                         qr_grace_sec = x_grace_sec\<rparr>)
        }
      }) buf)"

definition quota_rule_fields :: "mds_quota_rule \<Rightarrow> bytes list" where
  "quota_rule_fields v =
     [[1], fdb_le64_put (qr_hard_bytes v), fdb_le64_put (qr_soft_bytes v), fdb_le64_put (qr_hard_inodes v),
      fdb_le64_put (qr_soft_inodes v), fdb_le32_put (qr_grace_sec v)]"

interpretation quota_rule: strict_codec fdb_quota_rule_encode fdb_quota_rule_decode quota_rule_fields "\<lambda>_. True"
  "\<lambda>_. True" FDB_QUOTA_RULE_ENC_SIZE
proof (unfold_locales, goal_cases)
  case (1 v cap)
  show ?case using w_all_bytes [of cap "quota_rule_fields v"] by (simp add: fdb_quota_rule_encode_def quota_rule_fields_def w_defs)
next
  case (2 v)
  then show ?case by (auto simp: fdb_quota_rule_decode_def quota_rule_fields_def r_run_at codec_simps  unat_len sint_u64)
next
  case (3 v)
  then show ?case by (auto simp: quota_rule_fields_def )
next
  case (4 bs v)
  note d = 4 [unfolded fdb_quota_rule_decode_def r_run_at]
  then have l: "\<not> (length bs \<noteq> FDB_QUOTA_RULE_ENC_SIZE)" by (auto split: if_splits)
  obtain a1 r1 where r1: "bs = a1 # r1" using l  by (cases bs) auto
  obtain a2 r2 where r2: "r1 = fdb_le64_put a2 @ r2" using split_u64 [of r1] l r1 by auto
  obtain a3 r3 where r3: "r2 = fdb_le64_put a3 @ r3" using split_u64 [of r2] l r1 r2 by auto
  obtain a4 r4 where r4: "r3 = fdb_le64_put a4 @ r4" using split_u64 [of r3] l r1 r2 r3 by auto
  obtain a5 r5 where r5: "r4 = fdb_le64_put a5 @ r5" using split_u64 [of r4] l r1 r2 r3 r4 by auto
  obtain a6 r6 where r6: "r5 = fdb_le32_put a6 @ r6" using split_u32 [of r5] l r1 r2 r3 r4 r5 by auto
  have z: "r6 = []" using l r1 r2 r3 r4 r5 r6 by auto
  show ?case using d l r1 r2 r3 r4 r5 r6 z
    by (auto simp: codec_simps quota_rule_fields_def  unat_len r_str_body_def byte_bool split: if_splits)
qed

record mds_quota_usage =
  qu_used_bytes :: u64
  qu_used_inodes :: u64
  qu_grace_start_bytes :: int
  qu_grace_start_inodes :: int

definition fdb_quota_usage_encode :: "mds_quota_usage \<Rightarrow> nat \<Rightarrow> bytes option" where
  "fdb_quota_usage_encode v cap =
     w_all cap
       [w_u8 1, w_u64 (qu_used_bytes v), w_u64 (qu_used_inodes v),
        w_u64 (word_of_int (qu_grace_start_bytes v)), w_u64 (word_of_int (qu_grace_start_inodes v))]"

definition fdb_quota_usage_decode :: "bytes \<Rightarrow> mds_quota_usage option" where
  "fdb_quota_usage_decode buf =
     (if length buf \<noteq> FDB_QUOTA_USAGE_ENC_SIZE then None
      else r_run (do {
        ver \<leftarrow> r_u8;
        if ver \<noteq> 1 then State_Monad.return None
        else do {
          x_used_bytes \<leftarrow> r_u64; x_used_inodes \<leftarrow> r_u64; x_grace_start_bytes \<leftarrow> r_u64;
          x_grace_start_inodes \<leftarrow> r_u64;
          done \<leftarrow> r_done;
          State_Monad.return (if \<not> done then None
            else Some \<lparr>qu_used_bytes = x_used_bytes, qu_used_inodes = x_used_inodes,
                         qu_grace_start_bytes = sint x_grace_start_bytes,
                         qu_grace_start_inodes = sint x_grace_start_inodes\<rparr>)
        }
      }) buf)"

definition quota_usage_fields :: "mds_quota_usage \<Rightarrow> bytes list" where
  "quota_usage_fields v =
     [[1], fdb_le64_put (qu_used_bytes v), fdb_le64_put (qu_used_inodes v),
      fdb_le64_put (word_of_int (qu_grace_start_bytes v)),
      fdb_le64_put (word_of_int (qu_grace_start_inodes v))]"

interpretation quota_usage: strict_codec fdb_quota_usage_encode fdb_quota_usage_decode quota_usage_fields "\<lambda>_. True"
  "\<lambda>v. INT64_MIN \<le> qu_grace_start_bytes v \<and> qu_grace_start_bytes v \<le> INT64_MAX \<and>
    INT64_MIN \<le> qu_grace_start_inodes v \<and> qu_grace_start_inodes v \<le> INT64_MAX" FDB_QUOTA_USAGE_ENC_SIZE
proof (unfold_locales, goal_cases)
  case (1 v cap)
  show ?case using w_all_bytes [of cap "quota_usage_fields v"] by (simp add: fdb_quota_usage_encode_def quota_usage_fields_def w_defs)
next
  case (2 v)
  then show ?case by (auto simp: fdb_quota_usage_decode_def quota_usage_fields_def r_run_at codec_simps  unat_len sint_u64)
next
  case (3 v)
  then show ?case by (auto simp: quota_usage_fields_def )
next
  case (4 bs v)
  note d = 4 [unfolded fdb_quota_usage_decode_def r_run_at]
  then have l: "\<not> (length bs \<noteq> FDB_QUOTA_USAGE_ENC_SIZE)" by (auto split: if_splits)
  obtain a1 r1 where r1: "bs = a1 # r1" using l  by (cases bs) auto
  obtain a2 r2 where r2: "r1 = fdb_le64_put a2 @ r2" using split_u64 [of r1] l r1 by auto
  obtain a3 r3 where r3: "r2 = fdb_le64_put a3 @ r3" using split_u64 [of r2] l r1 r2 by auto
  obtain a4 r4 where r4: "r3 = fdb_le64_put a4 @ r4" using split_u64 [of r3] l r1 r2 r3 by auto
  obtain a5 r5 where r5: "r4 = fdb_le64_put a5 @ r5" using split_u64 [of r4] l r1 r2 r3 r4 by auto
  have z: "r5 = []" using l r1 r2 r3 r4 r5 by auto
  show ?case using d l r1 r2 r3 r4 r5 z
    by (auto simp: codec_simps quota_usage_fields_def  unat_len r_str_body_def byte_bool split: if_splits)
qed

section \<open>Cross-shard entries\<close>

record fdb_ext_dirent_val =
  xd_target_fileid :: u64
  xd_anchor_id :: u64
  xd_owner_mds_id :: u32
  xd_target_type :: u8

definition fdb_ext_dirent_encode :: "fdb_ext_dirent_val \<Rightarrow> nat \<Rightarrow> bytes option" where
  "fdb_ext_dirent_encode v cap =
     w_all cap
       [w_u8 1, w_u32 (xd_owner_mds_id v), w_u64 (xd_target_fileid v), w_u8 (xd_target_type v),
        w_u64 (xd_anchor_id v)]"

definition fdb_ext_dirent_decode :: "bytes \<Rightarrow> fdb_ext_dirent_val option" where
  "fdb_ext_dirent_decode buf =
     (if length buf \<noteq> FDB_EXT_DIRENT_ENC_SIZE then None
      else r_run (do {
        ver \<leftarrow> r_u8;
        if ver \<noteq> 1 then State_Monad.return None
        else do {
          x_owner_mds_id \<leftarrow> r_u32; x_target_fileid \<leftarrow> r_u64; x_target_type \<leftarrow> r_u8;
          x_anchor_id \<leftarrow> r_u64;
          done \<leftarrow> r_done;
          State_Monad.return (if \<not> done then None
            else Some \<lparr>xd_target_fileid = x_target_fileid, xd_anchor_id = x_anchor_id,
                         xd_owner_mds_id = x_owner_mds_id, xd_target_type = x_target_type\<rparr>)
        }
      }) buf)"

definition ext_dirent_fields :: "fdb_ext_dirent_val \<Rightarrow> bytes list" where
  "ext_dirent_fields v =
     [[1], fdb_le32_put (xd_owner_mds_id v), fdb_le64_put (xd_target_fileid v), [xd_target_type v],
      fdb_le64_put (xd_anchor_id v)]"

interpretation ext_dirent: strict_codec fdb_ext_dirent_encode fdb_ext_dirent_decode ext_dirent_fields "\<lambda>_. True"
  "\<lambda>_. True" FDB_EXT_DIRENT_ENC_SIZE
proof (unfold_locales, goal_cases)
  case (1 v cap)
  show ?case using w_all_bytes [of cap "ext_dirent_fields v"] by (simp add: fdb_ext_dirent_encode_def ext_dirent_fields_def w_defs)
next
  case (2 v)
  then show ?case by (auto simp: fdb_ext_dirent_decode_def ext_dirent_fields_def r_run_at codec_simps  unat_len sint_u64)
next
  case (3 v)
  then show ?case by (auto simp: ext_dirent_fields_def )
next
  case (4 bs v)
  note d = 4 [unfolded fdb_ext_dirent_decode_def r_run_at]
  then have l: "\<not> (length bs \<noteq> FDB_EXT_DIRENT_ENC_SIZE)" by (auto split: if_splits)
  obtain a1 r1 where r1: "bs = a1 # r1" using l  by (cases bs) auto
  obtain a2 r2 where r2: "r1 = fdb_le32_put a2 @ r2" using split_u32 [of r1] l r1 by auto
  obtain a3 r3 where r3: "r2 = fdb_le64_put a3 @ r3" using split_u64 [of r2] l r1 r2 by auto
  obtain a4 r4 where r4: "r3 = a4 # r4" using l r1 r2 r3 by (cases r3) auto
  obtain a5 r5 where r5: "r4 = fdb_le64_put a5 @ r5" using split_u64 [of r4] l r1 r2 r3 r4 by auto
  have z: "r5 = []" using l r1 r2 r3 r4 r5 by auto
  show ?case using d l r1 r2 r3 r4 r5 z
    by (auto simp: codec_simps ext_dirent_fields_def  unat_len r_str_body_def byte_bool split: if_splits)
qed

record fdb_link_anchor_val =
  la_parent_fileid :: u64
  la_remote_mds_id :: u32
  la_name :: bytes

definition fdb_link_anchor_encode :: "fdb_link_anchor_val \<Rightarrow> nat \<Rightarrow> bytes option" where
  "fdb_link_anchor_encode v cap =
     (if strnlen (la_name v) (MDS_MAX_NAME + 1) > MDS_MAX_NAME then None
      else w_all cap
        [w_u8 1, w_u32 (la_remote_mds_id v), w_u64 (la_parent_fileid v),
         w_bytes (take (strnlen (la_name v) (MDS_MAX_NAME + 1)) (la_name v))])"

definition fdb_link_anchor_decode :: "bytes \<Rightarrow> fdb_link_anchor_val option" where
  "fdb_link_anchor_decode buf =
     (if length buf < FDB_LINK_ANCHOR_ENC_FIXED \<or> length buf > FDB_LINK_ANCHOR_ENC_MAX then None
      else r_run (do {
        ver \<leftarrow> r_u8;
        if ver \<noteq> 1 then State_Monad.return None
        else do {
          x_remote_mds_id \<leftarrow> r_u32; x_parent_fileid \<leftarrow> r_u64; x_name \<leftarrow> r_str_body (MDS_MAX_NAME + 1) (length buf - FDB_LINK_ANCHOR_ENC_FIXED);
          done \<leftarrow> r_done;
          State_Monad.return (if \<not> done \<or> length buf - FDB_LINK_ANCHOR_ENC_FIXED > 0 \<and> 0 \<in> set x_name then None
            else Some \<lparr>la_parent_fileid = x_parent_fileid, la_remote_mds_id = x_remote_mds_id,
                         la_name = x_name\<rparr>)
        }
      }) buf)"

definition link_anchor_fields :: "fdb_link_anchor_val \<Rightarrow> bytes list" where
  "link_anchor_fields v =
     [[1], fdb_le32_put (la_remote_mds_id v), fdb_le64_put (la_parent_fileid v), la_name v]"

definition link_anchor_ok :: "fdb_link_anchor_val \<Rightarrow> bool" where
  "link_anchor_ok v \<longleftrightarrow> length (la_name v) \<le> MDS_MAX_NAME"

interpretation link_anchor: strict_codec fdb_link_anchor_encode fdb_link_anchor_decode link_anchor_fields link_anchor_ok
  "\<lambda>v. 0 \<notin> set (la_name v)" FDB_LINK_ANCHOR_ENC_MAX
proof (unfold_locales, goal_cases)
  case (1 v cap)
  then show ?case
  proof (cases "link_anchor_ok v")
    case True
    then show ?thesis using w_all_bytes [of cap "link_anchor_fields v"]
      by (auto simp: fdb_link_anchor_encode_def link_anchor_fields_def w_defs link_anchor_ok_def strnlen_eq strnlen_less strnlen_0 bounded_strlen_eq)
  qed (auto simp: fdb_link_anchor_encode_def link_anchor_ok_def strnlen_less strnlen_0 bounded_strlen_eq not_le)
next
  case (2 v)
  then show ?case by (auto simp: fdb_link_anchor_decode_def link_anchor_fields_def r_run_at codec_simps link_anchor_ok_def unat_len sint_u64)
next
  case (3 v)
  then show ?case by (auto simp: link_anchor_fields_def link_anchor_ok_def)
next
  case (4 bs v)
  note d = 4 [unfolded fdb_link_anchor_decode_def r_run_at]
  then have l: "\<not> (length bs < FDB_LINK_ANCHOR_ENC_FIXED \<or> length bs > FDB_LINK_ANCHOR_ENC_MAX)" by (auto split: if_splits)
  obtain a1 r1 where r1: "bs = a1 # r1" using l  by (cases bs) auto
  obtain a2 r2 where r2: "r1 = fdb_le32_put a2 @ r2" using split_u32 [of r1] l r1 by auto
  obtain a3 r3 where r3: "r2 = fdb_le64_put a3 @ r3" using split_u64 [of r2] l r1 r2 by auto
  show ?case using d l r1 r2 r3
    by (auto simp: codec_simps link_anchor_fields_def link_anchor_ok_def unat_len r_str_body_def byte_bool split: if_splits)
qed

end
