(* ===== verification/Fdb_Coord.thy ===== *)
theory Fdb_Coord
  imports Fdb_Rows Open_State Lock_State
begin

text \<open>
  The coordination rows of the FoundationDB backend (\<^verbatim>\<open>src/catalogue/fdb_codec.c\<close>, coord track, shared protocol
  state): opens, byte-range locks, delegations, clients, sessions and client recovery. The open and lock rows are the
  very rows that the open-state table and the lock manager hand to the catalogue. Key components are not part of a
  value: a decoder takes them as arguments.
\<close>

abbreviation FDB_OPEN_ENC_FIXED :: nat where "FDB_OPEN_ENC_FIXED \<equiv> 45"
abbreviation FDB_OPEN_ENC_MAX :: nat where "FDB_OPEN_ENC_MAX \<equiv> FDB_OPEN_ENC_FIXED + 128"
abbreviation FDB_LOCK_ENC_FIXED :: nat where "FDB_LOCK_ENC_FIXED \<equiv> 73"
abbreviation FDB_LOCK_ENC_MAX :: nat where "FDB_LOCK_ENC_MAX \<equiv> FDB_LOCK_ENC_FIXED + 128"
abbreviation FDB_DELEG_ENC_SIZE :: nat where "FDB_DELEG_ENC_SIZE \<equiv> 46"
abbreviation FDB_CLIENT_ENC_FIXED :: nat where "FDB_CLIENT_ENC_FIXED \<equiv> 34"
abbreviation FDB_CLIENT_ENC_MAX :: nat where "FDB_CLIENT_ENC_MAX \<equiv> FDB_CLIENT_ENC_FIXED + 1024"
abbreviation FDB_SESSION_ENC_SIZE :: nat where "FDB_SESSION_ENC_SIZE \<equiv> 41"
abbreviation FDB_RECOVERY_ENC_FIXED :: nat where "FDB_RECOVERY_ENC_FIXED \<equiv> 25"
abbreviation FDB_RECOVERY_CO_MAX :: nat where "FDB_RECOVERY_CO_MAX \<equiv> 1024"
abbreviation FDB_RECOVERY_ENC_MAX :: nat where "FDB_RECOVERY_ENC_MAX \<equiv> FDB_RECOVERY_ENC_FIXED + FDB_RECOVERY_CO_MAX"

section \<open>Opens and locks\<close>

definition fdb_open_encode :: "open_row \<Rightarrow> nat \<Rightarrow> bytes option" where
  "fdb_open_encode v cap =
     (if length (orow_owner v) > 128 then None
      else w_all cap
        [w_u8 1, w_u32 (orow_seqid v), w_u64 (orow_clientid v), w_u64 (orow_fileid v),
         w_u32 (orow_access v), w_u32 (orow_deny v), w_u32 (of_nat (length (orow_owner v))),
         w_bytes (orow_owner v), w_u32 (orow_mds_id v), w_u64 (orow_boot_epoch v)])"

definition fdb_open_decode :: "bytes \<Rightarrow> bytes \<Rightarrow> open_row option" where
  "fdb_open_decode k_other buf =
     (if length buf < FDB_OPEN_ENC_FIXED \<or> length buf > FDB_OPEN_ENC_MAX then None
      else r_run (do {
        ver \<leftarrow> r_u8;
        if ver \<noteq> 1 then State_Monad.return None
        else do {
          x_seqid \<leftarrow> r_u32; x_clientid \<leftarrow> r_u64; x_fileid \<leftarrow> r_u64;
          x_access \<leftarrow> r_u32; x_deny \<leftarrow> r_u32; n_owner \<leftarrow> r_u32;
          bad \<leftarrow> r_failed;
          if bad \<or> unat n_owner > 128 then State_Monad.return None
          else do {
            x_owner \<leftarrow> r_bytes (unat n_owner); x_mds_id \<leftarrow> r_u32; x_boot_epoch \<leftarrow> r_u64;
            done \<leftarrow> r_done;
            State_Monad.return (if \<not> done then None
              else Some \<lparr>orow_other = k_other, orow_seqid = x_seqid, orow_clientid = x_clientid,
                           orow_fileid = x_fileid, orow_access = x_access, orow_deny = x_deny,
                           orow_owner = x_owner, orow_mds_id = x_mds_id, orow_boot_epoch = x_boot_epoch\<rparr>)
          }
        }
      }) buf)"

definition open_value_fields :: "open_row \<Rightarrow> bytes list" where
  "open_value_fields v =
     [[1], fdb_le32_put (orow_seqid v), fdb_le64_put (orow_clientid v), fdb_le64_put (orow_fileid v),
      fdb_le32_put (orow_access v), fdb_le32_put (orow_deny v),
      fdb_le32_put (of_nat (length (orow_owner v))), orow_owner v, fdb_le32_put (orow_mds_id v),
      fdb_le64_put (orow_boot_epoch v)]"

definition open_value_ok :: "open_row \<Rightarrow> bool" where
  "open_value_ok v \<longleftrightarrow> length (orow_owner v) \<le> 128"

interpretation open_value: strict_codec fdb_open_encode "fdb_open_decode k_other" open_value_fields open_value_ok
  "\<lambda>v. orow_other v = k_other" FDB_OPEN_ENC_MAX
  for k_other :: bytes
proof (unfold_locales, goal_cases)
  case (1 v cap)
  then show ?case
  proof (cases "open_value_ok v")
    case True
    then show ?thesis using w_all_bytes [of cap "open_value_fields v"]
      by (auto simp: fdb_open_encode_def open_value_fields_def w_defs open_value_ok_def strnlen_eq strnlen_less strnlen_0 bounded_strlen_eq)
  qed (auto simp: fdb_open_encode_def open_value_ok_def strnlen_less strnlen_0 bounded_strlen_eq not_le)
next
  case (2 v)
  then show ?case by (auto simp: fdb_open_decode_def open_value_fields_def r_run_at codec_simps open_value_ok_def unat_len sint_u64)
next
  case (3 v)
  then show ?case by (auto simp: open_value_fields_def open_value_ok_def)
next
  case (4 bs v)
  note d = 4 [unfolded fdb_open_decode_def r_run_at]
  then have l: "\<not> (length bs < FDB_OPEN_ENC_FIXED \<or> length bs > FDB_OPEN_ENC_MAX)" by (auto split: if_splits)
  obtain a1 r1 where r1: "bs = a1 # r1" using l  by (cases bs) auto
  obtain a2 r2 where r2: "r1 = fdb_le32_put a2 @ r2" using split_u32 [of r1] l r1 by auto
  obtain a3 r3 where r3: "r2 = fdb_le64_put a3 @ r3" using split_u64 [of r2] l r1 r2 by auto
  obtain a4 r4 where r4: "r3 = fdb_le64_put a4 @ r4" using split_u64 [of r3] l r1 r2 r3 by auto
  obtain a5 r5 where r5: "r4 = fdb_le32_put a5 @ r5" using split_u32 [of r4] l r1 r2 r3 r4 by auto
  obtain a6 r6 where r6: "r5 = fdb_le32_put a6 @ r6" using split_u32 [of r5] l r1 r2 r3 r4 r5 by auto
  obtain a7 r7 where r7: "r6 = fdb_le32_put a7 @ r7" using split_u32 [of r6] l r1 r2 r3 r4 r5 r6 by auto
  have q8: "length r7 = unat a7 + 12" using d l r1 r2 r3 r4 r5 r6 r7
    by (auto simp: codec_simps run_r_gen run_r_bytes_gen r_str_body_def split: if_splits)
  obtain a8 r8 where r8: "r7 = a8 @ r8" "length a8 = unat a7" using split_bytes [of "unat a7" r7] q8 by auto
  obtain a9 r9 where r9: "r8 = fdb_le32_put a9 @ r9" using split_u32 [of r8] l q8 r1 r2 r3 r4 r5 r6 r7 r8 by auto
  obtain a10 r10 where r10: "r9 = fdb_le64_put a10 @ r10" using split_u64 [of r9] l q8 r1 r2 r3 r4 r5 r6 r7 r8 r9 by auto
  have z: "r10 = []" using l q8 r1 r2 r3 r4 r5 r6 r7 r8 r9 r10 by auto
  show ?case using d l q8 r1 r2 r3 r4 r5 r6 r7 r8 r9 r10 z
    by (auto simp: codec_simps open_value_fields_def open_value_ok_def unat_len r_str_body_def byte_bool split: if_splits)
qed

definition fdb_lock_encode :: "lock_row \<Rightarrow> nat \<Rightarrow> bytes option" where
  "fdb_lock_encode v cap =
     (if length (row_owner v) > 128 then None
      else w_all cap
        [w_u8 1, w_u64 (row_offset v), w_u64 (row_length v), w_u32 (row_type v), w_u64 (row_clientid v),
         w_u32 (of_nat (length (row_owner v))), w_bytes (row_owner v), w_bytes (row_stateid_other v),
         w_u32 (row_seqid v), w_bytes (row_open_other v), w_u32 (row_owner_mds v), w_u64 (row_boot_epoch v)])"

definition fdb_lock_decode :: "u64 \<Rightarrow> u64 \<Rightarrow> bytes \<Rightarrow> lock_row option" where
  "fdb_lock_decode k_fileid k_lock_id buf =
     (if length buf < FDB_LOCK_ENC_FIXED \<or> length buf > FDB_LOCK_ENC_MAX then None
      else r_run (do {
        ver \<leftarrow> r_u8;
        if ver \<noteq> 1 then State_Monad.return None
        else do {
          x_offset \<leftarrow> r_u64; x_length \<leftarrow> r_u64; x_type \<leftarrow> r_u32;
          x_clientid \<leftarrow> r_u64; n_owner \<leftarrow> r_u32;
          bad \<leftarrow> r_failed;
          if bad \<or> unat n_owner > 128 then State_Monad.return None
          else do {
            x_owner \<leftarrow> r_bytes (unat n_owner); x_stateid_other \<leftarrow> r_bytes 12;
            x_seqid \<leftarrow> r_u32; x_open_other \<leftarrow> r_bytes 12; x_owner_mds \<leftarrow> r_u32;
            x_boot_epoch \<leftarrow> r_u64;
            done \<leftarrow> r_done;
            State_Monad.return (if \<not> done then None
              else Some \<lparr>row_fileid = k_fileid, row_lock_id = k_lock_id, row_offset = x_offset,
                           row_length = x_length, row_type = x_type, row_clientid = x_clientid,
                           row_owner = x_owner, row_stateid_other = x_stateid_other, row_seqid = x_seqid,
                           row_open_other = x_open_other, row_owner_mds = x_owner_mds,
                           row_boot_epoch = x_boot_epoch\<rparr>)
          }
        }
      }) buf)"

definition lock_value_fields :: "lock_row \<Rightarrow> bytes list" where
  "lock_value_fields v =
     [[1], fdb_le64_put (row_offset v), fdb_le64_put (row_length v), fdb_le32_put (row_type v),
      fdb_le64_put (row_clientid v), fdb_le32_put (of_nat (length (row_owner v))), row_owner v,
      row_stateid_other v, fdb_le32_put (row_seqid v), row_open_other v, fdb_le32_put (row_owner_mds v),
      fdb_le64_put (row_boot_epoch v)]"

definition lock_value_ok :: "lock_row \<Rightarrow> bool" where
  "lock_value_ok v \<longleftrightarrow> length (row_owner v) \<le> 128"

interpretation lock_value: strict_codec fdb_lock_encode "fdb_lock_decode k_fileid k_lock_id" lock_value_fields lock_value_ok
  "\<lambda>v. row_fileid v = k_fileid \<and> row_lock_id v = k_lock_id \<and> length (row_stateid_other v) = 12 \<and> length (row_open_other v) = 12" FDB_LOCK_ENC_MAX
  for k_fileid :: u64 and k_lock_id :: u64
proof (unfold_locales, goal_cases)
  case (1 v cap)
  then show ?case
  proof (cases "lock_value_ok v")
    case True
    then show ?thesis using w_all_bytes [of cap "lock_value_fields v"]
      by (auto simp: fdb_lock_encode_def lock_value_fields_def w_defs lock_value_ok_def strnlen_eq strnlen_less strnlen_0 bounded_strlen_eq)
  qed (auto simp: fdb_lock_encode_def lock_value_ok_def strnlen_less strnlen_0 bounded_strlen_eq not_le)
next
  case (2 v)
  then show ?case by (auto simp: fdb_lock_decode_def lock_value_fields_def r_run_at codec_simps lock_value_ok_def unat_len sint_u64)
next
  case (3 v)
  then show ?case by (auto simp: lock_value_fields_def lock_value_ok_def)
next
  case (4 bs v)
  note d = 4 [unfolded fdb_lock_decode_def r_run_at]
  then have l: "\<not> (length bs < FDB_LOCK_ENC_FIXED \<or> length bs > FDB_LOCK_ENC_MAX)" by (auto split: if_splits)
  obtain a1 r1 where r1: "bs = a1 # r1" using l  by (cases bs) auto
  obtain a2 r2 where r2: "r1 = fdb_le64_put a2 @ r2" using split_u64 [of r1] l r1 by auto
  obtain a3 r3 where r3: "r2 = fdb_le64_put a3 @ r3" using split_u64 [of r2] l r1 r2 by auto
  obtain a4 r4 where r4: "r3 = fdb_le32_put a4 @ r4" using split_u32 [of r3] l r1 r2 r3 by auto
  obtain a5 r5 where r5: "r4 = fdb_le64_put a5 @ r5" using split_u64 [of r4] l r1 r2 r3 r4 by auto
  obtain a6 r6 where r6: "r5 = fdb_le32_put a6 @ r6" using split_u32 [of r5] l r1 r2 r3 r4 r5 by auto
  have q7: "length r6 = unat a6 + 40" using d l r1 r2 r3 r4 r5 r6
    by (auto simp: codec_simps run_r_gen run_r_bytes_gen r_str_body_def split: if_splits)
  obtain a7 r7 where r7: "r6 = a7 @ r7" "length a7 = unat a6" using split_bytes [of "unat a6" r6] q7 by auto
  obtain a8 r8 where r8: "r7 = a8 @ r8" "length a8 = 12" using split_bytes [of 12 r7] l q7 r1 r2 r3 r4 r5 r6 r7 by auto
  obtain a9 r9 where r9: "r8 = fdb_le32_put a9 @ r9" using split_u32 [of r8] l q7 r1 r2 r3 r4 r5 r6 r7 r8 by auto
  obtain a10 r10 where r10: "r9 = a10 @ r10" "length a10 = 12" using split_bytes [of 12 r9] l q7 r1 r2 r3 r4 r5 r6 r7 r8 r9 by auto
  obtain a11 r11 where r11: "r10 = fdb_le32_put a11 @ r11" using split_u32 [of r10] l q7 r1 r2 r3 r4 r5 r6 r7 r8 r9 r10 by auto
  obtain a12 r12 where r12: "r11 = fdb_le64_put a12 @ r12" using split_u64 [of r11] l q7 r1 r2 r3 r4 r5 r6 r7 r8 r9 r10 r11 by auto
  have z: "r12 = []" using l q7 r1 r2 r3 r4 r5 r6 r7 r8 r9 r10 r11 r12 by auto
  show ?case using d l q7 r1 r2 r3 r4 r5 r6 r7 r8 r9 r10 r11 r12 z
    by (auto simp: codec_simps lock_value_fields_def lock_value_ok_def unat_len r_str_body_def byte_bool split: if_splits)
qed

section \<open>Delegations, clients and sessions\<close>

record mds_coord_deleg_row =
  dr_stateid_other :: bytes
  dr_seqid :: u32
  dr_clientid :: u64
  dr_fileid :: u64
  dr_deleg_type :: u32
  dr_owner_mds_id :: u32
  dr_owner_boot_epoch :: u64
  dr_grant_time_ns :: u64
  dr_recall_pending :: u8

definition fdb_deleg_encode :: "mds_coord_deleg_row \<Rightarrow> nat \<Rightarrow> bytes option" where
  "fdb_deleg_encode v cap =
     w_all cap
       [w_u8 1, w_u32 (dr_seqid v), w_u64 (dr_clientid v), w_u64 (dr_fileid v), w_u32 (dr_deleg_type v),
        w_u32 (dr_owner_mds_id v), w_u64 (dr_owner_boot_epoch v), w_u64 (dr_grant_time_ns v),
        w_u8 (dr_recall_pending v)]"

definition fdb_deleg_decode :: "bytes \<Rightarrow> bytes \<Rightarrow> mds_coord_deleg_row option" where
  "fdb_deleg_decode k_stateid_other buf =
     (if length buf \<noteq> FDB_DELEG_ENC_SIZE then None
      else r_run (do {
        ver \<leftarrow> r_u8;
        if ver \<noteq> 1 then State_Monad.return None
        else do {
          x_seqid \<leftarrow> r_u32; x_clientid \<leftarrow> r_u64; x_fileid \<leftarrow> r_u64;
          x_deleg_type \<leftarrow> r_u32; x_owner_mds_id \<leftarrow> r_u32; x_owner_boot_epoch \<leftarrow> r_u64;
          x_grant_time_ns \<leftarrow> r_u64; x_recall_pending \<leftarrow> r_u8;
          done \<leftarrow> r_done;
          State_Monad.return (if \<not> done then None
            else Some \<lparr>dr_stateid_other = k_stateid_other, dr_seqid = x_seqid, dr_clientid = x_clientid,
                         dr_fileid = x_fileid, dr_deleg_type = x_deleg_type,
                         dr_owner_mds_id = x_owner_mds_id, dr_owner_boot_epoch = x_owner_boot_epoch,
                         dr_grant_time_ns = x_grant_time_ns, dr_recall_pending = x_recall_pending\<rparr>)
        }
      }) buf)"

definition deleg_fields :: "mds_coord_deleg_row \<Rightarrow> bytes list" where
  "deleg_fields v =
     [[1], fdb_le32_put (dr_seqid v), fdb_le64_put (dr_clientid v), fdb_le64_put (dr_fileid v),
      fdb_le32_put (dr_deleg_type v), fdb_le32_put (dr_owner_mds_id v),
      fdb_le64_put (dr_owner_boot_epoch v), fdb_le64_put (dr_grant_time_ns v), [dr_recall_pending v]]"

interpretation deleg: strict_codec fdb_deleg_encode "fdb_deleg_decode k_stateid_other" deleg_fields "\<lambda>_. True"
  "\<lambda>v. dr_stateid_other v = k_stateid_other" FDB_DELEG_ENC_SIZE
  for k_stateid_other :: bytes
proof (unfold_locales, goal_cases)
  case (1 v cap)
  show ?case using w_all_bytes [of cap "deleg_fields v"] by (simp add: fdb_deleg_encode_def deleg_fields_def w_defs)
next
  case (2 v)
  then show ?case by (auto simp: fdb_deleg_decode_def deleg_fields_def r_run_at codec_simps  unat_len sint_u64)
next
  case (3 v)
  then show ?case by (auto simp: deleg_fields_def )
next
  case (4 bs v)
  note d = 4 [unfolded fdb_deleg_decode_def r_run_at]
  then have l: "\<not> (length bs \<noteq> FDB_DELEG_ENC_SIZE)" by (auto split: if_splits)
  obtain a1 r1 where r1: "bs = a1 # r1" using l  by (cases bs) auto
  obtain a2 r2 where r2: "r1 = fdb_le32_put a2 @ r2" using split_u32 [of r1] l r1 by auto
  obtain a3 r3 where r3: "r2 = fdb_le64_put a3 @ r3" using split_u64 [of r2] l r1 r2 by auto
  obtain a4 r4 where r4: "r3 = fdb_le64_put a4 @ r4" using split_u64 [of r3] l r1 r2 r3 by auto
  obtain a5 r5 where r5: "r4 = fdb_le32_put a5 @ r5" using split_u32 [of r4] l r1 r2 r3 r4 by auto
  obtain a6 r6 where r6: "r5 = fdb_le32_put a6 @ r6" using split_u32 [of r5] l r1 r2 r3 r4 r5 by auto
  obtain a7 r7 where r7: "r6 = fdb_le64_put a7 @ r7" using split_u64 [of r6] l r1 r2 r3 r4 r5 r6 by auto
  obtain a8 r8 where r8: "r7 = fdb_le64_put a8 @ r8" using split_u64 [of r7] l r1 r2 r3 r4 r5 r6 r7 by auto
  obtain a9 r9 where r9: "r8 = a9 # r9" using l r1 r2 r3 r4 r5 r6 r7 r8 by (cases r8) auto
  have z: "r9 = []" using l r1 r2 r3 r4 r5 r6 r7 r8 r9 by auto
  show ?case using d l r1 r2 r3 r4 r5 r6 r7 r8 r9 z
    by (auto simp: codec_simps deleg_fields_def  unat_len r_str_body_def byte_bool split: if_splits)
qed

record mds_coord_client_row =
  cr_clientid :: u64
  cr_co_ownerid :: bytes
  cr_verifier :: bytes
  cr_confirmed :: bool
  cr_owner_mds_id :: u32
  cr_owner_boot_epoch :: u64
  cr_lease_renewed_ns :: u64

definition fdb_client_encode :: "mds_coord_client_row \<Rightarrow> nat \<Rightarrow> bytes option" where
  "fdb_client_encode v cap =
     (if length (cr_co_ownerid v) > 1024 then None
      else w_all cap
        [w_u8 1, w_u32 (of_nat (length (cr_co_ownerid v))), w_bytes (cr_co_ownerid v),
         w_bytes (cr_verifier v), w_u8 (if cr_confirmed v then 1 else 0), w_u32 (cr_owner_mds_id v),
         w_u64 (cr_owner_boot_epoch v), w_u64 (cr_lease_renewed_ns v)])"

definition fdb_client_decode :: "u64 \<Rightarrow> bytes \<Rightarrow> mds_coord_client_row option" where
  "fdb_client_decode k_clientid buf =
     (if length buf < FDB_CLIENT_ENC_FIXED \<or> length buf > FDB_CLIENT_ENC_MAX then None
      else r_run (do {
        ver \<leftarrow> r_u8;
        if ver \<noteq> 1 then State_Monad.return None
        else do {
          n_co_ownerid \<leftarrow> r_u32;
          bad \<leftarrow> r_failed;
          if bad \<or> unat n_co_ownerid > 1024 then State_Monad.return None
          else do {
            x_co_ownerid \<leftarrow> r_bytes (unat n_co_ownerid); x_verifier \<leftarrow> r_bytes 8;
            x_confirmed \<leftarrow> r_u8; x_owner_mds_id \<leftarrow> r_u32; x_owner_boot_epoch \<leftarrow> r_u64;
            x_lease_renewed_ns \<leftarrow> r_u64;
            done \<leftarrow> r_done;
            State_Monad.return (if \<not> done \<or> x_confirmed > 1 then None
              else Some \<lparr>cr_clientid = k_clientid, cr_co_ownerid = x_co_ownerid, cr_verifier = x_verifier,
                           cr_confirmed = (x_confirmed = 1), cr_owner_mds_id = x_owner_mds_id,
                           cr_owner_boot_epoch = x_owner_boot_epoch,
                           cr_lease_renewed_ns = x_lease_renewed_ns\<rparr>)
          }
        }
      }) buf)"

definition client_fields :: "mds_coord_client_row \<Rightarrow> bytes list" where
  "client_fields v =
     [[1], fdb_le32_put (of_nat (length (cr_co_ownerid v))), cr_co_ownerid v, cr_verifier v,
      [if cr_confirmed v then 1 else 0], fdb_le32_put (cr_owner_mds_id v),
      fdb_le64_put (cr_owner_boot_epoch v), fdb_le64_put (cr_lease_renewed_ns v)]"

definition client_ok :: "mds_coord_client_row \<Rightarrow> bool" where
  "client_ok v \<longleftrightarrow> length (cr_co_ownerid v) \<le> 1024"

interpretation client: strict_codec fdb_client_encode "fdb_client_decode k_clientid" client_fields client_ok
  "\<lambda>v. cr_clientid v = k_clientid \<and> length (cr_verifier v) = 8" FDB_CLIENT_ENC_MAX
  for k_clientid :: u64
proof (unfold_locales, goal_cases)
  case (1 v cap)
  then show ?case
  proof (cases "client_ok v")
    case True
    then show ?thesis using w_all_bytes [of cap "client_fields v"]
      by (auto simp: fdb_client_encode_def client_fields_def w_defs client_ok_def strnlen_eq strnlen_less strnlen_0 bounded_strlen_eq)
  qed (auto simp: fdb_client_encode_def client_ok_def strnlen_less strnlen_0 bounded_strlen_eq not_le)
next
  case (2 v)
  then show ?case by (auto simp: fdb_client_decode_def client_fields_def r_run_at codec_simps client_ok_def unat_len sint_u64)
next
  case (3 v)
  then show ?case by (auto simp: client_fields_def client_ok_def)
next
  case (4 bs v)
  note d = 4 [unfolded fdb_client_decode_def r_run_at]
  then have l: "\<not> (length bs < FDB_CLIENT_ENC_FIXED \<or> length bs > FDB_CLIENT_ENC_MAX)" by (auto split: if_splits)
  obtain a1 r1 where r1: "bs = a1 # r1" using l  by (cases bs) auto
  obtain a2 r2 where r2: "r1 = fdb_le32_put a2 @ r2" using split_u32 [of r1] l r1 by auto
  have q3: "length r2 = unat a2 + 29" using d l r1 r2
    by (auto simp: codec_simps run_r_gen run_r_bytes_gen r_str_body_def split: if_splits)
  obtain a3 r3 where r3: "r2 = a3 @ r3" "length a3 = unat a2" using split_bytes [of "unat a2" r2] q3 by auto
  obtain a4 r4 where r4: "r3 = a4 @ r4" "length a4 = 8" using split_bytes [of 8 r3] l q3 r1 r2 r3 by auto
  obtain a5 r5 where r5: "r4 = a5 # r5" using l q3 r1 r2 r3 r4 by (cases r4) auto
  obtain a6 r6 where r6: "r5 = fdb_le32_put a6 @ r6" using split_u32 [of r5] l q3 r1 r2 r3 r4 r5 by auto
  obtain a7 r7 where r7: "r6 = fdb_le64_put a7 @ r7" using split_u64 [of r6] l q3 r1 r2 r3 r4 r5 r6 by auto
  obtain a8 r8 where r8: "r7 = fdb_le64_put a8 @ r8" using split_u64 [of r7] l q3 r1 r2 r3 r4 r5 r6 r7 by auto
  have z: "r8 = []" using l q3 r1 r2 r3 r4 r5 r6 r7 r8 by auto
  show ?case using d l q3 r1 r2 r3 r4 r5 r6 r7 r8 z
    by (auto simp: codec_simps client_fields_def client_ok_def unat_len r_str_body_def byte_bool split: if_splits)
qed

record mds_coord_session_row =
  sr_session_id :: bytes
  sr_clientid :: u64
  sr_num_slots :: u32
  sr_cb_prog :: u32
  sr_cb_sec_flavor :: u32
  sr_owner_mds_id :: u32
  sr_owner_boot_epoch :: u64
  sr_created_ns :: u64

definition fdb_session_encode :: "mds_coord_session_row \<Rightarrow> nat \<Rightarrow> bytes option" where
  "fdb_session_encode v cap =
     w_all cap
       [w_u8 1, w_u64 (sr_clientid v), w_u32 (sr_num_slots v), w_u32 (sr_cb_prog v),
        w_u32 (sr_cb_sec_flavor v), w_u32 (sr_owner_mds_id v), w_u64 (sr_owner_boot_epoch v),
        w_u64 (sr_created_ns v)]"

definition fdb_session_decode :: "bytes \<Rightarrow> bytes \<Rightarrow> mds_coord_session_row option" where
  "fdb_session_decode k_session_id buf =
     (if length buf \<noteq> FDB_SESSION_ENC_SIZE then None
      else r_run (do {
        ver \<leftarrow> r_u8;
        if ver \<noteq> 1 then State_Monad.return None
        else do {
          x_clientid \<leftarrow> r_u64; x_num_slots \<leftarrow> r_u32; x_cb_prog \<leftarrow> r_u32;
          x_cb_sec_flavor \<leftarrow> r_u32; x_owner_mds_id \<leftarrow> r_u32; x_owner_boot_epoch \<leftarrow> r_u64;
          x_created_ns \<leftarrow> r_u64;
          done \<leftarrow> r_done;
          State_Monad.return (if \<not> done then None
            else Some \<lparr>sr_session_id = k_session_id, sr_clientid = x_clientid, sr_num_slots = x_num_slots,
                         sr_cb_prog = x_cb_prog, sr_cb_sec_flavor = x_cb_sec_flavor,
                         sr_owner_mds_id = x_owner_mds_id, sr_owner_boot_epoch = x_owner_boot_epoch,
                         sr_created_ns = x_created_ns\<rparr>)
        }
      }) buf)"

definition session_fields :: "mds_coord_session_row \<Rightarrow> bytes list" where
  "session_fields v =
     [[1], fdb_le64_put (sr_clientid v), fdb_le32_put (sr_num_slots v), fdb_le32_put (sr_cb_prog v),
      fdb_le32_put (sr_cb_sec_flavor v), fdb_le32_put (sr_owner_mds_id v),
      fdb_le64_put (sr_owner_boot_epoch v), fdb_le64_put (sr_created_ns v)]"

interpretation session: strict_codec fdb_session_encode "fdb_session_decode k_session_id" session_fields "\<lambda>_. True"
  "\<lambda>v. sr_session_id v = k_session_id" FDB_SESSION_ENC_SIZE
  for k_session_id :: bytes
proof (unfold_locales, goal_cases)
  case (1 v cap)
  show ?case using w_all_bytes [of cap "session_fields v"] by (simp add: fdb_session_encode_def session_fields_def w_defs)
next
  case (2 v)
  then show ?case by (auto simp: fdb_session_decode_def session_fields_def r_run_at codec_simps  unat_len sint_u64)
next
  case (3 v)
  then show ?case by (auto simp: session_fields_def )
next
  case (4 bs v)
  note d = 4 [unfolded fdb_session_decode_def r_run_at]
  then have l: "\<not> (length bs \<noteq> FDB_SESSION_ENC_SIZE)" by (auto split: if_splits)
  obtain a1 r1 where r1: "bs = a1 # r1" using l  by (cases bs) auto
  obtain a2 r2 where r2: "r1 = fdb_le64_put a2 @ r2" using split_u64 [of r1] l r1 by auto
  obtain a3 r3 where r3: "r2 = fdb_le32_put a3 @ r3" using split_u32 [of r2] l r1 r2 by auto
  obtain a4 r4 where r4: "r3 = fdb_le32_put a4 @ r4" using split_u32 [of r3] l r1 r2 r3 by auto
  obtain a5 r5 where r5: "r4 = fdb_le32_put a5 @ r5" using split_u32 [of r4] l r1 r2 r3 r4 by auto
  obtain a6 r6 where r6: "r5 = fdb_le32_put a6 @ r6" using split_u32 [of r5] l r1 r2 r3 r4 r5 by auto
  obtain a7 r7 where r7: "r6 = fdb_le64_put a7 @ r7" using split_u64 [of r6] l r1 r2 r3 r4 r5 r6 by auto
  obtain a8 r8 where r8: "r7 = fdb_le64_put a8 @ r8" using split_u64 [of r7] l r1 r2 r3 r4 r5 r6 r7 by auto
  have z: "r8 = []" using l r1 r2 r3 r4 r5 r6 r7 r8 by auto
  show ?case using d l r1 r2 r3 r4 r5 r6 r7 r8 z
    by (auto simp: codec_simps session_fields_def  unat_len r_str_body_def byte_bool split: if_splits)
qed

section \<open>Client recovery\<close>

record fdb_recovery_val =
  rv_owner_mds_id :: u32
  rv_owner_boot_epoch :: u64
  rv_co_ownerid :: bytes
  rv_verifier :: bytes

definition fdb_recovery_encode :: "fdb_recovery_val \<Rightarrow> nat \<Rightarrow> bytes option" where
  "fdb_recovery_encode v cap =
     (if length (rv_co_ownerid v) > FDB_RECOVERY_CO_MAX then None
      else w_all cap
        [w_u8 1, w_u32 (rv_owner_mds_id v), w_u64 (rv_owner_boot_epoch v),
         w_u32 (of_nat (length (rv_co_ownerid v))), w_bytes (rv_co_ownerid v), w_bytes (rv_verifier v)])"

definition fdb_recovery_decode :: "bytes \<Rightarrow> fdb_recovery_val option" where
  "fdb_recovery_decode buf =
     (if length buf < FDB_RECOVERY_ENC_FIXED \<or> length buf > FDB_RECOVERY_ENC_MAX then None
      else r_run (do {
        ver \<leftarrow> r_u8;
        if ver \<noteq> 1 then State_Monad.return None
        else do {
          x_owner_mds_id \<leftarrow> r_u32; x_owner_boot_epoch \<leftarrow> r_u64; n_co_ownerid \<leftarrow> r_u32;
          bad \<leftarrow> r_failed;
          if bad \<or> unat n_co_ownerid > FDB_RECOVERY_CO_MAX then State_Monad.return None
          else do {
            x_co_ownerid \<leftarrow> r_bytes (unat n_co_ownerid); x_verifier \<leftarrow> r_bytes 8;
            done \<leftarrow> r_done;
            State_Monad.return (if \<not> done then None
              else Some \<lparr>rv_owner_mds_id = x_owner_mds_id, rv_owner_boot_epoch = x_owner_boot_epoch,
                           rv_co_ownerid = x_co_ownerid, rv_verifier = x_verifier\<rparr>)
          }
        }
      }) buf)"

definition recovery_fields :: "fdb_recovery_val \<Rightarrow> bytes list" where
  "recovery_fields v =
     [[1], fdb_le32_put (rv_owner_mds_id v), fdb_le64_put (rv_owner_boot_epoch v),
      fdb_le32_put (of_nat (length (rv_co_ownerid v))), rv_co_ownerid v, rv_verifier v]"

definition recovery_ok :: "fdb_recovery_val \<Rightarrow> bool" where
  "recovery_ok v \<longleftrightarrow> length (rv_co_ownerid v) \<le> FDB_RECOVERY_CO_MAX"

interpretation recovery: strict_codec fdb_recovery_encode fdb_recovery_decode recovery_fields recovery_ok
  "\<lambda>v. length (rv_verifier v) = 8" FDB_RECOVERY_ENC_MAX
proof (unfold_locales, goal_cases)
  case (1 v cap)
  then show ?case
  proof (cases "recovery_ok v")
    case True
    then show ?thesis using w_all_bytes [of cap "recovery_fields v"]
      by (auto simp: fdb_recovery_encode_def recovery_fields_def w_defs recovery_ok_def strnlen_eq strnlen_less strnlen_0 bounded_strlen_eq)
  qed (auto simp: fdb_recovery_encode_def recovery_ok_def strnlen_less strnlen_0 bounded_strlen_eq not_le)
next
  case (2 v)
  then show ?case by (auto simp: fdb_recovery_decode_def recovery_fields_def r_run_at codec_simps recovery_ok_def unat_len sint_u64)
next
  case (3 v)
  then show ?case by (auto simp: recovery_fields_def recovery_ok_def)
next
  case (4 bs v)
  note d = 4 [unfolded fdb_recovery_decode_def r_run_at]
  then have l: "\<not> (length bs < FDB_RECOVERY_ENC_FIXED \<or> length bs > FDB_RECOVERY_ENC_MAX)" by (auto split: if_splits)
  obtain a1 r1 where r1: "bs = a1 # r1" using l  by (cases bs) auto
  obtain a2 r2 where r2: "r1 = fdb_le32_put a2 @ r2" using split_u32 [of r1] l r1 by auto
  obtain a3 r3 where r3: "r2 = fdb_le64_put a3 @ r3" using split_u64 [of r2] l r1 r2 by auto
  obtain a4 r4 where r4: "r3 = fdb_le32_put a4 @ r4" using split_u32 [of r3] l r1 r2 r3 by auto
  have q5: "length r4 = unat a4 + 8" using d l r1 r2 r3 r4
    by (auto simp: codec_simps run_r_gen run_r_bytes_gen r_str_body_def split: if_splits)
  obtain a5 r5 where r5: "r4 = a5 @ r5" "length a5 = unat a4" using split_bytes [of "unat a4" r4] q5 by auto
  obtain a6 r6 where r6: "r5 = a6 @ r6" "length a6 = 8" using split_bytes [of 8 r5] l q5 r1 r2 r3 r4 r5 by auto
  have z: "r6 = []" using l q5 r1 r2 r3 r4 r5 r6 by auto
  show ?case using d l q5 r1 r2 r3 r4 r5 r6 z
    by (auto simp: codec_simps recovery_fields_def recovery_ok_def unat_len r_str_body_def byte_bool split: if_splits)
qed

end
