(* ===== verification/Fdb_Cluster.thy ===== *)
theory Fdb_Cluster
  imports Fdb_Rows
begin

text \<open>
  The cluster rows of the FoundationDB backend (\<^verbatim>\<open>src/catalogue/fdb_codec.c\<close>, coord track, second part): the two-phase
  commit journal, the node registry and the partition map. The bound on a journal payload is a \<^verbatim>\<open>sizeof\<close> expression of
  the C structures, so it is an argument here.
\<close>

abbreviation FDB_JOURNAL_ENC_FIXED :: nat where "FDB_JOURNAL_ENC_FIXED \<equiv> 46"
abbreviation FDB_NODE_ENC_FIXED :: nat where "FDB_NODE_ENC_FIXED \<equiv> 33"
abbreviation FDB_NODE_SW_MAX :: nat where "FDB_NODE_SW_MAX \<equiv> 63"
abbreviation FDB_NODE_HOST_MAX :: nat where "FDB_NODE_HOST_MAX \<equiv> 255"
abbreviation FDB_NODE_ENC_MAX :: nat where "FDB_NODE_ENC_MAX \<equiv> FDB_NODE_ENC_FIXED + FDB_NODE_SW_MAX + FDB_NODE_HOST_MAX"
abbreviation FDB_PARTITION_ENC_FIXED :: nat where "FDB_PARTITION_ENC_FIXED \<equiv> 8"
abbreviation FDB_PARTITION_PATH_MAX :: nat where "FDB_PARTITION_PATH_MAX \<equiv> 4095"
abbreviation FDB_PARTITION_ENC_MAX :: nat where "FDB_PARTITION_ENC_MAX \<equiv> FDB_PARTITION_ENC_FIXED + FDB_PARTITION_PATH_MAX"

definition FDB_JOURNAL_ENC_MAX :: "nat \<Rightarrow> nat" where
  "FDB_JOURNAL_ENC_MAX pay_max = FDB_JOURNAL_ENC_FIXED + 2 * MDS_MAX_NAME + pay_max"

section \<open>The two-phase commit journal\<close>

record mds_coord_journal_record =
  jr_txn_id :: u64
  jr_state :: u8
  jr_role :: u8
  jr_remote_mds_id :: u32
  jr_src_parent_fileid :: u64
  jr_dst_parent_fileid :: u64
  jr_src_child_fileid :: u64
  jr_src_name :: bytes
  jr_dst_name :: bytes
  jr_payload :: bytes
  jr_created_at_ns :: u64

definition fdb_journal_encode :: "nat \<Rightarrow> mds_coord_journal_record \<Rightarrow> nat \<Rightarrow> bytes option" where
  "fdb_journal_encode pay_max v cap =
     (if length (jr_payload v) > pay_max \<or> strnlen (jr_src_name v) (MDS_MAX_NAME + 1) > MDS_MAX_NAME \<or>
         strnlen (jr_dst_name v) (MDS_MAX_NAME + 1) > MDS_MAX_NAME then None
      else w_all cap
        [w_u8 1, w_u8 (jr_state v), w_u32 (jr_remote_mds_id v), w_u64 (jr_src_parent_fileid v),
         w_u64 (jr_dst_parent_fileid v), w_u64 (jr_src_child_fileid v), w_u64 (jr_created_at_ns v),
         w_u16 (of_nat (strnlen (jr_src_name v) (MDS_MAX_NAME + 1))),
         w_u16 (of_nat (strnlen (jr_dst_name v) (MDS_MAX_NAME + 1))),
         w_u32 (of_nat (length (jr_payload v))),
         w_bytes (take (strnlen (jr_src_name v) (MDS_MAX_NAME + 1)) (jr_src_name v)),
         w_bytes (take (strnlen (jr_dst_name v) (MDS_MAX_NAME + 1)) (jr_dst_name v)), w_bytes (jr_payload v)])"

definition fdb_journal_decode :: "nat \<Rightarrow> u64 \<Rightarrow> u8 \<Rightarrow> bytes \<Rightarrow> mds_coord_journal_record option" where
  "fdb_journal_decode pay_max k_txn_id k_role buf =
     (if length buf < FDB_JOURNAL_ENC_FIXED \<or> length buf > FDB_JOURNAL_ENC_MAX pay_max then None
      else r_run (do {
        ver \<leftarrow> r_u8;
        if ver \<noteq> 1 then State_Monad.return None
        else do {
          x_state \<leftarrow> r_u8; x_remote_mds_id \<leftarrow> r_u32; x_src_parent_fileid \<leftarrow> r_u64;
          x_dst_parent_fileid \<leftarrow> r_u64; x_src_child_fileid \<leftarrow> r_u64;
          x_created_at_ns \<leftarrow> r_u64; n_src_name \<leftarrow> r_u16; n_dst_name \<leftarrow> r_u16;
          n_payload \<leftarrow> r_u32;
          bad \<leftarrow> r_failed;
          if bad \<or> unat n_src_name > MDS_MAX_NAME \<or> unat n_dst_name > MDS_MAX_NAME \<or> unat n_payload > pay_max then State_Monad.return None
          else do {
            x_src_name \<leftarrow> r_bytes (unat n_src_name); x_dst_name \<leftarrow> r_bytes (unat n_dst_name);
            x_payload \<leftarrow> r_bytes (unat n_payload);
            done \<leftarrow> r_done;
            State_Monad.return (if \<not> done \<or> 0 \<in> set x_src_name \<or> 0 \<in> set x_dst_name then None
              else Some \<lparr>jr_txn_id = k_txn_id, jr_state = x_state, jr_role = k_role,
                           jr_remote_mds_id = x_remote_mds_id, jr_src_parent_fileid = x_src_parent_fileid,
                           jr_dst_parent_fileid = x_dst_parent_fileid,
                           jr_src_child_fileid = x_src_child_fileid, jr_src_name = x_src_name,
                           jr_dst_name = x_dst_name, jr_payload = x_payload,
                           jr_created_at_ns = x_created_at_ns\<rparr>)
          }
        }
      }) buf)"

definition journal_fields :: "mds_coord_journal_record \<Rightarrow> bytes list" where
  "journal_fields v =
     [[1], [jr_state v], fdb_le32_put (jr_remote_mds_id v), fdb_le64_put (jr_src_parent_fileid v),
      fdb_le64_put (jr_dst_parent_fileid v), fdb_le64_put (jr_src_child_fileid v),
      fdb_le64_put (jr_created_at_ns v), le16_put (of_nat (length (jr_src_name v))),
      le16_put (of_nat (length (jr_dst_name v))), fdb_le32_put (of_nat (length (jr_payload v))),
      jr_src_name v, jr_dst_name v, jr_payload v]"

definition journal_ok :: "nat \<Rightarrow> mds_coord_journal_record \<Rightarrow> bool" where
  "journal_ok pay_max v \<longleftrightarrow> length (jr_payload v) \<le> pay_max \<and> length (jr_src_name v) \<le> MDS_MAX_NAME \<and> length (jr_dst_name v) \<le> MDS_MAX_NAME"

interpretation journal: strict_codec "fdb_journal_encode pay_max" "fdb_journal_decode pay_max k_txn_id k_role" journal_fields "journal_ok pay_max"
  "\<lambda>v. jr_txn_id v = k_txn_id \<and> jr_role v = k_role \<and> 0 \<notin> set (jr_src_name v) \<and> 0 \<notin> set (jr_dst_name v) \<and> length (jr_payload v) < 4294967296" "FDB_JOURNAL_ENC_MAX pay_max"
  for pay_max :: nat and k_txn_id :: u64 and k_role :: u8
proof (unfold_locales, goal_cases)
  case (1 v cap)
  then show ?case
  proof (cases "journal_ok pay_max v")
    case True
    then show ?thesis using w_all_bytes [of cap "journal_fields v"]
      by (auto simp: fdb_journal_encode_def journal_fields_def w_defs journal_ok_def strnlen_eq strnlen_less strnlen_0 bounded_strlen_eq)
  qed (auto simp: fdb_journal_encode_def journal_ok_def strnlen_less strnlen_0 bounded_strlen_eq not_le)
next
  case (2 v)
  then show ?case by (auto simp: fdb_journal_decode_def journal_fields_def r_run_at codec_simps journal_ok_def FDB_JOURNAL_ENC_MAX_def unat_len sint_u64)
next
  case (3 v)
  then show ?case by (auto simp: journal_fields_def journal_ok_def FDB_JOURNAL_ENC_MAX_def)
next
  case (4 bs v)
  note d = 4 [unfolded fdb_journal_decode_def r_run_at]
  then have l: "\<not> (length bs < FDB_JOURNAL_ENC_FIXED \<or> length bs > FDB_JOURNAL_ENC_MAX pay_max)" by (auto split: if_splits)
  obtain a1 r1 where r1: "bs = a1 # r1" using l  by (cases bs) auto
  obtain a2 r2 where r2: "r1 = a2 # r2" using l r1 by (cases r1) auto
  obtain a3 r3 where r3: "r2 = fdb_le32_put a3 @ r3" using split_u32 [of r2] l r1 r2 by auto
  obtain a4 r4 where r4: "r3 = fdb_le64_put a4 @ r4" using split_u64 [of r3] l r1 r2 r3 by auto
  obtain a5 r5 where r5: "r4 = fdb_le64_put a5 @ r5" using split_u64 [of r4] l r1 r2 r3 r4 by auto
  obtain a6 r6 where r6: "r5 = fdb_le64_put a6 @ r6" using split_u64 [of r5] l r1 r2 r3 r4 r5 by auto
  obtain a7 r7 where r7: "r6 = fdb_le64_put a7 @ r7" using split_u64 [of r6] l r1 r2 r3 r4 r5 r6 by auto
  obtain a8 r8 where r8: "r7 = le16_put a8 @ r8" using split_u16 [of r7] l r1 r2 r3 r4 r5 r6 r7 by auto
  obtain a9 r9 where r9: "r8 = le16_put a9 @ r9" using split_u16 [of r8] l r1 r2 r3 r4 r5 r6 r7 r8 by auto
  obtain a10 r10 where r10: "r9 = fdb_le32_put a10 @ r10" using split_u32 [of r9] l r1 r2 r3 r4 r5 r6 r7 r8 r9 by auto
  have q11: "length r10 = unat a8 + unat a9 + unat a10" using d l r1 r2 r3 r4 r5 r6 r7 r8 r9 r10
    by (auto simp: codec_simps run_r_gen run_r_bytes_gen r_str_body_def split: if_splits)
  obtain a11 r11 where r11: "r10 = a11 @ r11" "length a11 = unat a8" using split_bytes [of "unat a8" r10] q11 by auto
  have q12: "length r11 = unat a9 + unat a10" using d l q11 r1 r2 r3 r4 r5 r6 r7 r8 r9 r10 r11
    by (auto simp: codec_simps run_r_gen run_r_bytes_gen r_str_body_def split: if_splits)
  obtain a12 r12 where r12: "r11 = a12 @ r12" "length a12 = unat a9" using split_bytes [of "unat a9" r11] q12 by auto
  have q13: "length r12 = unat a10" using d l q12 q11 r1 r2 r3 r4 r5 r6 r7 r8 r9 r10 r11 r12
    by (auto simp: codec_simps run_r_gen run_r_bytes_gen r_str_body_def split: if_splits)
  obtain a13 r13 where r13: "r12 = a13 @ r13" "length a13 = unat a10" using split_bytes [of "unat a10" r12] q13 by auto
  have z: "r13 = []" using l q13 q12 q11 r1 r2 r3 r4 r5 r6 r7 r8 r9 r10 r11 r12 r13 by auto
  show ?case using d l q13 q12 q11 r1 r2 r3 r4 r5 r6 r7 r8 r9 r10 r11 r12 r13 z
    by (auto simp: codec_simps journal_fields_def journal_ok_def FDB_JOURNAL_ENC_MAX_def unat_len u32_lt r_str_body_def byte_bool len16_nz split: if_splits)
qed

section \<open>The node registry\<close>

record fdb_node_val =
  nd_boot_epoch :: u64
  nd_last_heartbeat_ns :: u64
  nd_witness_epoch :: u64
  nd_nfs_port :: u16
  nd_grpc_port :: u16
  nd_state :: u8
  nd_sw_version :: bytes
  nd_hostname :: bytes

definition fdb_node_encode :: "fdb_node_val \<Rightarrow> nat \<Rightarrow> bytes option" where
  "fdb_node_encode v cap =
     (if strnlen (nd_sw_version v) (FDB_NODE_SW_MAX + 1) > FDB_NODE_SW_MAX \<or> strnlen (nd_hostname v) (FDB_NODE_HOST_MAX + 1) = 0 \<or>
         strnlen (nd_hostname v) (FDB_NODE_HOST_MAX + 1) > FDB_NODE_HOST_MAX then None
      else w_all cap
        [w_u8 2, w_u64 (nd_boot_epoch v), w_u16 (nd_nfs_port v), w_u16 (nd_grpc_port v), w_u8 (nd_state v),
         w_u64 (nd_last_heartbeat_ns v), w_u64 (nd_witness_epoch v),
         w_u8 (of_nat (strnlen (nd_sw_version v) (FDB_NODE_SW_MAX + 1))),
         w_bytes (take (strnlen (nd_sw_version v) (FDB_NODE_SW_MAX + 1)) (nd_sw_version v)),
         w_u16 (of_nat (strnlen (nd_hostname v) (FDB_NODE_HOST_MAX + 1))),
         w_bytes (take (strnlen (nd_hostname v) (FDB_NODE_HOST_MAX + 1)) (nd_hostname v))])"

definition fdb_node_decode :: "bytes \<Rightarrow> fdb_node_val option" where
  "fdb_node_decode buf =
     (if length buf < FDB_NODE_ENC_FIXED \<or> length buf > FDB_NODE_ENC_MAX then None
      else r_run (do {
        ver \<leftarrow> r_u8;
        if ver \<noteq> 2 then State_Monad.return None
        else do {
          x_boot_epoch \<leftarrow> r_u64; x_nfs_port \<leftarrow> r_u16; x_grpc_port \<leftarrow> r_u16;
          x_state \<leftarrow> r_u8; x_last_heartbeat_ns \<leftarrow> r_u64; x_witness_epoch \<leftarrow> r_u64;
          n_sw_version \<leftarrow> r_u8;
          bad \<leftarrow> r_failed;
          if bad \<or> unat n_sw_version > FDB_NODE_SW_MAX then State_Monad.return None
          else do {
            x_sw_version \<leftarrow> r_bytes (unat n_sw_version); n_hostname \<leftarrow> r_u16;
            bad \<leftarrow> r_failed;
            if bad \<or> n_hostname = 0 \<or> unat n_hostname > FDB_NODE_HOST_MAX then State_Monad.return None
            else do {
              x_hostname \<leftarrow> r_bytes (unat n_hostname);
              done \<leftarrow> r_done;
              State_Monad.return (if \<not> done \<or> 0 \<in> set x_sw_version \<or> 0 \<in> set x_hostname then None
                else Some \<lparr>nd_boot_epoch = x_boot_epoch, nd_last_heartbeat_ns = x_last_heartbeat_ns,
                             nd_witness_epoch = x_witness_epoch, nd_nfs_port = x_nfs_port,
                             nd_grpc_port = x_grpc_port, nd_state = x_state, nd_sw_version = x_sw_version,
                             nd_hostname = x_hostname\<rparr>)
            }
          }
        }
      }) buf)"

definition node_fields :: "fdb_node_val \<Rightarrow> bytes list" where
  "node_fields v =
     [[2], fdb_le64_put (nd_boot_epoch v), le16_put (nd_nfs_port v), le16_put (nd_grpc_port v),
      [nd_state v], fdb_le64_put (nd_last_heartbeat_ns v), fdb_le64_put (nd_witness_epoch v),
      [of_nat (length (nd_sw_version v))], nd_sw_version v, le16_put (of_nat (length (nd_hostname v))),
      nd_hostname v]"

definition node_ok :: "fdb_node_val \<Rightarrow> bool" where
  "node_ok v \<longleftrightarrow> length (nd_sw_version v) \<le> FDB_NODE_SW_MAX \<and> nd_hostname v \<noteq> [] \<and> length (nd_hostname v) \<le> FDB_NODE_HOST_MAX"

interpretation node: strict_codec fdb_node_encode fdb_node_decode node_fields node_ok
  "\<lambda>v. 0 \<notin> set (nd_sw_version v) \<and> 0 \<notin> set (nd_hostname v)" FDB_NODE_ENC_MAX
proof (unfold_locales, goal_cases)
  case (1 v cap)
  then show ?case
  proof (cases "node_ok v")
    case True
    then show ?thesis using w_all_bytes [of cap "node_fields v"]
      by (auto simp: fdb_node_encode_def node_fields_def w_defs node_ok_def strnlen_eq strnlen_less strnlen_0 bounded_strlen_eq)
  qed (auto simp: fdb_node_encode_def node_ok_def strnlen_less strnlen_0 bounded_strlen_eq not_le)
next
  case (2 v)
  then show ?case by (auto simp: fdb_node_decode_def node_fields_def r_run_at codec_simps node_ok_def unat_len len16_0 sint_u64)
next
  case (3 v)
  then show ?case by (auto simp: node_fields_def node_ok_def)
next
  case (4 bs v)
  note d = 4 [unfolded fdb_node_decode_def r_run_at]
  then have l: "\<not> (length bs < FDB_NODE_ENC_FIXED \<or> length bs > FDB_NODE_ENC_MAX)" by (auto split: if_splits)
  obtain a1 r1 where r1: "bs = a1 # r1" using l  by (cases bs) auto
  obtain a2 r2 where r2: "r1 = fdb_le64_put a2 @ r2" using split_u64 [of r1] l r1 by auto
  obtain a3 r3 where r3: "r2 = le16_put a3 @ r3" using split_u16 [of r2] l r1 r2 by auto
  obtain a4 r4 where r4: "r3 = le16_put a4 @ r4" using split_u16 [of r3] l r1 r2 r3 by auto
  obtain a5 r5 where r5: "r4 = a5 # r5" using l r1 r2 r3 r4 by (cases r4) auto
  obtain a6 r6 where r6: "r5 = fdb_le64_put a6 @ r6" using split_u64 [of r5] l r1 r2 r3 r4 r5 by auto
  obtain a7 r7 where r7: "r6 = fdb_le64_put a7 @ r7" using split_u64 [of r6] l r1 r2 r3 r4 r5 r6 by auto
  obtain a8 r8 where r8: "r7 = a8 # r8" using l r1 r2 r3 r4 r5 r6 r7 by (cases r7) auto
  have q9: "length r8 \<ge> unat a8 + 2" using d l r1 r2 r3 r4 r5 r6 r7 r8
    by (auto simp: codec_simps run_r_gen run_r_bytes_gen r_str_body_def split: if_splits)
  obtain a9 r9 where r9: "r8 = a9 @ r9" "length a9 = unat a8" using split_bytes [of "unat a8" r8] q9 by auto
  obtain a10 r10 where r10: "r9 = le16_put a10 @ r10" using split_u16 [of r9] l q9 r1 r2 r3 r4 r5 r6 r7 r8 r9 by auto
  have q11: "length r10 = unat a10" using d l q9 r1 r2 r3 r4 r5 r6 r7 r8 r9 r10
    by (auto simp: codec_simps run_r_gen run_r_bytes_gen r_str_body_def split: if_splits)
  obtain a11 r11 where r11: "r10 = a11 @ r11" "length a11 = unat a10" using split_bytes [of "unat a10" r10] q11 by auto
  have z: "r11 = []" using l q11 q9 r1 r2 r3 r4 r5 r6 r7 r8 r9 r10 r11 by auto
  show ?case using d l q11 q9 r1 r2 r3 r4 r5 r6 r7 r8 r9 r10 r11 z
    by (auto simp: codec_simps node_fields_def node_ok_def unat_len r_str_body_def byte_bool len16_nz split: if_splits)
qed

section \<open>The partition map\<close>

record fdb_partition_val =
  pt_owner_mds_id :: u32
  pt_state :: u8
  pt_subtree_path :: bytes

definition fdb_partition_encode :: "fdb_partition_val \<Rightarrow> nat \<Rightarrow> bytes option" where
  "fdb_partition_encode v cap =
     (if strnlen (pt_subtree_path v) (FDB_PARTITION_PATH_MAX + 1) = 0 \<or>
         strnlen (pt_subtree_path v) (FDB_PARTITION_PATH_MAX + 1) > FDB_PARTITION_PATH_MAX then None
      else w_all cap
        [w_u8 1, w_u32 (pt_owner_mds_id v), w_u8 (pt_state v),
         w_u16 (of_nat (strnlen (pt_subtree_path v) (FDB_PARTITION_PATH_MAX + 1))),
         w_bytes (take (strnlen (pt_subtree_path v) (FDB_PARTITION_PATH_MAX + 1)) (pt_subtree_path v))])"

definition fdb_partition_decode :: "bytes \<Rightarrow> fdb_partition_val option" where
  "fdb_partition_decode buf =
     (if length buf < FDB_PARTITION_ENC_FIXED \<or> length buf > FDB_PARTITION_ENC_MAX then None
      else r_run (do {
        ver \<leftarrow> r_u8;
        if ver \<noteq> 1 then State_Monad.return None
        else do {
          x_owner_mds_id \<leftarrow> r_u32; x_state \<leftarrow> r_u8; n_subtree_path \<leftarrow> r_u16;
          bad \<leftarrow> r_failed;
          if bad \<or> n_subtree_path = 0 \<or> unat n_subtree_path > FDB_PARTITION_PATH_MAX then State_Monad.return None
          else do {
            x_subtree_path \<leftarrow> r_bytes (unat n_subtree_path);
            done \<leftarrow> r_done;
            State_Monad.return (if \<not> done \<or> 0 \<in> set x_subtree_path then None
              else Some \<lparr>pt_owner_mds_id = x_owner_mds_id, pt_state = x_state,
                           pt_subtree_path = x_subtree_path\<rparr>)
          }
        }
      }) buf)"

definition partition_fields :: "fdb_partition_val \<Rightarrow> bytes list" where
  "partition_fields v =
     [[1], fdb_le32_put (pt_owner_mds_id v), [pt_state v], le16_put (of_nat (length (pt_subtree_path v))),
      pt_subtree_path v]"

definition partition_ok :: "fdb_partition_val \<Rightarrow> bool" where
  "partition_ok v \<longleftrightarrow> pt_subtree_path v \<noteq> [] \<and> length (pt_subtree_path v) \<le> FDB_PARTITION_PATH_MAX"

interpretation partition: strict_codec fdb_partition_encode fdb_partition_decode partition_fields partition_ok
  "\<lambda>v. 0 \<notin> set (pt_subtree_path v)" FDB_PARTITION_ENC_MAX
proof (unfold_locales, goal_cases)
  case (1 v cap)
  then show ?case
  proof (cases "partition_ok v")
    case True
    then show ?thesis using w_all_bytes [of cap "partition_fields v"]
      by (auto simp: fdb_partition_encode_def partition_fields_def w_defs partition_ok_def strnlen_eq strnlen_less strnlen_0 bounded_strlen_eq)
  qed (auto simp: fdb_partition_encode_def partition_ok_def strnlen_less strnlen_0 bounded_strlen_eq not_le)
next
  case (2 v)
  then show ?case by (auto simp: fdb_partition_decode_def partition_fields_def r_run_at codec_simps partition_ok_def unat_len len16_0 sint_u64)
next
  case (3 v)
  then show ?case by (auto simp: partition_fields_def partition_ok_def)
next
  case (4 bs v)
  note d = 4 [unfolded fdb_partition_decode_def r_run_at]
  then have l: "\<not> (length bs < FDB_PARTITION_ENC_FIXED \<or> length bs > FDB_PARTITION_ENC_MAX)" by (auto split: if_splits)
  obtain a1 r1 where r1: "bs = a1 # r1" using l  by (cases bs) auto
  obtain a2 r2 where r2: "r1 = fdb_le32_put a2 @ r2" using split_u32 [of r1] l r1 by auto
  obtain a3 r3 where r3: "r2 = a3 # r3" using l r1 r2 by (cases r2) auto
  obtain a4 r4 where r4: "r3 = le16_put a4 @ r4" using split_u16 [of r3] l r1 r2 r3 by auto
  have q5: "length r4 = unat a4" using d l r1 r2 r3 r4
    by (auto simp: codec_simps run_r_gen run_r_bytes_gen r_str_body_def split: if_splits)
  obtain a5 r5 where r5: "r4 = a5 @ r5" "length a5 = unat a4" using split_bytes [of "unat a4" r4] q5 by auto
  have z: "r5 = []" using l q5 r1 r2 r3 r4 r5 by auto
  show ?case using d l q5 r1 r2 r3 r4 r5 z
    by (auto simp: codec_simps partition_fields_def partition_ok_def unat_len r_str_body_def byte_bool len16_nz split: if_splits)
qed

end
