(* ===== verification/Fdb_Layout.thy ===== *)
theory Fdb_Layout
  imports Fdb_Rows
begin

text \<open>
  The two coordination rows of \<^verbatim>\<open>src/catalogue/fdb_codec.c\<close> whose variable part travels beside the fixed one: layout
  state with its list of data servers, and the duplicate-request slot with its cached reply. A pointer that may be NULL
  is an option. \<open>fdb_layout_ds_contains\<close> scans a stored row without materialising it.
\<close>

abbreviation FDB_LAYOUT_DS_MAX :: nat where "FDB_LAYOUT_DS_MAX \<equiv> 4096"
abbreviation FDB_LAYOUT_ENC_FIXED :: nat where "FDB_LAYOUT_ENC_FIXED \<equiv> 49"
abbreviation FDB_LAYOUT_ENC_MAX :: nat where "FDB_LAYOUT_ENC_MAX \<equiv> FDB_LAYOUT_ENC_FIXED + 4 * FDB_LAYOUT_DS_MAX"
abbreviation FDB_SLOT_ENC_FIXED :: nat where "FDB_SLOT_ENC_FIXED \<equiv> 17"
abbreviation FDB_SLOT_REPLY_MAX :: nat where "FDB_SLOT_REPLY_MAX \<equiv> 65536"
abbreviation FDB_SLOT_ENC_MAX :: nat where "FDB_SLOT_ENC_MAX \<equiv> FDB_SLOT_ENC_FIXED + FDB_SLOT_REPLY_MAX"

section \<open>Layout rows\<close>

record fdb_layout_hdr =
  lh_clientid :: u64
  lh_fileid :: u64
  lh_offset :: u64
  lh_length :: u64
  lh_iomode :: u32
  lh_seqid :: u32
  lh_grant_owner_mds_id :: u32
  lh_ds_count :: u32

definition fdb_layout_encode :: "fdb_layout_hdr \<Rightarrow> u32 list option \<Rightarrow> nat \<Rightarrow> bytes option" where
  "fdb_layout_encode h ds_ids cap =
     (if unat (lh_ds_count h) > FDB_LAYOUT_DS_MAX \<or> lh_ds_count h > 0 \<and> ds_ids = None then None
      else w_all cap
        ([w_u8 1, w_u64 (lh_clientid h), w_u64 (lh_fileid h), w_u32 (lh_iomode h), w_u64 (lh_offset h),
          w_u64 (lh_length h), w_u32 (lh_seqid h), w_u32 (lh_grant_owner_mds_id h), w_u32 (lh_ds_count h)]
         @ map (\<lambda>i. w_u32 (the ds_ids ! i)) [0..<unat (lh_ds_count h)]))"

definition r_left :: "(rcur, nat) state" where
  "r_left = State (\<lambda>r. (length (r_buf r) - r_pos r, r))"

definition layout_hdr_read :: "(rcur, fdb_layout_hdr option) state" where
  "layout_hdr_read = do {
     ver \<leftarrow> r_u8;
     if ver \<noteq> 1 then State_Monad.return None
     else do {
       clientid \<leftarrow> r_u64; fileid \<leftarrow> r_u64; iomode \<leftarrow> r_u32; offset \<leftarrow> r_u64; len \<leftarrow> r_u64;
       seqid \<leftarrow> r_u32; owner \<leftarrow> r_u32; ds_count \<leftarrow> r_u32;
       bad \<leftarrow> r_failed; left \<leftarrow> r_left;
       State_Monad.return (if bad \<or> unat ds_count > FDB_LAYOUT_DS_MAX \<or> left \<noteq> unat ds_count * 4 then None
         else Some \<lparr>lh_clientid = clientid, lh_fileid = fileid, lh_offset = offset, lh_length = len,
                    lh_iomode = iomode, lh_seqid = seqid, lh_grant_owner_mds_id = owner, lh_ds_count = ds_count\<rparr>)
     }
   }"

text \<open>The argument \<^term>\<open>ds_cap\<close> is \<^term>\<open>None\<close> when the caller passes no array for the list.\<close>

definition fdb_layout_decode :: "nat option \<Rightarrow> bytes \<Rightarrow> (fdb_layout_hdr \<times> u32 list) option" where
  "fdb_layout_decode ds_cap buf =
     (if length buf < FDB_LAYOUT_ENC_FIXED \<or> length buf > FDB_LAYOUT_ENC_MAX then None
      else r_run (do {
        hdr \<leftarrow> layout_hdr_read;
        case hdr of
          None \<Rightarrow> State_Monad.return None
        | Some h \<Rightarrow>
            (case ds_cap of
               None \<Rightarrow> State_Monad.return (Some (h, []))
             | Some cap \<Rightarrow>
                 if unat (lh_ds_count h) > cap then State_Monad.return None
                 else do {
                   ids \<leftarrow> State_Monad.traverse_list (\<lambda>_. r_u32) [0..<unat (lh_ds_count h)];
                   done \<leftarrow> r_done;
                   State_Monad.return (if \<not> done then None else Some (h, ids))
                 })
      }) buf)"

fun ds_scan :: "nat \<Rightarrow> u32 \<Rightarrow> (rcur, bool) state" where
  "ds_scan 0 ds_id = State_Monad.return False"
| "ds_scan (Suc n) ds_id = do {
     x \<leftarrow> r_u32;
     if x = ds_id then do { bad \<leftarrow> r_failed; State_Monad.return (\<not> bad) }
     else ds_scan n ds_id
   }"

definition fdb_layout_ds_contains :: "bytes \<Rightarrow> u32 \<Rightarrow> bool" where
  "fdb_layout_ds_contains buf ds_id \<longleftrightarrow>
     \<not> (length buf < FDB_LAYOUT_ENC_FIXED \<or> length buf > FDB_LAYOUT_ENC_MAX) \<and>
     fst (run_state (do {
        hdr \<leftarrow> layout_hdr_read;
        case hdr of
          None \<Rightarrow> State_Monad.return False
        | Some h \<Rightarrow> ds_scan (unat (lh_ds_count h)) ds_id
      }) \<lparr>r_buf = buf, r_pos = 0, r_fail = False\<rparr>)"

subsection \<open>The list of data servers\<close>

lemma run_r_left [codec_simps]: "run_state r_left (r_at pre rest) = (length rest, r_at pre rest)"
  by (simp add: r_left_def r_at_def)

lemma run_ids:
  "run_state (State_Monad.traverse_list (\<lambda>_. r_u32) xs) (r_at pre (concat (map fdb_le32_put ys))) =
     (ys, r_at (pre @ concat (map fdb_le32_put ys)) [])" if "length xs = length ys"
  using that by (induction xs ys arbitrary: pre rule: list_induct2) (simp_all add: codec_simps)

lemma run_ds_scan:
  "fst (run_state (ds_scan (length ys) d) (r_at pre (concat (map fdb_le32_put ys)))) \<longleftrightarrow> d \<in> set ys"
  by (induction ys arbitrary: pre) (auto simp: codec_simps)

lemma split_ids: "length r = n * 4 \<Longrightarrow> \<exists>ys. length ys = n \<and> r = concat (map fdb_le32_put ys)"
proof (induction n arbitrary: r)
  case (Suc n)
  then obtain x r' where r: "r = fdb_le32_put x @ r'" "length r' = n * 4" using split_u32 [of r] by auto
  then obtain ys where "length ys = n" "r' = concat (map fdb_le32_put ys)" using Suc.IH by blast
  then show ?case using r by (intro exI [of _ "x # ys"]) simp
qed simp

lemma length_ids [simp]: "length (concat (map fdb_le32_put ys)) = 4 * length ys"
  by (induction ys) simp_all

definition layout_fields :: "fdb_layout_hdr \<times> u32 list \<Rightarrow> bytes list" where
  "layout_fields v = (case v of (h, ids) \<Rightarrow>
     [[1], fdb_le64_put (lh_clientid h), fdb_le64_put (lh_fileid h), fdb_le32_put (lh_iomode h),
      fdb_le64_put (lh_offset h), fdb_le64_put (lh_length h), fdb_le32_put (lh_seqid h),
      fdb_le32_put (lh_grant_owner_mds_id h), fdb_le32_put (lh_ds_count h)] @ map fdb_le32_put ids)"

text \<open>The parse of a row: the header and the list that follows it.\<close>

lemma layout_hdr_run:
  "run_state layout_hdr_read (r_at [] (concat (layout_fields (h, ids)))) =
     (if unat (lh_ds_count h) > FDB_LAYOUT_DS_MAX \<or> length ids \<noteq> unat (lh_ds_count h) then None else Some h,
      r_at (concat (layout_fields (h, []))) (concat (map fdb_le32_put ids)))"
  by (auto simp: layout_hdr_read_def layout_fields_def codec_simps)

lemma layout_split:
  assumes "length bs \<ge> FDB_LAYOUT_ENC_FIXED"
  obtains ver r1 where "bs = ver # r1" "ver \<noteq> 1"
  | h r where "bs = concat (layout_fields (h, [])) @ r"
proof -
  obtain ver r1 where r1: "bs = ver # r1" using assms by (cases bs) auto
  obtain a2 r2 where r2: "r1 = fdb_le64_put a2 @ r2" using split_u64 [of r1] assms r1 by auto
  obtain a3 r3 where r3: "r2 = fdb_le64_put a3 @ r3" using split_u64 [of r2] assms r1 r2 by auto
  obtain a4 r4 where r4: "r3 = fdb_le32_put a4 @ r4" using split_u32 [of r3] assms r1 r2 r3 by auto
  obtain a5 r5 where r5: "r4 = fdb_le64_put a5 @ r5" using split_u64 [of r4] assms r1 r2 r3 r4 by auto
  obtain a6 r6 where r6: "r5 = fdb_le64_put a6 @ r6" using split_u64 [of r5] assms r1 r2 r3 r4 r5 by auto
  obtain a7 r7 where r7: "r6 = fdb_le32_put a7 @ r7" using split_u32 [of r6] assms r1 r2 r3 r4 r5 r6 by auto
  obtain a8 r8 where r8: "r7 = fdb_le32_put a8 @ r8" using split_u32 [of r7] assms r1 r2 r3 r4 r5 r6 r7 by auto
  obtain a9 r9 where r9: "r8 = fdb_le32_put a9 @ r9" using split_u32 [of r8] assms r1 r2 r3 r4 r5 r6 r7 r8 by auto
  show ?thesis
  proof (cases "ver = 1")
    case True
    then show ?thesis
      using that(2) [of "\<lparr>lh_clientid = a2, lh_fileid = a3, lh_offset = a5, lh_length = a6, lh_iomode = a4, lh_seqid = a7,
          lh_grant_owner_mds_id = a8, lh_ds_count = a9\<rparr>" r9] r1 r2 r3 r4 r5 r6 r7 r8 r9
      by (simp add: layout_fields_def)
  qed (use that(1) r1 in auto)
qed

text \<open>Either the header does not parse, and every reader refuses the row, or the row is a header and its list.\<close>

lemma layout_parse:
  assumes "\<not> (length bs < FDB_LAYOUT_ENC_FIXED \<or> length bs > FDB_LAYOUT_ENC_MAX)"
  obtains (bad) "fst (run_state layout_hdr_read (r_at [] bs)) = None"
  | (row) h ids where "bs = concat (layout_fields (h, ids))" "length ids = unat (lh_ds_count h)" "length ids \<le> FDB_LAYOUT_DS_MAX"
proof -
  have l: "length bs \<ge> FDB_LAYOUT_ENC_FIXED" using assms by simp
  show ?thesis
  proof (rule layout_split [OF l])
    fix ver r1 assume "bs = ver # r1" "ver \<noteq> 1"
    then show ?thesis using bad by (simp add: layout_hdr_read_def codec_simps)
  next
    fix h r assume bs: "bs = concat (layout_fields (h, [])) @ r"
    show ?thesis
    proof (cases "length r = unat (lh_ds_count h) * 4 \<and> unat (lh_ds_count h) \<le> FDB_LAYOUT_DS_MAX")
      case True
      then obtain ids where "length ids = unat (lh_ds_count h)" "r = concat (map fdb_le32_put ids)" using split_ids by blast
      then show ?thesis using row [of h ids] bs True by (simp add: layout_fields_def)
    next
      case False
      then have "fst (run_state layout_hdr_read (r_at [] bs)) = None"
        using bs by (auto simp: layout_fields_def layout_hdr_read_def codec_simps run_r_gen)
      then show ?thesis by (rule bad)
    qed
  qed
qed

lemma layout_hdr_row:
  assumes "length ids = unat (lh_ds_count h)" "length ids \<le> FDB_LAYOUT_DS_MAX"
  shows "run_state layout_hdr_read (r_at [] (concat (layout_fields (h, ids)))) =
     (Some h, r_at (concat (layout_fields (h, []))) (concat (map fdb_le32_put ids)))"
  using assms by (simp add: layout_hdr_run)

lemma length_layout: "length (concat (layout_fields (h, ids))) = FDB_LAYOUT_ENC_FIXED + 4 * length ids"
  by (simp add: layout_fields_def)

lemma layout_decode_row:
  assumes "length ids = unat (lh_ds_count h)" "length ids \<le> FDB_LAYOUT_DS_MAX"
  shows "fdb_layout_decode None (concat (layout_fields (h, ids))) = Some (h, [])"
    "fdb_layout_decode (Some cap) (concat (layout_fields (h, ids))) = (if length ids \<le> cap then Some (h, ids) else None)"
  using assms run_ids [of "[0..<unat (lh_ds_count h)]" ids]
  by (auto simp: fdb_layout_decode_def length_layout r_run_at layout_hdr_row codec_simps)

lemma layout_decode_bad:
  assumes "fst (run_state layout_hdr_read (r_at [] bs)) = None"
  shows "fdb_layout_decode c bs = None" "\<not> fdb_layout_ds_contains bs d"
  using assms by (auto simp: fdb_layout_decode_def fdb_layout_ds_contains_def r_run_at r_at_def split: prod.splits)

abbreviation layout_full :: "bytes \<Rightarrow> (fdb_layout_hdr \<times> u32 list) option" where
  "layout_full \<equiv> fdb_layout_decode (Some FDB_LAYOUT_DS_MAX)"

definition layout_ok :: "fdb_layout_hdr \<times> u32 list \<Rightarrow> bool" where
  "layout_ok v \<longleftrightarrow> unat (lh_ds_count (fst v)) \<le> FDB_LAYOUT_DS_MAX"

interpretation layout: strict_codec "\<lambda>(h, ids). fdb_layout_encode h (Some ids)" layout_full layout_fields layout_ok
  "\<lambda>(h, ids). length ids = unat (lh_ds_count h)" FDB_LAYOUT_ENC_MAX
proof (unfold_locales, goal_cases)
  case (1 v cap)
  obtain h ids where v: "v = (h, ids)" by (cases v)
  with 1 have ids: "map (\<lambda>i. w_bytes (fdb_le32_put (ids ! i))) [0..<unat (lh_ds_count h)] = map (\<lambda>x. w_bytes (fdb_le32_put x)) ids"
    by (auto simp: list_eq_iff_nth_eq)
  have "fdb_layout_encode h (Some ids) cap =
      (if unat (lh_ds_count h) > FDB_LAYOUT_DS_MAX then None else w_all cap (map w_bytes (layout_fields v)))"
    using ids v by (simp add: fdb_layout_encode_def layout_fields_def w_defs comp_def)
  then show ?case using v by (auto simp: w_all_bytes layout_ok_def)
next
  case (2 v)
  then show ?case using layout_decode_row(2) by (cases v) (auto simp: layout_ok_def)
next
  case (3 v)
  then show ?case by (cases v) (auto simp: length_layout layout_ok_def)
next
  case (4 bs v)
  then have "\<not> (length bs < FDB_LAYOUT_ENC_FIXED \<or> length bs > FDB_LAYOUT_ENC_MAX)"
    by (auto simp: fdb_layout_decode_def split: if_splits)
  then show ?case
  proof (cases rule: layout_parse)
    case bad
    then show ?thesis using 4 layout_decode_bad(1) by auto
  next
    case (row h ids)
    then show ?thesis using 4 layout_decode_row(2) [of ids h] by (auto simp: layout_ok_def)
  qed
qed

lemma layout_hdr_only: "fdb_layout_decode None bs = map_option (\<lambda>(h, ids). (h, [])) (layout_full bs)"
proof (cases "length bs < FDB_LAYOUT_ENC_FIXED \<or> length bs > FDB_LAYOUT_ENC_MAX")
  case True
  then show ?thesis by (simp add: fdb_layout_decode_def)
next
  case False
  then show ?thesis
  proof (cases rule: layout_parse)
    case bad
    then show ?thesis by (simp add: layout_decode_bad)
  next
    case (row h ids)
    then show ?thesis by (simp add: layout_decode_row)
  qed
qed

lemma layout_contains_full: "fdb_layout_ds_contains bs d \<longleftrightarrow> (\<exists>h ids. layout_full bs = Some (h, ids) \<and> d \<in> set ids)"
proof (cases "length bs < FDB_LAYOUT_ENC_FIXED \<or> length bs > FDB_LAYOUT_ENC_MAX")
  case True
  then show ?thesis by (simp add: fdb_layout_decode_def fdb_layout_ds_contains_def)
next
  case False
  then show ?thesis
  proof (cases rule: layout_parse)
    case bad
    then show ?thesis by (simp add: layout_decode_bad)
  next
    case (row h ids)
    have "fdb_layout_ds_contains bs d \<longleftrightarrow> d \<in> set ids"
      using row False run_ds_scan [of ids d "concat (layout_fields (h, []))"]
      by (simp add: fdb_layout_ds_contains_def layout_hdr_row r_at_def [of "[]", simplified, symmetric])
    then show ?thesis using row by (simp add: layout_decode_row)
  qed
qed

section \<open>Duplicate-request slots\<close>

record fdb_slot_hdr =
  sl_seq_id :: u32
  sl_last_used_ns :: u64
  sl_reply_len :: u32

definition fdb_slot_encode :: "fdb_slot_hdr \<Rightarrow> bytes option \<Rightarrow> nat \<Rightarrow> bytes option" where
  "fdb_slot_encode h reply cap =
     (if unat (sl_reply_len h) > FDB_SLOT_REPLY_MAX \<or> sl_reply_len h > 0 \<and> reply = None then None
      else w_all cap
        ([w_u8 1, w_u32 (sl_seq_id h), w_u64 (sl_last_used_ns h), w_u32 (sl_reply_len h)]
         @ (if sl_reply_len h > 0 then [w_bytes (take (unat (sl_reply_len h)) (the reply))] else [])))"

definition fdb_slot_decode :: "bytes \<Rightarrow> (fdb_slot_hdr \<times> bytes option) option" where
  "fdb_slot_decode buf =
     (if length buf < FDB_SLOT_ENC_FIXED \<or> length buf > FDB_SLOT_ENC_MAX then None
      else r_run (do {
        ver \<leftarrow> r_u8;
        if ver \<noteq> 1 then State_Monad.return None
        else do {
          seq \<leftarrow> r_u32; used \<leftarrow> r_u64; rlen \<leftarrow> r_u32;
          bad \<leftarrow> r_failed; left \<leftarrow> r_left;
          State_Monad.return (if bad \<or> unat rlen > FDB_SLOT_REPLY_MAX \<or> left \<noteq> unat rlen then None
            else Some (\<lparr>sl_seq_id = seq, sl_last_used_ns = used, sl_reply_len = rlen\<rparr>,
                       if rlen > 0 then Some (drop (length buf - left) buf) else None))
        }
      }) buf)"

definition slot_rep :: "fdb_slot_hdr \<times> bytes option \<Rightarrow> bool" where
  "slot_rep v \<longleftrightarrow> (case snd v of None \<Rightarrow> sl_reply_len (fst v) = 0
     | Some b \<Rightarrow> b \<noteq> [] \<and> length b = unat (sl_reply_len (fst v)))"

definition slot_ok :: "fdb_slot_hdr \<times> bytes option \<Rightarrow> bool" where
  "slot_ok v \<longleftrightarrow> unat (sl_reply_len (fst v)) \<le> FDB_SLOT_REPLY_MAX"

definition slot_fields :: "fdb_slot_hdr \<times> bytes option \<Rightarrow> bytes list" where
  "slot_fields v = (case v of (h, reply) \<Rightarrow>
     [[1], fdb_le32_put (sl_seq_id h), fdb_le64_put (sl_last_used_ns h), fdb_le32_put (sl_reply_len h)]
     @ (case reply of None \<Rightarrow> [] | Some b \<Rightarrow> [b]))"

lemma slot_reply_pos: "b \<noteq> [] \<Longrightarrow> length b = unat (n :: u32) \<Longrightarrow> 0 < n"
  using unat_eq_zero [of n] by (auto simp: word_neq_0_conv [symmetric])

interpretation slot: strict_codec "\<lambda>(h, reply). fdb_slot_encode h reply" fdb_slot_decode slot_fields slot_ok slot_rep FDB_SLOT_ENC_MAX
proof (unfold_locales, goal_cases)
  case (1 v cap)
  then show ?case using w_all_bytes [of cap "slot_fields v"]
    by (cases v; cases "snd v")
      (auto simp: fdb_slot_encode_def slot_fields_def slot_rep_def slot_ok_def w_defs slot_reply_pos)
next
  case (2 v)
  then show ?case
    by (cases v; cases "snd v")
      (auto simp: fdb_slot_decode_def slot_fields_def slot_rep_def slot_ok_def r_run_at codec_simps slot_reply_pos)
next
  case (3 v)
  then show ?case by (cases v; cases "snd v") (auto simp: slot_fields_def slot_rep_def slot_ok_def)
next
  case (4 bs v)
  note d = 4 [unfolded fdb_slot_decode_def r_run_at]
  then have l: "\<not> (length bs < FDB_SLOT_ENC_FIXED \<or> length bs > FDB_SLOT_ENC_MAX)" by (auto split: if_splits)
  obtain a1 r1 where r1: "bs = a1 # r1" using l by (cases bs) auto
  obtain a2 r2 where r2: "r1 = fdb_le32_put a2 @ r2" using split_u32 [of r1] l r1 by auto
  obtain a3 r3 where r3: "r2 = fdb_le64_put a3 @ r3" using split_u64 [of r2] l r1 r2 by auto
  obtain a4 r4 where r4: "r3 = fdb_le32_put a4 @ r4" using split_u32 [of r3] l r1 r2 r3 by auto
  show ?case using d l r1 r2 r3 r4
    by (auto simp: codec_simps slot_fields_def slot_rep_def slot_ok_def word_greater_zero_iff unat_eq_zero split: if_splits)
qed

end
