(* ===== verification/Fdb_Theorems.thy ===== *)
theory Fdb_Theorems
  imports Fdb_Ext Fdb_Coord Fdb_Cluster Fdb_Layout
begin

text \<open>
  The properties of the FoundationDB value codec: what is stored is what is read back, the decoders accept nothing but
  encodings, every value fits the documented size, and the rows that the open-state table hands to the catalogue
  survive storage.
\<close>

section \<open>Helpers\<close>

lemma split_in_bounds:
  assumes "inode_ok i" "inode_rep i" "fdb_inode_split i = (blob, c)"
  shows "inode_ok blob" "inode_rep blob"
  using assms by (auto simp: fdb_inode_split_def inode_ok_def inode_rep_def ts_rep_def split: if_splits)

lemma open_flight_row:
  assumes "open_state_open_begin oom ot clientid ow fileid acc den = (ot', OpenInFlight fl sid)"
  shows "orow_other (flight_row fl) = other sid" "orow_owner (flight_row fl) = ow" "length ow \<le> 128"
  using assms
  by (auto simp: open_state_open_begin_def open_state_upgrade_existing_def open_state_open_fresh_def Let_def open_row_fill_def
      split: if_splits option.splits prod.splits)

section \<open>Inodes\<close>

text \<open>C21. An inode with a legal type, handle and timestamps is stored and loaded unchanged, directories included: the blob of
  the split fits the documented buffer, decodes, and composes with the counters into the inode it came from. The
  timestamps a directory keeps as 64-bit nanoseconds must lie within their range.\<close>

theorem inode_store_load:
  assumes "inode_ok i" "inode_rep i" "ts_fits (ino_mtime i)" "ts_fits (ino_ctime i)"
  shows "case fdb_inode_split i of (blob, c) \<Rightarrow>
    \<exists>bs. fdb_inode_encode blob FDB_INODE_ENC_MAX = Some bs \<and> length bs \<le> FDB_INODE_ENC_MAX \<and>
      map_option (\<lambda>b. fdb_inode_compose b c) (fdb_inode_decode bs) = Some i"
proof -
  obtain blob c where s: "fdb_inode_split i = (blob, c)" by fastforce
  have "inode_ok blob" "inode_rep blob" using split_in_bounds [OF assms(1,2) s] .
  then obtain bs where "fdb_inode_encode blob FDB_INODE_ENC_MAX = Some bs" "length bs \<le> FDB_INODE_ENC_MAX" "fdb_inode_decode bs = Some blob"
    using inode.contract [of blob FDB_INODE_ENC_MAX] by auto
  then show ?thesis using s compose_split [OF assms(3,4) s] by auto
qed

definition w_dir :: mds_inode where
  "w_dir = \<lparr>ino_fileid = 7, ino_type = MDS_FTYPE_DIR, ino_mode = 493, ino_nlink = 3, ino_uid = 1, ino_gid = 2,
     ino_size = 0, ino_space_used = 0, ino_atime = \<lparr>tv_sec = 5, tv_nsec = 6\<rparr>, ino_mtime = \<lparr>tv_sec = -1, tv_nsec = 999999999\<rparr>,
     ino_ctime = \<lparr>tv_sec = 1700000000, tv_nsec = 1\<rparr>, ino_change = 9, ino_generation = 1, ino_flags = 0, ino_create_verf = 0,
     ino_parent_fileid = 2, ino_synth_suid = 0, ino_synth_sgid = 0, ino_stripe_count = 0, ino_stripe_unit = 0,
     ino_mirror_count = 0, ino_inline_ds_id = 0, ino_inline_fh = [1, 2, 3]\<rparr>"

lemma w_dir_in_bounds: "inode_ok w_dir" "inode_rep w_dir" "ts_fits (ino_mtime w_dir)" "ts_fits (ino_ctime w_dir)"
  by (simp_all add: w_dir_def inode_ok_def inode_rep_def ts_rep_def ts_fits_def type_ok_def sdiv_consts)

theorem inode_store_load_witness:
  "case fdb_inode_split w_dir of (blob, c) \<Rightarrow>
    \<exists>bs. fdb_inode_encode blob FDB_INODE_ENC_MAX = Some bs \<and> length bs \<le> FDB_INODE_ENC_MAX \<and>
      map_option (\<lambda>b. fdb_inode_compose b c) (fdb_inode_decode bs) = Some w_dir"
  by (rule inode_store_load [OF w_dir_in_bounds])

section \<open>Exact decoders\<close>

text \<open>C22. The decoders of 21 kinds of catalogue row accept a value exactly when the encoder writes that value for the decoded
  row: nothing corrupt, truncated or padded is read as a row, and no two values decode to the same row. Where the key
  of the row is not part of the value, the decoder takes it from the key. The rows are directory entries and
  their sequence index, stripes, garbage collection, pending removes, provisioning secrets, quotas,
  cross-shard entries and link anchors; opens, locks, delegations, clients, sessions, duplicate-request slots and
  client recovery; the two-phase commit journal, nodes and partitions.\<close>

theorem rows_exact:
  "(fdb_dirent_decode bs = Some d \<longleftrightarrow> fdb_dirent_encode d (length bs) = Some bs) \<and>
   (fdb_dirent_seq_decode bs = Some q \<longleftrightarrow> 0 \<notin> set (ds_name q) \<and> fdb_dirent_seq_encode q (length bs) = Some bs) \<and>
   (fdb_stripe_hdr_decode bs = Some sh \<longleftrightarrow> fdb_stripe_hdr_encode sh (length bs) = Some bs) \<and>
   (fdb_stripe_ent_decode bs = Some e \<longleftrightarrow> fdb_stripe_ent_encode e (length bs) = Some bs) \<and>
   (fdb_gc_decode bs = Some g \<longleftrightarrow> gc_seq g = 0 \<and> fdb_gc_encode g (length bs) = Some bs) \<and>
   (fdb_remove_pending_decode bs = Some rp \<longleftrightarrow>
     (rp_remove_seq rp = 0 \<and> 0 \<notin> set (rp_name rp)) \<and> fdb_remove_pending_encode rp (length bs) = Some bs) \<and>
   (fdb_ds_provision_decode bs = Some dp \<longleftrightarrow> fdb_ds_provision_encode dp (length bs) = Some bs) \<and>
   (fdb_quota_rule_decode bs = Some qr \<longleftrightarrow> fdb_quota_rule_encode qr (length bs) = Some bs) \<and>
   (fdb_quota_usage_decode bs = Some u \<longleftrightarrow>
     (INT64_MIN \<le> qu_grace_start_bytes u \<and> qu_grace_start_bytes u \<le> INT64_MAX \<and>
      INT64_MIN \<le> qu_grace_start_inodes u \<and> qu_grace_start_inodes u \<le> INT64_MAX) \<and> fdb_quota_usage_encode u (length bs) = Some bs) \<and>
   (fdb_ext_dirent_decode bs = Some x \<longleftrightarrow> fdb_ext_dirent_encode x (length bs) = Some bs) \<and>
   (fdb_link_anchor_decode bs = Some a \<longleftrightarrow> 0 \<notin> set (la_name a) \<and> fdb_link_anchor_encode a (length bs) = Some bs) \<and>
   (fdb_open_decode oth bs = Some r1 \<longleftrightarrow> orow_other r1 = oth \<and> fdb_open_encode r1 (length bs) = Some bs) \<and>
   (fdb_lock_decode f i bs = Some r2 \<longleftrightarrow>
     (row_fileid r2 = f \<and> row_lock_id r2 = i \<and> length (row_stateid_other r2) = 12 \<and> length (row_open_other r2) = 12) \<and>
     fdb_lock_encode r2 (length bs) = Some bs) \<and>
   (fdb_deleg_decode oth bs = Some r3 \<longleftrightarrow> dr_stateid_other r3 = oth \<and> fdb_deleg_encode r3 (length bs) = Some bs) \<and>
   (fdb_client_decode c bs = Some r4 \<longleftrightarrow>
     (cr_clientid r4 = c \<and> length (cr_verifier r4) = 8) \<and> fdb_client_encode r4 (length bs) = Some bs) \<and>
   (fdb_session_decode s bs = Some r5 \<longleftrightarrow> sr_session_id r5 = s \<and> fdb_session_encode r5 (length bs) = Some bs) \<and>
   (fdb_slot_decode bs = Some (h, reply) \<longleftrightarrow> slot_rep (h, reply) \<and> fdb_slot_encode h reply (length bs) = Some bs) \<and>
   (fdb_recovery_decode bs = Some r6 \<longleftrightarrow> length (rv_verifier r6) = 8 \<and> fdb_recovery_encode r6 (length bs) = Some bs) \<and>
   (fdb_journal_decode pay_max t r bs = Some j \<longleftrightarrow>
     (jr_txn_id j = t \<and> jr_role j = r \<and> 0 \<notin> set (jr_src_name j) \<and> 0 \<notin> set (jr_dst_name j) \<and> length (jr_payload j) < 4294967296) \<and>
     fdb_journal_encode pay_max j (length bs) = Some bs) \<and>
   (fdb_node_decode bs = Some n \<longleftrightarrow> (0 \<notin> set (nd_sw_version n) \<and> 0 \<notin> set (nd_hostname n)) \<and> fdb_node_encode n (length bs) = Some bs) \<and>
   (fdb_partition_decode bs = Some p \<longleftrightarrow> 0 \<notin> set (pt_subtree_path p) \<and> fdb_partition_encode p (length bs) = Some bs)"
  using slot.exact [of bs "(h, reply)"]
  by (simp only: dirent.exact dirent_seq.exact stripe_hdr.exact stripe_ent.exact gc.exact remove_pending.exact
      ds_provision.exact quota_rule.exact quota_usage.exact ext_dirent.exact link_anchor.exact open_value.exact lock_value.exact
      deleg.exact client.exact session.exact recovery.exact journal.exact node.exact partition.exact prod.case conj_assoc simp_thms)

section \<open>Layout rows\<close>

text \<open>C23. The scan of a stored layout row for a data server agrees with decoding the row and looking in its list, on
  every value; and reading the header alone accepts exactly the rows that the full decoder accepts.\<close>

theorem layout_scan_agrees:
  "(fdb_layout_ds_contains bs d \<longleftrightarrow> (\<exists>h ids. fdb_layout_decode (Some FDB_LAYOUT_DS_MAX) bs = Some (h, ids) \<and> d \<in> set ids)) \<and>
   (fdb_layout_decode None bs = map_option (\<lambda>(h, ids). (h, [])) (fdb_layout_decode (Some FDB_LAYOUT_DS_MAX) bs)) \<and>
   (fdb_layout_decode (Some FDB_LAYOUT_DS_MAX) bs = Some (h, ids) \<longleftrightarrow>
     length ids = unat (lh_ds_count h) \<and> fdb_layout_encode h (Some ids) (length bs) = Some bs)"
  using layout.exact [of bs "(h, ids)"] by (simp only: layout_contains_full layout_hdr_only prod.case simp_thms)

section \<open>Registry rows\<close>

text \<open>A data-server record whose three strings are NUL-terminated within their arrays is stored within the documented
  size and read back unchanged; a record with an unterminated string is refused.\<close>

lemma ds_info_contract:
  assumes "0 \<notin> set (di_addr d)" "0 \<notin> set (di_host d)" "0 \<notin> set (di_export_path d)"
  shows "if length (di_addr d) < 256 \<and> length (di_host d) < 256 \<and> length (di_export_path d) < 256
    then \<exists>bs. fdb_ds_info_encode d FDB_DS_INFO_ENC_MAX = Some bs \<and> length bs \<le> FDB_DS_INFO_ENC_MAX \<and> fdb_ds_info_decode bs = Some d
    else fdb_ds_info_encode d FDB_DS_INFO_ENC_MAX = None"
  using ds_info.contract [of d, OF _ order.refl] assms by (simp add: ds_info_ok_def)

section \<open>What an OPEN persists\<close>

text \<open>C24. The row that a first OPEN or a re-OPEN hands to the catalogue always encodes, and reading it back under the
  stateid that the OPEN returns gives the row itself.\<close>

theorem open_row_persists:
  assumes "open_state_open_begin oom ot clientid ow fileid acc den = (ot', OpenInFlight fl sid)"
  shows "\<exists>bs. fdb_open_encode (flight_row fl) FDB_OPEN_ENC_MAX = Some bs \<and> fdb_open_decode (other sid) bs = Some (flight_row fl)"
  using open_value.contract [of "flight_row fl" "other sid" FDB_OPEN_ENC_MAX] open_flight_row [OF assms] by (auto simp: open_value_ok_def)

definition w_ot :: open_state_table where
  "w_ot = open_state_table_set_cat (open_state_table_init_ex 7 2 2 1 1000) True 3"

definition w_open_row :: open_row where
  "w_open_row = \<lparr>orow_other = snd (make_stateid_other w_ot), orow_seqid = 1, orow_clientid = 1, orow_fileid = 9, orow_access = 1,
     orow_deny = 0, orow_owner = [65], orow_mds_id = 7, orow_boot_epoch = 3\<rparr>"

theorem open_row_persists_witness:
  "\<exists>bs. fdb_open_encode w_open_row FDB_OPEN_ENC_MAX = Some bs \<and> fdb_open_decode (orow_other w_open_row) bs = Some w_open_row"
proof -
  have "snd (open_state_open_begin {} w_ot 1 [65] 9 1 0) =
      OpenInFlight (Fresh w_open_row) \<lparr>seqid = 1, other = orow_other w_open_row\<rparr>"
    by code_simp
  then obtain ot' where "open_state_open_begin {} w_ot 1 [65] 9 1 0 =
      (ot', OpenInFlight (Fresh w_open_row) \<lparr>seqid = 1, other = orow_other w_open_row\<rparr>)"
    by (metis surjective_pairing)
  then show ?thesis using open_row_persists by fastforce
qed

section \<open>Refused rows\<close>

text \<open>In a buffer of the documented size an encoder refuses a row exactly when a field is out of the documented
  bounds (type, name and handle lengths, counts, nanoseconds), so no row within bounds is ever lost for want of space.\<close>

lemma rows_refused_iff_out_of_bounds:
  "(inode_rep v1 \<and> fdb_inode_encode v1 FDB_INODE_ENC_MAX = None \<longleftrightarrow> inode_rep v1 \<and> \<not> inode_ok v1) \<and>
   (0 \<notin> set (ds_name v2) \<and> fdb_dirent_seq_encode v2 FDB_DIRENT_SEQ_ENC_MAX = None \<longleftrightarrow> 0 \<notin> set (ds_name v2) \<and> \<not> dirent_seq_ok v2) \<and>
   (fdb_stripe_hdr_encode v3 FDB_STRIPE_HDR_ENC_SIZE = None \<longleftrightarrow> \<not> stripe_hdr_ok v3) \<and>
   (fdb_stripe_ent_encode v4 FDB_STRIPE_ENT_ENC_MAX = None \<longleftrightarrow> \<not> stripe_ent_ok v4) \<and>
   (gc_seq v5 = 0 \<and> fdb_gc_encode v5 FDB_GC_ENC_MAX = None \<longleftrightarrow> gc_seq v5 = 0 \<and> \<not> gc_ok v5) \<and>
   ((rp_remove_seq v6 = 0 \<and> 0 \<notin> set (rp_name v6)) \<and> fdb_remove_pending_encode v6 FDB_REMOVE_PENDING_ENC_MAX = None \<longleftrightarrow> (rp_remove_seq v6 = 0 \<and> 0 \<notin> set (rp_name v6)) \<and> \<not> remove_pending_ok v6) \<and>
   (fdb_ds_provision_encode v7 FDB_DS_PROVISION_ENC_MAX = None \<longleftrightarrow> \<not> ds_provision_ok v7) \<and>
   (0 \<notin> set (la_name v8) \<and> fdb_link_anchor_encode v8 FDB_LINK_ANCHOR_ENC_MAX = None \<longleftrightarrow> 0 \<notin> set (la_name v8) \<and> \<not> link_anchor_ok v8) \<and>
   (orow_other v9 = oth \<and> fdb_open_encode v9 FDB_OPEN_ENC_MAX = None \<longleftrightarrow> orow_other v9 = oth \<and> \<not> open_value_ok v9) \<and>
   ((cr_clientid v10 = c \<and> length (cr_verifier v10) = 8) \<and> fdb_client_encode v10 FDB_CLIENT_ENC_MAX = None \<longleftrightarrow> (cr_clientid v10 = c \<and> length (cr_verifier v10) = 8) \<and> \<not> client_ok v10) \<and>
   (length (rv_verifier v11) = 8 \<and> fdb_recovery_encode v11 FDB_RECOVERY_ENC_MAX = None \<longleftrightarrow> length (rv_verifier v11) = 8 \<and> \<not> recovery_ok v11) \<and>
   ((0 \<notin> set (nd_sw_version v12) \<and> 0 \<notin> set (nd_hostname v12)) \<and> fdb_node_encode v12 FDB_NODE_ENC_MAX = None \<longleftrightarrow> (0 \<notin> set (nd_sw_version v12) \<and> 0 \<notin> set (nd_hostname v12)) \<and> \<not> node_ok v12) \<and>
   (0 \<notin> set (pt_subtree_path v13) \<and> fdb_partition_encode v13 FDB_PARTITION_ENC_MAX = None \<longleftrightarrow> 0 \<notin> set (pt_subtree_path v13) \<and> \<not> partition_ok v13)"
  using inode.refused [of v1] dirent_seq.refused [of v2] stripe_hdr.refused [of v3] stripe_ent.refused [of v4] gc.refused [of v5] remove_pending.refused [of v6] ds_provision.refused [of v7] link_anchor.refused [of v8] open_value.refused [of v9 oth] client.refused [of v10 c] recovery.refused [of v11] node.refused [of v12] partition.refused [of v13]
  by (simp only: simp_thms)

end
