(* ===== verification/Session_State.thy ===== *)
theory Session_State
  imports Open_State Lock_State
begin

text \<open>
  NFSv4.1 clients and sessions, \<^verbatim>\<open>src/mds/session.c\<close> and \<^verbatim>\<open>include/session.h\<close>: EXCHANGE_ID, CREATE_SESSION, SEQUENCE with
  the duplicate-request cache, DESTROY_SESSION, DESTROY_CLIENTID, RECLAIM_COMPLETE, connection binding, callback
  enumeration and the lease reaper.

  Clients and sessions live in two heaps; the three hash tables are functions from bucket numbers to chains of addresses,
  and the session list of a client is the list of its addresses, newest first. Clock values, allocation failures, the
  random nonce, connections and the rows of the recovery table are arguments. The stripe locks do not appear:
  an operation that links, unlinks or frees holds every stripe, the others update fields of one session and the renewal time
  of its client, so operations are atomic steps. Only the reaper finishes the clients it unlinked after it has released the
  stripes; its scan and each clean-up are steps of their own.
\<close>

abbreviation SESSION_MAX_SLOTS :: u32 where "SESSION_MAX_SLOTS \<equiv> 64"
abbreviation SESSION_FORE_SLOTS_CEILING :: u32 where "SESSION_FORE_SLOTS_CEILING \<equiv> 512"
abbreviation CO_OWNERID_MAX :: nat where "CO_OWNERID_MAX \<equiv> 1024"
abbreviation SESSION_FORE_CONNS_MAX :: nat where "SESSION_FORE_CONNS_MAX \<equiv> 16"
abbreviation SESSION_DEFAULT_LEASE_SEC :: u32 where "SESSION_DEFAULT_LEASE_SEC \<equiv> 90"
abbreviation SESSION_DEFAULT_BUCKETS :: u32 where "SESSION_DEFAULT_BUCKETS \<equiv> 65536"
abbreviation EXCHGID4_FLAG_UPD_CONFIRMED_REC_A :: u32 where "EXCHGID4_FLAG_UPD_CONFIRMED_REC_A \<equiv> 0x40000000"
abbreviation EID_RES_FLAGS :: u32 where "EID_RES_FLAGS \<equiv> 0x00020001"
abbreviation SESSION_EID_OK :: int where "SESSION_EID_OK \<equiv> 0"
abbreviation SESSION_EID_RESOURCE :: int where "SESSION_EID_RESOURCE \<equiv> -1"
abbreviation SESSION_EID_NOENT :: int where "SESSION_EID_NOENT \<equiv> -2"
abbreviation SESSION_EID_NOT_SAME :: int where "SESSION_EID_NOT_SAME \<equiv> -3"
abbreviation SESSION_EID_PERM :: int where "SESSION_EID_PERM \<equiv> -4"
abbreviation SERVER_MAX_REQUEST_SIZE :: u32 where "SERVER_MAX_REQUEST_SIZE \<equiv> 1048576"
abbreviation SERVER_MAX_OPERATIONS :: u32 where "SERVER_MAX_OPERATIONS \<equiv> 64"
abbreviation SERVER_MAX_RESPONSE_SIZE :: u32 where "SERVER_MAX_RESPONSE_SIZE \<equiv> 262144"
abbreviation REAPER_ORPHAN_MAX :: nat where "REAPER_ORPHAN_MAX \<equiv> 256"

type_synonym conn = nat

section \<open>Data\<close>

record nfs4_slot =
  slot_seq_id :: u32
  slot_in_use :: bool
  slot_cached_reply :: "bytes option"

record nfs4_cb_sec =
  cbs_flavor :: u32
  cbs_stamp :: u32
  cbs_uid :: u32
  cbs_gid :: u32
  cbs_machname :: bytes
  cbs_gids :: "u32 list"

record nfs4_session =
  se_id :: bytes
  se_clientid :: u64
  se_owner :: "ptr option"
  se_slots :: "nfs4_slot list"
  se_minorversion :: u32
  se_max_request_size :: u32
  se_max_response_size :: u32
  se_max_response_size_cached :: u32
  se_max_operations :: u32
  se_cb_prog :: u32
  se_cb_sec_flavor :: u32
  se_cb_sec :: nfs4_cb_sec
  se_cb_conn :: "conn option"
  se_cb_slots :: "nfs4_slot list"
  se_fore_conns :: "conn list"
  se_fore_conn_ring :: u32

text \<open>The cached CREATE_SESSION result (the \<^verbatim>\<open>last_cs_*\<close> fields; absent until \<^verbatim>\<open>last_cs_valid\<close> is set).\<close>

record cs_result =
  cs_session_id :: bytes
  cs_fore_slots :: u32
  cs_back_slots :: u32
  cs_max_request_size :: u32
  cs_max_operations :: u32

record nfs4_client =
  cl_clientid :: u64
  cl_co_ownerid :: bytes
  cl_verifier :: bytes
  cl_confirmed :: bool
  cl_last_renewed :: int
  cl_create_seq :: u32
  cl_auth_flavor :: u32
  cl_cred_uid :: u32
  cl_cred_gid :: u32
  cl_sessions :: "ptr list"
  cl_reclaim_complete_done :: bool
  cl_last_cs :: "cs_result option"
  cl_superseded_clientid :: u64

text \<open>The calls that reach the recovery and layout tables, through the commit queue or the catalogue.\<close>

datatype rec_via = ViaCq | ViaCat
datatype rec_call = RecPut rec_via u64 bytes bytes | RecDel rec_via u64 | LayoutDelAll u64

datatype sess_alloc = A_client | A_session | A_slots | A_cb_slots | A_reply

record session_table =
  clients :: "ptr \<rightharpoonup> nfs4_client"
  sessions :: "ptr \<rightharpoonup> nfs4_session"
  st_next :: ptr
  client_hash :: "u32 \<Rightarrow> ptr list"
  owner_hash :: "u32 \<Rightarrow> ptr list"
  session_hash :: "u32 \<Rightarrow> ptr list"
  client_buckets :: u32
  owner_buckets :: u32
  session_buckets :: u32
  next_clientid :: u64
  next_session_seq :: u64
  restart_nonce :: u64
  st_mds_id :: u32
  lease_time_sec :: u32
  max_fore_slots :: u32
  st_cq :: bool
  st_cat :: bool
  st_calls :: "rec_call list"
  st_ot :: "open_state_table option"
  st_lt :: "lock_table option"

section \<open>Hashing\<close>

definition fnv1a :: "bytes \<Rightarrow> u32" where
  "fnv1a bs = foldl (\<lambda>h b. (h XOR ucast b) * 16777619) 2166136261 bs"

definition session_id_shard :: "bytes \<Rightarrow> u32" where
  "session_id_shard sid = fnv1a (take 8 sid) mod 16"

definition hash_clientid :: "u32 \<Rightarrow> u64 \<Rightarrow> u32" where
  "hash_clientid buckets clientid = ucast (os_mix64 clientid mod ucast buckets)"

definition hash_session_id :: "u32 \<Rightarrow> bytes \<Rightarrow> u32" where
  "hash_session_id buckets sid = ucast (os_mix64 (le_load (take 8 sid)) mod ucast buckets)"

definition hash_ownerid :: "u32 \<Rightarrow> bytes \<Rightarrow> u32" where
  "hash_ownerid buckets owner = fnv1a owner mod buckets"

abbreviation cl_bucket :: "session_table \<Rightarrow> nfs4_client \<Rightarrow> u32" where
  "cl_bucket st c \<equiv> hash_clientid (client_buckets st) (cl_clientid c)"

abbreviation ow_bucket :: "session_table \<Rightarrow> nfs4_client \<Rightarrow> u32" where
  "ow_bucket st c \<equiv> hash_ownerid (owner_buckets st) (cl_co_ownerid c)"

abbreviation se_bucket :: "session_table \<Rightarrow> nfs4_session \<Rightarrow> u32" where
  "se_bucket st s \<equiv> hash_session_id (session_buckets st) (se_id s)"

section \<open>Lookup\<close>

abbreviation client :: "session_table \<Rightarrow> ptr \<Rightarrow> nfs4_client" where
  "client st p \<equiv> the (clients st p)"

abbreviation session :: "session_table \<Rightarrow> ptr \<Rightarrow> nfs4_session" where
  "session st p \<equiv> the (sessions st p)"

definition find_client_by_id :: "session_table \<Rightarrow> u64 \<Rightarrow> ptr option" where
  "find_client_by_id st clientid =
     chain_find (clients st) (\<lambda>c. cl_clientid c = clientid) (client_hash st (hash_clientid (client_buckets st) clientid))"

definition find_client_by_owner :: "session_table \<Rightarrow> bytes \<Rightarrow> ptr option" where
  "find_client_by_owner st owner =
     chain_find (clients st) (\<lambda>c. cl_co_ownerid c = owner) (owner_hash st (hash_ownerid (owner_buckets st) owner))"

definition find_session :: "session_table \<Rightarrow> bytes \<Rightarrow> ptr option" where
  "find_session st sid =
     chain_find (sessions st) (\<lambda>s. se_id s = sid) (session_hash st (hash_session_id (session_buckets st) sid))"

section \<open>Primitives\<close>

definition upd_client :: "session_table \<Rightarrow> ptr \<Rightarrow> (nfs4_client \<Rightarrow> nfs4_client) \<Rightarrow> session_table" where
  "upd_client st p f = st\<lparr>clients := (clients st)(p \<mapsto> f (client st p))\<rparr>"

definition upd_session :: "session_table \<Rightarrow> ptr \<Rightarrow> (nfs4_session \<Rightarrow> nfs4_session) \<Rightarrow> session_table" where
  "upd_session st p f = st\<lparr>sessions := (sessions st)(p \<mapsto> f (session st p))\<rparr>"

definition session_note_fore_conn_locked :: "conn option \<Rightarrow> nfs4_session \<Rightarrow> nfs4_session" where
  "session_note_fore_conn_locked conn s =
     (case conn of
        None \<Rightarrow> s
      | Some k \<Rightarrow>
          if k \<in> set (se_fore_conns s) then s
          else if length (se_fore_conns s) < SESSION_FORE_CONNS_MAX then s\<lparr>se_fore_conns := se_fore_conns s @ [k]\<rparr>
          else s\<lparr>se_fore_conns := (se_fore_conns s)[unat (se_fore_conn_ring s) mod SESSION_FORE_CONNS_MAX := k],
                 se_fore_conn_ring := se_fore_conn_ring s + 1\<rparr>)"

definition session_fore_conn_bound_locked :: "nfs4_session \<Rightarrow> conn \<Rightarrow> bool" where
  "session_fore_conn_bound_locked s conn \<longleftrightarrow> conn \<in> set (se_fore_conns s)"

definition owner_unhash :: "session_table \<Rightarrow> ptr \<Rightarrow> session_table" where
  "owner_unhash st p =
     (let b = ow_bucket st (client st p)
      in st\<lparr>owner_hash := (owner_hash st)(b := chain_unlink p (owner_hash st b))\<rparr>)"

definition unhash_client :: "session_table \<Rightarrow> ptr \<Rightarrow> session_table" where
  "unhash_client st p =
     (let b = cl_bucket st (client st p)
      in owner_unhash (st\<lparr>client_hash := (client_hash st)(b := chain_unlink p (client_hash st b))\<rparr>) p)"

definition unhash_session :: "session_table \<Rightarrow> ptr \<Rightarrow> session_table" where
  "unhash_session st p =
     (let b = se_bucket st (session st p)
      in st\<lparr>session_hash := (session_hash st)(b := chain_unlink p (session_hash st b))\<rparr>)"

definition free_session :: "session_table \<Rightarrow> ptr \<Rightarrow> session_table" where
  "free_session st p = st\<lparr>sessions := (sessions st)(p := None)\<rparr>"

definition destroy_client_sessions :: "session_table \<Rightarrow> ptr \<Rightarrow> session_table" where
  "destroy_client_sessions st p =
     upd_client (foldl (\<lambda>t s. free_session (unhash_session t s) s) st (cl_sessions (client st p))) p (\<lambda>c. c\<lparr>cl_sessions := []\<rparr>)"

definition recovery_del :: "session_table \<Rightarrow> nfs4_client \<Rightarrow> session_table" where
  "recovery_del st c =
     (if st_cq st \<and> cl_confirmed c then st\<lparr>st_calls := st_calls st @ [RecDel ViaCq (cl_clientid c)]\<rparr>
      else if st_cat st \<and> cl_confirmed c then st\<lparr>st_calls := st_calls st @ [RecDel ViaCat (cl_clientid c)]\<rparr>
      else st)"

definition free_client :: "session_table \<Rightarrow> ptr \<Rightarrow> session_table" where
  "free_client st p =
     (let st1 = destroy_client_sessions (recovery_del st (client st p)) p
      in st1\<lparr>clients := (clients st1)(p := None)\<rparr>)"

definition session_id_of :: "u32 \<Rightarrow> u64 \<Rightarrow> u64 \<Rightarrow> bytes" where
  "session_id_of mds seq nonce = be_bytes 4 mds @ be_bytes 8 seq @ be_bytes 4 (ucast (nonce AND 0xFFFFFFFF) :: u32)"

definition make_session_id :: "session_table \<Rightarrow> session_table \<times> bytes" where
  "make_session_id st =
     (st\<lparr>next_session_seq := next_session_seq st + 1\<rparr>,
      session_id_of (st_mds_id st) (next_session_seq st) (restart_nonce st))"

section \<open>Set-up\<close>

definition session_table_init_ex :: "u32 \<Rightarrow> u32 \<Rightarrow> u32 \<Rightarrow> u32 \<Rightarrow> u32 \<Rightarrow> u64 \<Rightarrow> session_table" where
  "session_table_init_ex mds_id lease cb sb ob nonce =
     \<lparr>clients = Map.empty, sessions = Map.empty, st_next = 0,
      client_hash = (\<lambda>_. []), owner_hash = (\<lambda>_. []), session_hash = (\<lambda>_. []),
      client_buckets = (if cb = 0 then SESSION_DEFAULT_BUCKETS else cb),
      owner_buckets = (if ob = 0 then SESSION_DEFAULT_BUCKETS else ob),
      session_buckets = (if sb = 0 then SESSION_DEFAULT_BUCKETS else sb),
      next_clientid = 1, next_session_seq = 1, restart_nonce = nonce, st_mds_id = mds_id,
      lease_time_sec = (if lease > 0 then lease else SESSION_DEFAULT_LEASE_SEC), max_fore_slots = SESSION_MAX_SLOTS,
      st_cq = False, st_cat = False, st_calls = [], st_ot = None, st_lt = None\<rparr>"

definition session_table_init :: "u32 \<Rightarrow> u32 \<Rightarrow> u64 \<Rightarrow> session_table" where
  "session_table_init mds_id lease nonce = session_table_init_ex mds_id lease 0 0 0 nonce"

definition session_table_set_cq :: "session_table \<Rightarrow> bool \<Rightarrow> session_table" where
  "session_table_set_cq st cq = st\<lparr>st_cq := cq\<rparr>"

definition session_table_set_cat :: "session_table \<Rightarrow> bool \<Rightarrow> session_table" where
  "session_table_set_cat st cat = st\<lparr>st_cat := cat\<rparr>"

text \<open>The shard is its commit queue: \<open>None\<close> for no shard, else whether it has a queue.\<close>

definition session_table_set_shard :: "session_table \<Rightarrow> bool option \<Rightarrow> session_table" where
  "session_table_set_shard st shard = (case shard of Some cq \<Rightarrow> st\<lparr>st_cq := cq\<rparr> | None \<Rightarrow> st\<lparr>st_cq := False\<rparr>)"

definition session_table_set_max_fore_slots :: "session_table \<Rightarrow> u32 \<Rightarrow> session_table" where
  "session_table_set_max_fore_slots st max_slots =
     (if max_slots = 0 then st\<lparr>max_fore_slots := SESSION_MAX_SLOTS\<rparr>
      else st\<lparr>max_fore_slots := (if max_slots > SESSION_FORE_SLOTS_CEILING then SESSION_FORE_SLOTS_CEILING else max_slots)\<rparr>)"

definition session_table_set_ot :: "session_table \<Rightarrow> open_state_table option \<Rightarrow> session_table" where
  "session_table_set_ot st t = st\<lparr>st_ot := t\<rparr>"

definition session_table_set_lt :: "session_table \<Rightarrow> lock_table option \<Rightarrow> session_table" where
  "session_table_set_lt st t = st\<lparr>st_lt := t\<rparr>"

section \<open>EXCHANGE_ID\<close>

text \<open>The recovery rows of this server: the listed clientids with what \<^verbatim>\<open>mds_coord_recovery_get\<close> returns for each.\<close>

type_synonym recovery_rows = "(u64 \<times> (bytes \<times> bytes) option) list"

fun grace_recovery_scan :: "recovery_rows \<Rightarrow> bytes \<Rightarrow> bytes \<Rightarrow> u64 option" where
  "grace_recovery_scan [] owner verf = None"
| "grace_recovery_scan ((cid, row) # rows) owner verf =
     (case row of
        None \<Rightarrow> grace_recovery_scan rows owner verf
      | Some (co, ver) \<Rightarrow>
          if co = owner \<and> ver = verf then Some cid else grace_recovery_scan rows owner verf)"

definition client_principal_matches :: "nfs4_client \<Rightarrow> u32 \<Rightarrow> u32 \<Rightarrow> u32 \<Rightarrow> bool" where
  "client_principal_matches c af uid gid \<longleftrightarrow>
     (if cl_auth_flavor c = 0 \<or> af = 0 then True
      else cl_auth_flavor c = af \<and> cl_cred_uid c = uid \<and> cl_cred_gid c = gid)"

definition mint_clientid :: "u32 \<Rightarrow> u64 \<Rightarrow> u64 \<Rightarrow> u64" where
  "mint_clientid mds nonce ctr =
     push_bit 48 (ucast mds) OR push_bit 32 (nonce AND 0xFFFF) OR (ctr AND 0xFFFFFFFF)"

definition recovered_next :: "session_table \<Rightarrow> u64 \<Rightarrow> u64" where
  "recovered_next st rid =
     (if drop_bit 48 rid = ucast (st_mds_id st) \<and> drop_bit 32 rid AND 0xFFFF = restart_nonce st AND 0xFFFF
      then (let rctr = rid AND 0xFFFFFFFF in if next_clientid st \<le> rctr then rctr + 1 else next_clientid st)
      else next_clientid st)"

definition session_alloc_new_client ::
  "session_table \<Rightarrow> int \<Rightarrow> sess_alloc set \<Rightarrow> bool \<Rightarrow> recovery_rows \<Rightarrow> bytes \<Rightarrow> bytes \<Rightarrow> u32 \<Rightarrow> u32 \<Rightarrow> u32 \<Rightarrow>
   session_table \<times> int \<times> (u64 \<times> u32 \<times> u32) option" where
  "session_alloc_new_client st now oom grace rows owner verf af uid gid =
     (let recovered = (if st_cat st \<and> grace then grace_recovery_scan rows owner verf else None)
      in if A_client \<in> oom then (st, SESSION_EID_RESOURCE, None)
         else
           (let (cid, nc) = (case recovered of
                  Some rid \<Rightarrow> (rid, recovered_next st rid)
                | None \<Rightarrow> (mint_clientid (st_mds_id st) (restart_nonce st) (next_clientid st), next_clientid st + 1));
                c = \<lparr>cl_clientid = cid, cl_co_ownerid = owner, cl_verifier = verf, cl_confirmed = False,
                     cl_last_renewed = now, cl_create_seq = 1, cl_auth_flavor = af, cl_cred_uid = uid, cl_cred_gid = gid,
                     cl_sessions = [], cl_reclaim_complete_done = False, cl_last_cs = None, cl_superseded_clientid = 0\<rparr>;
                p = st_next st; b = cl_bucket st c; ob = ow_bucket st c
            in (st\<lparr>clients := (clients st)(p \<mapsto> c), st_next := Suc p, next_clientid := nc,
                   client_hash := (client_hash st)(b := p # client_hash st b),
                   owner_hash := (owner_hash st)(ob := p # owner_hash st ob)\<rparr>,
                SESSION_EID_OK, Some (cid, 1, EID_RES_FLAGS))))"

definition eid_renew :: "session_table \<Rightarrow> int \<Rightarrow> ptr \<Rightarrow> session_table \<times> int \<times> (u64 \<times> u32 \<times> u32) option" where
  "eid_renew st now p =
     (upd_client st p (\<lambda>c. c\<lparr>cl_last_renewed := now\<rparr>), SESSION_EID_OK,
      Some (cl_clientid (client st p), cl_create_seq (client st p), EID_RES_FLAGS))"

definition session_exchange_id ::
  "session_table \<Rightarrow> int \<Rightarrow> sess_alloc set \<Rightarrow> bool \<Rightarrow> recovery_rows \<Rightarrow> bytes \<Rightarrow> bytes \<Rightarrow> u32 \<Rightarrow> u32 \<Rightarrow> u32 \<Rightarrow> u32 \<Rightarrow>
   session_table \<times> int \<times> (u64 \<times> u32 \<times> u32) option" where
  "session_exchange_id st now oom grace rows owner verf eia_flags af uid gid =
     (if owner = [] \<or> length owner > CO_OWNERID_MAX then (st, SESSION_EID_RESOURCE, None)
      else if eia_flags AND EXCHGID4_FLAG_UPD_CONFIRMED_REC_A \<noteq> 0 then
        (case find_client_by_owner st owner of
           None \<Rightarrow> (st, SESSION_EID_NOENT, None)
         | Some p \<Rightarrow>
             if \<not> cl_confirmed (client st p) then (st, SESSION_EID_NOENT, None)
             else if cl_verifier (client st p) \<noteq> verf then (st, SESSION_EID_NOT_SAME, None)
             else if \<not> client_principal_matches (client st p) af uid gid then (st, SESSION_EID_PERM, None)
             else eid_renew st now p)
      else
        (case find_client_by_owner st owner of
           None \<Rightarrow> session_alloc_new_client st now oom grace rows owner verf af uid gid
         | Some p \<Rightarrow>
             let c = client st p; princ = client_principal_matches c af uid gid
             in if cl_confirmed c \<and> cl_verifier c = verf \<and> princ then eid_renew st now p
                else
                  let defer_old = (cl_confirmed c \<and> princ);
                      old = (if defer_old then cl_clientid c else 0);
                      st1 = (if defer_old then owner_unhash st p else free_client (unhash_client st p) p)
                  in (case session_alloc_new_client st1 now oom grace rows owner verf af uid gid of
                        (st2, rc, Some (cid, sq, fl)) \<Rightarrow>
                          (if rc = SESSION_EID_OK \<and> old \<noteq> 0 then
                             (case find_client_by_id st2 cid of
                                Some q \<Rightarrow> upd_client st2 q (\<lambda>x. x\<lparr>cl_superseded_clientid := old\<rparr>)
                              | None \<Rightarrow> st2)
                           else st2, rc, Some (cid, sq, fl))
                      | (st2, rc, None) \<Rightarrow> (st2, rc, None))))"

section \<open>CREATE_SESSION\<close>

definition create_session_negotiate :: "session_table \<Rightarrow> u32 \<Rightarrow> u32 \<Rightarrow> u32 \<Rightarrow> u32 \<Rightarrow> u32 \<times> u32 \<times> u32 \<times> u32" where
  "create_session_negotiate st fore back req ops =
     (let fore_cap = (if max_fore_slots st > 0 then max_fore_slots st else SESSION_MAX_SLOTS);
          f = (if fore > fore_cap then fore_cap else fore)
      in (if f = 0 then 1 else f,
          if back > SESSION_MAX_SLOTS then SESSION_MAX_SLOTS else back,
          if req = 0 \<or> req > SERVER_MAX_REQUEST_SIZE then SERVER_MAX_REQUEST_SIZE else req,
          if ops = 0 \<or> ops > SERVER_MAX_OPERATIONS then SERVER_MAX_OPERATIONS else ops))"

definition fresh_slot :: nfs4_slot where
  "fresh_slot = \<lparr>slot_seq_id = 0, slot_in_use = False, slot_cached_reply = None\<rparr>"

definition no_cb_sec :: nfs4_cb_sec where
  "no_cb_sec = \<lparr>cbs_flavor = 0, cbs_stamp = 0, cbs_uid = 0, cbs_gid = 0, cbs_machname = [], cbs_gids = []\<rparr>"

definition create_session_alloc ::
  "sess_alloc set \<Rightarrow> ptr \<Rightarrow> u64 \<Rightarrow> u32 \<Rightarrow> u32 \<Rightarrow> u32 \<Rightarrow> u32 \<Rightarrow> u32 \<Rightarrow> u32 \<Rightarrow> u32 \<Rightarrow> u32 \<Rightarrow> u32 \<Rightarrow> nfs4_session option" where
  "create_session_alloc oom owner clientid fore back req ops resp resp_cached minor cb_prog cb_flavor =
     (if A_session \<in> oom \<or> A_slots \<in> oom then None
      else
        (let mr = (if resp = 0 \<or> resp > SERVER_MAX_RESPONSE_SIZE then SERVER_MAX_RESPONSE_SIZE else resp);
             mrc0 = (if resp_cached = 0 then 65536 else resp_cached);
             mrc = (if mrc0 > mr then mr else mrc0)
         in if back > 0 \<and> A_cb_slots \<in> oom then None
            else Some \<lparr>se_id = replicate 16 0, se_clientid = clientid, se_owner = Some owner,
                       se_slots = replicate (unat fore) fresh_slot, se_minorversion = minor, se_max_request_size = req,
                       se_max_response_size = mr, se_max_response_size_cached = mrc, se_max_operations = ops,
                       se_cb_prog = cb_prog, se_cb_sec_flavor = cb_flavor, se_cb_sec = no_cb_sec, se_cb_conn = None,
                       se_cb_slots = replicate (unat back) fresh_slot, se_fore_conns = [], se_fore_conn_ring = 0\<rparr>))"

definition create_session_persist_recovery :: "session_table \<Rightarrow> nfs4_client \<Rightarrow> session_table" where
  "create_session_persist_recovery st c =
     (if st_cq st then st\<lparr>st_calls := st_calls st @ [RecPut ViaCq (cl_clientid c) (cl_co_ownerid c) (cl_verifier c)]\<rparr>
      else if st_cat st then st\<lparr>st_calls := st_calls st @ [RecPut ViaCat (cl_clientid c) (cl_co_ownerid c) (cl_verifier c)]\<rparr>
      else st)"

definition lease_lapsed :: "session_table \<Rightarrow> int \<Rightarrow> nfs4_client \<Rightarrow> bool" where
  "lease_lapsed st now c \<longleftrightarrow>
     now > cl_last_renewed c \<and> (word_of_int (now - cl_last_renewed c) :: u32) \<ge> lease_time_sec st"

record cs_args =
  ca_clientid :: u64
  ca_seqid :: u32
  ca_fore_slots :: u32
  ca_back_slots :: u32
  ca_cb_prog :: u32
  ca_cb_sec_flavor :: u32
  ca_max_request_size :: u32
  ca_max_operations :: u32
  ca_max_response_size :: u32
  ca_max_response_size_cached :: u32
  ca_minorversion :: u32
  ca_auth_flavor :: u32
  ca_cred_uid :: u32
  ca_cred_gid :: u32

text \<open>The part of CREATE_SESSION that installs the session \<open>s\<close> of the client at \<open>p\<close> and confirms the client.\<close>

definition create_session_link :: "session_table \<Rightarrow> ptr \<Rightarrow> nfs4_session \<Rightarrow> session_table \<times> bytes" where
  "create_session_link st p s =
     (let (st1, sid) = make_session_id st; q = st_next st1; s1 = s\<lparr>se_id := sid\<rparr>; b = se_bucket st1 s1;
          st2 = st1\<lparr>sessions := (sessions st1)(q \<mapsto> s1), st_next := Suc q,
                    session_hash := (session_hash st1)(b := q # session_hash st1 b)\<rparr>
      in (upd_client st2 p (\<lambda>c. c\<lparr>cl_sessions := q # cl_sessions c\<rparr>), sid))"

definition destroy_superseded :: "session_table \<Rightarrow> ptr \<Rightarrow> session_table" where
  "destroy_superseded st p =
     (if cl_superseded_clientid (client st p) \<noteq> 0 then
        (let st1 = (case find_client_by_id st (cl_superseded_clientid (client st p)) of
               Some q \<Rightarrow> free_client (unhash_client st q) q
             | None \<Rightarrow> st)
         in upd_client st1 p (\<lambda>c. c\<lparr>cl_superseded_clientid := 0\<rparr>))
      else st)"

definition create_session_new ::
  "session_table \<Rightarrow> int \<Rightarrow> sess_alloc set \<Rightarrow> ptr \<Rightarrow> cs_args \<Rightarrow> session_table \<times> int \<times> cs_result option" where
  "create_session_new st now oom p a =
     (let (fore, back, req, ops) =
            create_session_negotiate st (ca_fore_slots a) (ca_back_slots a) (ca_max_request_size a) (ca_max_operations a)
      in case create_session_alloc oom p (ca_clientid a) fore back req ops (ca_max_response_size a)
                (ca_max_response_size_cached a) (ca_minorversion a) (ca_cb_prog a) (ca_cb_sec_flavor a) of
           None \<Rightarrow> (st, -3, None)
         | Some s \<Rightarrow>
             (let (st1, sid) = create_session_link st p s;
                  st2 = upd_client st1 p (\<lambda>c. c\<lparr>cl_confirmed := True, cl_create_seq := cl_create_seq c + 1, cl_last_renewed := now\<rparr>);
                  st3 = destroy_superseded st2 p;
                  res = \<lparr>cs_session_id = sid, cs_fore_slots = fore, cs_back_slots = back, cs_max_request_size = req,
                         cs_max_operations = ops\<rparr>;
                  st4 = upd_client st3 p (\<lambda>c. c\<lparr>cl_last_cs := Some res\<rparr>)
              in (create_session_persist_recovery st4 (client st4 p), 0, Some res)))"

definition session_create_session ::
  "session_table \<Rightarrow> int \<Rightarrow> sess_alloc set \<Rightarrow> cs_args \<Rightarrow> session_table \<times> int \<times> cs_result option" where
  "session_create_session st now oom a =
     (case find_client_by_id st (ca_clientid a) of
        None \<Rightarrow> (st, -1, None)
      | Some p \<Rightarrow>
          (let c = client st p
           in if \<not> cl_confirmed c \<and> lease_lapsed st now c then (free_client (unhash_client st p) p, -1, None)
              else if \<not> cl_confirmed c \<and>
                      \<not> client_principal_matches c (ca_auth_flavor a) (ca_cred_uid a) (ca_cred_gid a) then (st, -4, None)
              else if ca_seqid a = cl_create_seq c then create_session_new st now oom p a
              else if cl_last_cs c \<noteq> None \<and> ca_seqid a = cl_create_seq c - 1 then (st, 0, cl_last_cs c)
              else (st, -2, None)))"

section \<open>Queries and teardown\<close>

definition session_get_limits :: "session_table \<Rightarrow> bytes \<Rightarrow> (u32 \<times> u32) option" where
  "session_get_limits st sid =
     map_option (\<lambda>p. (se_max_request_size (session st p), se_max_operations (session st p))) (find_session st sid)"

definition session_get_response_limits :: "session_table \<Rightarrow> bytes \<Rightarrow> (u32 \<times> u32) option" where
  "session_get_response_limits st sid =
     map_option (\<lambda>p. (se_max_response_size (session st p), se_max_response_size_cached (session st p))) (find_session st sid)"

definition session_destroy_session :: "session_table \<Rightarrow> bytes \<Rightarrow> session_table \<times> int" where
  "session_destroy_session st sid =
     (case find_session st sid of
        None \<Rightarrow> (st, -1)
      | Some p \<Rightarrow>
          (let st1 = (case find_client_by_id st (se_clientid (session st p)) of
                 None \<Rightarrow> st
               | Some q \<Rightarrow> upd_client st q (\<lambda>c. c\<lparr>cl_sessions := chain_unlink p (cl_sessions c)\<rparr>))
           in (free_session (unhash_session st1 p) p, 0)))"

definition session_destroy_client :: "session_table \<Rightarrow> u64 \<Rightarrow> session_table \<times> int" where
  "session_destroy_client st clientid =
     (case find_client_by_id st clientid of
        None \<Rightarrow> (st, -1)
      | Some p \<Rightarrow>
          if cl_confirmed (client st p) \<and> cl_sessions (client st p) \<noteq> [] then (st, -2)
          else (free_client (unhash_client st p) p, 0))"

definition session_client_reclaim_complete :: "session_table \<Rightarrow> u64 \<Rightarrow> session_table \<times> int" where
  "session_client_reclaim_complete st clientid =
     (case find_client_by_id st clientid of
        None \<Rightarrow> (st, -1)
      | Some p \<Rightarrow>
          if cl_reclaim_complete_done (client st p) then (st, 1)
          else (upd_client st p (\<lambda>c. c\<lparr>cl_reclaim_complete_done := True\<rparr>), 0))"

section \<open>SEQUENCE and the duplicate-request cache\<close>

definition session_slot_cache_reply ::
  "session_table \<Rightarrow> sess_alloc set \<Rightarrow> bytes \<Rightarrow> u32 \<Rightarrow> bytes \<Rightarrow> session_table \<times> int" where
  "session_slot_cache_reply st oom sid slot_id reply =
     (if reply = [] then (st, -1)
      else case find_session st sid of
        None \<Rightarrow> (st, -1)
      | Some p \<Rightarrow>
          if unat slot_id \<ge> length (se_slots (session st p)) then (st, -1)
          else
            (let i = unat slot_id; r = (if A_reply \<in> oom then None else Some reply)
             in (upd_session st p (\<lambda>s. s\<lparr>se_slots := (se_slots s)[i := (se_slots s ! i)\<lparr>slot_cached_reply := r\<rparr>]\<rparr>),
                 if r = None then -1 else 0)))"

definition session_slot_get_cached_reply :: "session_table \<Rightarrow> sess_alloc set \<Rightarrow> bytes \<Rightarrow> u32 \<Rightarrow> bytes option" where
  "session_slot_get_cached_reply st oom sid slot_id =
     (case find_session st sid of
        None \<Rightarrow> None
      | Some p \<Rightarrow>
          if unat slot_id \<ge> length (se_slots (session st p)) then None
          else (case slot_cached_reply (se_slots (session st p) ! unat slot_id) of
                  None \<Rightarrow> None
                | Some r \<Rightarrow> if r = [] \<or> A_reply \<in> oom then None else Some r))"

record seq_hints =
  sq_highest_slot :: u32
  sq_target_slot :: u32
  sq_status_flags :: u32
  sq_clientid :: u64
  sq_max_resp :: u32
  sq_max_resp_cached :: u32

definition sequence_emit_hints :: "nfs4_session \<Rightarrow> seq_hints" where
  "sequence_emit_hints s =
     \<lparr>sq_highest_slot = of_nat (length (se_slots s)) - 1, sq_target_slot = of_nat (length (se_slots s)) - 1,
      sq_status_flags = 0, sq_clientid = se_clientid s, sq_max_resp = se_max_response_size s,
      sq_max_resp_cached = se_max_response_size_cached s\<rparr>"

text \<open>One slot: the return code and the slot after it.\<close>

definition slot_check :: "nfs4_slot \<Rightarrow> u32 \<Rightarrow> int \<times> nfs4_slot" where
  "slot_check slot seq_id =
     (if \<not> slot_in_use slot then (0, slot\<lparr>slot_seq_id := seq_id, slot_in_use := True\<rparr>)
      else if seq_id = slot_seq_id slot then (if slot_cached_reply slot \<noteq> None then 2 else 1, slot)
      else if seq_id = slot_seq_id slot + 1 then (0, slot\<lparr>slot_cached_reply := None, slot_seq_id := seq_id\<rparr>)
      else (-3, slot))"

definition renew_owner :: "session_table \<Rightarrow> int \<Rightarrow> nfs4_session \<Rightarrow> session_table" where
  "renew_owner st now s =
     (case se_owner s of
        Some q \<Rightarrow> upd_client st q (\<lambda>c. c\<lparr>cl_last_renewed := now\<rparr>)
      | None \<Rightarrow>
          (case find_client_by_id st (se_clientid s) of
             Some q \<Rightarrow> upd_client st q (\<lambda>c. c\<lparr>cl_last_renewed := now\<rparr>)
           | None \<Rightarrow> st))"

definition session_sequence_check_conn ::
  "session_table \<Rightarrow> int \<Rightarrow> bytes \<Rightarrow> u32 \<Rightarrow> u32 \<Rightarrow> conn option \<Rightarrow> session_table \<times> int \<times> u64 option \<times> seq_hints option" where
  "session_sequence_check_conn st now sid slot_id seq_id conn =
     (case find_session st sid of
        None \<Rightarrow> (st, -1, None, None)
      | Some p \<Rightarrow>
          (let s = session st p; i = unat slot_id
           in if i \<ge> length (se_slots s) then (st, -2, None, None)
              else
                (let (rc, slot) = slot_check (se_slots s ! i) seq_id
                 in if rc = 0 then
                      (let s1 = session_note_fore_conn_locked conn (s\<lparr>se_slots := (se_slots s)[i := slot]\<rparr>)
                       in (renew_owner (upd_session st p (\<lambda>_. s1)) now s1, 0, Some (se_clientid s1), Some (sequence_emit_hints s1)))
                    else (st, rc, if rc > 0 then Some (se_clientid s) else None, None))))"

definition session_sequence_check ::
  "session_table \<Rightarrow> int \<Rightarrow> bytes \<Rightarrow> u32 \<Rightarrow> u32 \<Rightarrow> session_table \<times> int \<times> u64 option \<times> seq_hints option" where
  "session_sequence_check st now sid slot_id seq_id = session_sequence_check_conn st now sid slot_id seq_id None"

section \<open>Connections and callbacks\<close>

definition on_session :: "session_table \<Rightarrow> bytes \<Rightarrow> (nfs4_session \<Rightarrow> nfs4_session) \<Rightarrow> session_table \<times> int" where
  "on_session st sid f = (case find_session st sid of None \<Rightarrow> (st, -1) | Some p \<Rightarrow> (upd_session st p f, 0))"

definition session_bind_conn :: "session_table \<Rightarrow> bytes \<Rightarrow> conn \<Rightarrow> session_table \<times> int" where
  "session_bind_conn st sid conn = on_session st sid (\<lambda>s. s\<lparr>se_cb_conn := Some conn\<rparr>)"

definition session_bind_fore_conn :: "session_table \<Rightarrow> bytes \<Rightarrow> conn \<Rightarrow> session_table \<times> int" where
  "session_bind_fore_conn st sid conn = on_session st sid (session_note_fore_conn_locked (Some conn))"

definition session_conn_is_bound :: "session_table \<Rightarrow> bytes \<Rightarrow> conn \<Rightarrow> int" where
  "session_conn_is_bound st sid conn =
     (case find_session st sid of
        None \<Rightarrow> -1
      | Some p \<Rightarrow> if session_fore_conn_bound_locked (session st p) conn then 1 else 0)"

definition session_set_cb_sec :: "session_table \<Rightarrow> bytes \<Rightarrow> nfs4_cb_sec option \<Rightarrow> session_table \<times> int" where
  "session_set_cb_sec st sid sec =
     (let x = (case sec of Some y \<Rightarrow> y | None \<Rightarrow> no_cb_sec)
      in on_session st sid (\<lambda>s. s\<lparr>se_cb_sec := x, se_cb_sec_flavor := cbs_flavor x\<rparr>))"

definition session_set_cb_prog :: "session_table \<Rightarrow> bytes \<Rightarrow> u32 \<Rightarrow> session_table \<times> int" where
  "session_set_cb_prog st sid prog = on_session st sid (\<lambda>s. s\<lparr>se_cb_prog := prog\<rparr>)"

text \<open>Dropping the first occurrence: the last entry moves into its place.\<close>

fun conn_index :: "conn \<Rightarrow> conn list \<Rightarrow> nat option" where
  "conn_index k [] = None"
| "conn_index k (x # xs) = (if x = k then Some 0 else map_option Suc (conn_index k xs))"

definition compact_conn :: "conn \<Rightarrow> conn list \<Rightarrow> conn list" where
  "compact_conn k xs = (case conn_index k xs of None \<Rightarrow> xs | Some i \<Rightarrow> butlast (xs[i := last xs]))"

definition unbind_session :: "conn \<Rightarrow> nfs4_session \<Rightarrow> nfs4_session" where
  "unbind_session conn s =
     s\<lparr>se_cb_conn := (if se_cb_conn s = Some conn then None else se_cb_conn s),
       se_fore_conns := compact_conn conn (se_fore_conns s)\<rparr>"

definition session_buckets_list :: "session_table \<Rightarrow> u32 list" where
  "session_buckets_list st = map of_nat [0..<unat (session_buckets st)]"

definition session_unbind_conn :: "session_table \<Rightarrow> conn \<Rightarrow> session_table" where
  "session_unbind_conn st conn =
     foldl (\<lambda>t b. foldl (\<lambda>u p. upd_session u p (unbind_session conn)) t (session_hash t b)) st (session_buckets_list st)"

record session_cb_snap =
  sn_clientid :: u64
  sn_session_id :: bytes
  sn_cb_prog :: u32
  sn_cb_sec_flavor :: u32
  sn_cb_sec :: nfs4_cb_sec
  sn_cb_conn :: "conn option"
  sn_slot_seq_id :: u32
  sn_minorversion :: u32

definition session_invoke_cb_locked ::
  "session_table \<Rightarrow> ptr \<Rightarrow> ('c \<Rightarrow> session_cb_snap \<Rightarrow> 'c \<times> int) \<Rightarrow> 'c \<Rightarrow> session_table \<times> 'c \<times> int" where
  "session_invoke_cb_locked st p cb ctx =
     (let s = session st p;
          seq = (case se_cb_slots s of [] \<Rightarrow> 0 | x # _ \<Rightarrow> slot_seq_id x + 1);
          (ctx1, rc) = cb ctx \<lparr>sn_clientid = se_clientid s, sn_session_id = se_id s, sn_cb_prog = se_cb_prog s,
                               sn_cb_sec_flavor = se_cb_sec_flavor s, sn_cb_sec = se_cb_sec s, sn_cb_conn = se_cb_conn s,
                               sn_slot_seq_id = seq, sn_minorversion = se_minorversion s\<rparr>
      in (case se_cb_slots s of
            [] \<Rightarrow> (st, ctx1, rc)
          | x # xs \<Rightarrow>
              (if rc = 1 then upd_session st p (\<lambda>s. s\<lparr>se_cb_slots := x\<lparr>slot_seq_id := seq\<rparr> # xs\<rparr>) else st, ctx1, rc)))"

fun cb_walk :: "session_table \<Rightarrow> ('c \<Rightarrow> session_cb_snap \<Rightarrow> 'c \<times> int) \<Rightarrow> 'c \<Rightarrow> ptr list \<Rightarrow> session_table \<times> 'c \<times> int" where
  "cb_walk st cb ctx [] = (st, ctx, 0)"
| "cb_walk st cb ctx (p # ps) =
     (if se_cb_conn (session st p) = None then cb_walk st cb ctx ps
      else (let (st1, ctx1, rc) = session_invoke_cb_locked st p cb ctx
            in if rc \<noteq> 0 then (st1, ctx1, rc) else cb_walk st1 cb ctx1 ps))"

fun cb_buckets :: "session_table \<Rightarrow> ('c \<Rightarrow> session_cb_snap \<Rightarrow> 'c \<times> int) \<Rightarrow> 'c \<Rightarrow> u32 list \<Rightarrow> session_table \<times> 'c \<times> int" where
  "cb_buckets st cb ctx [] = (st, ctx, 0)"
| "cb_buckets st cb ctx (b # bs) =
     (let (st1, ctx1, rc) = cb_walk st cb ctx (session_hash st b)
      in if rc = 0 then cb_buckets st1 cb ctx1 bs else (st1, ctx1, rc))"

definition session_for_each_with_cb ::
  "session_table \<Rightarrow> ('c \<Rightarrow> session_cb_snap \<Rightarrow> 'c \<times> int) \<Rightarrow> 'c \<Rightarrow> session_table \<times> 'c \<times> int" where
  "session_for_each_with_cb st cb ctx = cb_buckets st cb ctx (session_buckets_list st)"

fun first_with_cb :: "session_table \<Rightarrow> ptr list \<Rightarrow> ptr option" where
  "first_with_cb st [] = None"
| "first_with_cb st (p # ps) = (if se_cb_conn (session st p) = None then first_with_cb st ps else Some p)"

definition session_for_each_with_cb_for_clientid ::
  "session_table \<Rightarrow> u64 \<Rightarrow> ('c \<Rightarrow> session_cb_snap \<Rightarrow> 'c \<times> int) \<Rightarrow> 'c \<Rightarrow> session_table \<times> 'c \<times> int" where
  "session_for_each_with_cb_for_clientid st clientid cb ctx =
     (case find_client_by_id st clientid of
        None \<Rightarrow> (st, ctx, 0)
      | Some q \<Rightarrow>
          (case first_with_cb st (cl_sessions (client st q)) of
             None \<Rightarrow> (st, ctx, 0)
           | Some p \<Rightarrow> session_invoke_cb_locked st p cb ctx))"

section \<open>Leases\<close>

definition session_expire_client_state :: "session_table \<Rightarrow> u64 \<Rightarrow> bool \<Rightarrow> session_table" where
  "session_expire_client_state st clientid confirmed =
     (if \<not> confirmed then st
      else
        (let st1 = st\<lparr>st_ot := map_option (\<lambda>ot. open_state_close_all_for_client ot clientid) (st_ot st)\<rparr>;
             st2 = st1\<lparr>st_lt := map_option (\<lambda>lt. lock_release_all_for_client lt clientid) (st_lt st1)\<rparr>
         in if st_cat st2 then st2\<lparr>st_calls := st_calls st2 @ [LayoutDelAll clientid]\<rparr> else st2))"

definition session_finish_expired_client :: "session_table \<Rightarrow> nfs4_client \<Rightarrow> session_table" where
  "session_finish_expired_client st c =
     (if cl_confirmed c then recovery_del (session_expire_client_state st (cl_clientid c) True) c else st)"

text \<open>The test of the reaper: one lease for an unconfirmed record, two for a confirmed one.\<close>

definition reap_expired :: "session_table \<Rightarrow> int \<Rightarrow> nfs4_client \<Rightarrow> bool" where
  "reap_expired st now c \<longleftrightarrow>
     (if now \<le> cl_last_renewed c then False
      else let lease = (if lease_time_sec st > 0 then lease_time_sec st else 90);
               age = (word_of_int (now - cl_last_renewed c) :: u32)
           in if cl_confirmed c then age > lease * 2 else age \<ge> lease)"

text \<open>Unlinking one client of bucket \<open>b\<close>; the record leaves the table with its last contents.\<close>

definition reap_unlink :: "session_table \<Rightarrow> u32 \<Rightarrow> ptr \<Rightarrow> session_table" where
  "reap_unlink st b p =
     (let st1 = unhash_client (st\<lparr>client_hash := (client_hash st)(b := chain_unlink p (client_hash st b))\<rparr>) p;
          st2 = destroy_client_sessions st1 p
      in st2\<lparr>clients := (clients st2)(p := None)\<rparr>)"

fun reap_chain :: "int \<Rightarrow> u32 \<Rightarrow> ptr list \<Rightarrow> session_table \<times> nfs4_client list \<Rightarrow> session_table \<times> nfs4_client list" where
  "reap_chain now b [] acc = acc"
| "reap_chain now b (p # ps) (st, orphans) =
     (let c = client st p
      in if reap_expired st now c then
           (let st1 = reap_unlink st b p
            in reap_chain now b ps
                 (if length orphans < REAPER_ORPHAN_MAX then (st1, orphans @ [c\<lparr>cl_sessions := []\<rparr>])
                  else (session_finish_expired_client st1 (c\<lparr>cl_sessions := []\<rparr>), orphans)))
         else reap_chain now b ps (st, orphans))"

definition client_buckets_list :: "session_table \<Rightarrow> u32 list" where
  "client_buckets_list st = map of_nat [0..<unat (client_buckets st)]"

definition lease_reaper_scan :: "session_table \<Rightarrow> int \<Rightarrow> session_table \<times> nfs4_client list" where
  "lease_reaper_scan st now =
     foldl (\<lambda>(t, os) b. reap_chain now b (client_hash t b) (t, os)) (st, []) (client_buckets_list st)"

definition lease_reaper_pass :: "session_table \<Rightarrow> int \<Rightarrow> session_table" where
  "lease_reaper_pass st now = (case lease_reaper_scan st now of (st1, orphans) \<Rightarrow> foldl session_finish_expired_client st1 orphans)"

definition session_client_has_reclaimed :: "session_table \<Rightarrow> u64 \<Rightarrow> bool" where
  "session_client_has_reclaimed st clientid =
     (case find_client_by_id st clientid of None \<Rightarrow> True | Some p \<Rightarrow> cl_reclaim_complete_done (client st p))"

definition session_client_lease_expired :: "session_table \<Rightarrow> int \<Rightarrow> u64 \<Rightarrow> bool" where
  "session_client_lease_expired st now clientid =
     (case find_client_by_id st clientid of None \<Rightarrow> True | Some p \<Rightarrow> lease_lapsed st now (client st p))"

end
