(* ===== verification/Session_Index.thy ===== *)
theory Session_Index
  imports Session_State
begin

text \<open>
  The indexes of the session table: what the three hash tables and the per-client session lists owe to each other, and
  what each primitive of \<^verbatim>\<open>session.c\<close> (link, unlink, free, update in place) does to them.
\<close>

section \<open>One hash table over a heap\<close>

text \<open>The chains of \<open>tab\<close> hold exactly the addresses in \<open>M\<close>, each in the bucket of its object, once.\<close>

definition chain_wf :: "(ptr \<rightharpoonup> 'o) \<Rightarrow> ('o \<Rightarrow> u32) \<Rightarrow> ptr set \<Rightarrow> (u32 \<Rightarrow> ptr list) \<Rightarrow> bool" where
  "chain_wf h hf M tab \<longleftrightarrow>
     (\<forall>b. distinct (tab b)) \<and> (\<forall>b p. p \<in> set (tab b) \<longleftrightarrow> p \<in> M \<and> (\<exists>x. h p = Some x \<and> hf x = b))"

lemma chain_wf_empty: "chain_wf h hf {} (\<lambda>_. [])"
  by (simp add: chain_wf_def)

lemma chain_wf_memD: "chain_wf h hf M tab \<Longrightarrow> p \<in> M \<Longrightarrow> h p = Some x \<Longrightarrow> p \<in> set (tab (hf x))"
  by (auto simp: chain_wf_def)

lemma chain_wf_inD: "chain_wf h hf M tab \<Longrightarrow> p \<in> set (tab b) \<Longrightarrow> p \<in> M \<and> (\<exists>x. h p = Some x \<and> hf x = b)"
  unfolding chain_wf_def by blast

lemma chain_wf_push:
  assumes "chain_wf h hf M tab" "p \<notin> M" "hf x = b"
  shows "chain_wf (h(p \<mapsto> x)) hf (insert p M) (tab(b := p # tab b))"
  using assms unfolding chain_wf_def by auto

lemma chain_wf_drop:
  assumes "chain_wf h hf M tab" "h p = Some x" "hf x = b"
  shows "chain_wf h hf (M - {p}) (tab(b := chain_unlink p (tab b)))"
  using assms unfolding chain_wf_def by auto

lemma chain_wf_free:
  assumes "chain_wf h hf M tab" "p \<notin> M"
  shows "chain_wf (h(p := None)) hf M tab"
  using assms unfolding chain_wf_def by auto

lemma chain_wf_upd:
  assumes "chain_wf h hf M tab" "h p = Some x" "hf y = hf x"
  shows "chain_wf (h(p \<mapsto> y)) hf M tab"
proof -
  have "(\<exists>z. (h(p \<mapsto> y)) q = Some z \<and> hf z = b) \<longleftrightarrow> (\<exists>z. h q = Some z \<and> hf z = b)" for q b
    using assms(2,3) by (cases "q = p") auto
  then show ?thesis using assms(1) unfolding chain_wf_def by simp
qed

lemma chain_wf_cong: "chain_wf h hf M tab \<Longrightarrow> (\<And>x. hf x = hg x) \<Longrightarrow> chain_wf h hg M tab"
  unfolding chain_wf_def by auto

text \<open>Lookup by a key that the members of the table have once.\<close>

lemma chain_wf_find:
  assumes wf: "chain_wf h (\<lambda>x. H (key x)) M tab"
    and inj: "\<forall>p q x y. p \<in> M \<longrightarrow> q \<in> M \<longrightarrow> h p = Some x \<longrightarrow> h q = Some y \<longrightarrow> key x = key y \<longrightarrow> p = q"
  shows "chain_find h (\<lambda>x. key x = k) (tab (H k)) = Some p \<longleftrightarrow> p \<in> M \<and> (\<exists>x. h p = Some x \<and> key x = k)"
proof
  assume "chain_find h (\<lambda>x. key x = k) (tab (H k)) = Some p"
  then show "p \<in> M \<and> (\<exists>x. h p = Some x \<and> key x = k)" using chain_find_SomeD chain_wf_inD [OF wf] by blast
next
  assume p: "p \<in> M \<and> (\<exists>x. h p = Some x \<and> key x = k)"
  then obtain x where x: "h p = Some x" "key x = k" by blast
  show "chain_find h (\<lambda>x. key x = k) (tab (H k)) = Some p"
  proof (rule chain_find_unique)
    show "p \<in> set (tab (H k))" using chain_wf_memD [OF wf] p x by auto
    show "q = p" if "q \<in> set (tab (H k))" "h q = Some y" "key y = k" for q y
      using inj that p x chain_wf_inD [OF wf that(1)] by metis
  qed (use x in auto)
qed

section \<open>The table\<close>

definition owners :: "session_table \<Rightarrow> ptr set" where
  "owners st = (\<Union>b. set (owner_hash st b))"

definition index_wf :: "session_table \<Rightarrow> bool" where
  "index_wf st \<longleftrightarrow> client_buckets st \<noteq> 0 \<and>
     chain_wf (clients st) (cl_bucket st) (dom (clients st)) (client_hash st) \<and>
     chain_wf (clients st) (ow_bucket st) (owners st) (owner_hash st) \<and>
     chain_wf (sessions st) (se_bucket st) (dom (sessions st)) (session_hash st)"

definition keys_wf :: "session_table \<Rightarrow> bool" where
  "keys_wf st \<longleftrightarrow>
     (\<forall>p q x y. clients st p = Some x \<longrightarrow> clients st q = Some y \<longrightarrow> cl_clientid x = cl_clientid y \<longrightarrow> p = q) \<and>
     (\<forall>p q x y. p \<in> owners st \<longrightarrow> q \<in> owners st \<longrightarrow> clients st p = Some x \<longrightarrow> clients st q = Some y \<longrightarrow>
        cl_co_ownerid x = cl_co_ownerid y \<longrightarrow> p = q) \<and>
     (\<forall>p q x y. sessions st p = Some x \<longrightarrow> sessions st q = Some y \<longrightarrow> se_id x = se_id y \<longrightarrow> p = q)"

definition links_wf :: "session_table \<Rightarrow> bool" where
  "links_wf st \<longleftrightarrow>
     (\<forall>p s. sessions st p = Some s \<longrightarrow>
        (\<exists>q c. se_owner s = Some q \<and> clients st q = Some c \<and> se_clientid s = cl_clientid c \<and> p \<in> set (cl_sessions c))) \<and>
     (\<forall>q c. clients st q = Some c \<longrightarrow> distinct (cl_sessions c) \<and>
        (\<forall>p \<in> set (cl_sessions c). \<exists>s. sessions st p = Some s \<and> se_owner s = Some q)) \<and>
     (\<forall>p. clients st p \<noteq> None \<or> sessions st p \<noteq> None \<longrightarrow> p < st_next st)"

text \<open>Identifiers come from the counters: a live clientid with this table's server and nonce bits has a counter part below
  the next one, and a session id encodes a counter below the next one. No client supersedes itself.\<close>

definition ids_wf :: "session_table \<Rightarrow> bool" where
  "ids_wf st \<longleftrightarrow>
     (\<forall>p c. clients st p = Some c \<longrightarrow> drop_bit 48 (cl_clientid c) = ucast (st_mds_id st) \<longrightarrow>
        drop_bit 32 (cl_clientid c) AND 0xFFFF = restart_nonce st AND 0xFFFF \<longrightarrow> cl_clientid c AND 0xFFFFFFFF < next_clientid st) \<and>
     (\<forall>p s. sessions st p = Some s \<longrightarrow>
        (\<exists>k. se_id s = session_id_of (st_mds_id st) k (restart_nonce st) \<and> k < next_session_seq st)) \<and>
     (\<forall>p c. clients st p = Some c \<longrightarrow> cl_superseded_clientid c = 0 \<or> cl_superseded_clientid c \<noteq> cl_clientid c)"

definition st_wf :: "session_table \<Rightarrow> bool" where
  "st_wf st \<longleftrightarrow> index_wf st \<and> keys_wf st \<and> links_wf st \<and> ids_wf st"

lemma find_client_by_id_iff:
  "st_wf st \<Longrightarrow> find_client_by_id st k = Some p \<longleftrightarrow> (\<exists>c. clients st p = Some c \<and> cl_clientid c = k)"
  unfolding st_wf_def index_wf_def keys_wf_def find_client_by_id_def
  by (subst chain_wf_find [where H = "hash_clientid (client_buckets st)"]) blast+

lemma find_client_by_owner_iff:
  "st_wf st \<Longrightarrow> find_client_by_owner st k = Some p \<longleftrightarrow> p \<in> owners st \<and> (\<exists>c. clients st p = Some c \<and> cl_co_ownerid c = k)"
  unfolding st_wf_def index_wf_def keys_wf_def find_client_by_owner_def
  by (subst chain_wf_find [where H = "hash_ownerid (owner_buckets st)"]) blast+

lemma find_session_iff:
  "st_wf st \<Longrightarrow> find_session st k = Some p \<longleftrightarrow> (\<exists>s. sessions st p = Some s \<and> se_id s = k)"
  unfolding st_wf_def index_wf_def keys_wf_def find_session_def
  by (subst chain_wf_find [where H = "hash_session_id (session_buckets st)"]) blast+

section \<open>Updates in place\<close>

lemmas wf_defs = st_wf_def index_wf_def keys_wf_def links_wf_def ids_wf_def owners_def

lemma st_wf_frame [simp]:
  "st_wf (st\<lparr>st_calls := a\<rparr>) = st_wf st" "st_wf (st\<lparr>st_ot := b\<rparr>) = st_wf st" "st_wf (st\<lparr>st_lt := c\<rparr>) = st_wf st"
  "st_wf (st\<lparr>st_cq := d\<rparr>) = st_wf st" "st_wf (st\<lparr>st_cat := e\<rparr>) = st_wf st" "st_wf (st\<lparr>max_fore_slots := f\<rparr>) = st_wf st"
  by (simp_all add: wf_defs)

lemma st_wf_recovery_del [simp]: "st_wf (recovery_del st c) = st_wf st"
  by (simp add: recovery_del_def)

lemma st_wf_persist [simp]: "st_wf (create_session_persist_recovery st c) = st_wf st"
  by (simp add: create_session_persist_recovery_def)

definition keeps_client :: "(nfs4_client \<Rightarrow> nfs4_client) \<Rightarrow> bool" where
  "keeps_client f \<longleftrightarrow> (\<forall>c. cl_clientid (f c) = cl_clientid c \<and> cl_co_ownerid (f c) = cl_co_ownerid c \<and>
     cl_sessions (f c) = cl_sessions c \<and> cl_superseded_clientid (f c) \<in> {0, cl_superseded_clientid c})"

definition keeps_session :: "(nfs4_session \<Rightarrow> nfs4_session) \<Rightarrow> bool" where
  "keeps_session f \<longleftrightarrow> (\<forall>s. se_id (f s) = se_id s \<and> se_clientid (f s) = se_clientid s \<and> se_owner (f s) = se_owner s)"

lemma upd_client_sel [simp]:
  "clients (upd_client st p f) = (clients st)(p \<mapsto> f (client st p))" "sessions (upd_client st p f) = sessions st"
  "st_next (upd_client st p f) = st_next st" "client_hash (upd_client st p f) = client_hash st"
  "owner_hash (upd_client st p f) = owner_hash st" "session_hash (upd_client st p f) = session_hash st"
  "client_buckets (upd_client st p f) = client_buckets st" "owner_buckets (upd_client st p f) = owner_buckets st"
  "session_buckets (upd_client st p f) = session_buckets st" "next_clientid (upd_client st p f) = next_clientid st"
  "next_session_seq (upd_client st p f) = next_session_seq st" "restart_nonce (upd_client st p f) = restart_nonce st"
  "st_mds_id (upd_client st p f) = st_mds_id st" "lease_time_sec (upd_client st p f) = lease_time_sec st"
  "st_ot (upd_client st p f) = st_ot st" "st_lt (upd_client st p f) = st_lt st" "st_cq (upd_client st p f) = st_cq st"
  "st_cat (upd_client st p f) = st_cat st" "max_fore_slots (upd_client st p f) = max_fore_slots st" "st_calls (upd_client st p f) = st_calls st"
  by (simp_all add: upd_client_def)

lemma upd_session_sel [simp]:
  "sessions (upd_session st p g) = (sessions st)(p \<mapsto> g (session st p))" "clients (upd_session st p g) = clients st"
  "st_next (upd_session st p g) = st_next st" "client_hash (upd_session st p g) = client_hash st"
  "owner_hash (upd_session st p g) = owner_hash st" "session_hash (upd_session st p g) = session_hash st"
  "client_buckets (upd_session st p g) = client_buckets st" "owner_buckets (upd_session st p g) = owner_buckets st"
  "session_buckets (upd_session st p g) = session_buckets st" "next_clientid (upd_session st p g) = next_clientid st"
  "next_session_seq (upd_session st p g) = next_session_seq st" "restart_nonce (upd_session st p g) = restart_nonce st"
  "st_mds_id (upd_session st p g) = st_mds_id st" "lease_time_sec (upd_session st p g) = lease_time_sec st"
  "st_ot (upd_session st p g) = st_ot st" "st_lt (upd_session st p g) = st_lt st" "st_cq (upd_session st p g) = st_cq st"
  "st_cat (upd_session st p g) = st_cat st" "max_fore_slots (upd_session st p g) = max_fore_slots st" "st_calls (upd_session st p g) = st_calls st"
  by (simp_all add: upd_session_def)

lemma links_wfI:
  assumes "\<And>p s. sessions st p = Some s \<Longrightarrow>
      \<exists>q c. se_owner s = Some q \<and> clients st q = Some c \<and> se_clientid s = cl_clientid c \<and> p \<in> set (cl_sessions c)"
    and "\<And>q c. clients st q = Some c \<Longrightarrow> distinct (cl_sessions c)"
    and "\<And>q c p. clients st q = Some c \<Longrightarrow> p \<in> set (cl_sessions c) \<Longrightarrow> \<exists>s. sessions st p = Some s \<and> se_owner s = Some q"
    and "\<And>p c. clients st p = Some c \<Longrightarrow> p < st_next st" "\<And>p s. sessions st p = Some s \<Longrightarrow> p < st_next st"
  shows "links_wf st"
  unfolding links_wf_def using assms by blast

lemma links_sessD:
  assumes "links_wf st" "sessions st p = Some s"
  obtains q c where "se_owner s = Some q" "clients st q = Some c" "se_clientid s = cl_clientid c" "p \<in> set (cl_sessions c)"
  using assms unfolding links_wf_def by blast

lemma links_clientD:
  assumes "links_wf st" "clients st q = Some c"
  shows "distinct (cl_sessions c)" "q < st_next st" "p \<in> set (cl_sessions c) \<Longrightarrow> \<exists>s. sessions st p = Some s \<and> se_owner s = Some q"
  using assms unfolding links_wf_def by blast+

lemma links_sess_addr: "links_wf st \<Longrightarrow> sessions st p = Some s \<Longrightarrow> p < st_next st"
  unfolding links_wf_def by blast

lemma st_wf_upd_client_at:
  assumes wf: "st_wf st" and p: "clients st p = Some c"
    and k: "cl_clientid (f c) = cl_clientid c" "cl_co_ownerid (f c) = cl_co_ownerid c" "cl_sessions (f c) = cl_sessions c"
      "cl_superseded_clientid (f c) = 0 \<or> cl_superseded_clientid (f c) \<noteq> cl_clientid c"
  shows "st_wf (upd_client st p f)"
proof -
  have "insert p (dom (clients st)) = dom (clients st)" using p by auto
  then have "index_wf (upd_client st p f)"
    using wf p k by (auto simp: st_wf_def index_wf_def owners_def intro: chain_wf_upd)
  moreover have "keys_wf (upd_client st p f)" using wf p k unfolding st_wf_def keys_wf_def owners_def by (simp split: if_splits) metis
  moreover have l: "links_wf st" using wf by (simp add: st_wf_def)
  have "links_wf (upd_client st p f)"
    using p k links_clientD [OF l] links_sess_addr [OF l] by (intro links_wfI) (auto split: if_splits elim!: links_sessD [OF l])
  moreover have "ids_wf (upd_client st p f)" using wf p k unfolding st_wf_def ids_wf_def by (auto split: if_splits)
  ultimately show ?thesis by (simp add: st_wf_def)
qed

lemma st_wf_upd_client: "st_wf st \<Longrightarrow> clients st p = Some c \<Longrightarrow> keeps_client f \<Longrightarrow> st_wf (upd_client st p f)"
  unfolding keeps_client_def st_wf_def ids_wf_def
  by (rule st_wf_upd_client_at [unfolded st_wf_def ids_wf_def]) (blast, blast, blast, blast, blast, metis insert_iff empty_iff)

lemma st_wf_upd_session:
  assumes wf: "st_wf st" and p: "sessions st p = Some s" and f: "keeps_session f"
  shows "st_wf (upd_session st p f)"
proof -
  have k: "se_id (f s) = se_id s" "se_clientid (f s) = se_clientid s" "se_owner (f s) = se_owner s"
    using f by (auto simp: keeps_session_def)
  have "insert p (dom (sessions st)) = dom (sessions st)" using p by auto
  then have "index_wf (upd_session st p f)"
    using wf p k by (auto simp: st_wf_def index_wf_def owners_def intro: chain_wf_upd)
  moreover have "keys_wf (upd_session st p f)" using wf p k unfolding st_wf_def keys_wf_def owners_def by (simp split: if_splits) metis
  moreover have l: "links_wf st" using wf by (simp add: st_wf_def)
  have "links_wf (upd_session st p f)"
  proof (rule links_wfI, goal_cases)
    case (1 q s')
    then show ?case using p k by (cases "q = p") (auto elim!: links_sessD [OF l])
  next
    case (3 q c p')
    then show ?case using p k links_clientD(3) [OF l, of q c p'] by auto
  qed (use p links_clientD [OF l] links_sess_addr [OF l] in \<open>auto split: if_splits\<close>)
  moreover have "ids_wf (upd_session st p f)" using wf p k unfolding st_wf_def ids_wf_def by (auto split: if_splits)
  ultimately show ?thesis by (simp add: st_wf_def)
qed

section \<open>Minting clientids\<close>

lemma low_masks: "(0xFFFF :: u64) = mask 16" "(0xFFFFFFFF :: u64) = mask 32"
  by (simp_all add: mask_eq_exp_minus_1)

lemma mint_parts:
  assumes "mds < 65536" "ctr < 0x100000000"
  shows "drop_bit 48 (mint_clientid mds nonce ctr) = ucast mds"
    "drop_bit 32 (mint_clientid mds nonce ctr) AND 0xFFFF = nonce AND 0xFFFF"
    "mint_clientid mds nonce ctr AND 0xFFFFFFFF = ctr"
proof -
  have "mds = take_bit 16 mds" using assms(1) by (simp add: word_unat_eq_iff unsigned_take_bit_eq take_bit_nat_eq_self word_less_nat_alt)
  then have m: "bit mds n \<Longrightarrow> n < 16" for n by (metis bit_take_bit_iff)
  have "ctr = take_bit 32 ctr" using assms(2) by (simp add: word_unat_eq_iff unsigned_take_bit_eq take_bit_nat_eq_self word_less_nat_alt)
  then have c: "bit ctr n \<Longrightarrow> n < 32" for n by (metis bit_take_bit_iff)
  show "drop_bit 48 (mint_clientid mds nonce ctr) = ucast mds"
    by (rule bit_word_eqI) (auto simp: mint_clientid_def low_masks bit_simps dest: m c)
  show "drop_bit 32 (mint_clientid mds nonce ctr) AND 0xFFFF = nonce AND 0xFFFF"
    by (rule bit_word_eqI) (auto simp: mint_clientid_def low_masks bit_simps dest: m c)
  show "mint_clientid mds nonce ctr AND 0xFFFFFFFF = ctr"
    by (rule bit_word_eqI) (auto simp: mint_clientid_def low_masks bit_simps dest: m c)
qed

section \<open>A new client\<close>

definition add_client :: "session_table \<Rightarrow> nfs4_client \<Rightarrow> u64 \<Rightarrow> session_table" where
  "add_client st c nc =
     (let p = st_next st
      in st\<lparr>clients := (clients st)(p \<mapsto> c), st_next := Suc p, next_clientid := nc,
            client_hash := (client_hash st)(cl_bucket st c := p # client_hash st (cl_bucket st c)),
            owner_hash := (owner_hash st)(ow_bucket st c := p # owner_hash st (ow_bucket st c))\<rparr>)"

lemma owners_add_client: "owners (add_client st c nc) = insert (st_next st) (owners st)"
  by (auto simp: owners_def add_client_def Let_def split: if_splits)

lemma owners_addr: "index_wf st \<Longrightarrow> links_wf st \<Longrightarrow> p \<in> owners st \<Longrightarrow> p < st_next st"
  unfolding owners_def index_wf_def using chain_wf_inD links_clientD(2) by fastforce

lemma fresh_addr: "links_wf st \<Longrightarrow> clients st (st_next st) = None \<and> sessions st (st_next st) = None"
  using links_clientD(2) links_sess_addr by (metis less_irrefl option.exhaust)

lemma st_wf_add_client:
  assumes wf: "st_wf st" and c: "cl_sessions c = []" "next_clientid st \<le> nc" "cl_superseded_clientid c = 0"
    and cid: "\<forall>q x. clients st q = Some x \<longrightarrow> cl_clientid x \<noteq> cl_clientid c"
    and own: "find_client_by_owner st (cl_co_ownerid c) = None"
    and ids: "drop_bit 48 (cl_clientid c) = ucast (st_mds_id st) \<Longrightarrow>
      drop_bit 32 (cl_clientid c) AND 0xFFFF = restart_nonce st AND 0xFFFF \<Longrightarrow> cl_clientid c AND 0xFFFFFFFF < nc"
  shows "st_wf (add_client st c nc)"
proof -
  let ?p = "st_next st" and ?t = "add_client st c nc"
  have l: "links_wf st" and i: "index_wf st" and k: "keys_wf st" and d: "ids_wf st" using wf by (auto simp: st_wf_def)
  have fr: "clients st ?p = None" "sessions st ?p = None" using fresh_addr [OF l] by auto
  have po: "?p \<notin> owners st" using owners_addr [OF i l] by blast
  have no: "\<not> (q \<in> owners st \<and> clients st q = Some x \<and> cl_co_ownerid x = cl_co_ownerid c)" for q x
    using own find_client_by_owner_iff [OF wf, of "cl_co_ownerid c" q] by auto
  have "index_wf ?t"
    using i fr po unfolding index_wf_def owners_add_client
    by (auto simp: add_client_def Let_def intro!: chain_wf_push)
  moreover have "keys_wf ?t"
    using k cid no po fr unfolding keys_wf_def owners_add_client
    by (simp add: add_client_def Let_def) metis
  moreover have "links_wf ?t"
  proof (rule links_wfI, goal_cases)
    case (1 q s)
    then have "sessions st q = Some s" by (simp add: add_client_def Let_def)
    then obtain q' c' where o: "se_owner s = Some q'" "clients st q' = Some c'" "se_clientid s = cl_clientid c'" "q \<in> set (cl_sessions c')"
      by (rule links_sessD [OF l])
    then have "clients ?t q' = Some c'" using fr by (auto simp: add_client_def Let_def)
    then show ?case using o by blast
  qed (use c fr links_clientD [OF l] links_sess_addr [OF l] in \<open>auto simp: add_client_def Let_def less_Suc_eq split: if_splits\<close>)
  moreover have "ids_wf ?t"
    using d c ids unfolding ids_wf_def by (auto simp: add_client_def Let_def split: if_splits intro: order.strict_trans2)
  ultimately show ?thesis by (simp add: st_wf_def)
qed

text \<open>The identifier a new client gets: recovered or minted.\<close>

definition new_clientid :: "session_table \<Rightarrow> bool \<Rightarrow> recovery_rows \<Rightarrow> bytes \<Rightarrow> bytes \<Rightarrow> u64 \<times> u64" where
  "new_clientid st grace rows owner verf =
     (case (if st_cat st \<and> grace then grace_recovery_scan rows owner verf else None) of
        Some rid \<Rightarrow> (rid, recovered_next st rid)
      | None \<Rightarrow> (mint_clientid (st_mds_id st) (restart_nonce st) (next_clientid st), next_clientid st + 1))"

definition new_client :: "u64 \<Rightarrow> int \<Rightarrow> bytes \<Rightarrow> bytes \<Rightarrow> u32 \<Rightarrow> u32 \<Rightarrow> u32 \<Rightarrow> nfs4_client" where
  "new_client cid now owner verf af uid gid =
     \<lparr>cl_clientid = cid, cl_co_ownerid = owner, cl_verifier = verf, cl_confirmed = False, cl_last_renewed = now,
      cl_create_seq = 1, cl_auth_flavor = af, cl_cred_uid = uid, cl_cred_gid = gid, cl_sessions = [],
      cl_reclaim_complete_done = False, cl_last_cs = None, cl_superseded_clientid = 0\<rparr>"

lemma alloc_new_eq:
  "session_alloc_new_client st now oom grace rows owner verf af uid gid =
     (if A_client \<in> oom then (st, SESSION_EID_RESOURCE, None)
      else (let (cid, nc) = new_clientid st grace rows owner verf
            in (add_client st (new_client cid now owner verf af uid gid) nc, SESSION_EID_OK, Some (cid, 1, EID_RES_FLAGS))))"
  by (simp add: session_alloc_new_client_def new_clientid_def add_client_def new_client_def Let_def split: option.split prod.split)

text \<open>What a mint needs: the server id fits its 16 bits, the counter its 32, and a recovered id is not in use.\<close>

definition mint_ok :: "session_table \<Rightarrow> bool \<Rightarrow> recovery_rows \<Rightarrow> bytes \<Rightarrow> bytes \<Rightarrow> bool" where
  "mint_ok st grace rows owner verf \<longleftrightarrow> st_mds_id st < 65536 \<and> next_clientid st < 0x100000000 \<and>
     (case (if st_cat st \<and> grace then grace_recovery_scan rows owner verf else None) of
        Some rid \<Rightarrow> find_client_by_id st rid = None | None \<Rightarrow> True)"

lemma and_low32: "(x :: u64) AND 0xFFFFFFFF < 0x100000000"
proof -
  have "x AND 0xFFFFFFFF \<le> 0xFFFFFFFF" by (rule word_and_le1)
  then show ?thesis by (rule order.strict_trans1) simp
qed

lemma succ_less: "x < 0x100000000 \<Longrightarrow> x < x + (1 :: u64)"
  by (simp add: word_less_nat_alt unat_word_ariths)

lemma new_clientid_ok:
  assumes wf: "st_wf st" and ok: "mint_ok st grace rows owner verf" and n: "new_clientid st grace rows owner verf = (cid, nc)"
  shows "next_clientid st \<le> nc" "\<forall>q x. clients st q = Some x \<longrightarrow> cl_clientid x \<noteq> cid"
    "drop_bit 48 cid = ucast (st_mds_id st) \<Longrightarrow> drop_bit 32 cid AND 0xFFFF = restart_nonce st AND 0xFFFF \<Longrightarrow> cid AND 0xFFFFFFFF < nc"
proof -
  let ?r = "if st_cat st \<and> grace then grace_recovery_scan rows owner verf else None"
  have b: "st_mds_id st < 65536" "next_clientid st < 0x100000000" using ok by (auto simp: mint_ok_def)
  have "next_clientid st \<le> nc \<and> (\<forall>q x. clients st q = Some x \<longrightarrow> cl_clientid x \<noteq> cid) \<and>
    (drop_bit 48 cid = ucast (st_mds_id st) \<longrightarrow> drop_bit 32 cid AND 0xFFFF = restart_nonce st AND 0xFFFF \<longrightarrow> cid AND 0xFFFFFFFF < nc)"
  proof (cases ?r)
    case None
    then have e: "cid = mint_clientid (st_mds_id st) (restart_nonce st) (next_clientid st)" "nc = next_clientid st + 1"
      using n by (auto simp: new_clientid_def)
    have "cl_clientid x \<noteq> cid" if "clients st q = Some x" for q x
      using wf that mint_parts [OF b] unfolding e st_wf_def ids_wf_def by (metis order.irrefl)
    then show ?thesis using e mint_parts [OF b] succ_less [OF b(2)] by auto
  next
    case (Some rid)
    then have e: "cid = rid" "nc = recovered_next st rid" using n by (auto simp: new_clientid_def)
    have "find_client_by_id st rid = None" using ok Some by (auto simp: mint_ok_def)
    then have "\<forall>q x. clients st q = Some x \<longrightarrow> cl_clientid x \<noteq> cid" using find_client_by_id_iff [OF wf] e by (metis option.distinct(1))
    moreover have "rid AND 0xFFFFFFFF < (rid AND 0xFFFFFFFF) + 1" by (rule succ_less [OF and_low32])
    ultimately show ?thesis using e by (auto simp: recovered_next_def Let_def not_le)
  qed
  then show "next_clientid st \<le> nc" "\<forall>q x. clients st q = Some x \<longrightarrow> cl_clientid x \<noteq> cid"
    "drop_bit 48 cid = ucast (st_mds_id st) \<Longrightarrow> drop_bit 32 cid AND 0xFFFF = restart_nonce st AND 0xFFFF \<Longrightarrow> cid AND 0xFFFFFFFF < nc"
    by blast+
qed

lemma st_wf_alloc_new:
  assumes "st_wf st" "mint_ok st grace rows owner verf" "find_client_by_owner st owner = None"
  shows "st_wf (fst (session_alloc_new_client st now oom grace rows owner verf af uid gid))"
proof -
  obtain cid nc where n: "new_clientid st grace rows owner verf = (cid, nc)" by fastforce
  have "st_wf (add_client st (new_client cid now owner verf af uid gid) nc)"
    using assms new_clientid_ok [OF assms(1,2) n] by (intro st_wf_add_client) (auto simp: new_client_def)
  then show ?thesis using assms(1) n by (simp add: alloc_new_eq)
qed

section \<open>Unlinking\<close>

lemma owner_unhash_sel [simp]:
  "clients (owner_unhash st p) = clients st" "sessions (owner_unhash st p) = sessions st" "st_next (owner_unhash st p) = st_next st"
  "client_hash (owner_unhash st p) = client_hash st" "session_hash (owner_unhash st p) = session_hash st"
  "client_buckets (owner_unhash st p) = client_buckets st" "owner_buckets (owner_unhash st p) = owner_buckets st"
  "session_buckets (owner_unhash st p) = session_buckets st" "next_clientid (owner_unhash st p) = next_clientid st"
  "next_session_seq (owner_unhash st p) = next_session_seq st" "restart_nonce (owner_unhash st p) = restart_nonce st"
  "st_mds_id (owner_unhash st p) = st_mds_id st" "lease_time_sec (owner_unhash st p) = lease_time_sec st"
  "st_ot (owner_unhash st p) = st_ot st" "st_lt (owner_unhash st p) = st_lt st" "st_cq (owner_unhash st p) = st_cq st"
  "st_cat (owner_unhash st p) = st_cat st" "st_calls (owner_unhash st p) = st_calls st" "max_fore_slots (owner_unhash st p) = max_fore_slots st"
  by (simp_all add: owner_unhash_def Let_def)

lemma owners_owner_unhash:
  assumes "index_wf st" "clients st p = Some c"
  shows "owners (owner_unhash st p) = owners st - {p}"
proof -
  have w: "chain_wf (clients st) (ow_bucket st) (owners st) (owner_hash st)" using assms(1) by (simp add: index_wf_def)
  have "p \<in> set (owner_hash st b) \<Longrightarrow> b = ow_bucket st c" for b using chain_wf_inD [OF w] assms(2) by fastforce
  moreover have "distinct (owner_hash st b)" for b using w by (simp add: chain_wf_def)
  ultimately show ?thesis using assms(2) by (auto simp: owners_def owner_unhash_def Let_def split: if_splits)
qed

lemma st_wf_owner_unhash:
  assumes wf: "st_wf st" and p: "clients st p = Some c"
  shows "st_wf (owner_unhash st p)"
proof -
  have i: "index_wf st" and l: "links_wf st" using wf by (auto simp: st_wf_def)
  note o = owners_owner_unhash [OF i p]
  have "chain_wf (clients st) (ow_bucket st) (owners st - {p}) (owner_hash (owner_unhash st p))"
    using i p unfolding index_wf_def by (auto simp: owner_unhash_def Let_def intro: chain_wf_drop)
  then have "index_wf (owner_unhash st p)" using i unfolding index_wf_def o by simp
  moreover have "keys_wf (owner_unhash st p)" using wf unfolding st_wf_def keys_wf_def o by simp
  moreover have "links_wf (owner_unhash st p)" "ids_wf (owner_unhash st p)" using wf by (simp_all add: st_wf_def links_wf_def ids_wf_def)
  ultimately show ?thesis by (simp add: st_wf_def)
qed

text \<open>Removing the sessions on a list.\<close>

definition drop_sessions :: "session_table \<Rightarrow> ptr list \<Rightarrow> session_table" where
  "drop_sessions st ps = foldl (\<lambda>t s. free_session (unhash_session t s) s) st ps"

lemma drop_sessions_simps [simp]:
  "drop_sessions st [] = st" "drop_sessions st (p # ps) = drop_sessions (free_session (unhash_session st p) p) ps"
  by (simp_all add: drop_sessions_def)

lemma drop_one_sel [simp]:
  "sessions (free_session (unhash_session st p) p) = (sessions st)(p := None)"
  "clients (free_session (unhash_session st p) p) = clients st" "st_next (free_session (unhash_session st p) p) = st_next st"
  "client_hash (free_session (unhash_session st p) p) = client_hash st" "owner_hash (free_session (unhash_session st p) p) = owner_hash st"
  "client_buckets (free_session (unhash_session st p) p) = client_buckets st" "owner_buckets (free_session (unhash_session st p) p) = owner_buckets st"
  "session_buckets (free_session (unhash_session st p) p) = session_buckets st" "next_clientid (free_session (unhash_session st p) p) = next_clientid st"
  "next_session_seq (free_session (unhash_session st p) p) = next_session_seq st" "restart_nonce (free_session (unhash_session st p) p) = restart_nonce st"
  "st_mds_id (free_session (unhash_session st p) p) = st_mds_id st" "lease_time_sec (free_session (unhash_session st p) p) = lease_time_sec st"
  "st_ot (free_session (unhash_session st p) p) = st_ot st" "st_lt (free_session (unhash_session st p) p) = st_lt st"
  "st_cq (free_session (unhash_session st p) p) = st_cq st" "st_cat (free_session (unhash_session st p) p) = st_cat st"
  "st_calls (free_session (unhash_session st p) p) = st_calls st" "max_fore_slots (free_session (unhash_session st p) p) = max_fore_slots st"
  by (simp_all add: free_session_def unhash_session_def Let_def)

lemma drop_sessions_sel [simp]:
  "clients (drop_sessions st ps) = clients st" "st_next (drop_sessions st ps) = st_next st"
  "client_hash (drop_sessions st ps) = client_hash st" "owner_hash (drop_sessions st ps) = owner_hash st"
  "client_buckets (drop_sessions st ps) = client_buckets st" "owner_buckets (drop_sessions st ps) = owner_buckets st"
  "session_buckets (drop_sessions st ps) = session_buckets st" "next_clientid (drop_sessions st ps) = next_clientid st"
  "next_session_seq (drop_sessions st ps) = next_session_seq st" "restart_nonce (drop_sessions st ps) = restart_nonce st"
  "st_mds_id (drop_sessions st ps) = st_mds_id st" "lease_time_sec (drop_sessions st ps) = lease_time_sec st"
  "st_ot (drop_sessions st ps) = st_ot st" "st_lt (drop_sessions st ps) = st_lt st"
  "st_cq (drop_sessions st ps) = st_cq st" "st_cat (drop_sessions st ps) = st_cat st" "st_calls (drop_sessions st ps) = st_calls st"
  "max_fore_slots (drop_sessions st ps) = max_fore_slots st"
  by (induction ps arbitrary: st) simp_all

lemma restrict_Some [simp]: "(m |` A) x = Some y \<longleftrightarrow> x \<in> A \<and> m x = Some y"
  by (auto simp: restrict_map_def)

lemma sessions_drop_sessions: "sessions (drop_sessions st ps) = sessions st |` (- set ps)"
  by (induction ps arbitrary: st) (auto simp: fun_eq_iff restrict_map_def)

lemma chain_wf_drop_session:
  assumes "chain_wf (sessions st) (se_bucket st) (dom (sessions st)) (session_hash st)" "sessions st p = Some s"
  shows "chain_wf (sessions (free_session (unhash_session st p) p)) (se_bucket st) (dom (sessions (free_session (unhash_session st p) p)))
    (session_hash (free_session (unhash_session st p) p))"
proof -
  have "chain_wf (sessions st) (se_bucket st) (dom (sessions st) - {p})
      ((session_hash st)(se_bucket st s := chain_unlink p (session_hash st (se_bucket st s))))"
    using assms by (intro chain_wf_drop) auto
  then have "chain_wf ((sessions st)(p := None)) (se_bucket st) (dom (sessions st) - {p})
      ((session_hash st)(se_bucket st s := chain_unlink p (session_hash st (se_bucket st s))))"
    by (rule chain_wf_free) simp
  then show ?thesis using assms(2) by (simp add: free_session_def unhash_session_def Let_def)
qed

lemma chain_wf_drop_sessions:
  assumes "chain_wf (sessions st) (se_bucket st) (dom (sessions st)) (session_hash st)" "distinct ps" "set ps \<subseteq> dom (sessions st)"
  shows "chain_wf (sessions (drop_sessions st ps)) (se_bucket st) (dom (sessions (drop_sessions st ps))) (session_hash (drop_sessions st ps))"
  using assms
proof (induction ps arbitrary: st)
  case (Cons p ps)
  let ?t = "free_session (unhash_session st p) p"
  obtain s where "sessions st p = Some s" using Cons.prems(3) by auto
  then have a: "chain_wf (sessions ?t) (se_bucket ?t) (dom (sessions ?t)) (session_hash ?t)"
    using chain_wf_drop_session [OF Cons.prems(1)] by simp
  have b: "distinct ps" "set ps \<subseteq> dom (sessions ?t)" using Cons.prems(2,3) by auto
  show ?case using Cons.IH [OF a b] by simp
qed simp

section \<open>Freeing a client\<close>

lemma recovery_del_sel [simp]:
  "clients (recovery_del st c) = clients st" "sessions (recovery_del st c) = sessions st" "st_next (recovery_del st c) = st_next st"
  "client_hash (recovery_del st c) = client_hash st" "owner_hash (recovery_del st c) = owner_hash st" "session_hash (recovery_del st c) = session_hash st"
  "client_buckets (recovery_del st c) = client_buckets st" "owner_buckets (recovery_del st c) = owner_buckets st"
  "session_buckets (recovery_del st c) = session_buckets st" "next_clientid (recovery_del st c) = next_clientid st"
  "next_session_seq (recovery_del st c) = next_session_seq st" "restart_nonce (recovery_del st c) = restart_nonce st"
  "st_mds_id (recovery_del st c) = st_mds_id st" "lease_time_sec (recovery_del st c) = lease_time_sec st"
  "st_ot (recovery_del st c) = st_ot st" "st_lt (recovery_del st c) = st_lt st" "st_cq (recovery_del st c) = st_cq st"
  "st_cat (recovery_del st c) = st_cat st" "max_fore_slots (recovery_del st c) = max_fore_slots st"
  by (simp_all add: recovery_del_def)

text \<open>The table without the client at \<open>p\<close> and without its sessions, up to the recorded calls.\<close>

definition kill_client :: "session_table \<Rightarrow> ptr \<Rightarrow> session_table" where
  "kill_client st p =
     (let t = drop_sessions (unhash_client st p) (cl_sessions (client st p)) in t\<lparr>clients := (clients t)(p := None)\<rparr>)"

lemma unhash_client_sel [simp]:
  "clients (unhash_client st p) = clients st" "sessions (unhash_client st p) = sessions st" "st_next (unhash_client st p) = st_next st"
  "session_hash (unhash_client st p) = session_hash st"
  "client_hash (unhash_client st p) = (client_hash st)(cl_bucket st (client st p) := chain_unlink p (client_hash st (cl_bucket st (client st p))))"
  "owner_hash (unhash_client st p) = owner_hash (owner_unhash st p)"
  "client_buckets (unhash_client st p) = client_buckets st" "owner_buckets (unhash_client st p) = owner_buckets st"
  "session_buckets (unhash_client st p) = session_buckets st" "next_clientid (unhash_client st p) = next_clientid st"
  "next_session_seq (unhash_client st p) = next_session_seq st" "restart_nonce (unhash_client st p) = restart_nonce st"
  "st_mds_id (unhash_client st p) = st_mds_id st" "lease_time_sec (unhash_client st p) = lease_time_sec st"
  "st_ot (unhash_client st p) = st_ot st" "st_lt (unhash_client st p) = st_lt st" "st_cq (unhash_client st p) = st_cq st"
  "st_cat (unhash_client st p) = st_cat st" "st_calls (unhash_client st p) = st_calls st" "max_fore_slots (unhash_client st p) = max_fore_slots st"
  by (simp_all add: unhash_client_def owner_unhash_def Let_def)

lemma kill_client_sel [simp]:
  "clients (kill_client st p) = (clients st)(p := None)"
  "sessions (kill_client st p) = sessions st |` (- set (cl_sessions (client st p)))"
  "st_next (kill_client st p) = st_next st" "owner_hash (kill_client st p) = owner_hash (owner_unhash st p)"
  "client_hash (kill_client st p) = client_hash (unhash_client st p)"
  "session_hash (kill_client st p) = session_hash (drop_sessions (unhash_client st p) (cl_sessions (client st p)))"
  "client_buckets (kill_client st p) = client_buckets st" "owner_buckets (kill_client st p) = owner_buckets st"
  "session_buckets (kill_client st p) = session_buckets st" "next_clientid (kill_client st p) = next_clientid st"
  "next_session_seq (kill_client st p) = next_session_seq st" "restart_nonce (kill_client st p) = restart_nonce st"
  "st_mds_id (kill_client st p) = st_mds_id st" "lease_time_sec (kill_client st p) = lease_time_sec st"
  "st_ot (kill_client st p) = st_ot st" "st_lt (kill_client st p) = st_lt st" "st_cq (kill_client st p) = st_cq st"
  "st_cat (kill_client st p) = st_cat st" "st_calls (kill_client st p) = st_calls st" "max_fore_slots (kill_client st p) = max_fore_slots st"
  by (simp_all add: kill_client_def sessions_drop_sessions Let_def)

lemma drop_one_frame: "free_session (unhash_session (st\<lparr>st_calls := x\<rparr>) p) p = (free_session (unhash_session st p) p)\<lparr>st_calls := x\<rparr>"
  by (simp add: free_session_def unhash_session_def Let_def)

lemma drop_sessions_frame: "drop_sessions (st\<lparr>st_calls := x\<rparr>) ps = (drop_sessions st ps)\<lparr>st_calls := x\<rparr>"
  by (induction ps arbitrary: st) (simp_all add: drop_one_frame)

lemma free_client_eq: "free_client (unhash_client st p) p = recovery_del (kill_client st p) (client st p)"
  by (auto simp: free_client_def kill_client_def destroy_client_sessions_def recovery_del_def Let_def
      drop_sessions_def [symmetric] drop_sessions_frame upd_client_def)

lemma client_sessions_iff:
  assumes "links_wf st" "clients st p = Some c" "sessions st q = Some s"
  shows "q \<in> set (cl_sessions c) \<longleftrightarrow> se_owner s = Some p"
  using assms links_clientD(3) [OF assms(1,2), of q] by (auto elim: links_sessD)

lemma st_wf_kill_client:
  assumes wf: "st_wf st" and p: "clients st p = Some c"
  shows "st_wf (kill_client st p)"
proof -
  let ?t = "kill_client st p"
  have i: "index_wf st" and l: "links_wf st" and k: "keys_wf st" using wf by (auto simp: st_wf_def)
  note o = owners_owner_unhash [OF i p]
  have ow: "owners ?t = owners st - {p}" using o by (simp add: owners_def)
  have sub: "set (cl_sessions c) \<subseteq> dom (sessions st)" using links_clientD(3) [OF l p] by auto
  have mine: "q \<in> set (cl_sessions c) \<longleftrightarrow> se_owner s = Some p" if "sessions st q = Some s" for q s
    using client_sessions_iff [OF l p that] .
  have "chain_wf (clients st) (cl_bucket st) (dom (clients st) - {p}) (client_hash ?t)"
    using i p unfolding index_wf_def by (auto intro: chain_wf_drop)
  then have 1: "chain_wf (clients ?t) (cl_bucket ?t) (dom (clients ?t)) (client_hash ?t)"
    using p by (simp add: chain_wf_free)
  have "chain_wf (clients st) (ow_bucket st) (owners st - {p}) (owner_hash ?t)"
    using i p unfolding index_wf_def by (auto simp: owner_unhash_def Let_def intro: chain_wf_drop)
  then have 2: "chain_wf (clients ?t) (ow_bucket ?t) (owners ?t) (owner_hash ?t)" using p by (simp add: ow chain_wf_free)
  have "chain_wf (sessions (unhash_client st p)) (se_bucket (unhash_client st p)) (dom (sessions (unhash_client st p))) (session_hash (unhash_client st p))"
    using i by (simp add: index_wf_def)
  then have 3: "chain_wf (sessions ?t) (se_bucket ?t) (dom (sessions ?t)) (session_hash ?t)"
    using chain_wf_drop_sessions [of "unhash_client st p" "cl_sessions c"] links_clientD(1) [OF l p] sub p
    by (simp add: sessions_drop_sessions)
  have "keys_wf ?t" using k unfolding keys_wf_def ow by (auto split: if_splits)
  moreover have "links_wf ?t"
  proof (rule links_wfI, goal_cases)
    case (1 q s)
    then have s: "sessions st q = Some s" "q \<notin> set (cl_sessions c)" using p by (auto split: if_splits)
    then obtain q' c' where "se_owner s = Some q'" "clients st q' = Some c'" "se_clientid s = cl_clientid c'" "q \<in> set (cl_sessions c')"
      by (auto elim: links_sessD [OF l])
    then show ?case using s p by auto
  next
    case (3 q c' q')
    then have "clients st q = Some c'" "q \<noteq> p" by (auto split: if_splits)
    then show ?case using 3(2) links_clientD(3) [OF l, of q c' q'] mine p by auto
  qed (use p links_clientD [OF l] links_sess_addr [OF l] in \<open>auto split: if_splits\<close>)
  moreover have "ids_wf ?t" using wf unfolding st_wf_def ids_wf_def by (auto split: if_splits)
  ultimately show ?thesis using i 1 2 3 by (simp add: st_wf_def index_wf_def)
qed

end
