(* ===== verification/Session_Ops.thy ===== *)
theory Session_Ops
  imports Session_Index
begin

text \<open>
  Every operation of the session table keeps its invariant. Each section treats one operation of \<^verbatim>\<open>session.c\<close>: what it does
  to the two heaps, and that \<open>st_wf\<close> survives.
\<close>

section \<open>CREATE_SESSION\<close>

lemma session_id_of_inj: "session_id_of m k n = session_id_of m k' n \<Longrightarrow> k = k'"
  using be_bytes_inj [of 8 k k'] by (simp add: session_id_of_def take_bit_word_eq_self)

lemma succ_max:
  fixes x :: u64
  assumes "x \<noteq> UINT64_MAX"
  shows "x < x + 1"
proof -
  have "unat x \<noteq> unat UINT64_MAX" using assms unsigned_word_eqI by blast
  moreover have "unat x < 2 ^ LENGTH(64)" by (rule unsigned_less)
  moreover have "unat UINT64_MAX = 2 ^ 64 - 1" by (simp add: unsigned_minus_1_eq_mask mask_eq_exp_minus_1)
  ultimately show ?thesis by (simp add: word_less_nat_alt unat_word_ariths)
qed

lemma link_sel:
  assumes "create_session_link st p s = (st', sid)" "clients st p = Some c"
  shows "sid = session_id_of (st_mds_id st) (next_session_seq st) (restart_nonce st)"
    "clients st' = (clients st)(p \<mapsto> c\<lparr>cl_sessions := st_next st # cl_sessions c\<rparr>)"
    "sessions st' = (sessions st)(st_next st \<mapsto> s\<lparr>se_id := sid\<rparr>)"
    "st_next st' = Suc (st_next st)" "next_session_seq st' = next_session_seq st + 1" "client_hash st' = client_hash st"
    "owner_hash st' = owner_hash st"
    "session_hash st' = (session_hash st)(hash_session_id (session_buckets st) sid := st_next st # session_hash st (hash_session_id (session_buckets st) sid))"
    "client_buckets st' = client_buckets st" "owner_buckets st' = owner_buckets st" "session_buckets st' = session_buckets st"
    "next_clientid st' = next_clientid st" "restart_nonce st' = restart_nonce st" "st_mds_id st' = st_mds_id st"
    "st_ot st' = st_ot st" "st_lt st' = st_lt st" "st_cq st' = st_cq st" "st_cat st' = st_cat st" "lease_time_sec st' = lease_time_sec st"
    "max_fore_slots st' = max_fore_slots st" "st_calls st' = st_calls st"
  using assms by (auto simp: create_session_link_def make_session_id_def Let_def)

lemma st_wf_link:
  assumes wf: "st_wf st" and p: "clients st p = Some c" and s: "se_owner s = Some p" "se_clientid s = cl_clientid c"
    and n: "next_session_seq st \<noteq> UINT64_MAX" and r: "create_session_link st p s = (st', sid)"
  shows "st_wf st'"
proof -
  note sel = link_sel [OF r p]
  have i: "index_wf st" and l: "links_wf st" and k: "keys_wf st" and d: "ids_wf st" using wf by (auto simp: st_wf_def)
  have fr: "clients st (st_next st) = None" "sessions st (st_next st) = None" using fresh_addr [OF l] by auto
  have np: "p \<noteq> st_next st" using fr p by auto
  have fresh: "se_id x \<noteq> sid" if "sessions st q = Some x" for q x
    using d that session_id_of_inj unfolding sel(1) ids_wf_def by (metis order.irrefl)
  have dc: "insert p (dom (clients st)) = dom (clients st)" using p by auto
  have "index_wf st'"
    using i p fr unfolding index_wf_def owners_def sel
    by (auto simp: dc intro: chain_wf_upd chain_wf_push)
  moreover have "keys_wf st'" using k p fresh unfolding keys_wf_def owners_def sel by (simp split: if_splits) metis
  moreover have "links_wf st'"
  proof (rule links_wfI, goal_cases)
    case (1 q x)
    show ?case
    proof (cases "q = st_next st")
      case True
      then show ?thesis using 1 s p np unfolding sel by auto
    next
      case False
      then have "sessions st q = Some x" using 1 unfolding sel by simp
      then obtain q' c' where "se_owner x = Some q'" "clients st q' = Some c'" "se_clientid x = cl_clientid c'" "q \<in> set (cl_sessions c')"
        by (rule links_sessD [OF l])
      then show ?thesis using p unfolding sel by (cases "q' = p") auto
    qed
  next
    case (3 q c' q')
    then show ?case using s p fr np links_clientD(3) [OF l, of q _ q'] unfolding sel by (auto split: if_splits)
  next
    case (2 q c')
    then show ?case using p fr links_clientD(1,3) [OF l] unfolding sel by (force split: if_splits)
  qed (use p links_clientD(2) [OF l] links_sess_addr [OF l] in \<open>auto simp: sel less_Suc_eq split: if_splits\<close>)
  moreover have up: "j < next_session_seq st \<Longrightarrow> j < next_session_seq st + 1" for j using order.strict_trans [OF _ succ_max [OF n]] .
  have "ids_wf st'" using d p succ_max [OF n] unfolding ids_wf_def sel by (auto split: if_splits) (metis up)
  ultimately show ?thesis by (simp add: st_wf_def)
qed

lemma st_wf_destroy_superseded:
  assumes wf: "st_wf st" and p: "clients st p = Some c"
  shows "st_wf (destroy_superseded st p)" "clients (destroy_superseded st p) p = Some (c\<lparr>cl_superseded_clientid := 0\<rparr>)"
proof -
  have "st_wf (destroy_superseded st p) \<and> clients (destroy_superseded st p) p = Some (c\<lparr>cl_superseded_clientid := 0\<rparr>)"
  proof (cases "cl_superseded_clientid c = 0")
    case True
    then show ?thesis using wf p by (simp add: destroy_superseded_def)
  next
    case False
    show ?thesis
    proof (cases "find_client_by_id st (cl_superseded_clientid c)")
      case None
      then show ?thesis using wf p False by (auto simp: destroy_superseded_def keeps_client_def intro!: st_wf_upd_client)
    next
      case (Some q)
      then obtain c' where q: "clients st q = Some c'" "cl_clientid c' = cl_superseded_clientid c" using find_client_by_id_iff [OF wf] by blast
      then have "q \<noteq> p" using wf p False unfolding st_wf_def ids_wf_def by (metis option.inject)
      then show ?thesis
        using wf p q False Some st_wf_kill_client [OF wf q(1)]
        by (auto simp: destroy_superseded_def free_client_eq keeps_client_def Let_def intro!: st_wf_upd_client)
    qed
  qed
  then show "st_wf (destroy_superseded st p)" "clients (destroy_superseded st p) p = Some (c\<lparr>cl_superseded_clientid := 0\<rparr>)" by blast+
qed

lemma create_session_alloc_links:
  "create_session_alloc oom p cid fore back req ops resp respc minor prog fl = Some s \<Longrightarrow>
     se_owner s = Some p \<and> se_clientid s = cid"
  by (auto simp: create_session_alloc_def Let_def split: if_splits)

lemma st_wf_create_session_new:
  assumes wf: "st_wf st" and p: "clients st p = Some c" "cl_clientid c = ca_clientid a" and n: "next_session_seq st \<noteq> UINT64_MAX"
  shows "st_wf (fst (create_session_new st now oom p a))"
proof -
  obtain f b r m where ng: "create_session_negotiate st (ca_fore_slots a) (ca_back_slots a) (ca_max_request_size a) (ca_max_operations a) = (f, b, r, m)"
    by (cases rule: prod_cases4)
  show ?thesis
  proof (cases "create_session_alloc oom p (ca_clientid a) f b r m (ca_max_response_size a) (ca_max_response_size_cached a)
      (ca_minorversion a) (ca_cb_prog a) (ca_cb_sec_flavor a)")
    case None
    then show ?thesis using wf ng by (simp add: create_session_new_def)
  next
    case (Some s)
    obtain st1 sid where lk: "create_session_link st p s = (st1, sid)" by fastforce
    let ?c1 = "c\<lparr>cl_sessions := st_next st # cl_sessions c\<rparr>"
    let ?st2 = "upd_client st1 p (\<lambda>c. c\<lparr>cl_confirmed := True, cl_create_seq := cl_create_seq c + 1, cl_last_renewed := now\<rparr>)"
    have "st_wf st1" using st_wf_link [OF wf p(1) _ _ n lk] create_session_alloc_links [OF Some] p(2) by simp
    moreover have c1: "clients st1 p = Some ?c1" using link_sel(2) [OF lk p(1)] by simp
    ultimately have w2: "st_wf ?st2" by (rule st_wf_upd_client) (simp add: keeps_client_def)
    have c2: "clients ?st2 p = Some (?c1\<lparr>cl_confirmed := True, cl_create_seq := cl_create_seq c + 1, cl_last_renewed := now\<rparr>)" using c1 by simp
    show ?thesis using Some ng lk st_wf_destroy_superseded [OF w2 c2]
      by (auto simp: create_session_new_def Let_def keeps_client_def intro!: st_wf_upd_client)
  qed
qed

lemma st_wf_free_client: "st_wf st \<Longrightarrow> clients st p = Some c \<Longrightarrow> st_wf (free_client (unhash_client st p) p)"
  by (simp add: free_client_eq st_wf_kill_client)

lemma st_wf_create_session:
  assumes wf: "st_wf st" and n: "next_session_seq st \<noteq> UINT64_MAX"
  shows "st_wf (fst (session_create_session st now oom a))"
proof (cases "find_client_by_id st (ca_clientid a)")
  case None
  then show ?thesis using wf by (simp add: session_create_session_def)
next
  case (Some p)
  then obtain c where p: "clients st p = Some c" "cl_clientid c = ca_clientid a" using find_client_by_id_iff [OF wf] by blast
  then show ?thesis using Some wf st_wf_create_session_new [OF wf p n] st_wf_free_client [OF wf p(1)]
    by (simp add: session_create_session_def Let_def)
qed

section \<open>EXCHANGE_ID\<close>

text \<open>The table on which a new record is made: without an earlier record of the owner in the owner index.\<close>

definition eid_base :: "session_table \<Rightarrow> bytes \<Rightarrow> u32 \<Rightarrow> u32 \<Rightarrow> u32 \<Rightarrow> session_table" where
  "eid_base st owner af uid gid =
     (case find_client_by_owner st owner of
        None \<Rightarrow> st
      | Some p \<Rightarrow>
          if cl_confirmed (client st p) \<and> client_principal_matches (client st p) af uid gid then owner_unhash st p
          else free_client (unhash_client st p) p)"

lemma find_by_owner_frame: "find_client_by_owner (recovery_del st c) k = find_client_by_owner st k"
  by (simp add: find_client_by_owner_def)

lemma eid_base_wf:
  assumes wf: "st_wf st"
  shows "st_wf (eid_base st owner af uid gid) \<and> find_client_by_owner (eid_base st owner af uid gid) owner = None"
proof (cases "find_client_by_owner st owner")
  case (Some p)
  then obtain c where p: "p \<in> owners st" "clients st p = Some c" "cl_co_ownerid c = owner" using find_client_by_owner_iff [OF wf] by blast
  have i: "index_wf st" using wf by (simp add: st_wf_def)
  have only: "q = p" if "q \<in> owners st" "clients st q = Some x" "cl_co_ownerid x = owner" for q x
    using wf p that unfolding st_wf_def keys_wf_def by metis
  have w: "st_wf (owner_unhash st p)" "st_wf (kill_client st p)" using st_wf_owner_unhash [OF wf p(2)] st_wf_kill_client [OF wf p(2)] by auto
  have o: "owners (owner_unhash st p) = owners st - {p}" "owners (kill_client st p) = owners st - {p}"
    using owners_owner_unhash [OF i p(2)] by (simp_all add: owners_def)
  have "find_client_by_owner (owner_unhash st p) owner = None"
    using find_client_by_owner_iff [OF w(1), of owner] only o(1) by (metis Diff_iff insertI1 not_Some_eq owner_unhash_sel(1))
  moreover have "find_client_by_owner (kill_client st p) owner \<noteq> Some q" for q
    using find_client_by_owner_iff [OF w(2), of owner q] only o(2) by auto
  ultimately show ?thesis using Some w by (auto simp: eid_base_def free_client_eq find_by_owner_frame)
qed (use wf in \<open>simp add: eid_base_def\<close>)

lemma exchange_id_wf_new:
  assumes wf: "st_wf st" and ok: "mint_ok (eid_base st owner af uid gid) grace rows owner verf"
    and n: "session_alloc_new_client (eid_base st owner af uid gid) now oom grace rows owner verf af uid gid = (st2, rc, r)"
  shows "st_wf st2"
    and "\<And>cid x p q c. r = Some (cid, x) \<Longrightarrow> find_client_by_id st2 cid = Some q \<Longrightarrow>
      clients (eid_base st owner af uid gid) p = Some c \<Longrightarrow> st_wf (upd_client st2 q (\<lambda>x. x\<lparr>cl_superseded_clientid := cl_clientid c\<rparr>))"
proof -
  let ?b = "eid_base st owner af uid gid"
  have b: "st_wf ?b" "find_client_by_owner ?b owner = None" using eid_base_wf [OF wf] by auto
  show w2: "st_wf st2" using st_wf_alloc_new [OF b(1) ok b(2), of now oom af uid gid] n by simp
  fix cid x p q c
  assume r: "r = Some (cid, x)" and q: "find_client_by_id st2 cid = Some q" and p: "clients ?b p = Some c"
  obtain i nc where i: "new_clientid ?b grace rows owner verf = (i, nc)" by fastforce
  then have "i = cid" using n r by (auto simp: alloc_new_eq split: if_splits)
  then have "cl_clientid c \<noteq> cid" using new_clientid_ok(2) [OF b(1) ok i] p by blast
  then show "st_wf (upd_client st2 q (\<lambda>x. x\<lparr>cl_superseded_clientid := cl_clientid c\<rparr>))"
    using q find_client_by_id_iff [OF w2] by (auto intro: st_wf_upd_client_at [OF w2])
qed

lemma st_wf_eid_renew: "st_wf st \<Longrightarrow> clients st p = Some c \<Longrightarrow> st_wf (fst (eid_renew st now p))"
  by (auto simp: eid_renew_def keeps_client_def intro!: st_wf_upd_client)

lemma st_wf_exchange_id:
  assumes wf: "st_wf st" and ok: "mint_ok (eid_base st owner af uid gid) grace rows owner verf"
  shows "st_wf (fst (session_exchange_id st now oom grace rows owner verf fl af uid gid))"
proof (cases "find_client_by_owner st owner")
  case None
  then have "eid_base st owner af uid gid = st" by (simp add: eid_base_def)
  then show ?thesis using None wf ok by (simp add: session_exchange_id_def st_wf_alloc_new)
next
  case (Some p)
  then obtain c where p: "clients st p = Some c" using find_client_by_owner_iff [OF wf] by blast
  obtain st2 rc r where n: "session_alloc_new_client (eid_base st owner af uid gid) now oom grace rows owner verf af uid gid = (st2, rc, r)"
    by (cases rule: prod_cases3)
  note new = exchange_id_wf_new [OF wf ok n]
  have base: "eid_base st owner af uid gid = (if cl_confirmed c \<and> client_principal_matches c af uid gid then owner_unhash st p
      else free_client (unhash_client st p) p)" using Some p by (simp add: eid_base_def)
  have sup: "st_wf (upd_client st2 q (\<lambda>x. x\<lparr>cl_superseded_clientid := cl_clientid c\<rparr>))"
    if "cl_confirmed c" "client_principal_matches c af uid gid" "r = Some (cid, x)" "find_client_by_id st2 cid = Some q" for cid x q
    using new(2) [OF that(3,4), of p c] that(1,2) base p by simp
  show ?thesis
    using Some p wf st_wf_eid_renew [OF wf p, of now] n new(1) sup unfolding base
    by (auto simp: session_exchange_id_def Let_def split: option.split prod.split)
qed

section \<open>Teardown\<close>

lemma st_wf_drop_one:
  assumes wf: "st_wf st" and p: "sessions st p = Some s" "se_owner s = Some q"
  shows "st_wf (free_session (unhash_session (upd_client st q (\<lambda>c. c\<lparr>cl_sessions := chain_unlink p (cl_sessions c)\<rparr>)) p) p)"
proof -
  let ?t = "free_session (unhash_session (upd_client st q (\<lambda>c. c\<lparr>cl_sessions := chain_unlink p (cl_sessions c)\<rparr>)) p) p"
  have i: "index_wf st" and l: "links_wf st" and k: "keys_wf st" and d: "ids_wf st" using wf by (auto simp: st_wf_def)
  obtain c where c: "clients st q = Some c" "p \<in> set (cl_sessions c)" using links_sessD [OF l p(1)] p(2) by (metis option.inject)
  note dist = links_clientD(1) [OF l c(1)]
  have dc: "insert q (dom (clients st)) = dom (clients st)" using c by auto
  have "chain_wf (sessions ?t) (se_bucket st) (dom (sessions ?t)) (session_hash ?t)"
    using chain_wf_drop_session [of "upd_client st q (\<lambda>c. c\<lparr>cl_sessions := chain_unlink p (cl_sessions c)\<rparr>)" p s] i p
    by (simp add: index_wf_def)
  then have "index_wf ?t" using i c unfolding index_wf_def owners_def by (auto simp: dc intro: chain_wf_upd)
  moreover have "keys_wf ?t" using k c unfolding keys_wf_def owners_def by (simp split: if_splits) metis
  moreover have "links_wf ?t"
  proof (rule links_wfI, goal_cases)
    case (1 x y)
    then have x: "sessions st x = Some y" "x \<noteq> p" by (auto split: if_splits)
    obtain q' c' where "se_owner y = Some q'" "clients st q' = Some c'" "se_clientid y = cl_clientid c'" "x \<in> set (cl_sessions c')"
      using x(1) by (rule links_sessD [OF l])
    then show ?case using x c dist by (cases "q' = q") auto
  next
    case (3 x y z)
    then show ?case using c p dist links_clientD(3) [OF l, of x _ z] by (auto split: if_splits)
  qed (use c dist links_clientD [OF l] links_sess_addr [OF l] in \<open>auto split: if_splits\<close>)
  moreover have "ids_wf ?t" using d c unfolding ids_wf_def by (auto split: if_splits)
  ultimately show ?thesis by (simp add: st_wf_def)
qed

lemma st_wf_destroy_session:
  assumes wf: "st_wf st"
  shows "st_wf (fst (session_destroy_session st sid))"
proof (cases "find_session st sid")
  case (Some p)
  then obtain s where p: "sessions st p = Some s" using find_session_iff [OF wf] by blast
  have "links_wf st" using wf by (simp add: st_wf_def)
  then obtain q c where q: "se_owner s = Some q" "clients st q = Some c" "se_clientid s = cl_clientid c" using p by (auto elim: links_sessD)
  then have "find_client_by_id st (se_clientid s) = Some q" using find_client_by_id_iff [OF wf] by auto
  then show ?thesis using Some p st_wf_drop_one [OF wf p q(1)] by (simp add: session_destroy_session_def)
qed (use wf in \<open>simp add: session_destroy_session_def\<close>)

lemma st_wf_destroy_client: "st_wf st \<Longrightarrow> st_wf (fst (session_destroy_client st k))"
  using find_client_by_id_iff [of st k] st_wf_free_client [of st]
  by (auto simp: session_destroy_client_def split: option.split)

lemma st_wf_reclaim_complete: "st_wf st \<Longrightarrow> st_wf (fst (session_client_reclaim_complete st k))"
  using find_client_by_id_iff [of st k]
  by (auto simp: session_client_reclaim_complete_def keeps_client_def split: option.split intro!: st_wf_upd_client)

end
