(* ===== verification/Session_Reaper.thy ===== *)
theory Session_Reaper
  imports Session_Ops Open_Theorems Lock_Cleanup
begin

text \<open>
  The rest of the operations keep the invariant: SEQUENCE and the reply cache, connection binding, callback enumeration,
  and the lease reaper. The reaper is also described exactly: which clients, sessions, opens and locks one pass removes.
\<close>

section \<open>SEQUENCE, connections, callbacks\<close>

lemma keeps_note_fore: "keeps_session (session_note_fore_conn_locked conn)"
  by (auto simp: keeps_session_def session_note_fore_conn_locked_def split: option.split)

lemma keeps_unbind: "keeps_session (unbind_session conn)"
  by (simp add: keeps_session_def unbind_session_def)

lemma upd_session_const: "upd_session st p (\<lambda>_. f (session st p)) = upd_session st p f"
  by (simp add: upd_session_def)

lemma st_wf_renew_owner:
  assumes wf: "st_wf st" and s: "sessions st p = Some s"
  shows "st_wf (renew_owner st now s)"
proof -
  have "links_wf st" using wf by (simp add: st_wf_def)
  then obtain q c where "se_owner s = Some q" "clients st q = Some c" using s by (auto elim: links_sessD)
  then show ?thesis using wf by (auto simp: renew_owner_def keeps_client_def intro!: st_wf_upd_client)
qed

text \<open>What an accepted request leaves in its session.\<close>

definition seq_session :: "conn option \<Rightarrow> nat \<Rightarrow> nfs4_slot \<Rightarrow> nfs4_session \<Rightarrow> nfs4_session" where
  "seq_session conn i slot s = session_note_fore_conn_locked conn (s\<lparr>se_slots := (se_slots s)[i := slot]\<rparr>)"

lemma keeps_seq_session: "keeps_session (seq_session conn i slot)"
  using keeps_note_fore by (auto simp: keeps_session_def seq_session_def)

lemma slots_note_fore [simp]: "se_slots (session_note_fore_conn_locked conn s) = se_slots s"
  by (simp add: session_note_fore_conn_locked_def split: option.split)

lemma slots_seq_session [simp]: "se_slots (seq_session conn i slot s) = (se_slots s)[i := slot]"
  by (simp add: seq_session_def)

lemma sequence_cases:
  assumes r: "session_sequence_check_conn st now sid slot_id seq_id conn = (st', rc, cid, h)"
  obtains (NoSession) "find_session st sid = None" "st' = st" "rc = -1"
  | (BadSlot) p where "find_session st sid = Some p" "length (se_slots (session st p)) \<le> unat slot_id" "st' = st" "rc = -2"
  | (Refused) p slot where "find_session st sid = Some p" "unat slot_id < length (se_slots (session st p))"
      "slot_check (se_slots (session st p) ! unat slot_id) seq_id = (rc, slot)" "rc \<noteq> 0" "st' = st"
  | (Accepted) p slot where "find_session st sid = Some p" "unat slot_id < length (se_slots (session st p))"
      "slot_check (se_slots (session st p) ! unat slot_id) seq_id = (0, slot)" "rc = 0"
      "st' = renew_owner (upd_session st p (seq_session conn (unat slot_id) slot)) now (seq_session conn (unat slot_id) slot (session st p))"
proof (cases "find_session st sid")
  case None
  then have "(st, -1, None, None) = (st', rc, cid, h)" using r by (simp only: session_sequence_check_conn_def option.case)
  then show thesis using None NoSession by blast
next
  case (Some p)
  obtain rc' slot where c: "slot_check (se_slots (session st p) ! unat slot_id) seq_id = (rc', slot)" by fastforce
  consider "length (se_slots (session st p)) \<le> unat slot_id" | "unat slot_id < length (se_slots (session st p))" "rc' \<noteq> 0"
    | "unat slot_id < length (se_slots (session st p))" "rc' = 0" by (meson not_le)
  then show thesis
  proof cases
    case 1
    then have "session_sequence_check_conn st now sid slot_id seq_id conn = (st, -2, None, None)"
      using Some by (simp add: session_sequence_check_conn_def)
    then show thesis using r 1 Some BadSlot by (metis prod.inject)
  next
    case 2
    then have "session_sequence_check_conn st now sid slot_id seq_id conn =
        (st, rc', if rc' > 0 then Some (se_clientid (session st p)) else None, None)"
      using Some c by (simp add: session_sequence_check_conn_def)
    then have "rc = rc'" "st' = st" using r by simp_all
    then show thesis using 2 c Some Refused by blast
  next
    case 3
    let ?g = "seq_session conn (unat slot_id) slot"
    have "session_sequence_check_conn st now sid slot_id seq_id conn =
        (renew_owner (upd_session st p ?g) now (?g (session st p)), 0, Some (se_clientid (?g (session st p))),
         Some (sequence_emit_hints (?g (session st p))))"
      using Some c 3 by (simp add: session_sequence_check_conn_def seq_session_def upd_session_def Let_def)
    then have "rc = 0" "st' = renew_owner (upd_session st p ?g) now (?g (session st p))" using r by simp_all
    then show thesis using 3 c Some Accepted by blast
  qed
qed

lemma st_wf_sequence:
  assumes wf: "st_wf st" and r: "session_sequence_check_conn st now sid slot_id seq_id conn = (st', rc, cid, h)"
  shows "st_wf st'"
  using r
proof (cases rule: sequence_cases)
  case (Accepted p slot)
  then obtain s where p: "sessions st p = Some s" using find_session_iff [OF wf] by blast
  have "st_wf (upd_session st p (seq_session conn (unat slot_id) slot))" by (rule st_wf_upd_session [OF wf p keeps_seq_session])
  then show ?thesis using Accepted(5) p by (auto intro: st_wf_renew_owner [where p = p])
qed (use wf in simp_all)

lemma st_wf_cache_reply: "st_wf st \<Longrightarrow> st_wf (fst (session_slot_cache_reply st oom sid slot_id reply))"
  using find_session_iff [of st sid]
  by (auto simp: session_slot_cache_reply_def keeps_session_def Let_def split: option.split intro!: st_wf_upd_session)

lemma st_wf_on_session: "st_wf st \<Longrightarrow> keeps_session f \<Longrightarrow> st_wf (fst (on_session st sid f))"
  using find_session_iff [of st sid] by (auto simp: on_session_def split: option.split intro!: st_wf_upd_session)

lemma st_wf_bindings:
  assumes "st_wf st"
  shows "st_wf (fst (session_bind_conn st sid k))" "st_wf (fst (session_bind_fore_conn st sid k))"
    "st_wf (fst (session_set_cb_sec st sid sec))" "st_wf (fst (session_set_cb_prog st sid prog))"
  using st_wf_on_session [OF assms] keeps_note_fore
  by (simp_all add: session_bind_conn_def session_bind_fore_conn_def session_set_cb_sec_def session_set_cb_prog_def keeps_session_def Let_def)

text \<open>A walk over the session chains that updates sessions in place.\<close>

definition same_links :: "session_table \<Rightarrow> session_table \<Rightarrow> bool" where
  "same_links st st' \<longleftrightarrow> session_hash st' = session_hash st \<and> session_buckets st' = session_buckets st \<and>
     dom (sessions st') = dom (sessions st) \<and> clients st' = clients st \<and> next_session_seq st' = next_session_seq st \<and>
     st_mds_id st' = st_mds_id st \<and> restart_nonce st' = restart_nonce st \<and>
     (\<forall>p s'. sessions st' p = Some s' \<longrightarrow> (\<exists>s. sessions st p = Some s \<and> se_id s' = se_id s \<and> se_slots s' = se_slots s))"

lemma same_links_refl: "same_links st st"
  by (simp add: same_links_def)

lemma same_links_trans: "same_links a b \<Longrightarrow> same_links b c \<Longrightarrow> same_links a c"
  unfolding same_links_def by metis

lemma same_links_upd: "sessions st p = Some s \<Longrightarrow> keeps_session f \<Longrightarrow> se_slots (f s) = se_slots s \<Longrightarrow> same_links st (upd_session st p f)"
  by (auto simp: same_links_def keeps_session_def)

lemma hash_live: "st_wf st \<Longrightarrow> p \<in> set (session_hash st b) \<Longrightarrow> \<exists>s. sessions st p = Some s"
  unfolding st_wf_def index_wf_def using chain_wf_inD by fastforce

lemma unbind_chain:
  assumes "st_wf st" "\<forall>p \<in> set ps. sessions st p \<noteq> None"
  shows "st_wf (foldl (\<lambda>u p. upd_session u p (unbind_session conn)) st ps) \<and> same_links st (foldl (\<lambda>u p. upd_session u p (unbind_session conn)) st ps)"
  using assms
proof (induction ps arbitrary: st)
  case (Cons p ps)
  then obtain s where p: "sessions st p = Some s" by auto
  let ?t = "upd_session st p (unbind_session conn)"
  have w: "st_wf ?t" by (rule st_wf_upd_session [OF Cons.prems(1) p keeps_unbind])
  have l: "same_links st ?t" by (rule same_links_upd [OF p keeps_unbind]) (simp add: unbind_session_def)
  have "\<forall>q \<in> set ps. sessions ?t q \<noteq> None" using Cons.prems(2) by auto
  from Cons.IH [OF w this] show ?case using same_links_trans [OF l] by simp
qed (simp add: same_links_refl)

lemma unbind_all:
  assumes "st_wf st"
  shows "st_wf (session_unbind_conn st conn) \<and> same_links st (session_unbind_conn st conn)"
proof -
  have "st_wf (foldl (\<lambda>t b. foldl (\<lambda>u p. upd_session u p (unbind_session conn)) t (session_hash t b)) st bs) \<and>
      same_links st (foldl (\<lambda>t b. foldl (\<lambda>u p. upd_session u p (unbind_session conn)) t (session_hash t b)) st bs)" for bs
    using assms
  proof (induction bs arbitrary: st)
    case (Cons b bs)
    let ?t = "foldl (\<lambda>u p. upd_session u p (unbind_session conn)) st (session_hash st b)"
    have t: "st_wf ?t" "same_links st ?t" using unbind_chain [of st "session_hash st b" conn] Cons.prems hash_live [OF Cons.prems] by auto
    show ?case using Cons.IH [OF t(1)] same_links_trans [OF t(2)] by simp
  qed (simp add: same_links_refl)
  then show ?thesis by (simp add: session_unbind_conn_def)
qed

lemma invoke_cb_wf:
  assumes wf: "st_wf st" and p: "sessions st p = Some s" and r: "session_invoke_cb_locked st p cb ctx = (st', ctx', rc)"
  shows "st_wf st' \<and> same_links st st'"
proof (cases "se_cb_slots s")
  case (Cons x xs)
  define g where "g = (\<lambda>s :: nfs4_session. s\<lparr>se_cb_slots := x\<lparr>slot_seq_id := slot_seq_id x + 1\<rparr> # xs\<rparr>)"
  have "keeps_session g" "se_slots (g s) = se_slots s" by (simp_all add: keeps_session_def g_def)
  then have "st_wf (upd_session st p g)" "same_links st (upd_session st p g)"
    using st_wf_upd_session [OF wf p] same_links_upd [OF p] by blast+
  moreover have "st' = upd_session st p g \<or> st' = st"
    using r p Cons by (auto simp: session_invoke_cb_locked_def Let_def g_def split: prod.splits if_splits)
  ultimately show ?thesis using wf same_links_refl by auto
qed (use wf p r same_links_refl in \<open>auto simp: session_invoke_cb_locked_def Let_def split: prod.splits\<close>)

lemma cb_walk_wf:
  assumes "st_wf st" "\<forall>p \<in> set ps. sessions st p \<noteq> None" "cb_walk st cb ctx ps = (st', ctx', rc)"
  shows "st_wf st' \<and> same_links st st'"
  using assms
proof (induction ps arbitrary: st ctx)
  case (Cons p ps)
  then obtain s where p: "sessions st p = Some s" by auto
  show ?case
  proof (cases "se_cb_conn s")
    case None
    then have "cb_walk st cb ctx ps = (st', ctx', rc)" using Cons.prems(3) p by simp
    then show ?thesis using Cons.IH [OF Cons.prems(1)] Cons.prems(2) by auto
  next
    case (Some k)
    obtain st1 ctx1 rc1 where i: "session_invoke_cb_locked st p cb ctx = (st1, ctx1, rc1)" by (cases rule: prod_cases3)
    note w = invoke_cb_wf [OF Cons.prems(1) p i]
    show ?thesis
    proof (cases "rc1 = 0")
      case True
      then have c: "cb_walk st1 cb ctx1 ps = (st', ctx', rc)" using Cons.prems(3) p Some i by simp
      have "\<forall>q \<in> set ps. sessions st1 q \<noteq> None" using w Cons.prems(2) by (auto simp: same_links_def dom_def)
      then show ?thesis using Cons.IH [OF _ _ c] w same_links_trans by blast
    next
      case False
      then show ?thesis using Cons.prems(3) p Some i w by simp
    qed
  qed
qed (simp add: same_links_refl)

lemma cb_buckets_wf:
  assumes "st_wf st" "cb_buckets st cb ctx bs = (st', ctx', rc)"
  shows "st_wf st' \<and> same_links st st'"
  using assms
proof (induction bs arbitrary: st ctx)
  case (Cons b bs)
  obtain st1 ctx1 rc1 where i: "cb_walk st cb ctx (session_hash st b) = (st1, ctx1, rc1)" by (cases rule: prod_cases3)
  have "\<forall>p \<in> set (session_hash st b). sessions st p \<noteq> None" using hash_live [OF Cons.prems(1)] by auto
  note w = cb_walk_wf [OF Cons.prems(1) this i]
  show ?case
  proof (cases "rc1 = 0")
    case True
    then have "cb_buckets st1 cb ctx1 bs = (st', ctx', rc)" using Cons.prems(2) i by simp
    then show ?thesis using Cons.IH w same_links_trans by blast
  qed (use Cons.prems(2) i w in simp)
qed (simp add: same_links_refl)

lemma for_each_wf:
  assumes "st_wf st"
  shows "st_wf (fst (session_for_each_with_cb st cb ctx)) \<and> same_links st (fst (session_for_each_with_cb st cb ctx))"
  using cb_buckets_wf [OF assms, of cb ctx "session_buckets_list st"] by (metis prod.collapse session_for_each_with_cb_def)

lemma first_with_cb_in: "first_with_cb st ps = Some p \<Longrightarrow> p \<in> set ps"
  by (induction ps) (auto split: if_splits)

lemma for_client_wf:
  assumes wf: "st_wf st"
  shows "st_wf (fst (session_for_each_with_cb_for_clientid st k cb ctx)) \<and>
    same_links st (fst (session_for_each_with_cb_for_clientid st k cb ctx))"
proof (cases "find_client_by_id st k")
  case (Some q)
  then obtain c where q: "clients st q = Some c" using find_client_by_id_iff [OF wf] by blast
  have l: "links_wf st" using wf by (simp add: st_wf_def)
  show ?thesis
  proof (cases "first_with_cb st (cl_sessions c)")
    case f: (Some p)
    then obtain s where "sessions st p = Some s" using links_clientD(3) [OF l q first_with_cb_in [OF f]] by blast
    then show ?thesis using invoke_cb_wf [OF wf, of p s cb ctx] Some q f
      by (simp add: session_for_each_with_cb_for_clientid_def) (metis prod.collapse)
  qed (use wf same_links_refl Some q in \<open>simp add: session_for_each_with_cb_for_clientid_def\<close>)
qed (use wf same_links_refl in \<open>simp add: session_for_each_with_cb_for_clientid_def\<close>)

section \<open>The lease reaper\<close>

text \<open>Unlinking an expired client removes the client and its sessions.\<close>

lemma reap_unlink_eq:
  assumes wf: "st_wf st" and p: "clients st p = Some c"
  shows "reap_unlink st (cl_bucket st c) p = kill_client st p"
proof -
  let ?b = "cl_bucket st c"
  have "distinct (client_hash st ?b)" using wf by (simp add: st_wf_def index_wf_def chain_wf_def)
  then have t: "chain_unlink p (chain_unlink p (client_hash st ?b)) = chain_unlink p (client_hash st ?b)"
    by (simp add: remove1_idem)
  have "unhash_client (st\<lparr>client_hash := (client_hash st)(?b := chain_unlink p (client_hash st ?b))\<rparr>) p = unhash_client st p"
    using p t by (simp add: unhash_client_def Let_def)
  then show ?thesis
    by (simp add: reap_unlink_def kill_client_def destroy_client_sessions_def drop_sessions_def [symmetric] upd_client_def Let_def)
qed

text \<open>What expiry does outside the session table touches none of its links.\<close>

lemma finish_sel [simp]:
  "clients (session_finish_expired_client st c) = clients st" "sessions (session_finish_expired_client st c) = sessions st"
  "client_hash (session_finish_expired_client st c) = client_hash st" "client_buckets (session_finish_expired_client st c) = client_buckets st"
  "lease_time_sec (session_finish_expired_client st c) = lease_time_sec st" "st_wf (session_finish_expired_client st c) = st_wf st"
  "next_session_seq (session_finish_expired_client st c) = next_session_seq st" "st_mds_id (session_finish_expired_client st c) = st_mds_id st"
  "restart_nonce (session_finish_expired_client st c) = restart_nonce st"
  "st_ot (session_finish_expired_client st c) =
     (if cl_confirmed c then map_option (\<lambda>ot. open_state_close_all_for_client ot (cl_clientid c)) (st_ot st) else st_ot st)"
  "st_lt (session_finish_expired_client st c) =
     (if cl_confirmed c then map_option (\<lambda>lt. lock_release_all_for_client lt (cl_clientid c)) (st_lt st) else st_lt st)"
  by (simp_all add: session_finish_expired_client_def session_expire_client_state_def Let_def)

lemma reap_expired_cong: "lease_time_sec st' = lease_time_sec st \<Longrightarrow> reap_expired st' now c = reap_expired st now c"
  by (simp add: reap_expired_def)

text \<open>The clientids whose state an expiry list cleans, and the relation between a table and what the scan makes of it:
  exactly the clients at \<open>E\<close> and their sessions are gone, and the clients still to be finished, with those already
  finished, are the earlier ones and those of \<open>E\<close>.\<close>

definition to_clean :: "nfs4_client list \<Rightarrow> u64 list" where
  "to_clean cs = map cl_clientid (filter cl_confirmed cs)"

lemma to_clean_simps [simp]: "to_clean [] = []" "to_clean (c # cs) = (if cl_confirmed c then cl_clientid c # to_clean cs else to_clean cs)"
  "to_clean (cs @ ds) = to_clean cs @ to_clean ds"
  by (simp_all add: to_clean_def)

definition reaped :: "session_table \<Rightarrow> nfs4_client list \<Rightarrow> session_table \<Rightarrow> nfs4_client list \<Rightarrow> ptr set \<Rightarrow> bool" where
  "reaped st os st' os' E \<longleftrightarrow> st_wf st' \<and> clients st' = clients st |` (- E) \<and>
     (\<forall>q s. sessions st' q = Some s \<longleftrightarrow> sessions st q = Some s \<and> se_owner s \<notin> Some ` E) \<and>
     lease_time_sec st' = lease_time_sec st \<and> client_buckets st' = client_buckets st \<and> next_session_seq st' = next_session_seq st \<and>
     st_mds_id st' = st_mds_id st \<and> restart_nonce st' = restart_nonce st \<and>
     (\<exists>l. st_ot st' = map_option (\<lambda>ot. foldl open_state_close_all_for_client ot (to_clean l)) (st_ot st) \<and>
        st_lt st' = map_option (\<lambda>lt. foldl lock_release_all_for_client lt (to_clean l)) (st_lt st) \<and>
        set l \<union> set os' = set os \<union> (\<lambda>p. (client st p)\<lparr>cl_sessions := []\<rparr>) ` E)"

lemma reaped_refl: "st_wf st \<Longrightarrow> reaped st os st os {}"
  by (auto simp: reaped_def option.map_ident intro: exI [of _ "[]"])

lemma reaped_trans:
  assumes a: "reaped st os st1 os1 E" and b: "reaped st1 os1 st2 os2 F" and d: "E \<inter> F = {}"
  shows "reaped st os st2 os2 (E \<union> F)"
proof -
  obtain l where l: "st_ot st1 = map_option (\<lambda>ot. foldl open_state_close_all_for_client ot (to_clean l)) (st_ot st)"
    "st_lt st1 = map_option (\<lambda>lt. foldl lock_release_all_for_client lt (to_clean l)) (st_lt st)"
    "set l \<union> set os1 = set os \<union> (\<lambda>p. (client st p)\<lparr>cl_sessions := []\<rparr>) ` E" using a unfolding reaped_def by blast
  obtain m where m: "st_ot st2 = map_option (\<lambda>ot. foldl open_state_close_all_for_client ot (to_clean m)) (st_ot st1)"
    "st_lt st2 = map_option (\<lambda>lt. foldl lock_release_all_for_client lt (to_clean m)) (st_lt st1)"
    "set m \<union> set os2 = set os1 \<union> (\<lambda>p. (client st1 p)\<lparr>cl_sessions := []\<rparr>) ` F" using b unfolding reaped_def by blast
  have c1: "clients st1 = clients st |` (- E)" using a by (simp add: reaped_def)
  then have "client st1 p = client st p" if "p \<in> F" for p using that d by (auto simp: restrict_map_def)
  then have "set (l @ m) \<union> set os2 = set os \<union> (\<lambda>p. (client st p)\<lparr>cl_sessions := []\<rparr>) ` (E \<union> F)"
    using l(3) m(3) by (simp add: image_Un Un_assoc) (metis (no_types, lifting) Un_assoc Un_commute image_cong)
  moreover have "st_ot st2 = map_option (\<lambda>ot. foldl open_state_close_all_for_client ot (to_clean (l @ m))) (st_ot st)"
    "st_lt st2 = map_option (\<lambda>lt. foldl lock_release_all_for_client lt (to_clean (l @ m))) (st_lt st)"
    unfolding m l by (simp_all add: option.map_comp comp_def)
  moreover have "clients st2 = clients st |` (- (E \<union> F))" using b c1 by (simp add: reaped_def restrict_restrict)
  moreover have "\<forall>q s. sessions st2 q = Some s \<longleftrightarrow> sessions st q = Some s \<and> se_owner s \<notin> Some ` (E \<union> F)"
    using a b unfolding reaped_def by (simp add: image_Un)
  ultimately show ?thesis using a b unfolding reaped_def by (intro conjI) (auto intro!: exI [of _ "l @ m"])
qed

lemma reaped_kill:
  assumes wf: "st_wf st" and p: "clients st p = Some c"
  shows "reaped st os (kill_client st p) (os @ [c\<lparr>cl_sessions := []\<rparr>]) {p}"
    "reaped st os (session_finish_expired_client (kill_client st p) (c\<lparr>cl_sessions := []\<rparr>)) os {p}"
proof -
  have l: "links_wf st" using wf by (simp add: st_wf_def)
  have c: "(clients st)(p := None) = clients st |` (- {p})" by (auto simp: restrict_map_def)
  have s: "(sessions st |` (- set (cl_sessions c))) q = Some x \<longleftrightarrow> sessions st q = Some x \<and> se_owner x \<noteq> Some p" for q x
    using client_sessions_iff [OF l p] by auto
  note w = st_wf_kill_client [OF wf p]
  show "reaped st os (kill_client st p) (os @ [c\<lparr>cl_sessions := []\<rparr>]) {p}"
    using w p c s unfolding reaped_def by (auto simp: option.map_ident intro: exI [of _ "[]"])
  show "reaped st os (session_finish_expired_client (kill_client st p) (c\<lparr>cl_sessions := []\<rparr>)) os {p}"
    using w p c s unfolding reaped_def by (auto simp: option.map_ident intro!: exI [of _ "[c\<lparr>cl_sessions := []\<rparr>]"])
qed

lemma reap_chain_reaped:
  assumes "st_wf st" "distinct ps" "\<forall>p \<in> set ps. \<exists>c. clients st p = Some c \<and> cl_bucket st c = b" "reap_chain now b ps (st, os) = (st', os')"
  shows "reaped st os st' os' {p \<in> set ps. reap_expired st now (client st p)}"
  using assms
proof (induction ps arbitrary: st os)
  case (Cons p ps)
  obtain c where p: "clients st p = Some c" "cl_bucket st c = b" using Cons.prems(3) by auto
  show ?case
  proof (cases "reap_expired st now c")
    case True
    define t1 o1 where "t1 = (if length os < REAPER_ORPHAN_MAX then kill_client st p
        else session_finish_expired_client (kill_client st p) (c\<lparr>cl_sessions := []\<rparr>))"
      and "o1 = (if length os < REAPER_ORPHAN_MAX then os @ [c\<lparr>cl_sessions := []\<rparr>] else os)"
    have r1: "reaped st os t1 o1 {p}" using reaped_kill [OF Cons.prems(1) p(1)] by (simp add: t1_def o1_def)
    then have t1: "st_wf t1" "clients t1 = clients st |` (- {p})" "lease_time_sec t1 = lease_time_sec st" "client_buckets t1 = client_buckets st"
      by (simp_all add: reaped_def)
    have "reap_chain now b ps (t1, o1) = (st', os')"
      using Cons.prems(4) p True reap_unlink_eq [OF Cons.prems(1) p(1)] by (simp add: t1_def o1_def Let_def split: if_splits)
    moreover have "\<forall>q \<in> set ps. \<exists>d. clients t1 q = Some d \<and> cl_bucket t1 d = b" using Cons.prems(2,3) t1 by auto
    ultimately have "reaped t1 o1 st' os' {q \<in> set ps. reap_expired t1 now (client t1 q)}"
      using Cons.IH [OF t1(1)] Cons.prems(2) by simp
    moreover have "{q \<in> set ps. reap_expired t1 now (client t1 q)} = {q \<in> set ps. reap_expired st now (client st q)}"
      using Cons.prems(2) reap_expired_cong [OF t1(3)] by (auto simp: t1(2) restrict_map_def)
    moreover have "{q \<in> set (p # ps). reap_expired st now (client st q)} = {p} \<union> {q \<in> set ps. reap_expired st now (client st q)}"
      using True p by auto
    moreover have "{p} \<inter> {q \<in> set ps. reap_expired st now (client st q)} = {}" using Cons.prems(2) by auto
    ultimately show ?thesis using reaped_trans [OF r1] by simp
  next
    case False
    then have "reap_chain now b ps (st, os) = (st', os')" using Cons.prems(4) p by simp
    moreover have "{q \<in> set (p # ps). reap_expired st now (client st q)} = {q \<in> set ps. reap_expired st now (client st q)}"
      using False p by auto
    ultimately show ?thesis using Cons.IH [OF Cons.prems(1)] Cons.prems(2,3) by simp
  qed
qed (simp add: reaped_refl)

definition reap_buckets :: "int \<Rightarrow> u32 list \<Rightarrow> session_table \<times> nfs4_client list \<Rightarrow> session_table \<times> nfs4_client list" where
  "reap_buckets now bs acc = foldl (\<lambda>(t, os) b. reap_chain now b (client_hash t b) (t, os)) acc bs"

lemma reap_buckets_reaped:
  assumes "st_wf st" "distinct bs" "reap_buckets now bs (st, os) = (st', os')"
  shows "reaped st os st' os' {p. \<exists>c. clients st p = Some c \<and> cl_bucket st c \<in> set bs \<and> reap_expired st now c}"
  using assms
proof (induction bs arbitrary: st os)
  case (Cons b bs)
  obtain t1 o1 where c: "reap_chain now b (client_hash st b) (st, os) = (t1, o1)" by fastforce
  have ch: "chain_wf (clients st) (cl_bucket st) (dom (clients st)) (client_hash st)" using Cons.prems(1) by (simp add: st_wf_def index_wf_def)
  have "distinct (client_hash st b)" "\<forall>p \<in> set (client_hash st b). \<exists>c. clients st p = Some c \<and> cl_bucket st c = b"
    using ch chain_wf_inD [OF ch] by (auto simp: chain_wf_def)
  note r1 = reap_chain_reaped [OF Cons.prems(1) this c]
  have e: "{p \<in> set (client_hash st b). reap_expired st now (client st p)} =
      {p. \<exists>c. clients st p = Some c \<and> cl_bucket st c = b \<and> reap_expired st now c}"
    using chain_wf_inD [OF ch] chain_wf_memD [OF ch] by fastforce
  note r1 = r1 [unfolded e]
  let ?E = "{p. \<exists>c. clients st p = Some c \<and> cl_bucket st c = b \<and> reap_expired st now c}"
  have t1: "st_wf t1" "clients t1 = clients st |` (- ?E)" "lease_time_sec t1 = lease_time_sec st" "client_buckets t1 = client_buckets st"
    using r1 by (simp_all add: reaped_def)
  have "reap_buckets now bs (t1, o1) = (st', os')" using Cons.prems(3) c by (simp add: reap_buckets_def)
  then have "reaped t1 o1 st' os' {p. \<exists>c. clients t1 p = Some c \<and> cl_bucket t1 c \<in> set bs \<and> reap_expired t1 now c}"
    using Cons.IH [OF t1(1)] Cons.prems(2) by simp
  moreover let ?F = "{p. \<exists>c. clients st p = Some c \<and> cl_bucket st c \<in> set bs \<and> reap_expired st now c}"
  have "{p. \<exists>c. clients t1 p = Some c \<and> cl_bucket t1 c \<in> set bs \<and> reap_expired t1 now c} = ?F"
    using Cons.prems(2) t1(2,4) reap_expired_cong [OF t1(3)] by auto
  ultimately have r2: "reaped t1 o1 st' os' ?F" by simp
  have d: "?E \<inter> ?F = {}" using Cons.prems(2) by auto
  have "?E \<union> ?F = {p. \<exists>c. clients st p = Some c \<and> cl_bucket st c \<in> set (b # bs) \<and> reap_expired st now c}" by auto
  then show ?case using reaped_trans [OF r1 r2 d] by simp
qed (simp add: reaped_refl reap_buckets_def)

lemma cl_bucket_listed:
  assumes "st_wf st"
  shows "cl_bucket st c \<in> set (client_buckets_list st)" "distinct (client_buckets_list st)"
proof -
  let ?n = "client_buckets st"
  have w: "unat ?n < 2 ^ LENGTH(32)" by (rule unsigned_less)
  have n: "?n \<noteq> 0" using assms by (simp add: st_wf_def index_wf_def)
  have "unat (cl_bucket st c) = unat (os_mix64 (cl_clientid c)) mod unat ?n mod 2 ^ 32"
    using w by (simp add: hash_clientid_def unsigned_ucast_eq take_bit_eq_mod unat_mod)
  also have "\<dots> \<le> unat (os_mix64 (cl_clientid c)) mod unat ?n" by (rule mod_less_eq_dividend)
  also have "\<dots> < unat ?n" using n by (simp add: unat_gt_0)
  finally have "unat (cl_bucket st c) \<in> set [0..<unat ?n]" by simp
  then have "of_nat (unat (cl_bucket st c)) \<in> set (client_buckets_list st)" unfolding client_buckets_list_def set_map by (rule imageI)
  then show "cl_bucket st c \<in> set (client_buckets_list st)" by simp
  have u: "unat (of_nat a :: u32) = a" if "a < unat ?n" for a using that w by (simp add: unsigned_of_nat take_bit_nat_eq_self)
  have "inj_on (of_nat :: nat \<Rightarrow> u32) {0..<unat ?n}" by (rule inj_on_inverseI [where g = unat]) (simp add: u)
  then show "distinct (client_buckets_list st)" by (simp add: client_buckets_list_def distinct_map)
qed

definition expired :: "session_table \<Rightarrow> int \<Rightarrow> ptr set" where
  "expired st now = {p. \<exists>c. clients st p = Some c \<and> reap_expired st now c}"

lemma finish_all:
  "clients (foldl session_finish_expired_client st cs) = clients st" "sessions (foldl session_finish_expired_client st cs) = sessions st"
  "st_wf (foldl session_finish_expired_client st cs) = st_wf st"
  "lease_time_sec (foldl session_finish_expired_client st cs) = lease_time_sec st"
  "client_buckets (foldl session_finish_expired_client st cs) = client_buckets st"
  "next_session_seq (foldl session_finish_expired_client st cs) = next_session_seq st"
  "st_mds_id (foldl session_finish_expired_client st cs) = st_mds_id st"
  "restart_nonce (foldl session_finish_expired_client st cs) = restart_nonce st"
  "st_ot (foldl session_finish_expired_client st cs) = map_option (\<lambda>ot. foldl open_state_close_all_for_client ot (to_clean cs)) (st_ot st)"
  "st_lt (foldl session_finish_expired_client st cs) = map_option (\<lambda>lt. foldl lock_release_all_for_client lt (to_clean cs)) (st_lt st)"
  by (induction cs arbitrary: st) (auto simp: option.map_ident option.map_comp comp_def)

text \<open>One pass removes exactly the expired clients.\<close>

lemma reaper_scan:
  assumes wf: "st_wf st" and s: "lease_reaper_scan st now = (st1, os)"
  shows "reaped st [] st1 os (expired st now)"
proof -
  have "reap_buckets now (client_buckets_list st) (st, []) = (st1, os)" using s by (simp add: lease_reaper_scan_def reap_buckets_def)
  then show ?thesis
    using reap_buckets_reaped [OF wf cl_bucket_listed(2) [OF wf]] cl_bucket_listed(1) [OF wf] by (simp add: expired_def)
qed

lemma reaper_pass:
  assumes wf: "st_wf st"
  shows "reaped st [] (lease_reaper_pass st now) [] (expired st now)"
proof -
  obtain st1 os where s: "lease_reaper_scan st now = (st1, os)" by fastforce
  note r = reaper_scan [OF wf s]
  have "st_wf st1" using r by (simp add: reaped_def)
  then have "reaped st1 os (foldl session_finish_expired_client st1 os) [] {}"
    by (auto simp: reaped_def finish_all intro: exI [of _ os])
  from reaped_trans [OF r this] show ?thesis by (simp add: lease_reaper_pass_def s)
qed

section \<open>What a client leaves behind\<close>

text \<open>The contract the reaper relies on: cleaning up for a client keeps the table's invariant and empties that client's
  share of its state.\<close>

locale client_cleanup =
  fixes inv :: "'t \<Rightarrow> bool"
    and cleanup :: "'t \<Rightarrow> u64 \<Rightarrow> 't"
    and share :: "'t \<Rightarrow> u64 \<Rightarrow> 'v"
    and nothing :: 'v
  assumes inv_cleanup: "inv t \<Longrightarrow> inv (cleanup t c)"
    and share_cleanup: "inv t \<Longrightarrow> share (cleanup t c) = (share t)(c := nothing)"
begin

lemma inv_all: "inv t \<Longrightarrow> inv (foldl cleanup t cs)"
  by (induction cs arbitrary: t) (simp_all add: inv_cleanup)

lemma share_all: "inv t \<Longrightarrow> share (foldl cleanup t cs) c = (if c \<in> set cs then nothing else share t c)"
  by (induction cs arbitrary: t) (auto simp: inv_cleanup share_cleanup)

end

definition client_opens :: "open_state_table \<Rightarrow> u64 \<Rightarrow> u64 \<times> bytes \<Rightarrow> (u32 \<times> u32) option" where
  "client_opens ot c = (\<lambda>(f, w). opens_of ot (f, c, w))"

definition client_locks :: "lock_table \<Rightarrow> u64 \<Rightarrow> u64 \<Rightarrow> bytes \<Rightarrow> u64 \<Rightarrow> u32 option" where
  "client_locks lt c = (\<lambda>f ow b. locks_of lt f c ow b)"

interpretation oc: client_cleanup "open_inv seed n" open_state_close_all_for_client client_opens "\<lambda>_. None" for seed n
  by unfold_locales (auto simp: close_all_inv client_opens_def fun_eq_iff)

interpretation lc: client_cleanup "lock_inv w0 m" lock_release_all_for_client client_locks "\<lambda>_ _ _. None" for w0 m
  by unfold_locales (auto simp: lock_inv_release_all release_all_locks posix_drop_client_def client_locks_def fun_eq_iff)

end
