(* ===== verification/Session_Run.thy ===== *)
theory Session_Run
  imports Session_Reaper
begin

text \<open>
  Runs of the session table: any sequence of its operations, with whatever clock values, allocation failures and
  recovery rows they meet, the clean-ups of the reaper at any later point. The step function composes the operations; the invariant holds after every run.
\<close>

datatype session_op =
    S_exchange_id int "sess_alloc set" bool recovery_rows bytes bytes u32 u32 u32 u32
  | S_create_session int "sess_alloc set" cs_args
  | S_destroy_session bytes
  | S_destroy_client u64
  | S_reclaim_complete u64
  | S_sequence int bytes u32 u32 "conn option"
  | S_cache_reply "sess_alloc set" bytes u32 bytes
  | S_bind_conn bytes conn
  | S_bind_fore_conn bytes conn
  | S_set_cb_sec bytes "nfs4_cb_sec option"
  | S_set_cb_prog bytes u32
  | S_unbind_conn conn
  | S_for_each "session_cb_snap \<Rightarrow> int"
  | S_for_client u64 "session_cb_snap \<Rightarrow> int"
  | S_reaper int
  | S_reaper_scan int
  | S_finish_expired nfs4_client
  | S_set_cq bool
  | S_set_cat bool
  | S_set_shard "bool option"
  | S_set_max_fore_slots u32
  | S_set_ot "open_state_table option"
  | S_set_lt "lock_table option"

fun session_step :: "session_table \<Rightarrow> session_op \<Rightarrow> session_table" where
  "session_step st (S_exchange_id now oom grace rows owner verf fl af uid gid) =
     fst (session_exchange_id st now oom grace rows owner verf fl af uid gid)"
| "session_step st (S_create_session now oom a) = fst (session_create_session st now oom a)"
| "session_step st (S_destroy_session sid) = fst (session_destroy_session st sid)"
| "session_step st (S_destroy_client k) = fst (session_destroy_client st k)"
| "session_step st (S_reclaim_complete k) = fst (session_client_reclaim_complete st k)"
| "session_step st (S_sequence now sid i q conn) = fst (session_sequence_check_conn st now sid i q conn)"
| "session_step st (S_cache_reply oom sid i r) = fst (session_slot_cache_reply st oom sid i r)"
| "session_step st (S_bind_conn sid k) = fst (session_bind_conn st sid k)"
| "session_step st (S_bind_fore_conn sid k) = fst (session_bind_fore_conn st sid k)"
| "session_step st (S_set_cb_sec sid sec) = fst (session_set_cb_sec st sid sec)"
| "session_step st (S_set_cb_prog sid prog) = fst (session_set_cb_prog st sid prog)"
| "session_step st (S_unbind_conn k) = session_unbind_conn st k"
| "session_step st (S_for_each cb) = fst (session_for_each_with_cb st (\<lambda>u s. (u, cb s)) ())"
| "session_step st (S_for_client k cb) = fst (session_for_each_with_cb_for_clientid st k (\<lambda>u s. (u, cb s)) ())"
| "session_step st (S_reaper now) = lease_reaper_pass st now"
| "session_step st (S_reaper_scan now) = fst (lease_reaper_scan st now)"
| "session_step st (S_finish_expired c) = session_finish_expired_client st c"
| "session_step st (S_set_cq b) = session_table_set_cq st b"
| "session_step st (S_set_cat b) = session_table_set_cat st b"
| "session_step st (S_set_shard s) = session_table_set_shard st s"
| "session_step st (S_set_max_fore_slots n) = session_table_set_max_fore_slots st n"
| "session_step st (S_set_ot t) = session_table_set_ot st t"
| "session_step st (S_set_lt t) = session_table_set_lt st t"

text \<open>What the identifiers need of a step: a server id of 16 bits, a clientid counter of 32 bits, a recovered clientid that
  no live client has, and a session counter that does not wrap.\<close>

fun session_op_ok :: "session_table \<Rightarrow> session_op \<Rightarrow> bool" where
  "session_op_ok st (S_exchange_id now oom grace rows owner verf fl af uid gid) = mint_ok (eid_base st owner af uid gid) grace rows owner verf"
| "session_op_ok st (S_create_session now oom a) = (next_session_seq st \<noteq> UINT64_MAX)"
| "session_op_ok st _ = True"

fun session_run :: "session_table \<Rightarrow> session_op list \<Rightarrow> session_table" where
  "session_run st [] = st"
| "session_run st (x # xs) = session_run (session_step st x) xs"

fun session_run_ok :: "session_table \<Rightarrow> session_op list \<Rightarrow> bool" where
  "session_run_ok st [] = True"
| "session_run_ok st (x # xs) = (session_op_ok st x \<and> session_run_ok (session_step st x) xs)"

lemma st_wf_sequence_fst: "st_wf st \<Longrightarrow> st_wf (fst (session_sequence_check_conn st now sid i q conn))"
  by (metis prod_cases4 st_wf_sequence fst_conv)

lemma st_wf_reaper: "st_wf st \<Longrightarrow> st_wf (lease_reaper_pass st now)"
  using reaper_pass by (auto simp: reaped_def)

lemma st_wf_reaper_scan: "st_wf st \<Longrightarrow> st_wf (fst (lease_reaper_scan st now))"
  using reaper_scan [of st now] by (cases "lease_reaper_scan st now") (auto simp: reaped_def)

lemma st_wf_settings:
  "st_wf (session_table_set_cq st b) = st_wf st" "st_wf (session_table_set_cat st b) = st_wf st"
  "st_wf (session_table_set_shard st s) = st_wf st" "st_wf (session_table_set_max_fore_slots st k) = st_wf st"
  "st_wf (session_table_set_ot st t) = st_wf st" "st_wf (session_table_set_lt st u) = st_wf st"
  by (auto simp: session_table_set_cq_def session_table_set_cat_def session_table_set_shard_def session_table_set_max_fore_slots_def
      session_table_set_ot_def session_table_set_lt_def split: option.split)

lemmas st_wf_ops = st_wf_exchange_id st_wf_create_session st_wf_destroy_session st_wf_destroy_client st_wf_reclaim_complete
  st_wf_sequence_fst st_wf_cache_reply st_wf_bindings unbind_all for_each_wf for_client_wf st_wf_reaper
  st_wf_reaper_scan st_wf_settings

lemma st_wf_step: "st_wf st \<Longrightarrow> session_op_ok st x \<Longrightarrow> st_wf (session_step st x)"
  by (cases x) (simp_all add: st_wf_ops)

lemma st_wf_run: "st_wf st \<Longrightarrow> session_run_ok st xs \<Longrightarrow> st_wf (session_run st xs)"
  by (induction xs arbitrary: st) (simp_all add: st_wf_step)

lemma st_wf_init: "st_wf (session_table_init_ex mds lease cb sb ob nonce)"
  by (auto simp: wf_defs session_table_init_ex_def chain_wf_def)

end
