(* ===== verification/Session_Drc.thy ===== *)
theory Session_Drc
  imports Session_Run
begin

text \<open>
  The duplicate-request cache over whole runs: what every operation does to the slots of a session, that a request
  accepted once is not accepted again, and that a resend is answered from the cache. Session identifiers are never minted
  twice, so a dead session stays dead.
\<close>

section \<open>Slots and the operations that do not touch them\<close>

text \<open>Every session of \<open>st'\<close> is one of \<open>st\<close> with the slots it had, or carries an identifier not minted before.\<close>

definition slot_frame :: "session_table \<Rightarrow> session_table \<Rightarrow> bool" where
  "slot_frame st st' \<longleftrightarrow> next_session_seq st \<le> next_session_seq st' \<and> st_mds_id st' = st_mds_id st \<and> restart_nonce st' = restart_nonce st \<and>
     (\<forall>p s'. sessions st' p = Some s' \<longrightarrow>
        (\<exists>s. sessions st p = Some s \<and> se_id s' = se_id s \<and> se_slots s' = se_slots s) \<or>
        (\<exists>k. se_id s' = session_id_of (st_mds_id st) k (restart_nonce st) \<and> next_session_seq st \<le> k))"

lemma slot_frame_trans:
  assumes ab: "slot_frame a b" and bc: "slot_frame b c"
  shows "slot_frame a c"
proof -
  have n: "next_session_seq a \<le> next_session_seq b" "next_session_seq b \<le> next_session_seq c" using ab bc by (simp_all add: slot_frame_def)
  have "(\<exists>s. sessions a p = Some s \<and> se_id s' = se_id s \<and> se_slots s' = se_slots s) \<or>
      (\<exists>k. se_id s' = session_id_of (st_mds_id a) k (restart_nonce a) \<and> next_session_seq a \<le> k)" if "sessions c p = Some s'" for p s'
  proof (cases "\<exists>s. sessions b p = Some s \<and> se_id s' = se_id s \<and> se_slots s' = se_slots s")
    case True
    then show ?thesis using ab unfolding slot_frame_def by force
  next
    case False
    then have "\<exists>k. se_id s' = session_id_of (st_mds_id b) k (restart_nonce b) \<and> next_session_seq b \<le> k"
      using bc that unfolding slot_frame_def by blast
    then show ?thesis using ab n(1) order.trans unfolding slot_frame_def by metis
  qed
  then show ?thesis using ab bc order.trans [OF n] by (simp add: slot_frame_def)
qed

lemma slot_frame_le:
  assumes "sessions st' \<subseteq>\<^sub>m sessions st" "next_session_seq st' = next_session_seq st" "st_mds_id st' = st_mds_id st" "restart_nonce st' = restart_nonce st"
  shows "slot_frame st st'"
  using assms unfolding slot_frame_def map_le_def by (auto simp: dom_def)

lemma slot_frame_eq:
  "sessions st' = sessions st \<Longrightarrow> next_session_seq st' = next_session_seq st \<Longrightarrow> st_mds_id st' = st_mds_id st \<Longrightarrow>
     restart_nonce st' = restart_nonce st \<Longrightarrow> slot_frame st st'"
  by (rule slot_frame_le) simp_all

lemma slot_frame_refl [simp]: "slot_frame st st"
  by (rule slot_frame_eq) simp_all

lemma slot_frame_links: "same_links st st' \<Longrightarrow> slot_frame st st'"
  unfolding same_links_def slot_frame_def by simp

lemma slot_frame_reaped: "reaped st os st' os' E \<Longrightarrow> slot_frame st st'"
  unfolding reaped_def by (intro slot_frame_le) (auto simp: map_le_def)

lemma slot_frame_kill: "slot_frame st (free_client (unhash_client st p) p)"
  by (rule slot_frame_le) (auto simp: free_client_eq map_le_def)

lemma slot_frame_link:
  assumes "create_session_link st p s = (st', sid)" "clients st p = Some c" "next_session_seq st \<noteq> UINT64_MAX"
  shows "slot_frame st st'"
  using succ_max [OF assms(3)] unfolding slot_frame_def link_sel [OF assms(1,2)] by auto

lemma slot_frame_create:
  assumes wf: "st_wf st" and n: "next_session_seq st \<noteq> UINT64_MAX"
  shows "slot_frame st (fst (session_create_session st now oom a))"
proof (cases "find_client_by_id st (ca_clientid a)")
  case (Some p)
  then obtain c where p: "clients st p = Some c" using find_client_by_id_iff [OF wf] by blast
  have upd: "slot_frame st1 st2 \<Longrightarrow> slot_frame st1 (upd_client st2 q f)" for st1 st2 q f
    by (erule slot_frame_trans) (rule slot_frame_eq, simp_all)
  have sup: "slot_frame st1 st2 \<Longrightarrow> slot_frame st1 (destroy_superseded st2 q)" for st1 st2 q
    unfolding destroy_superseded_def Let_def using slot_frame_trans [OF _ slot_frame_kill]
    by (auto split: option.split intro!: upd)
  have rec: "slot_frame st1 st2 \<Longrightarrow> slot_frame st1 (create_session_persist_recovery st2 d)" for st1 st2 d
    by (erule slot_frame_trans, rule slot_frame_eq) (simp_all add: create_session_persist_recovery_def)
  have "slot_frame st (fst (create_session_new st now oom p a))"
    unfolding create_session_new_def
    by (auto simp: Let_def split: prod.split option.split intro!: rec upd sup dest: slot_frame_link [OF _ p n])
  then show ?thesis using Some p slot_frame_kill by (simp add: session_create_session_def Let_def)
qed (simp add: session_create_session_def)

lemma alloc_new_sel:
  "sessions (fst (session_alloc_new_client st now oom grace rows owner verf af uid gid)) = sessions st"
  "next_session_seq (fst (session_alloc_new_client st now oom grace rows owner verf af uid gid)) = next_session_seq st"
  "st_mds_id (fst (session_alloc_new_client st now oom grace rows owner verf af uid gid)) = st_mds_id st"
  "restart_nonce (fst (session_alloc_new_client st now oom grace rows owner verf af uid gid)) = restart_nonce st"
  by (simp_all add: alloc_new_eq add_client_def Let_def split: prod.split)

lemma slot_frame_alloc: "slot_frame st1 st2 \<Longrightarrow> slot_frame st1 (fst (session_alloc_new_client st2 now oom grace rows owner verf af uid gid))"
  by (erule slot_frame_trans) (rule slot_frame_eq, simp_all add: alloc_new_sel)

lemma slot_frame_upd: "slot_frame st1 st2 \<Longrightarrow> slot_frame st1 (upd_client st2 q f)"
  by (erule slot_frame_trans) (rule slot_frame_eq, simp_all)

lemma slot_frame_exchange_id: "slot_frame st (fst (session_exchange_id st now oom grace rows owner verf fl af uid gid))"
proof (cases "find_client_by_owner st owner")
  case None
  then show ?thesis by (simp add: session_exchange_id_def slot_frame_alloc)
next
  case (Some p)
  have b: "slot_frame st (eid_base st owner af uid gid)"
    using Some slot_frame_kill by (auto simp: eid_base_def intro: slot_frame_eq)
  obtain st2 rc r where n: "session_alloc_new_client (eid_base st owner af uid gid) now oom grace rows owner verf af uid gid = (st2, rc, r)"
    by (cases rule: prod_cases3)
  then have "slot_frame st st2" using slot_frame_alloc [OF b, of now oom grace rows owner verf af uid gid] by simp
  then show ?thesis using Some n slot_frame_upd
    by (auto simp: session_exchange_id_def eid_renew_def eid_base_def Let_def split: option.split prod.split if_splits)
qed

lemma slot_frame_on_session:
  assumes "st_wf st" "keeps_session f" "\<And>s. se_slots (f s) = se_slots s"
  shows "slot_frame st (fst (on_session st sid f))"
  using assms find_session_iff [OF assms(1), of sid]
  by (auto simp: on_session_def split: option.split intro!: slot_frame_links intro: same_links_upd)

lemma slot_frame_bindings:
  assumes "st_wf st"
  shows "slot_frame st (fst (session_bind_conn st sid k))" "slot_frame st (fst (session_bind_fore_conn st sid k))"
    "slot_frame st (fst (session_set_cb_sec st sid sec))" "slot_frame st (fst (session_set_cb_prog st sid prog))"
  using slot_frame_on_session [OF assms] keeps_note_fore
  by (simp_all add: session_bind_conn_def session_bind_fore_conn_def session_set_cb_sec_def session_set_cb_prog_def keeps_session_def Let_def)

lemma slot_frame_teardown:
  "slot_frame st (fst (session_destroy_session st sid))" "slot_frame st (fst (session_destroy_client st k))"
  "slot_frame st (fst (session_client_reclaim_complete st k))"
proof -
  have "slot_frame st (free_session (unhash_session (upd_client st q f) p) p)" for q f p
    by (rule slot_frame_le) (auto simp: map_le_def)
  moreover have "slot_frame st (free_session (unhash_session st p) p)" for p by (rule slot_frame_le) (auto simp: map_le_def)
  ultimately show "slot_frame st (fst (session_destroy_session st sid))"
    by (simp add: session_destroy_session_def split: option.split)
  show "slot_frame st (fst (session_destroy_client st k))" using slot_frame_kill by (simp add: session_destroy_client_def split: option.split)
  show "slot_frame st (fst (session_client_reclaim_complete st k))"
    by (auto simp: session_client_reclaim_complete_def split: option.split intro: slot_frame_upd)
qed

lemma slot_frame_settings:
  "slot_frame st (session_table_set_cq st b)" "slot_frame st (session_table_set_cat st b)"
  "slot_frame st (session_table_set_shard st s)" "slot_frame st (session_table_set_max_fore_slots st k)"
  "slot_frame st (session_table_set_ot st t)" "slot_frame st (session_table_set_lt st u)"
  by (auto simp: session_table_set_cq_def session_table_set_cat_def session_table_set_shard_def session_table_set_max_fore_slots_def
      session_table_set_ot_def session_table_set_lt_def split: option.split intro: slot_frame_eq)

lemma slot_frame_step:
  assumes wf: "st_wf st" and ok: "session_op_ok st x"
    and x: "\<nexists>now sid i q conn. x = S_sequence now sid i q conn" "\<nexists>oom sid i r. x = S_cache_reply oom sid i r"
  shows "slot_frame st (session_step st x)"
proof -
  note walks = slot_frame_links [OF conjunct2 [OF unbind_all [OF wf]]] slot_frame_links [OF conjunct2 [OF for_each_wf [OF wf]]]
    slot_frame_links [OF conjunct2 [OF for_client_wf [OF wf]]] slot_frame_reaped [OF reaper_pass [OF wf]]
    slot_frame_reaped [OF reaper_scan [OF wf prod.collapse [symmetric]]]
  have fin: "slot_frame st (session_finish_expired_client st c)" for c by (rule slot_frame_eq) simp_all
  show ?thesis using x ok
    by (cases x) (simp_all add: walks fin slot_frame_exchange_id slot_frame_create [OF wf] slot_frame_bindings [OF wf] slot_frame_teardown slot_frame_settings)
qed

section \<open>A slot through a run\<close>

text \<open>Every live session with this identifier has a slot \<open>i\<close> satisfying \<open>P\<close>, and the identifier is minted.\<close>

definition slot_has :: "session_table \<Rightarrow> bytes \<Rightarrow> nat \<Rightarrow> (nfs4_slot \<Rightarrow> bool) \<Rightarrow> bool" where
  "slot_has st sid i P \<longleftrightarrow>
     (\<exists>k. sid = session_id_of (st_mds_id st) k (restart_nonce st) \<and> k < next_session_seq st) \<and>
     (\<forall>p s. sessions st p = Some s \<longrightarrow> se_id s = sid \<longrightarrow> i < length (se_slots s) \<and> P (se_slots s ! i))"

lemma slot_has_frame:
  assumes h: "slot_has st sid i P" and f: "slot_frame st st'"
  shows "slot_has st' sid i P"
proof -
  obtain k where k: "sid = session_id_of (st_mds_id st) k (restart_nonce st)" "k < next_session_seq st" using h by (auto simp: slot_has_def)
  have "i < length (se_slots s') \<and> P (se_slots s' ! i)" if s': "sessions st' p = Some s'" "se_id s' = sid" for p s'
  proof -
    have "\<not> (\<exists>j. se_id s' = session_id_of (st_mds_id st) j (restart_nonce st) \<and> next_session_seq st \<le> j)"
      using s'(2) k session_id_of_inj by (metis not_le)
    then obtain s where "sessions st p = Some s" "se_id s' = se_id s" "se_slots s' = se_slots s" using f s' unfolding slot_frame_def by blast
    then show ?thesis using h s'(2) by (auto simp: slot_has_def)
  qed
  moreover have "k < next_session_seq st'" "st_mds_id st' = st_mds_id st" "restart_nonce st' = restart_nonce st"
    using f k(2) by (auto simp: slot_frame_def)
  ultimately show ?thesis using k(1) unfolding slot_has_def by metis
qed

lemma renew_owner_sel [simp]:
  "sessions (renew_owner st now s) = sessions st" "next_session_seq (renew_owner st now s) = next_session_seq st"
  "st_mds_id (renew_owner st now s) = st_mds_id st" "restart_nonce (renew_owner st now s) = restart_nonce st"
  by (auto simp: renew_owner_def split: option.split)

lemma slot_has_upd:
  assumes wf: "st_wf st" and h: "slot_has st sid i P" and p: "sessions st p = Some s" and f: "keeps_session f"
    and q: "se_id s = sid \<Longrightarrow> i < length (se_slots s) \<Longrightarrow> P (se_slots s ! i) \<Longrightarrow> i < length (se_slots (f s)) \<and> Q (se_slots (f s) ! i)"
    and PQ: "\<And>x. se_id s \<noteq> sid \<Longrightarrow> P x \<Longrightarrow> Q x"
  shows "slot_has (upd_session st p f) sid i Q"
proof -
  have "i < length (se_slots t) \<and> Q (se_slots t ! i)" if t: "sessions (upd_session st p f) r = Some t" "se_id t = sid" for r t
  proof (cases "r = p")
    case True
    then show ?thesis using t p f q h by (auto simp: slot_has_def keeps_session_def)
  next
    case False
    then have r: "sessions st r = Some t" using t(1) by simp
    then have "se_id s \<noteq> sid" using wf p t(2) False unfolding st_wf_def keys_wf_def by metis
    then show ?thesis using PQ r t(2) h by (auto simp: slot_has_def)
  qed
  then show ?thesis using h by (simp add: slot_has_def)
qed

text \<open>One request on a slot: either the slot is as it was, or the request was on this slot, was accepted, and the slot is the
  one \<^const>\<open>slot_check\<close> returned.\<close>

lemma slot_has_sequence:
  assumes wf: "st_wf st" and h: "slot_has st sid i P" and r: "session_sequence_check_conn st now sid' i' q conn = (st', rc, cid, hints)"
    and acc: "\<And>x y. sid' = sid \<Longrightarrow> unat i' = i \<Longrightarrow> P x \<Longrightarrow> slot_check x q = (0, y) \<Longrightarrow> Q y"
  shows "slot_has st' sid i P \<or> sid' = sid \<and> unat i' = i \<and> rc = 0 \<and> slot_has st' sid i Q"
  using r
proof (cases rule: sequence_cases)
  case (Accepted p slot)
  obtain s where s: "sessions st p = Some s" "se_id s = sid'" using Accepted(1) find_session_iff [OF wf] by blast
  have fr: "slot_frame (upd_session st p (seq_session conn (unat i') slot)) st'" unfolding Accepted(5) by (rule slot_frame_eq) simp_all
  show ?thesis
  proof (cases "sid' = sid \<and> unat i' = i")
    case True
    have "slot_has (upd_session st p (seq_session conn (unat i') slot)) sid i Q"
    proof (rule slot_has_upd [OF wf h s(1) keeps_seq_session], goal_cases)
      case 1
      then have "Q slot" using acc True Accepted(3) s(1) by auto
      then show ?case using 1 True by simp
    qed (use True s in blast)
    then show ?thesis using True Accepted(4) slot_has_frame [OF _ fr] by blast
  next
    case False
    have "slot_has (upd_session st p (seq_session conn (unat i') slot)) sid i P"
      by (rule slot_has_upd [OF wf h s(1) keeps_seq_session]) (use False s(2) in auto)
    then show ?thesis using slot_has_frame [OF _ fr] by blast
  qed
qed (use h in simp_all)

lemma slot_has_cache:
  assumes wf: "st_wf st" and h: "slot_has st sid i P"
    and keep: "\<And>x c. sid' = sid \<Longrightarrow> unat i' = i \<Longrightarrow> P x \<Longrightarrow> P (x\<lparr>slot_cached_reply := c\<rparr>)"
  shows "slot_has (fst (session_slot_cache_reply st oom sid' i' r)) sid i P"
proof (cases "find_session st sid'")
  case (Some p)
  obtain s where s: "sessions st p = Some s" "se_id s = sid'" using Some find_session_iff [OF wf] by blast
  define g where "g c = (\<lambda>s :: nfs4_session. s\<lparr>se_slots := (se_slots s)[unat i' := (se_slots s ! unat i')\<lparr>slot_cached_reply := c\<rparr>]\<rparr>)" for c
  have k: "keeps_session (g c)" for c by (simp add: keeps_session_def g_def)
  have "slot_has (upd_session st p (g c)) sid i P" for c
  proof (rule slot_has_upd [OF wf h s(1) k], goal_cases)
    case 1
    then show ?case using keep s(2) by (cases "unat i' = i") (simp_all add: g_def)
  qed
  then show ?thesis using h Some by (simp add: session_slot_cache_reply_def Let_def g_def)
qed (use h in \<open>simp add: session_slot_cache_reply_def\<close>)

section \<open>At most once\<close>

definition seq_at :: "u32 \<Rightarrow> nat \<Rightarrow> nfs4_slot \<Rightarrow> bool" where
  "seq_at q k slot \<longleftrightarrow> slot_in_use slot \<and> slot_seq_id slot = q + of_nat k"

lemma seq_at_step:
  assumes wf: "st_wf st" and ok: "session_op_ok st x" and h: "slot_has st sid i (seq_at q k)"
  shows "slot_has (session_step st x) sid i (seq_at q k) \<or> slot_has (session_step st x) sid i (seq_at q (Suc k))"
proof (cases "(\<exists>now sid i q conn. x = S_sequence now sid i q conn) \<or> (\<exists>oom sid i r. x = S_cache_reply oom sid i r)")
  case False
  then show ?thesis using slot_has_frame [OF h slot_frame_step [OF wf ok]] by blast
next
  case True
  then show ?thesis
  proof (elim disjE exE)
    fix now sid' i' q' conn
    assume x: "x = S_sequence now sid' i' q' conn"
    obtain st' rc cid hints where r: "session_sequence_check_conn st now sid' i' q' conn = (st', rc, cid, hints)" by (cases rule: prod_cases4)
    have "slot_has st' sid i (seq_at q k) \<or> sid' = sid \<and> unat i' = i \<and> rc = 0 \<and> slot_has st' sid i (seq_at q (Suc k))"
      by (rule slot_has_sequence [OF wf h r]) (auto simp: seq_at_def slot_check_def split: if_splits)
    then show ?thesis using x r by auto
  next
    fix oom sid' i' r
    assume "x = S_cache_reply oom sid' i' r"
    then show ?thesis using slot_has_cache [OF wf h] by (simp add: seq_at_def)
  qed
qed

lemma seq_at_run:
  assumes "st_wf st" "session_run_ok st xs" "slot_has st sid i (seq_at q k)"
  shows "\<exists>m \<le> length xs. slot_has (session_run st xs) sid i (seq_at q (k + m))"
  using assms
proof (induction xs arbitrary: st k)
  case (Cons x xs)
  have ok: "session_op_ok st x" "session_run_ok (session_step st x) xs" using Cons.prems(2) by simp_all
  note w = st_wf_step [OF Cons.prems(1) ok(1)]
  from seq_at_step [OF Cons.prems(1) ok(1) Cons.prems(3)] show ?case
  proof
    assume "slot_has (session_step st x) sid i (seq_at q k)"
    then show ?thesis using Cons.IH [OF w ok(2)] le_Suc_eq by fastforce
  next
    assume "slot_has (session_step st x) sid i (seq_at q (Suc k))"
    from Cons.IH [OF w ok(2) this] obtain m where "m \<le> length xs" "slot_has (session_run (session_step st x) xs) sid i (seq_at q (Suc k + m))"
      by blast
    then show ?thesis by (intro exI [of _ "Suc m"]) simp
  qed
qed simp

lemma accepted_seq_at:
  assumes wf: "st_wf st" and r: "session_sequence_check_conn st now sid i q conn = (st', 0, cid, hints)"
  shows "slot_has st' sid (unat i) (seq_at q 0)"
  using r
proof (cases rule: sequence_cases)
  case (Accepted p slot)
  obtain s where s: "sessions st p = Some s" "se_id s = sid" using Accepted(1) find_session_iff [OF wf] by blast
  have u: "p' = p" if "sessions st p' = Some s'" "se_id s' = sid" for p' s' using wf s that unfolding st_wf_def keys_wf_def by metis
  have "\<exists>k. sid = session_id_of (st_mds_id st) k (restart_nonce st) \<and> k < next_session_seq st"
    using wf s unfolding st_wf_def ids_wf_def by blast
  then have h: "slot_has st sid (unat i) (\<lambda>_. True)" using Accepted(2) s(1) u unfolding slot_has_def by force
  have "seq_at q 0 slot" using Accepted(3) by (auto simp: seq_at_def slot_check_def split: if_splits)
  then have "slot_has (upd_session st p (seq_session conn (unat i) slot)) sid (unat i) (seq_at q 0)"
    by (intro slot_has_upd [OF wf h s(1) keeps_seq_session]) (simp_all add: s(2))
  then show ?thesis by (rule slot_has_frame) (auto simp: Accepted(5) intro: slot_frame_eq)
qed simp_all

lemma seq_at_refuses:
  assumes wf: "st_wf st" and h: "slot_has st sid (unat i) (seq_at q k)" and k: "k < 2 ^ 32 - 1"
    and r: "session_sequence_check_conn st now sid i q conn = (st', rc, cid, hints)"
  shows "rc \<noteq> 0 \<and> st' = st"
  using r
proof (cases rule: sequence_cases)
  case (Accepted p slot)
  obtain s where s: "sessions st p = Some s" "se_id s = sid" using Accepted(1) find_session_iff [OF wf] by blast
  then have "seq_at q k (se_slots s ! unat i)" using h by (auto simp: slot_has_def)
  moreover have "(of_nat k + 1 :: u32) \<noteq> 0"
  proof
    assume "(of_nat k + 1 :: u32) = 0"
    then have "(of_nat (Suc k) :: u32) = 0" by (simp add: add.commute)
    then have "2 ^ 32 dvd Suc k" by (simp only: word_of_nat_eq_0_iff) simp
    then show False using k by (auto dest: dvd_imp_le)
  qed
  ultimately show ?thesis using Accepted(3) s by (auto simp: seq_at_def slot_check_def add.assoc split: if_splits)
qed simp_all

section \<open>Replay\<close>

definition cached_at :: "u32 \<Rightarrow> bytes \<Rightarrow> nfs4_slot \<Rightarrow> bool" where
  "cached_at q r slot \<longleftrightarrow> slot_in_use slot \<and> slot_seq_id slot = q \<and> slot_cached_reply slot = Some r"

text \<open>The operations that end the life of a cached reply: the next request on the slot, and another reply for it.\<close>

fun disturbs :: "session_op \<Rightarrow> bytes \<Rightarrow> u32 \<Rightarrow> u32 \<Rightarrow> bool" where
  "disturbs (S_sequence now sid' i' q' conn) sid i q = (sid' = sid \<and> i' = i \<and> q' = q + 1)"
| "disturbs (S_cache_reply oom sid' i' r) sid i q = (sid' = sid \<and> i' = i)"
| "disturbs _ sid i q = False"

lemma cached_at_step:
  assumes wf: "st_wf st" and ok: "session_op_ok st x" and nd: "\<not> disturbs x sid i q" and h: "slot_has st sid (unat i) (cached_at q r)"
  shows "slot_has (session_step st x) sid (unat i) (cached_at q r)"
proof (cases "(\<exists>now sid i q conn. x = S_sequence now sid i q conn) \<or> (\<exists>oom sid i r. x = S_cache_reply oom sid i r)")
  case False
  then show ?thesis using slot_has_frame [OF h slot_frame_step [OF wf ok]] by blast
next
  case True
  then show ?thesis
  proof (elim disjE exE)
    fix now sid' i' q' conn
    assume x: "x = S_sequence now sid' i' q' conn"
    obtain st' rc cid hints where e: "session_sequence_check_conn st now sid' i' q' conn = (st', rc, cid, hints)" by (cases rule: prod_cases4)
    have "slot_has st' sid (unat i) (cached_at q r) \<or> sid' = sid \<and> unat i' = unat i \<and> rc = 0 \<and> slot_has st' sid (unat i) (\<lambda>_. sid' \<noteq> sid \<or> i' \<noteq> i)"
      by (rule slot_has_sequence [OF wf h e]) (use nd x in \<open>auto simp: cached_at_def slot_check_def split: if_splits\<close>)
    moreover have "unat i' = unat i \<Longrightarrow> i' = i" by (simp add: word_unat_eq_iff)
    ultimately show ?thesis using x e by (auto simp: slot_has_def)
  next
    fix oom sid' i' rep
    assume x: "x = S_cache_reply oom sid' i' rep"
    show ?thesis unfolding x session_step.simps
      by (rule slot_has_cache [OF wf h]) (use nd x in \<open>auto simp: word_unat_eq_iff\<close>)
  qed
qed

lemma cached_at_run:
  assumes "st_wf st" "session_run_ok st xs" "list_all (\<lambda>x. \<not> disturbs x sid i q) xs" "slot_has st sid (unat i) (cached_at q r)"
  shows "slot_has (session_run st xs) sid (unat i) (cached_at q r)"
  using assms by (induction xs arbitrary: st) (simp_all add: st_wf_step cached_at_step)

lemma cache_reply_cached_at:
  assumes wf: "st_wf st" and h: "slot_has st sid (unat i) (seq_at q 0)" and c: "session_slot_cache_reply st oom sid i r = (st', 0)"
  shows "slot_has st' sid (unat i) (cached_at q r)"
proof -
  obtain p where p: "find_session st sid = Some p" "r \<noteq> []" "A_reply \<notin> oom"
    using c by (auto simp: session_slot_cache_reply_def Let_def split: option.splits if_splits)
  then obtain s where s: "sessions st p = Some s" "se_id s = sid" using find_session_iff [OF wf] by blast
  define g where "g = (\<lambda>s :: nfs4_session. s\<lparr>se_slots := (se_slots s)[unat i := (se_slots s ! unat i)\<lparr>slot_cached_reply := Some r\<rparr>]\<rparr>)"
  have k: "keeps_session g" by (simp add: keeps_session_def g_def)
  have "slot_has (upd_session st p g) sid (unat i) (cached_at q r)"
    by (rule slot_has_upd [OF wf h s(1) k]) (use s(2) in \<open>auto simp: g_def seq_at_def cached_at_def\<close>)
  moreover have "st' = upd_session st p g"
    using c p by (auto simp: session_slot_cache_reply_def Let_def g_def split: if_splits)
  ultimately show ?thesis by simp
qed

text \<open>What a resend finds.\<close>

lemma cached_at_resend:
  assumes wf: "st_wf st" and h: "slot_has st sid (unat i) (cached_at q r)" and ne: "r \<noteq> []"
  shows "find_session st sid = None \<or>
    (\<exists>cid. session_sequence_check_conn st now sid i q conn = (st, 2, Some cid, None)) \<and> session_slot_get_cached_reply st {} sid i = Some r"
proof (cases "find_session st sid")
  case (Some p)
  then obtain s where s: "sessions st p = Some s" "se_id s = sid" using find_session_iff [OF wf] by blast
  then have "unat i < length (se_slots s)" "cached_at q r (se_slots s ! unat i)" using h by (auto simp: slot_has_def)
  then show ?thesis using Some s ne
    by (simp add: session_sequence_check_conn_def session_slot_get_cached_reply_def slot_check_def cached_at_def)
qed simp

end
