(* ===== verification/Session_Spec.thy ===== *)
theory Session_Spec
  imports Session_Run
begin

text \<open>
  The client directory, the abstract state the session table implements: who is known under a clientid, which clientid an
  owner string leads to, and which sessions are live. EXCHANGE_ID and CREATE_SESSION are specified on it, case by case
  after RFC 8881, and the operations of \<^verbatim>\<open>session.c\<close> are shown to implement the specification.
\<close>

record session_dir =
  d_client :: "u64 \<rightharpoonup> nfs4_client"
  d_owner :: "bytes \<rightharpoonup> u64"
  d_session :: "bytes \<rightharpoonup> nfs4_session"

text \<open>The directory forgets the addresses: the session list of a client and the owner pointer of a session.\<close>

abbreviation bare :: "nfs4_client \<Rightarrow> nfs4_client" where
  "bare c \<equiv> c\<lparr>cl_sessions := []\<rparr>"

abbreviation free_standing :: "nfs4_session \<Rightarrow> nfs4_session" where
  "free_standing s \<equiv> s\<lparr>se_owner := None\<rparr>"

definition dir_of :: "session_table \<Rightarrow> session_dir" where
  "dir_of st =
     \<lparr>d_client = (\<lambda>k. map_option (\<lambda>p. bare (client st p)) (find_client_by_id st k)),
      d_owner = (\<lambda>w. map_option (\<lambda>p. cl_clientid (client st p)) (find_client_by_owner st w)),
      d_session = (\<lambda>sid. map_option (\<lambda>p. free_standing (session st p)) (find_session st sid))\<rparr>"

definition dir_drop :: "session_dir \<Rightarrow> u64 \<Rightarrow> session_dir" where
  "dir_drop D k =
     \<lparr>d_client = (d_client D)(k := None),
      d_owner = (\<lambda>w. if d_owner D w = Some k then None else d_owner D w),
      d_session = (\<lambda>sid. case d_session D sid of Some s \<Rightarrow> if se_clientid s = k then None else Some s | None \<Rightarrow> None)\<rparr>"

definition dir_forget :: "session_dir \<Rightarrow> bytes \<Rightarrow> session_dir" where
  "dir_forget D w = D\<lparr>d_owner := (d_owner D)(w := None)\<rparr>"

definition dir_add :: "session_dir \<Rightarrow> nfs4_client \<Rightarrow> session_dir" where
  "dir_add D c = D\<lparr>d_client := (d_client D)(cl_clientid c \<mapsto> c), d_owner := (d_owner D)(cl_co_ownerid c \<mapsto> cl_clientid c)\<rparr>"

definition dir_set :: "session_dir \<Rightarrow> nfs4_client \<Rightarrow> session_dir" where
  "dir_set D c = D\<lparr>d_client := (d_client D)(cl_clientid c \<mapsto> c)\<rparr>"

section \<open>Reading the directory\<close>

lemma dir_drop_iff:
  "d_client (dir_drop D k) j = Some x \<longleftrightarrow> d_client D j = Some x \<and> j \<noteq> k"
  "d_owner (dir_drop D k) w = Some j \<longleftrightarrow> d_owner D w = Some j \<and> j \<noteq> k"
  "d_session (dir_drop D k) sid = Some s \<longleftrightarrow> d_session D sid = Some s \<and> se_clientid s \<noteq> k"
  by (auto simp: dir_drop_def split: option.splits if_splits)

lemma dir_add_iff:
  "d_client (dir_add D c) j = Some x \<longleftrightarrow> (if j = cl_clientid c then x = c else d_client D j = Some x)"
  "d_owner (dir_add D c) w = Some j \<longleftrightarrow> (if w = cl_co_ownerid c then j = cl_clientid c else d_owner D w = Some j)"
  "d_session (dir_add D c) = d_session D"
  by (auto simp: dir_add_def)

lemma dir_set_iff:
  "d_client (dir_set D c) j = Some x \<longleftrightarrow> (if j = cl_clientid c then x = c else d_client D j = Some x)"
  "d_owner (dir_set D c) = d_owner D" "d_session (dir_set D c) = d_session D"
  by (auto simp: dir_set_def)

lemma d_client_iff:
  "st_wf st \<Longrightarrow> d_client (dir_of st) k = Some x \<longleftrightarrow> (\<exists>p c. clients st p = Some c \<and> cl_clientid c = k \<and> x = bare c)"
  by (force simp: dir_of_def find_client_by_id_iff)

lemma d_owner_iff:
  "st_wf st \<Longrightarrow> d_owner (dir_of st) w = Some k \<longleftrightarrow>
     (\<exists>p c. p \<in> owners st \<and> clients st p = Some c \<and> cl_co_ownerid c = w \<and> cl_clientid c = k)"
  by (force simp: dir_of_def find_client_by_owner_iff)

lemma d_session_iff:
  "st_wf st \<Longrightarrow> d_session (dir_of st) sid = Some x \<longleftrightarrow> (\<exists>p s. sessions st p = Some s \<and> se_id s = sid \<and> x = free_standing s)"
  by (force simp: dir_of_def find_session_iff)

lemma map_eqI: "(\<And>k v. m k = Some v \<longleftrightarrow> n k = Some v) \<Longrightarrow> m = n"
  by (rule ext) (metis option.exhaust)

lemma dir_eqI:
  assumes "\<And>k x. d_client D k = Some x \<longleftrightarrow> d_client E k = Some x" "\<And>w x. d_owner D w = Some x \<longleftrightarrow> d_owner E w = Some x"
    "\<And>sid x. d_session D sid = Some x \<longleftrightarrow> d_session E sid = Some x"
  shows "D = (E :: session_dir)"
proof -
  have "d_client D = d_client E" "d_owner D = d_owner E" "d_session D = d_session E" using assms by (auto intro: map_eqI)
  then show ?thesis by simp
qed

lemma dir_frame [simp]:
  "dir_of (recovery_del st c) = dir_of st" "dir_of (create_session_persist_recovery st c) = dir_of st"
  by (simp_all add: dir_of_def find_client_by_id_def find_client_by_owner_def find_session_def recovery_del_def
      create_session_persist_recovery_def)

section \<open>What the primitives do to the directory\<close>

lemma dir_kill:
  assumes wf: "st_wf st" and p: "clients st p = Some c"
  shows "dir_of (kill_client st p) = dir_drop (dir_of st) (cl_clientid c)"
proof -
  have i: "index_wf st" and l: "links_wf st" using wf by (simp_all add: st_wf_def)
  note w = st_wf_kill_client [OF wf p]
  have ow: "owners (kill_client st p) = owners st - {p}" using owners_owner_unhash [OF i p] by (simp add: owners_def)
  have u: "q = p" if "clients st q = Some x" "cl_clientid x = cl_clientid c" for q x
    using wf p that unfolding st_wf_def keys_wf_def by metis
  have own: "se_owner s = Some p \<longleftrightarrow> se_clientid s = cl_clientid c" if s: "sessions st q = Some s" for q s
  proof -
    obtain q' c' where q: "se_owner s = Some q'" "clients st q' = Some c'" "se_clientid s = cl_clientid c'" using links_sessD [OF l s] by blast
    then show ?thesis using u [OF q(2)] p by (cases "q' = p") auto
  qed
  have cs: "clients (kill_client st p) q = Some x \<longleftrightarrow> clients st q = Some x \<and> cl_clientid x \<noteq> cl_clientid c" for q x
    using u [of q x] p by (cases "q = p") auto
  have os: "q \<in> owners st - {p} \<and> clients st q = Some x \<longleftrightarrow> q \<in> owners st \<and> clients st q = Some x \<and> cl_clientid x \<noteq> cl_clientid c" for q x
    using u [of q x] p by (cases "q = p") auto
  have ss: "sessions (kill_client st p) q = Some s \<longleftrightarrow> sessions st q = Some s \<and> se_clientid s \<noteq> cl_clientid c" for q s
    using client_sessions_iff [OF l p, of q s] own [of q s] p by auto
  show ?thesis
  proof (rule dir_eqI, goal_cases)
    case (1 k x)
    show ?case unfolding d_client_iff [OF w] dir_drop_iff d_client_iff [OF wf] cs by blast
  next
    case (2 ow' k)
    show ?case unfolding d_owner_iff [OF w] dir_drop_iff d_owner_iff [OF wf] ow cs using os by blast
  next
    case (3 sid x)
    show ?case unfolding d_session_iff [OF w] dir_drop_iff d_session_iff [OF wf] ss by force
  qed
qed

lemma dir_add_client:
  assumes wf: "st_wf st" and c: "cl_sessions c = []" and w: "st_wf (add_client st c nc)"
  shows "dir_of (add_client st c nc) = dir_add (dir_of st) c"
proof -
  let ?t = "add_client st c nc" and ?p = "st_next st"
  have l: "links_wf st" and i: "index_wf st" using wf by (simp_all add: st_wf_def)
  have p: "clients ?t ?p = Some c" "?p \<in> owners ?t" by (simp_all add: owners_add_client) (simp add: add_client_def Let_def)
  have fr: "clients st ?p = None" "?p \<notin> owners st" using fresh_addr [OF l] owners_addr [OF i l] by auto
  have cs: "clients ?t q = Some x \<longleftrightarrow> (if q = ?p then x = c else clients st q = Some x)" for q x by (auto simp: add_client_def Let_def)
  have ku: "q = ?p" if "clients ?t q = Some x" "cl_clientid x = cl_clientid c" for q x
    using w p that unfolding st_wf_def keys_wf_def by metis
  have ou: "q = ?p" if "q \<in> owners ?t" "clients ?t q = Some x" "cl_co_ownerid x = cl_co_ownerid c" for q x
    using w p that unfolding st_wf_def keys_wf_def by metis
  have b: "bare c = c" using c by (cases c) simp
  show ?thesis
  proof (rule dir_eqI, goal_cases)
    case (1 k x)
    show ?case
    proof (cases "k = cl_clientid c")
      case True
      then show ?thesis unfolding d_client_iff [OF w] dir_add_iff using ku p(1) b by (simp, metis option.inject)
    next
      case False
      then have "clients ?t q = Some y \<and> cl_clientid y = k \<longleftrightarrow> clients st q = Some y \<and> cl_clientid y = k" for q y
        using fr(1) by (cases "q = ?p") (auto simp: cs)
      then show ?thesis unfolding d_client_iff [OF w] dir_add_iff d_client_iff [OF wf] using False by (simp, metis)
    qed
  next
    case (2 o' k)
    show ?case
    proof (cases "o' = cl_co_ownerid c")
      case True
      then show ?thesis unfolding d_owner_iff [OF w] dir_add_iff using ou p by (simp, metis option.inject)
    next
      case False
      then have "q \<in> owners ?t \<and> clients ?t q = Some y \<and> cl_co_ownerid y = o' \<longleftrightarrow> q \<in> owners st \<and> clients st q = Some y \<and> cl_co_ownerid y = o'" for q y
        using fr by (cases "q = ?p") (auto simp: cs owners_add_client)
      then show ?thesis unfolding d_owner_iff [OF w] dir_add_iff d_owner_iff [OF wf] using False by (simp, metis)
    qed
  next
    case (3 sid x)
    have "sessions ?t = sessions st" by (simp add: add_client_def Let_def)
    then show ?case unfolding d_session_iff [OF w] dir_add_iff d_session_iff [OF wf] by simp
  qed
qed

lemma dir_owner_unhash:
  assumes wf: "st_wf st" and p: "clients st p = Some c" "p \<in> owners st"
  shows "dir_of (owner_unhash st p) = dir_forget (dir_of st) (cl_co_ownerid c)"
proof -
  have i: "index_wf st" using wf by (simp add: st_wf_def)
  note w = st_wf_owner_unhash [OF wf p(1)] and ow = owners_owner_unhash [OF i p(1)]
  have u: "q = p" if "q \<in> owners st" "clients st q = Some x" "cl_co_ownerid x = cl_co_ownerid c" for q x
    using wf p that unfolding st_wf_def keys_wf_def by metis
  show ?thesis
  proof (rule dir_eqI, goal_cases)
    case (1 k x)
    show ?case unfolding d_client_iff [OF w] using d_client_iff [OF wf] by (simp add: dir_forget_def)
  next
    case (2 o' k)
    show ?case
    proof (cases "o' = cl_co_ownerid c")
      case True
      then show ?thesis unfolding d_owner_iff [OF w] ow using u by (auto simp: dir_forget_def)
    next
      case False
      then have "q \<in> owners st - {p} \<and> clients st q = Some y \<and> cl_co_ownerid y = o' \<longleftrightarrow> q \<in> owners st \<and> clients st q = Some y \<and> cl_co_ownerid y = o'" for q y
        using p(1) by auto
      then show ?thesis unfolding d_owner_iff [OF w] ow using d_owner_iff [OF wf] False by (simp add: dir_forget_def, metis)
    qed
  next
    case (3 sid x)
    show ?case unfolding d_session_iff [OF w] using d_session_iff [OF wf] by (simp add: dir_forget_def)
  qed
qed

lemma dir_upd_client:
  assumes wf: "st_wf st" and p: "clients st p = Some c" and f: "cl_clientid (f c) = cl_clientid c" "cl_co_ownerid (f c) = cl_co_ownerid c"
    and w: "st_wf (upd_client st p f)"
  shows "dir_of (upd_client st p f) = dir_set (dir_of st) (bare (f c))"
proof -
  have u: "q = p" if "clients st q = Some x" "cl_clientid x = cl_clientid c" for q x
    using wf p that unfolding st_wf_def keys_wf_def by metis
  have cs: "clients (upd_client st p f) q = Some x \<longleftrightarrow> (if q = p then x = f c else clients st q = Some x)" for q x using p by auto
  show ?thesis
  proof (rule dir_eqI, goal_cases)
    case (1 k x)
    show ?case
    proof (cases "k = cl_clientid c")
      case True
      then show ?thesis unfolding d_client_iff [OF w] dir_set_iff cs using u f(1) by auto
    next
      case False
      then have "(if q = p then y = f c else clients st q = Some y) \<and> cl_clientid y = k \<longleftrightarrow> clients st q = Some y \<and> cl_clientid y = k" for q y
        using p f(1) by (cases "q = p") auto
      then show ?thesis unfolding d_client_iff [OF w] dir_set_iff d_client_iff [OF wf] cs using False f(1) by (simp, metis)
    qed
  next
    case (2 o' k)
    have "(\<exists>y. (if q = p then y = f c else clients st q = Some y) \<and> cl_co_ownerid y = o' \<and> cl_clientid y = k) \<longleftrightarrow>
        (\<exists>y. clients st q = Some y \<and> cl_co_ownerid y = o' \<and> cl_clientid y = k)" for q using p f by (cases "q = p") auto
    then show ?case unfolding d_owner_iff [OF w] dir_set_iff d_owner_iff [OF wf] cs by (simp add: owners_def)
  next
    case (3 sid x)
    show ?case unfolding d_session_iff [OF w] dir_set_iff d_session_iff [OF wf] by simp
  qed
qed

lemma dir_link:
  assumes wf: "st_wf st" and p: "clients st p = Some c" and r: "create_session_link st p s = (st', sid)" and w: "st_wf st'"
  shows "dir_of st' = (dir_of st)\<lparr>d_session := (d_session (dir_of st))(sid \<mapsto> free_standing (s\<lparr>se_id := sid\<rparr>))\<rparr>"
proof -
  note sel = link_sel [OF r p]
  have ow: "owners st' = owners st" by (simp add: owners_def sel)
  have fr: "sessions st (st_next st) = None" using wf fresh_addr by (simp add: st_wf_def)
  have new: "sessions st' (st_next st) = Some (s\<lparr>se_id := sid\<rparr>)" by (simp add: sel)
  have u: "q = st_next st" if "sessions st' q = Some x" "se_id x = sid" for q x
    using w that new unfolding st_wf_def keys_wf_def by (metis nfs4_session.select_convs(1) nfs4_session.surjective nfs4_session.update_convs(1))
  have cs: "(\<exists>y. clients st' q = Some y \<and> P (bare y)) \<longleftrightarrow> (\<exists>y. clients st q = Some y \<and> P (bare y))" for q P using p by (auto simp: sel)
  show ?thesis
  proof (rule dir_eqI, goal_cases)
    case (1 k x)
    show ?case unfolding d_client_iff [OF w] using d_client_iff [OF wf, of k x] cs [of _ "\<lambda>y. cl_clientid y = k \<and> x = y"] by simp
  next
    case (2 o' k)
    show ?case unfolding d_owner_iff [OF w] ow using d_owner_iff [OF wf, of o' k] cs [of _ "\<lambda>y. cl_co_ownerid y = o' \<and> cl_clientid y = k"]
      by simp
  next
    case (3 i x)
    show ?case
    proof (cases "i = sid")
      case True
      then show ?thesis unfolding d_session_iff [OF w] using u new by fastforce
    next
      case False
      then have "sessions st' q = Some y \<and> se_id y = i \<longleftrightarrow> sessions st q = Some y \<and> se_id y = i" for q y
        using fr by (cases "q = st_next st") (auto simp: sel)
      then show ?thesis unfolding d_session_iff [OF w] using d_session_iff [OF wf, of i x] False by (simp, metis)
    qed
  qed
qed

section \<open>EXCHANGE_ID\<close>

text \<open>The cases of RFC 8881, 18.35, on the directory. \<open>mem\<close> is whether the new record could be allocated, \<open>cid\<close> the identifier
  it gets. A confirmed record of a restarted client (same principal, new verifier) is kept until its successor is
  confirmed, but the owner string already leads to the successor; any other replaced record goes with its sessions.\<close>

definition dir_renew :: "session_dir \<Rightarrow> int \<Rightarrow> nfs4_client \<Rightarrow> session_dir \<times> int \<times> (u64 \<times> u32 \<times> u32) option" where
  "dir_renew D now c =
     (dir_set D (c\<lparr>cl_last_renewed := now\<rparr>), SESSION_EID_OK, Some (cl_clientid c, cl_create_seq c, EID_RES_FLAGS))"

definition dir_enter ::
  "session_dir \<Rightarrow> bool \<Rightarrow> nfs4_client \<Rightarrow> session_dir \<times> int \<times> (u64 \<times> u32 \<times> u32) option" where
  "dir_enter D mem c =
     (if mem then (dir_add D c, SESSION_EID_OK, Some (cl_clientid c, 1, EID_RES_FLAGS)) else (D, SESSION_EID_RESOURCE, None))"

definition eid_spec ::
  "session_dir \<Rightarrow> int \<Rightarrow> bool \<Rightarrow> u64 \<Rightarrow> bytes \<Rightarrow> bytes \<Rightarrow> u32 \<Rightarrow> u32 \<Rightarrow> u32 \<Rightarrow> u32 \<Rightarrow>
   session_dir \<times> int \<times> (u64 \<times> u32 \<times> u32) option" where
  "eid_spec D now mem cid owner verf fl af uid gid =
     (if owner = [] \<or> length owner > CO_OWNERID_MAX then (D, SESSION_EID_RESOURCE, None)
      else case Option.bind (d_owner D owner) (d_client D) of
        None \<Rightarrow>
          if fl AND EXCHGID4_FLAG_UPD_CONFIRMED_REC_A \<noteq> 0 then (D, SESSION_EID_NOENT, None)
          else dir_enter D mem (new_client cid now owner verf af uid gid)
      | Some c \<Rightarrow>
          (let same = client_principal_matches c af uid gid
           in if fl AND EXCHGID4_FLAG_UPD_CONFIRMED_REC_A \<noteq> 0 then
                (if \<not> cl_confirmed c then (D, SESSION_EID_NOENT, None)
                 else if cl_verifier c \<noteq> verf then (D, SESSION_EID_NOT_SAME, None)
                 else if \<not> same then (D, SESSION_EID_PERM, None)
                 else dir_renew D now c)
              else if cl_confirmed c \<and> same \<and> cl_verifier c = verf then dir_renew D now c
              else if cl_confirmed c \<and> same then
                dir_enter (dir_forget D owner) mem ((new_client cid now owner verf af uid gid)\<lparr>cl_superseded_clientid := cl_clientid c\<rparr>)
              else dir_enter (dir_drop D (cl_clientid c)) mem (new_client cid now owner verf af uid gid)))"

lemma dir_old:
  assumes wf: "st_wf st"
  shows "find_client_by_owner st owner = None \<Longrightarrow> Option.bind (d_owner (dir_of st) owner) (d_client (dir_of st)) = None"
    "find_client_by_owner st owner = Some p \<Longrightarrow> clients st p = Some c \<Longrightarrow>
       Option.bind (d_owner (dir_of st) owner) (d_client (dir_of st)) = Some (bare c)"
proof -
  show "Option.bind (d_owner (dir_of st) owner) (d_client (dir_of st)) = None" if "find_client_by_owner st owner = None"
    using that by (simp add: dir_of_def)
  assume p: "find_client_by_owner st owner = Some p" "clients st p = Some c"
  then have "d_owner (dir_of st) owner = Some (cl_clientid c)" by (simp add: dir_of_def)
  moreover have "d_client (dir_of st) (cl_clientid c) = Some (bare c)" using p(2) d_client_iff [OF wf] by blast
  ultimately show "Option.bind (d_owner (dir_of st) owner) (d_client (dir_of st)) = Some (bare c)" by simp
qed

lemma dir_enter_alloc:
  assumes wf: "st_wf b" and ok: "mint_ok b grace rows owner verf" and free: "find_client_by_owner b owner = None"
    and n: "session_alloc_new_client b now oom grace rows owner verf af uid gid = (st2, rc, out)"
  shows "(dir_of st2, rc, out) =
    dir_enter (dir_of b) (A_client \<notin> oom) (new_client (fst (new_clientid b grace rows owner verf)) now owner verf af uid gid)"
proof -
  obtain cid nc where i: "new_clientid b grace rows owner verf = (cid, nc)" by fastforce
  have "st_wf (add_client b (new_client cid now owner verf af uid gid) nc)"
    using st_wf_alloc_new [OF wf ok free, of now "{}"] i by (simp add: alloc_new_eq)
  then have "dir_of (add_client b (new_client cid now owner verf af uid gid) nc) = dir_add (dir_of b) (new_client cid now owner verf af uid gid)"
    by (intro dir_add_client [OF wf]) (simp add: new_client_def)
  then show ?thesis using n i by (auto simp: alloc_new_eq dir_enter_def new_client_def split: if_splits)
qed

lemma dir_set_add:
  "cl_clientid d = cl_clientid c \<Longrightarrow> cl_co_ownerid d = cl_co_ownerid c \<Longrightarrow> dir_set (dir_add D c) d = dir_add D d"
  by (simp add: dir_set_def dir_add_def)

lemma dir_supersede:
  assumes wf: "st_wf st2" and d: "dir_of st2 = dir_add D c" "cl_sessions c = []" and q: "find_client_by_id st2 (cl_clientid c) = Some q"
    and w: "st_wf (upd_client st2 q (\<lambda>x. x\<lparr>cl_superseded_clientid := old\<rparr>))"
  shows "dir_of (upd_client st2 q (\<lambda>x. x\<lparr>cl_superseded_clientid := old\<rparr>)) = dir_add D (c\<lparr>cl_superseded_clientid := old\<rparr>)"
proof -
  obtain c' where c': "clients st2 q = Some c'" "cl_clientid c' = cl_clientid c" using q find_client_by_id_iff [OF wf] by blast
  have "d_client (dir_of st2) (cl_clientid c) = Some (bare c')" using c' d_client_iff [OF wf] by blast
  then have b: "bare c' = c" using d(1) by (simp add: dir_add_def)
  have "dir_of (upd_client st2 q (\<lambda>x. x\<lparr>cl_superseded_clientid := old\<rparr>)) = dir_set (dir_of st2) (bare (c'\<lparr>cl_superseded_clientid := old\<rparr>))"
    by (rule dir_upd_client [OF wf c'(1) _ _ w]) simp_all
  also have "bare (c'\<lparr>cl_superseded_clientid := old\<rparr>) = c\<lparr>cl_superseded_clientid := old\<rparr>" unfolding b [symmetric] by simp
  finally show ?thesis unfolding d(1) by (simp add: dir_set_add)
qed

lemma principal_bare [simp]: "client_principal_matches (bare c) af uid gid = client_principal_matches c af uid gid"
  by (simp add: client_principal_matches_def)

lemma bare_renew: "bare (c\<lparr>cl_last_renewed := now\<rparr>) = (bare c)\<lparr>cl_last_renewed := now\<rparr>"
  by (cases c) simp

lemma dir_eid_renew:
  assumes "st_wf st" "clients st p = Some c"
  shows "(dir_of (fst (eid_renew st now p)), snd (eid_renew st now p)) = dir_renew (dir_of st) now (bare c)"
  using dir_upd_client [OF assms, of "\<lambda>c. c\<lparr>cl_last_renewed := now\<rparr>"] st_wf_eid_renew [OF assms, of now] assms(2)
  by (simp add: eid_renew_def dir_renew_def bare_renew)

text \<open>The tail of the replacement branch: the table with the superseded record noted in the new one.\<close>

lemma dir_eid_replace:
  assumes wf: "st_wf st" and ok: "mint_ok (eid_base st owner af uid gid) grace rows owner verf"
    and p: "find_client_by_owner st owner = Some p" "clients st p = Some c"
    and n: "session_alloc_new_client (eid_base st owner af uid gid) now oom grace rows owner verf af uid gid = (st2, rc, out)"
  shows "(dir_of st2, rc, out) = dir_enter
      (if cl_confirmed c \<and> client_principal_matches c af uid gid then dir_forget (dir_of st) owner else dir_drop (dir_of st) (cl_clientid c))
      (A_client \<notin> oom)
      (new_client (fst (new_clientid (eid_base st owner af uid gid) grace rows owner verf)) now owner verf af uid gid)"
proof -
  have o: "p \<in> owners st" "cl_co_ownerid c = owner" using p find_client_by_owner_iff [OF wf, of owner p] by auto
  have "dir_of (eid_base st owner af uid gid) =
      (if cl_confirmed c \<and> client_principal_matches c af uid gid then dir_forget (dir_of st) owner else dir_drop (dir_of st) (cl_clientid c))"
    using p o dir_owner_unhash [OF wf p(2) o(1)] dir_kill [OF wf p(2)] by (simp add: eid_base_def free_client_eq)
  then show ?thesis using dir_enter_alloc [OF conjunct1 [OF eid_base_wf [OF wf]] ok conjunct2 [OF eid_base_wf [OF wf]] n] by simp
qed

lemma exchange_id_dir:
  assumes wf: "st_wf st" and ok: "mint_ok (eid_base st owner af uid gid) grace rows owner verf"
    and r: "session_exchange_id st now oom grace rows owner verf fl af uid gid = (st', rc, out)"
  shows "(dir_of st', rc, out) = eid_spec (dir_of st) now (A_client \<notin> oom)
    (fst (new_clientid (eid_base st owner af uid gid) grace rows owner verf)) owner verf fl af uid gid"
proof (cases "find_client_by_owner st owner")
  case None
  then have b: "eid_base st owner af uid gid = st" by (simp add: eid_base_def)
  obtain st2 rc2 out2 where n: "session_alloc_new_client st now oom grace rows owner verf af uid gid = (st2, rc2, out2)"
    by (cases rule: prod_cases3)
  show ?thesis using r None dir_old(1) [OF wf None] n dir_enter_alloc [OF wf ok [unfolded b] None n] b
    by (auto simp: session_exchange_id_def eid_spec_def split: if_splits)
next
  case (Some p)
  then obtain c where p: "clients st p = Some c" using find_client_by_owner_iff [OF wf] by blast
  let ?b = "eid_base st owner af uid gid" and ?same = "client_principal_matches c af uid gid"
  let ?c = "new_client (fst (new_clientid ?b grace rows owner verf)) now owner verf af uid gid"
  note old = dir_old(2) [OF wf Some p] and renew = dir_eid_renew [OF wf p, of now]
  obtain st2 rc2 out2 where n: "session_alloc_new_client ?b now oom grace rows owner verf af uid gid = (st2, rc2, out2)"
    by (cases rule: prod_cases3)
  note rep = dir_eid_replace [OF wf ok Some p n] and new = exchange_id_wf_new [OF wf ok n]
  consider "owner = [] \<or> length owner > CO_OWNERID_MAX \<or> fl AND EXCHGID4_FLAG_UPD_CONFIRMED_REC_A \<noteq> 0 \<or> cl_confirmed c \<and> ?same \<and> cl_verifier c = verf"
    | (keep) "\<not> (owner = [] \<or> length owner > CO_OWNERID_MAX)" "fl AND EXCHGID4_FLAG_UPD_CONFIRMED_REC_A = 0" "cl_verifier c \<noteq> verf" "cl_confirmed c" "?same"
    | (drop) "\<not> (owner = [] \<or> length owner > CO_OWNERID_MAX)" "fl AND EXCHGID4_FLAG_UPD_CONFIRMED_REC_A = 0" "\<not> (cl_confirmed c \<and> ?same)"
    by blast
  then show ?thesis
  proof cases
    case 1
    then show ?thesis using r Some p old renew by (cases "eid_renew st now p") (auto simp: session_exchange_id_def eid_spec_def Let_def split: if_splits)
  next
    case drop
    then have "?b = free_client (unhash_client st p) p" using Some p by (auto simp: eid_base_def)
    then have "(st', rc, out) = (st2, rc2, out2)" using r Some p n drop
      by (auto simp: session_exchange_id_def Let_def split: option.splits prod.splits)
    then show ?thesis using rep drop old by (auto simp: eid_spec_def Let_def)
  next
    case keep
    then have b: "?b = owner_unhash st p" using Some p by (auto simp: eid_base_def)
    show ?thesis
    proof (cases "A_client \<in> oom")
      case True
      then have "(st', rc, out) = (st2, rc2, out2)" using r Some p n keep rep b by (auto simp: session_exchange_id_def Let_def dir_enter_def)
      then show ?thesis using rep keep old True by (auto simp: eid_spec_def Let_def dir_enter_def)
    next
      case False
      then have d: "dir_of st2 = dir_add (dir_forget (dir_of st) owner) ?c" "rc2 = SESSION_EID_OK" "out2 = Some (cl_clientid ?c, 1, EID_RES_FLAGS)"
        using rep keep by (auto simp: dir_enter_def)
      have "d_client (dir_of st2) (cl_clientid ?c) = Some ?c" using d(1) by (simp add: dir_add_def)
      then obtain q where q: "find_client_by_id st2 (cl_clientid ?c) = Some q" by (auto simp: dir_of_def)
      have cb: "clients ?b p = Some c" using p b by simp
      note sup = dir_supersede [OF new(1) d(1) _ q new(2) [OF d(3) q cb]]
      have z: "?c\<lparr>cl_superseded_clientid := 0\<rparr> = ?c" by (simp add: new_client_def)
      have "(dir_of st', rc, out) = (dir_add (dir_forget (dir_of st) owner) (?c\<lparr>cl_superseded_clientid := cl_clientid c\<rparr>), rc2, out2)"
        using r Some p n keep b d q sup z by (cases "cl_clientid c = 0") (auto simp: session_exchange_id_def Let_def new_client_def)
      then show ?thesis using d keep old False by (simp add: eid_spec_def Let_def dir_enter_def new_client_def)
    qed
  qed
qed

section \<open>CREATE_SESSION\<close>

text \<open>On the directory: \<open>late\<close> tells a lapsed record, \<open>lim\<close> are the negotiated limits, \<open>body\<close> is the allocated session (absent when
  memory ran out) and \<open>sid\<close> its identifier. The first session confirms the record and ends the one it supersedes; the
  result is kept for the one request that may be repeated.\<close>

definition cs_new ::
  "session_dir \<Rightarrow> int \<Rightarrow> u32 \<times> u32 \<times> u32 \<times> u32 \<Rightarrow> bytes \<Rightarrow> nfs4_client \<Rightarrow> nfs4_session \<Rightarrow> session_dir \<times> int \<times> cs_result option" where
  "cs_new D now lim sid c s =
     (let (fore, rear, req, ops) = lim;
          res = \<lparr>cs_session_id = sid, cs_fore_slots = fore, cs_back_slots = rear, cs_max_request_size = req, cs_max_operations = ops\<rparr>;
          D1 = (if cl_superseded_clientid c = 0 then D else dir_drop D (cl_superseded_clientid c));
          D2 = dir_set D1 (c\<lparr>cl_confirmed := True, cl_create_seq := cl_create_seq c + 1, cl_last_renewed := now,
                            cl_superseded_clientid := 0, cl_last_cs := Some res\<rparr>)
      in (D2\<lparr>d_session := (d_session D2)(sid \<mapsto> s\<lparr>se_id := sid\<rparr>)\<rparr>, 0, Some res))"

definition cs_spec ::
  "session_dir \<Rightarrow> (nfs4_client \<Rightarrow> bool) \<Rightarrow> int \<Rightarrow> u32 \<times> u32 \<times> u32 \<times> u32 \<Rightarrow> nfs4_session option \<Rightarrow> bytes \<Rightarrow> cs_args \<Rightarrow>
   session_dir \<times> int \<times> cs_result option" where
  "cs_spec D late now lim body sid a =
     (case d_client D (ca_clientid a) of
        None \<Rightarrow> (D, -1, None)
      | Some c \<Rightarrow>
          if \<not> cl_confirmed c \<and> late c then (dir_drop D (ca_clientid a), -1, None)
          else if \<not> cl_confirmed c \<and> \<not> client_principal_matches c (ca_auth_flavor a) (ca_cred_uid a) (ca_cred_gid a) then (D, -4, None)
          else if ca_seqid a = cl_create_seq c then (case body of None \<Rightarrow> (D, -3, None) | Some s \<Rightarrow> cs_new D now lim sid c s)
          else if cl_last_cs c \<noteq> None \<and> ca_seqid a = cl_create_seq c - 1 then (D, 0, cl_last_cs c)
          else (D, -2, None))"

definition cs_limits :: "session_table \<Rightarrow> cs_args \<Rightarrow> u32 \<times> u32 \<times> u32 \<times> u32" where
  "cs_limits st a = create_session_negotiate st (ca_fore_slots a) (ca_back_slots a) (ca_max_request_size a) (ca_max_operations a)"

definition cs_body :: "session_table \<Rightarrow> sess_alloc set \<Rightarrow> cs_args \<Rightarrow> nfs4_session option" where
  "cs_body st oom a =
     (let (fore, rear, req, ops) = cs_limits st a
      in map_option free_standing
           (create_session_alloc oom 0 (ca_clientid a) fore rear req ops (ca_max_response_size a) (ca_max_response_size_cached a)
              (ca_minorversion a) (ca_cb_prog a) (ca_cb_sec_flavor a)))"

lemma dir_drop_absent:
  assumes wf: "st_wf st" and k: "find_client_by_id st k = None"
  shows "dir_drop (dir_of st) k = dir_of st"
proof -
  have no: "cl_clientid c \<noteq> k" if "clients st p = Some c" for p c using k find_client_by_id_iff [OF wf, of k p] that by auto
  have ns: "se_clientid s \<noteq> k" if "sessions st p = Some s" for p s
  proof -
    have "links_wf st" using wf by (simp add: st_wf_def)
    then show ?thesis using that no by (metis links_sessD)
  qed
  show ?thesis
  proof (rule dir_eqI, goal_cases)
    case (1 j x)
    show ?case unfolding dir_drop_iff d_client_iff [OF wf] using no by blast
  next
    case (2 w j)
    show ?case unfolding dir_drop_iff d_owner_iff [OF wf] using no by blast
  next
    case (3 sid x)
    show ?case unfolding dir_drop_iff d_session_iff [OF wf] using ns by force
  qed
qed

lemma dir_set_idem [simp]: "cl_clientid c = cl_clientid d \<Longrightarrow> dir_set (dir_set D c) d = dir_set D d"
  by (simp add: dir_set_def)

lemma dir_set_same: "d_client D (cl_clientid c) = Some c \<Longrightarrow> dir_set D c = D"
  by (simp add: dir_set_def fun_upd_idem)

lemma dir_drop_set: "cl_clientid c \<noteq> k \<Longrightarrow> dir_drop (dir_set D c) k = dir_set (dir_drop D k) c"
  by (rule dir_eqI) (auto simp: dir_drop_iff dir_set_iff)

lemma dir_drop_session:
  "se_clientid s \<noteq> k \<Longrightarrow> dir_drop (D\<lparr>d_session := (d_session D)(sid \<mapsto> s)\<rparr>) k = (dir_drop D k)\<lparr>d_session := (d_session (dir_drop D k))(sid \<mapsto> s)\<rparr>"
  by (rule dir_eqI) (auto simp: dir_drop_iff dir_drop_def split: if_splits)

lemma superseded_other: "st_wf st \<Longrightarrow> clients st p = Some c \<Longrightarrow> cl_superseded_clientid c \<noteq> 0 \<Longrightarrow> cl_clientid c \<noteq> cl_superseded_clientid c"
  unfolding st_wf_def ids_wf_def by metis

lemma dir_destroy_superseded:
  assumes wf: "st_wf st" and p: "clients st p = Some c"
  shows "dir_of (destroy_superseded st p) =
    dir_set (if cl_superseded_clientid c = 0 then dir_of st else dir_drop (dir_of st) (cl_superseded_clientid c)) (bare (c\<lparr>cl_superseded_clientid := 0\<rparr>))"
proof (cases "cl_superseded_clientid c = 0")
  case True
  have "d_client (dir_of st) (cl_clientid c) = Some (bare c)" using p d_client_iff [OF wf] by blast
  moreover have "c\<lparr>cl_superseded_clientid := 0\<rparr> = c" using True by (cases c) simp
  ultimately show ?thesis using True p by (simp add: destroy_superseded_def dir_set_same)
next
  case False
  have w: "st_wf (destroy_superseded st p)" by (rule st_wf_destroy_superseded [OF wf p])
  show ?thesis
  proof (cases "find_client_by_id st (cl_superseded_clientid c)")
    case None
    then show ?thesis using w False p dir_upd_client [OF wf p, of "\<lambda>c. c\<lparr>cl_superseded_clientid := 0\<rparr>"] dir_drop_absent [OF wf None]
      by (simp add: destroy_superseded_def)
  next
    case (Some q)
    then obtain d where q: "clients st q = Some d" "cl_clientid d = cl_superseded_clientid c" using find_client_by_id_iff [OF wf] by blast
    then have qp: "q \<noteq> p" using superseded_other [OF wf p False] p by auto
    let ?t = "free_client (unhash_client st q) q"
    have t: "st_wf ?t" "clients ?t p = Some c" "dir_of ?t = dir_drop (dir_of st) (cl_superseded_clientid c)"
      using st_wf_free_client [OF wf q(1)] p qp dir_kill [OF wf q(1)] q(2) by (simp_all add: free_client_eq)
    have e: "destroy_superseded st p = upd_client ?t p (\<lambda>c. c\<lparr>cl_superseded_clientid := 0\<rparr>)"
      using False Some p by (simp add: destroy_superseded_def Let_def)
    show ?thesis using False w [unfolded e] dir_upd_client [OF t(1,2), of "\<lambda>c. c\<lparr>cl_superseded_clientid := 0\<rparr>"] unfolding e t(3) by simp
  qed
qed

lemma alloc_body:
  "map_option free_standing (create_session_alloc oom p k f b r m x y v g l) = map_option free_standing (create_session_alloc oom 0 k f b r m x y v g l)"
  by (simp add: create_session_alloc_def Let_def)

text \<open>Confirming the client once its session is linked.\<close>

lemma dir_confirm:
  fixes res now
  defines "conf \<equiv> \<lambda>c. c\<lparr>cl_confirmed := True, cl_create_seq := cl_create_seq c + 1, cl_last_renewed := now\<rparr>"
  defines "keep \<equiv> \<lambda>c. c\<lparr>cl_last_cs := Some res\<rparr>"
  assumes wf: "st_wf st" and p: "clients st p = Some c"
  shows "dir_of (upd_client (destroy_superseded (upd_client st p conf) p) p keep) =
    dir_set (if cl_superseded_clientid c = 0 then dir_of st else dir_drop (dir_of st) (cl_superseded_clientid c))
      (bare (keep ((conf c)\<lparr>cl_superseded_clientid := 0\<rparr>)))"
proof -
  let ?st2 = "upd_client st p conf" and ?sup = "cl_superseded_clientid c"
  have k: "keeps_client conf" "keeps_client keep" by (simp_all add: keeps_client_def conf_def keep_def)
  have w2: "st_wf ?st2" by (rule st_wf_upd_client [OF wf p k(1)])
  have c2: "clients ?st2 p = Some (conf c)" using p by simp
  have d2: "dir_of ?st2 = dir_set (dir_of st) (bare (conf c))" using dir_upd_client [OF wf p _ _ w2] by (simp add: conf_def)
  note w3 = st_wf_destroy_superseded [OF w2 c2]
  have "dir_of (upd_client (destroy_superseded ?st2 p) p keep) =
      dir_set (dir_of (destroy_superseded ?st2 p)) (bare (keep ((conf c)\<lparr>cl_superseded_clientid := 0\<rparr>)))"
    using dir_upd_client [OF w3, of keep] st_wf_upd_client [OF w3 k(2)] by (simp add: keep_def)
  also have "\<dots> = dir_set (if ?sup = 0 then dir_of ?st2 else dir_drop (dir_of ?st2) ?sup) (bare (keep ((conf c)\<lparr>cl_superseded_clientid := 0\<rparr>)))"
    using dir_destroy_superseded [OF w2 c2] by (simp add: conf_def keep_def)
  also have "\<dots> = dir_set (if ?sup = 0 then dir_of st else dir_drop (dir_of st) ?sup) (bare (keep ((conf c)\<lparr>cl_superseded_clientid := 0\<rparr>)))"
    using superseded_other [OF wf p] unfolding d2 by (simp add: dir_drop_set conf_def keep_def)
  finally show ?thesis .
qed

lemma create_session_new_dir:
  assumes wf: "st_wf st" and p: "clients st p = Some c" "cl_clientid c = ca_clientid a" and n: "next_session_seq st \<noteq> UINT64_MAX"
    and r: "create_session_new st now oom p a = (st', rc, out)"
  shows "(dir_of st', rc, out) =
    (case cs_body st oom a of None \<Rightarrow> (dir_of st, -3, None)
     | Some s \<Rightarrow> cs_new (dir_of st) now (cs_limits st a) (session_id_of (st_mds_id st) (next_session_seq st) (restart_nonce st)) (bare c) s)"
proof -
  obtain f b q m where lim: "cs_limits st a = (f, b, q, m)" by (cases rule: prod_cases4)
  let ?alloc = "create_session_alloc oom p (ca_clientid a) f b q m (ca_max_response_size a) (ca_max_response_size_cached a)
      (ca_minorversion a) (ca_cb_prog a) (ca_cb_sec_flavor a)"
  have body: "cs_body st oom a = map_option free_standing ?alloc" using lim alloc_body [of oom p] by (simp add: cs_body_def)
  show ?thesis
  proof (cases ?alloc)
    case None
    then show ?thesis using r lim body by (auto simp: create_session_new_def cs_limits_def [symmetric])
  next
    case (Some s)
    obtain st1 sid where lk: "create_session_link st p s = (st1, sid)" by fastforce
    note al = create_session_alloc_links [OF Some] and sel = link_sel [OF lk p(1)]
    define res where "res = \<lparr>cs_session_id = sid, cs_fore_slots = f, cs_back_slots = b, cs_max_request_size = q, cs_max_operations = m\<rparr>"
    let ?sup = "cl_superseded_clientid c" and ?s = "free_standing (s\<lparr>se_id := sid\<rparr>)"
    let ?c1 = "c\<lparr>cl_sessions := st_next st # cl_sessions c\<rparr>"
    let ?c4 = "c\<lparr>cl_confirmed := True, cl_create_seq := cl_create_seq c + 1, cl_last_renewed := now, cl_superseded_clientid := 0, cl_last_cs := Some res\<rparr>"
    define st4 where "st4 = upd_client (destroy_superseded (upd_client st1 p (\<lambda>c. c\<lparr>cl_confirmed := True, cl_create_seq := cl_create_seq c + 1,
      cl_last_renewed := now\<rparr>)) p) p (\<lambda>c. c\<lparr>cl_last_cs := Some res\<rparr>)"
    have w1: "st_wf st1" using st_wf_link [OF wf p(1) _ _ n lk] al p(2) by simp
    have c1: "clients st1 p = Some ?c1" using sel(2) by simp
    have "dir_of st4 = dir_set (if ?sup = 0 then dir_of st1 else dir_drop (dir_of st1) ?sup) (bare ?c4)"
      unfolding st4_def dir_confirm [OF w1 c1] by (cases c) simp
    also have "\<dots> = (let D = dir_set (if ?sup = 0 then dir_of st else dir_drop (dir_of st) ?sup) (bare ?c4)
        in D\<lparr>d_session := (d_session D)(sid \<mapsto> ?s)\<rparr>)"
      using superseded_other [OF wf p(1)] p(2) al dir_drop_session [of ?s ?sup "dir_of st" sid]
      by (simp add: dir_link [OF wf p(1) lk w1] dir_set_def Let_def)
    finally have d4: "dir_of st4 = \<dots>" .
    have c4: "bare ?c4 = (bare c)\<lparr>cl_confirmed := True, cl_create_seq := cl_create_seq c + 1, cl_last_renewed := now,
        cl_superseded_clientid := 0, cl_last_cs := Some res\<rparr>" by (cases c) simp
    have fs: "?s = (free_standing s)\<lparr>se_id := sid\<rparr>" by (cases s) simp
    have "st' = create_session_persist_recovery st4 (client st4 p)" "rc = 0" "out = Some res"
      using r lim lk Some by (auto simp: create_session_new_def cs_limits_def [symmetric] Let_def st4_def res_def)
    then show ?thesis using d4 sel(1) unfolding body Some c4 fs
      by (simp add: cs_new_def lim res_def Let_def)
  qed
qed

lemma late_bare [simp]: "lease_lapsed st now (bare c) = lease_lapsed st now c"
  by (simp add: lease_lapsed_def)

lemma create_session_dir:
  assumes wf: "st_wf st" and n: "next_session_seq st \<noteq> UINT64_MAX" and r: "session_create_session st now oom a = (st', rc, out)"
  shows "(dir_of st', rc, out) = cs_spec (dir_of st) (lease_lapsed st now) now (cs_limits st a) (cs_body st oom a)
    (session_id_of (st_mds_id st) (next_session_seq st) (restart_nonce st)) a"
proof (cases "find_client_by_id st (ca_clientid a)")
  case None
  then have "d_client (dir_of st) (ca_clientid a) = None" by (simp add: dir_of_def)
  then show ?thesis using None r by (auto simp: session_create_session_def cs_spec_def)
next
  case (Some p)
  then obtain c where p: "clients st p = Some c" "cl_clientid c = ca_clientid a" using find_client_by_id_iff [OF wf] by blast
  have d: "d_client (dir_of st) (ca_clientid a) = Some (bare c)" using Some p by (simp add: dir_of_def)
  obtain st2 rc2 out2 where new: "create_session_new st now oom p a = (st2, rc2, out2)" by (cases rule: prod_cases3)
  show ?thesis using r Some p d new create_session_new_dir [OF wf p n new] dir_kill [OF wf p(1)]
    by (auto simp: session_create_session_def cs_spec_def free_client_eq Let_def split: if_splits)
qed

end
