(* ===== verification/Session_Theorems.thy ===== *)
theory Session_Theorems
  imports Session_Drc Session_Spec
begin

text \<open>
  The properties of clients and sessions. They speak of every table that initialisation and any sequence of operations
  reach; the guard of a step is that the identifiers it mints fit their fields.
\<close>

inductive session_reach :: "session_table \<Rightarrow> bool" where
  boot: "session_reach (session_table_init_ex mds lease cb sb ob nonce)"
| step: "session_reach st \<Longrightarrow> session_op_ok st x \<Longrightarrow> session_reach (session_step st x)"

lemma reach_wf: "session_reach st \<Longrightarrow> st_wf st"
  by (induction rule: session_reach.induct) (simp_all add: st_wf_init st_wf_step)

lemma reach_run: "session_reach st \<Longrightarrow> session_run_ok st xs \<Longrightarrow> session_reach (session_run st xs)"
  by (induction xs arbitrary: st) (simp_all add: session_reach.step)

section \<open>A small table for the witnesses\<close>

definition ws_ops :: "session_op list" where
  "ws_ops =
     [S_exchange_id 100 {} False [] [65] [1, 2] 0 1 0 0,
      S_create_session 101 {} \<lparr>ca_clientid = 0x1000700000001, ca_seqid = 1, ca_fore_slots = 2, ca_back_slots = 1, ca_cb_prog = 5,
        ca_cb_sec_flavor = 0, ca_max_request_size = 0, ca_max_operations = 0, ca_max_response_size = 0,
        ca_max_response_size_cached = 0, ca_minorversion = 1, ca_auth_flavor = 1, ca_cred_uid = 0, ca_cred_gid = 0\<rparr>]"

definition ws_init :: session_table where "ws_init = session_table_init_ex 1 90 2 2 2 7"
definition ws_tab :: session_table where "ws_tab = session_run ws_init ws_ops"
definition ws_sid :: bytes where "ws_sid = session_id_of 1 1 7"

lemma ws_ok: "session_run_ok ws_init ws_ops"
  by code_simp

lemma ws_reach: "session_reach ws_tab"
  unfolding ws_tab_def using ws_ok by (intro reach_run) (simp_all add: ws_init_def session_reach.boot)

section \<open>Properties\<close>



text \<open>C26. Exactly-once: once SEQUENCE has accepted a request on a slot, the same sequence number on that slot is not accepted
  again through any run of fewer than 2^32 - 1 operations, whatever they are (destruction and recreation of the session and
  of the client included), and the resend changes nothing.\<close>

theorem sequence_at_most_once:
  assumes "session_reach st" and a: "session_sequence_check_conn st now sid i q conn = (st1, 0, cid, h)"
    and ok: "session_run_ok st1 ops" and n: "length ops < 2 ^ 32 - 1"
    and r: "session_sequence_check_conn (session_run st1 ops) now' sid i q conn' = (st2, rc, cid', h')"
  shows "rc \<noteq> 0 \<and> st2 = session_run st1 ops"
proof -
  have w: "st_wf st" "st_wf st1" using reach_wf [OF assms(1)] st_wf_sequence [OF _ a] by auto
  obtain m where "m \<le> length ops" "slot_has (session_run st1 ops) sid (unat i) (seq_at q (0 + m))"
    using seq_at_run [OF w(2) ok accepted_seq_at [OF w(1) a]] by blast
  then show ?thesis using seq_at_refuses [OF st_wf_run [OF w(2) ok] _ _ r, of m] n by auto
qed

definition ws_seq :: session_table where "ws_seq = fst (session_sequence_check_conn ws_tab 102 ws_sid 1 7 (Some 3))"

lemma ws_seq_eq:
  "\<exists>cid h. session_sequence_check_conn ws_tab 102 ws_sid 1 7 (Some 3) = (ws_seq, 0, cid, h)"
proof -
  have "fst (snd (session_sequence_check_conn ws_tab 102 ws_sid 1 7 (Some 3))) = 0" by code_simp
  then show ?thesis unfolding ws_seq_def by (metis prod.collapse)
qed

definition ws_more :: "session_op list" where
  "ws_more = [S_cache_reply {} ws_sid 1 [9, 9], S_sequence 103 ws_sid 0 1 None, S_unbind_conn 3, S_reaper 120]"

lemma ws_more_ok: "session_run_ok ws_seq ws_more"
  by (simp add: ws_more_def)

theorem sequence_at_most_once_witness:
  "fst (snd (session_sequence_check_conn (session_run ws_seq ws_more) 130 ws_sid 1 7 None)) \<noteq> 0"
proof -
  obtain cid h where a: "session_sequence_check_conn ws_tab 102 ws_sid 1 7 (Some 3) = (ws_seq, 0, cid, h)" using ws_seq_eq by blast
  obtain st2 rc cid' h' where r: "session_sequence_check_conn (session_run ws_seq ws_more) 130 ws_sid 1 7 None = (st2, rc, cid', h')"
    by (cases rule: prod_cases4)
  show ?thesis using sequence_at_most_once [OF ws_reach a ws_more_ok _ r] r by (simp add: ws_more_def)
qed

text \<open>C27. Replay: after a request was accepted and its reply cached, a resend through any run without the next request on
  that slot and without another reply for it either finds the session gone or is answered with that very reply and changes
  nothing.\<close>

theorem sequence_replay_cached:
  assumes "session_reach st" and a: "session_sequence_check_conn st now sid i q conn = (st1, 0, cid, h)"
    and c: "session_slot_cache_reply st1 oom sid i r = (st2, 0)"
    and ok: "session_run_ok st2 ops" and quiet: "list_all (\<lambda>x. \<not> disturbs x sid i q) ops"
  shows "find_session (session_run st2 ops) sid = None \<or>
    (\<exists>cid'. session_sequence_check_conn (session_run st2 ops) now' sid i q conn' = (session_run st2 ops, 2, Some cid', None)) \<and>
    session_slot_get_cached_reply (session_run st2 ops) {} sid i = Some r"
proof -
  have w: "st_wf st" "st_wf st1" using reach_wf [OF assms(1)] st_wf_sequence [OF _ a] by auto
  have w2: "st_wf st2" using st_wf_cache_reply [OF w(2), of oom sid i r] c by simp
  have "r \<noteq> []" using c by (auto simp: session_slot_cache_reply_def)
  then show ?thesis
    using cached_at_resend [OF st_wf_run [OF w2 ok] cached_at_run [OF w2 ok quiet cache_reply_cached_at [OF w(2) accepted_seq_at [OF w(1) a] c]]]
    by blast
qed

theorem sequence_replay_cached_witness:
  "session_slot_get_cached_reply (session_run (fst (session_slot_cache_reply ws_seq {} ws_sid 1 [9, 9])) [S_unbind_conn 3, S_reaper 120]) {} ws_sid 1 = Some [9, 9]"
proof -
  let ?st = "fst (session_slot_cache_reply ws_seq {} ws_sid 1 [9, 9])" and ?ops = "[S_unbind_conn 3, S_reaper 120]"
  obtain cid h where a: "session_sequence_check_conn ws_tab 102 ws_sid 1 7 (Some 3) = (ws_seq, 0, cid, h)" using ws_seq_eq by blast
  have "snd (session_slot_cache_reply ws_seq {} ws_sid 1 [9, 9]) = 0" by code_simp
  then have c: "session_slot_cache_reply ws_seq {} ws_sid 1 [9, 9] = (?st, 0)" by (metis prod.collapse)
  have "find_session (session_run ?st ?ops) ws_sid \<noteq> None" by code_simp
  then show ?thesis using sequence_replay_cached [OF ws_reach a c, of ?ops] by auto
qed




text \<open>C29. CREATE_SESSION implements its specification on the client directory, on every branch: an unknown clientid, a lapsed
  or foreign unconfirmed record, a failed allocation, the new session with the confirmation of its client and the end of the
  client it supersedes, the repeated request and the misordered one. A request that made a session is answered with the same
  result when it is repeated, at any later time, and the repetition changes nothing.\<close>

theorem create_session_refines:
  assumes "session_reach st" and ok: "session_op_ok st (S_create_session now oom a)"
    and r: "session_create_session st now oom a = (st', rc, out)"
  shows "(dir_of st', rc, out) = cs_spec (dir_of st) (lease_lapsed st now) now (cs_limits st a) (cs_body st oom a)
      (session_id_of (st_mds_id st) (next_session_seq st) (restart_nonce st)) a \<and>
    (rc = 0 \<and> dir_of st' \<noteq> dir_of st \<longrightarrow> session_create_session st' now' oom' a = (st', 0, out))"
proof (intro conjI impI)
  have wf: "st_wf st" and n: "next_session_seq st \<noteq> UINT64_MAX" using reach_wf [OF assms(1)] ok by simp_all
  show d: "(dir_of st', rc, out) = cs_spec (dir_of st) (lease_lapsed st now) now (cs_limits st a) (cs_body st oom a)
      (session_id_of (st_mds_id st) (next_session_seq st) (restart_nonce st)) a" by (rule create_session_dir [OF wf n r])
  assume z: "rc = 0 \<and> dir_of st' \<noteq> dir_of st"
  have w': "st_wf st'" using st_wf_create_session [OF wf n, of now oom a] r by simp
  obtain c s where c: "d_client (dir_of st) (ca_clientid a) = Some c" "ca_seqid a = cl_create_seq c" and
    new: "(dir_of st', rc, out) = cs_new (dir_of st) now (cs_limits st a) (session_id_of (st_mds_id st) (next_session_seq st) (restart_nonce st)) c s"
    using d z by (auto simp: cs_spec_def split: option.splits if_splits)
  have k: "cl_clientid c = ca_clientid a" using c(1) d_client_iff [OF wf] by auto
  have "\<exists>c'. d_client (dir_of st') (ca_clientid a) = Some c' \<and> cl_confirmed c' \<and> cl_create_seq c' = ca_seqid a + 1 \<and> cl_last_cs c' = out \<and> out \<noteq> None"
    using new c(2) k by (auto simp: cs_new_def dir_set_def Let_def split: prod.splits)
  then obtain p where "find_client_by_id st' (ca_clientid a) = Some p" "cl_confirmed (client st' p)"
    "cl_create_seq (client st' p) = ca_seqid a + 1" "cl_last_cs (client st' p) = out" "out \<noteq> None" by (auto simp: dir_of_def)
  then show "session_create_session st' now' oom' a = (st', 0, out)" by (simp add: session_create_session_def)
qed

definition ws_args :: cs_args where
  "ws_args = \<lparr>ca_clientid = 0x1000700000001, ca_seqid = 2, ca_fore_slots = 100, ca_back_slots = 0, ca_cb_prog = 5,
     ca_cb_sec_flavor = 0, ca_max_request_size = 4096, ca_max_operations = 8, ca_max_response_size = 0,
     ca_max_response_size_cached = 0, ca_minorversion = 1, ca_auth_flavor = 1, ca_cred_uid = 0, ca_cred_gid = 0\<rparr>"

theorem create_session_refines_witness:
  "\<exists>st' out. session_create_session ws_tab 110 {} ws_args = (st', 0, out) \<and> map_option cs_fore_slots out = Some 64 \<and>
     session_create_session st' 500 {A_session} ws_args = (st', 0, out)"
proof -
  obtain st' rc out where r: "session_create_session ws_tab 110 {} ws_args = (st', rc, out)" by (cases rule: prod_cases3)
  have ok: "session_op_ok ws_tab (S_create_session 110 {} ws_args)" by code_simp
  have z: "fst (snd (session_create_session ws_tab 110 {} ws_args)) = 0"
    "map_option cs_fore_slots (snd (snd (session_create_session ws_tab 110 {} ws_args))) = Some 64" by code_simp+
  have "d_session (dir_of (fst (session_create_session ws_tab 110 {} ws_args))) (session_id_of 1 2 7) \<noteq> None"
    "d_session (dir_of ws_tab) (session_id_of 1 2 7) = None" by code_simp+
  then have "dir_of st' \<noteq> dir_of ws_tab" using r by auto
  then show ?thesis using create_session_refines [OF ws_reach ok r] r z by auto
qed







text \<open>C31. All session identifiers with a counter below 2^32 fall in one bucket of the session hash and one lock stripe: both
  hashes read the first eight bytes, which hold the server id and the upper half of the counter.\<close>

lemma session_id_head:
  assumes "k < 0x100000000"
  shows "take 8 (session_id_of m k n) = be_bytes 4 m @ [0, 0, 0, 0]"
proof -
  have "drop_bit 32 k = 0" using assms
    by (simp add: drop_bit_eq_div word_unat_eq_iff unat_div word_less_nat_alt)
  moreover have "take 4 (be_bytes 8 k) = be_bytes 4 (drop_bit 32 k)" by (simp add: numeral_eq_Suc)
  ultimately show ?thesis by (simp add: session_id_of_def numeral_eq_Suc)
qed

theorem session_ids_share_bucket:
  assumes "j < 0x100000000" "k < 0x100000000"
  shows "hash_session_id b (session_id_of m j n) = hash_session_id b (session_id_of m k n') \<and>
    session_id_shard (session_id_of m j n) = session_id_shard (session_id_of m k n')"
  using session_id_head [OF assms(1), of m n] session_id_head [OF assms(2), of m n']
  by (simp add: hash_session_id_def session_id_shard_def)

theorem session_ids_share_bucket_witness: "hash_session_id 65536 (session_id_of 1 1 7) = hash_session_id 65536 (session_id_of 1 9999 7)"
  using session_ids_share_bucket [of 1 9999] by simp

end
