(* ===== verification/Lease_Slices.thy ===== *)
theory Lease_Slices
  imports Lattice_Prelude
begin

text \<open>
  Decomposition of a byte range into stripe slices, \<^verbatim>\<open>src/fsal_obj/lease_stripe_map.c\<close>. The output array is the list of the
  slices written so far; the caller passes an array, so the null check has no counterpart.
\<close>

section \<open>The code\<close>

record stripe_slice =
  sl_stripe_index :: u32
  sl_ds_offset :: u64
  sl_ds_length :: u64

abbreviation EINVAL :: int where "EINVAL \<equiv> 22"
abbreviation ENOSPC :: int where "ENOSPC \<equiv> 28"

text \<open>The counter of the slices reaches the capacity of the output array.\<close>

lemma count_up: "(c :: u32) \<noteq> m \<Longrightarrow> unat (m - (c + 1)) < unat (m - c)"
  using measure_unat [of "m - c"] by (simp add: diff_diff_eq)

function slice_loop :: "u32 \<Rightarrow> u32 \<Rightarrow> u32 \<Rightarrow> u32 \<Rightarrow> u64 \<Rightarrow> u64 \<Rightarrow> stripe_slice list \<Rightarrow> int \<times> stripe_slice list" where
  "slice_loop unit max_slices count cur_idx cur_off remaining out =
     (if remaining > 0 then
        if count = max_slices then (- ENOSPC, out)
        else
          (let avail = ucast unit - cur_off;
               slice_len = (if avail > remaining then remaining else avail);
               out' = out @ [\<lparr>sl_stripe_index = cur_idx, sl_ds_offset = cur_off, sl_ds_length = slice_len\<rparr>];
               rest = remaining - slice_len
           in if rest > 0 then
                (if cur_idx = 0xFFFFFFFF then (- EINVAL, out')
                 else slice_loop unit max_slices (count + 1) (cur_idx + 1) 0 rest out')
              else slice_loop unit max_slices (count + 1) cur_idx 0 rest out')
      else (sint count, out))"
  by pat_completeness auto
termination
  by (relation "measure (\<lambda>(u, m, c, _). unat (m - c))") (auto intro: count_up)

declare slice_loop.simps [simp del]

lemma slice_loop_stop: "\<not> 0 < rem \<Longrightarrow> slice_loop unit mx count idx off rem out = (sint count, out)"
  by (subst slice_loop.simps) simp

definition lease_range_to_stripe_slices :: "u64 \<Rightarrow> u64 \<Rightarrow> u32 \<Rightarrow> u32 \<Rightarrow> int \<times> stripe_slice list" where
  "lease_range_to_stripe_slices logical_offset logical_length unit max_slices =
     (if unit = 0 then (- EINVAL, [])
      else if max_slices = 0 then (- EINVAL, [])
      else if logical_length = 0 then (- EINVAL, [])
      else if logical_length = UINT64_MAX then (- EINVAL, [])
      else if logical_offset div ucast unit > 0xFFFFFFFF then (- EINVAL, [])
      else slice_loop unit max_slices 0 (ucast (logical_offset div ucast unit)) (logical_offset mod ucast unit) logical_length [])"

section \<open>The reference\<close>

text \<open>The pieces of the range, stripe by stripe, over the natural numbers: index, offset in the stripe, length.\<close>

definition pieces :: "nat \<Rightarrow> nat \<Rightarrow> nat \<Rightarrow> (nat \<times> nat \<times> nat) list" where
  "pieces u off len =
     map (\<lambda>i. (i, max off (i * u) - i * u, min (off + len) (i * u + u) - max off (i * u))) [off div u ..< Suc ((off + len - 1) div u)]"

definition slice_nats :: "stripe_slice \<Rightarrow> nat \<times> nat \<times> nat" where
  "slice_nats s = (unat (sl_stripe_index s), unat (sl_ds_offset s), unat (sl_ds_length s))"

definition slice_bytes :: "nat \<Rightarrow> stripe_slice \<Rightarrow> nat set" where
  "slice_bytes u s = {unat (sl_stripe_index s) * u + unat (sl_ds_offset s) ..<
     unat (sl_stripe_index s) * u + unat (sl_ds_offset s) + unat (sl_ds_length s)}"

lemma pieces_tail:
  assumes "c < u" "u \<le> c + r"
  shows "map (\<lambda>j. (j, max (i * u + c) (j * u) - j * u, min (i * u + c + r) (j * u + u) - max (i * u + c) (j * u))) [Suc i ..< n] =
    map (\<lambda>j. (j, max (Suc i * u) (j * u) - j * u, min (Suc i * u + (r - (u - c))) (j * u + u) - max (Suc i * u) (j * u))) [Suc i ..< n]"
proof (rule map_cong [OF refl])
  fix j
  assume "j \<in> set [Suc i ..< n]"
  then have "Suc i * u \<le> j * u" by (intro mult_le_mono1) simp
  then have "max (i * u + c) (j * u) = j * u" "max (Suc i * u) (j * u) = j * u" using assms(1) by (simp_all add: max_def)
  moreover have "Suc i * u + (r - (u - c)) = i * u + c + r" using assms by (simp add: algebra_simps)
  ultimately show "(j, max (i * u + c) (j * u) - j * u, min (i * u + c + r) (j * u + u) - max (i * u + c) (j * u)) =
      (j, max (Suc i * u) (j * u) - j * u, min (Suc i * u + (r - (u - c))) (j * u + u) - max (Suc i * u) (j * u))" by (simp only:)
qed

lemma pieces_step:
  assumes "c < u" "0 < r"
  shows "pieces u (i * u + c) r = (i, c, min r (u - c)) # (if r \<le> u - c then [] else pieces u (Suc i * u) (r - (u - c)))"
proof -
  have d: "(i * u + c) div u = i" using assms by simp
  have m: "max (i * u + c) (i * u) = i * u + c" by simp
  show ?thesis
  proof (cases "r \<le> u - c")
    case True
    then have "(i * u + c + r - 1) div u = i" using assms by (intro div_nat_eqI) (auto simp: algebra_simps)
    then show ?thesis using True assms d by (auto simp: pieces_def)
  next
    case False
    let ?n = "Suc ((i * u + c + r - 1) div u)"
    have e: "Suc i * u + (r - (u - c)) = i * u + c + r" using False assms by (simp add: algebra_simps)
    have "Suc i * u \<le> i * u + c + r - 1" using False assms by (simp add: algebra_simps)
    then have "Suc i * u div u \<le> (i * u + c + r - 1) div u" by (rule div_le_mono)
    then have "Suc i < ?n" using assms by simp
    then have n: "[i ..< ?n] = i # [Suc i ..< ?n]" by (simp add: upt_conv_Cons)
    have b: "min (i * u + c + r) (i * u + u) = i * u + u" "min r (u - c) = u - c" using False assms by (auto simp: min_def)
    have s: "Suc i * u div u = Suc i" using assms by simp
    have "pieces u (i * u + c) r = (i, c, u - c) #
        map (\<lambda>j. (j, max (i * u + c) (j * u) - j * u, min (i * u + c + r) (j * u + u) - max (i * u + c) (j * u))) [Suc i ..< ?n]"
      unfolding pieces_def d n list.map m b by simp
    also have "map (\<lambda>j. (j, max (i * u + c) (j * u) - j * u, min (i * u + c + r) (j * u + u) - max (i * u + c) (j * u))) [Suc i ..< ?n] =
        pieces u (Suc i * u) (r - (u - c))"
      using pieces_tail [of c u r i ?n] False assms(1) unfolding pieces_def s e by simp
    finally show ?thesis using False b(2) by simp
  qed
qed

section \<open>The loop computes the reference\<close>

lemma unat_ucast_u32: "unat (ucast (x :: u32) :: u64) = unat x"
proof -
  have "unat x < 2 ^ LENGTH(32)" by (rule unsigned_less)
  then show ?thesis by (simp add: unsigned_ucast_eq take_bit_nat_eq_self)
qed

lemma u32_succ: "x \<noteq> 0xFFFFFFFF \<Longrightarrow> unat (x + 1) = Suc (unat x)" for x :: u32
proof -
  assume "x \<noteq> 0xFFFFFFFF"
  moreover have "(0xFFFFFFFF :: u32) = - 1" by simp
  ultimately have "1 + x \<noteq> 0" by (metis add_eq_0_iff)
  then show ?thesis using unatSuc [of x] by (simp add: add.commute)
qed

lemma slice_len_nat:
  assumes "unat off < unat (unit :: u32)"
  shows "unat (if ucast unit - off > rem then rem else ucast unit - off :: u64) = min (unat rem) (unat unit - unat off)"
proof -
  have "off \<le> ucast unit" using assms by (simp add: word_le_nat_alt unat_ucast_u32)
  then have "unat (ucast unit - off) = unat unit - unat off" by (simp add: unat_sub unat_ucast_u32)
  then show ?thesis by (simp add: word_less_nat_alt)
qed

lemma pieces_ne: "0 < r \<Longrightarrow> 0 < u \<Longrightarrow> pieces u k r \<noteq> []"
  by (simp add: pieces_def div_le_mono)

lemma slice_loop_step:
  assumes "count \<noteq> mx" "rem > 0" and len: "len = (if ucast unit - off > rem then rem else ucast unit - off)"
    and s: "s = \<lparr>sl_stripe_index = idx, sl_ds_offset = off, sl_ds_length = len\<rparr>"
  shows "slice_loop unit mx count idx off rem out =
      (if rem - len > 0 then if idx = 0xFFFFFFFF then (- EINVAL, out @ [s]) else slice_loop unit mx (count + 1) (idx + 1) 0 (rem - len) (out @ [s])
       else (sint (count + 1), out @ [s]))"
  using assms(1,2) by (subst slice_loop.simps) (simp add: Let_def len s slice_loop_stop)

text \<open>\<open>C\<close> slices still fit in the array, \<open>M\<close> stripe indexes are left.\<close>

lemma slice_loop_spec:
  assumes "unat off < unat unit" "0 < unat rem"
  shows "\<exists>ss. slice_loop unit mx count idx off rem out =
      (let N = length (pieces (unat unit) (unat idx * unat unit + unat off) (unat rem));
           C = unat (mx - count); M = 2 ^ 32 - unat idx
       in if N \<le> C \<and> N \<le> M then sint (count + of_nat N) else if M \<le> C then - EINVAL else - ENOSPC, out @ ss) \<and>
    map slice_nats ss = take (min (unat (mx - count)) (2 ^ 32 - unat idx)) (pieces (unat unit) (unat idx * unat unit + unat off) (unat rem))"
  using assms
proof (induction "unat (mx - count)" arbitrary: count idx off rem out)
  case 0
  then have c: "count = mx" by (simp add: unat_eq_0)
  have i: "unat idx < 2 ^ LENGTH(32)" by (rule unsigned_less)
  have "pieces (unat unit) (unat idx * unat unit + unat off) (unat rem) \<noteq> []" using 0 by (intro pieces_ne) auto
  then show ?case using 0 c i by (subst slice_loop.simps) (auto simp: Let_def word_greater_zero_iff)
next
  case (Suc C)
  let ?u = "unat unit" and ?i = "unat idx" and ?c = "unat off" and ?r = "unat rem"
  define len where "len = (if ucast unit - off > rem then rem else ucast unit - off)"
  define s where "s = \<lparr>sl_stripe_index = idx, sl_ds_offset = off, sl_ds_length = len\<rparr>"
  have i: "?i < 2 ^ LENGTH(32)" by (rule unsigned_less)
  have ne: "count \<noteq> mx" "rem > 0" using Suc.hyps(2) Suc.prems(2) by (auto simp: word_greater_zero_iff)
  have C: "unat (mx - (count + 1)) = C" using Suc.hyps(2) ne(1) unat_minus_one [of "mx - count"] by (simp add: diff_diff_eq)
  have len: "unat len = min ?r (?u - ?c)" unfolding len_def by (rule slice_len_nat [OF Suc.prems(1)])
  then have rest: "unat (rem - len) = ?r - min ?r (?u - ?c)" by (simp add: unat_sub word_le_nat_alt)
  have s: "slice_nats s = (?i, ?c, min ?r (?u - ?c))" by (simp add: slice_nats_def s_def len)
  note P = pieces_step [OF Suc.prems, of ?i]
  note L = slice_loop_step [OF ne len_def s_def, of out]
  show ?case
  proof (cases "?r \<le> ?u - ?c")
    case True
    then have "rem - len = 0" using rest by (simp add: unat_eq_0 [symmetric])
    then show ?thesis using L P True Suc.hyps(2) i s by (intro exI [of _ "[s]"]) (simp add: Let_def min_def)
  next
    case False
    then have "0 < unat (rem - len)" using rest by simp
    then have gt: "rem - len > 0" "0 < unat (rem - len)" by (auto simp: word_greater_zero_iff)
    have rn: "unat (rem - len) = ?r - (?u - ?c)" using rest False by simp
    have tail: "pieces ?u (?i * ?u + ?c) ?r = (?i, ?c, min ?r (?u - ?c)) # pieces ?u (Suc ?i * ?u) (unat (rem - len))" using P False rn by simp
    show ?thesis
    proof (cases "idx = 0xFFFFFFFF")
      case True
      then have "?i = 2 ^ 32 - 1" by simp
      moreover have "pieces ?u (Suc ?i * ?u) (unat (rem - len)) \<noteq> []" using gt(2) Suc.prems(1) by (intro pieces_ne) auto
      ultimately show ?thesis using L gt(1) True tail s by (intro exI [of _ "[s]"]) (simp add: Let_def Suc.hyps(2) [symmetric])
    next
      case nf: False
      then have i1: "unat (idx + 1) = Suc ?i" by (intro u32_succ) simp
      have o0: "unat (0 :: u64) < ?u" using Suc.prems(1) by simp
      from Suc.hyps(1) [OF C [symmetric] o0 gt(2), of "idx + 1" "out @ [s]"]
      obtain ss where ss: "slice_loop unit mx (count + 1) (idx + 1) 0 (rem - len) (out @ [s]) =
          (let N = length (pieces ?u (Suc ?i * ?u) (unat (rem - len))); M = 2 ^ 32 - Suc ?i
           in if N \<le> C \<and> N \<le> M then sint (count + 1 + of_nat N) else if M \<le> C then - EINVAL else - ENOSPC, (out @ [s]) @ ss)"
        "map slice_nats ss = take (min C (2 ^ 32 - Suc ?i)) (pieces ?u (Suc ?i * ?u) (unat (rem - len)))"
        unfolding i1 C by (auto simp: Let_def)
      define M where "M = (2 ^ 32 - Suc ?i :: nat)"
      have m: "2 ^ 32 - ?i = Suc M" using i by (simp add: M_def)
      note ss = ss [folded M_def]
      show ?thesis unfolding tail m Suc.hyps(2) [symmetric] L using gt(1) nf ss(2) s
        by (intro exI [of _ "s # ss"]) (simp add: ss(1) Let_def add.assoc)
    qed
  qed
qed

section \<open>Pieces cover the range\<close>

lemma pieces_byte:
  assumes u: "0 < u" and p: "(i, c, l) \<in> set (pieces u off len)" and b: "b \<in> {i * u + c ..< i * u + c + l}"
  shows "b div u = i" "b \<in> {off ..< off + len}"
proof -
  have e: "c = max off (i * u) - i * u" "l = min (off + len) (i * u + u) - max off (i * u)" using p by (auto simp: pieces_def)
  then have "max off (i * u) \<le> b" "b < min (off + len) (i * u + u)" using b by auto
  then show "b div u = i" "b \<in> {off ..< off + len}" using u by (auto intro!: div_nat_eqI simp: algebra_simps)
qed

lemma pieces_find:
  assumes u: "0 < u" and b: "b \<in> {off ..< off + len}"
  shows "\<exists>c l. (b div u, c, l) \<in> set (pieces u off len) \<and> b \<in> {b div u * u + c ..< b div u * u + c + l}"
proof -
  let ?i = "b div u"
  have i: "?i * u \<le> b" "b < ?i * u + u" using u div_times_less_eq_dividend [of b u] dividend_less_div_times [of u b] by auto
  have "off div u \<le> ?i" "?i \<le> (off + len - 1) div u" using b by (auto intro: div_le_mono)
  then have "?i \<in> set [off div u ..< Suc ((off + len - 1) div u)]" by (auto simp del: upt_Suc)
  then have "(?i, max off (?i * u) - ?i * u, min (off + len) (?i * u + u) - max off (?i * u)) \<in> set (pieces u off len)"
    unfolding pieces_def list.set_map by (rule imageI)
  moreover have "b \<in> {?i * u + (max off (?i * u) - ?i * u) ..<
      ?i * u + (max off (?i * u) - ?i * u) + (min (off + len) (?i * u + u) - max off (?i * u))}" using i b by auto
  ultimately show ?thesis by blast
qed

lemma pieces_index_inj: "(i, c, l) \<in> set (pieces u off len) \<Longrightarrow> (i, c', l') \<in> set (pieces u off len) \<Longrightarrow> c = c' \<and> l = l'"
  by (auto simp: pieces_def)

lemma slice_nats_inj: "slice_nats s = slice_nats t \<Longrightarrow> s = t"
  by (cases s; cases t) (simp add: slice_nats_def word_unat_eq_iff)

lemma slices_partition:
  assumes u: "0 < u" and m: "map slice_nats out = pieces u off len"
  shows "(\<exists>!s. s \<in> set out \<and> b \<in> slice_bytes u s) \<longleftrightarrow> b \<in> {off ..< off + len}"
proof -
  have st: "set (pieces u off len) = slice_nats ` set out" using m by (metis list.set_map)
  have in_bytes: "b \<in> {i * u + c ..< i * u + c + l}" if "slice_nats s = (i, c, l)" "b \<in> slice_bytes u s" for s i c l
    using that by (auto simp: slice_nats_def slice_bytes_def)
  show ?thesis
  proof
    assume "\<exists>!s. s \<in> set out \<and> b \<in> slice_bytes u s"
    then obtain s where s: "s \<in> set out" "b \<in> slice_bytes u s" by blast
    obtain i c l where n: "slice_nats s = (i, c, l)" by (cases "slice_nats s")
    have "(i, c, l) \<in> set (pieces u off len)" unfolding st using s(1) n by force
    then show "b \<in> {off ..< off + len}" using pieces_byte(2) [OF u _ in_bytes [OF n s(2)]] by blast
  next
    assume b: "b \<in> {off ..< off + len}"
    obtain c l where p: "(b div u, c, l) \<in> set (pieces u off len)" "b \<in> {b div u * u + c ..< b div u * u + c + l}"
      using pieces_find [OF u b] by blast
    then obtain s where s: "s \<in> set out" "slice_nats s = (b div u, c, l)" unfolding st by auto
    have "b \<in> slice_bytes u s" using s(2) p(2) by (auto simp: slice_nats_def slice_bytes_def)
    moreover have "t = s" if t: "t \<in> set out" "b \<in> slice_bytes u t" for t
    proof -
      obtain i' c' l' where n: "slice_nats t = (i', c', l')" by (cases "slice_nats t")
      have q: "(i', c', l') \<in> set (pieces u off len)" unfolding st using t(1) n by force
      have "i' = b div u" using pieces_byte(1) [OF u q in_bytes [OF n t(2)]] by simp
      then show ?thesis using pieces_index_inj [OF p(1)] q n s(2) by (auto intro: slice_nats_inj)
    qed
    ultimately show "\<exists>!s. s \<in> set out \<and> b \<in> slice_bytes u s" using s(1) by blast
  qed
qed

section \<open>The whole function\<close>

lemma pieces_length: "0 < u \<Longrightarrow> 0 < len \<Longrightarrow> length (pieces u off len) = Suc ((off + len - 1) div u) - off div u"
  using div_le_mono [of off "off + len - 1" u] by (simp add: pieces_def Suc_diff_le)

lemma pieces_length_le:
  assumes "0 < u" "0 < len"
  shows "length (pieces u off len) \<le> (len - 1) div u + 2"
proof -
  have "off + len - 1 = off + (len - 1)" using assms by simp
  then have "(off + len - 1) div u = off div u + (len - 1) div u + (off mod u + (len - 1) mod u) div u" by (metis div_add1_eq)
  moreover have "(off mod u + (len - 1) mod u) div u < 2" using assms(1) by (intro less_mult_imp_div_less) (simp add: add_less_le_mono mult_2)
  ultimately show ?thesis using assms by (simp add: pieces_length)
qed

definition slices_args_ok :: "u64 \<Rightarrow> u64 \<Rightarrow> u32 \<Rightarrow> u32 \<Rightarrow> bool" where
  "slices_args_ok off len unit mx \<longleftrightarrow> unit \<noteq> 0 \<and> mx \<noteq> 0 \<and> len \<noteq> 0 \<and> len \<noteq> UINT64_MAX \<and> unat off div unat unit < 2 ^ 32"

lemma slices_refused: "\<not> slices_args_ok off len unit mx \<Longrightarrow> lease_range_to_stripe_slices off len unit mx = (- EINVAL, [])"
  by (auto simp: slices_args_ok_def lease_range_to_stripe_slices_def word_less_nat_alt unat_div unat_ucast_u32)

lemma slices_run:
  assumes a: "slices_args_ok off len unit mx"
  shows "\<exists>ss. lease_range_to_stripe_slices off len unit mx =
      (let N = length (pieces (unat unit) (unat off) (unat len)); M = 2 ^ 32 - unat off div unat unit
       in if N \<le> unat mx \<and> N \<le> M then sint (of_nat N :: u32) else if M \<le> unat mx then - EINVAL else - ENOSPC, ss) \<and>
    map slice_nats ss = take (min (unat mx) (2 ^ 32 - unat off div unat unit)) (pieces (unat unit) (unat off) (unat len))"
proof -
  let ?q = "off div ucast unit" and ?m = "off mod ucast unit"
  have q: "unat ?q = unat off div unat unit" "unat ?m = unat off mod unat unit" by (simp_all add: unat_div unat_mod unat_ucast_u32)
  have ok: "unit \<noteq> 0" "mx \<noteq> 0" "len \<noteq> 0" "len \<noteq> UINT64_MAX" "unat off div unat unit < 2 ^ 32" using a by (auto simp: slices_args_ok_def)
  have i: "unat (ucast ?q :: u32) = unat off div unat unit" using ok(5) q by (simp add: unsigned_ucast_eq take_bit_nat_eq_self)
  have e: "unat off div unat unit * unat unit + unat ?m = unat off" by (simp only: q div_mult_mod_eq)
  have p: "unat ?m < unat unit" "0 < unat len" using ok q by (simp_all add: unat_gt_0)
  have "lease_range_to_stripe_slices off len unit mx = slice_loop unit mx 0 (ucast ?q) ?m len []"
    using ok by (simp add: lease_range_to_stripe_slices_def word_less_nat_alt q)
  then show ?thesis using slice_loop_spec [OF p, of mx 0 "ucast ?q" "[]"] unfolding i e by (simp only: Let_def append_Nil add_0 diff_0_right)
qed

end
