(* ===== verification/Lease_Table.thy ===== *)
theory Lease_Table
  imports Lease_Slices
begin

text \<open>
  The stripe lease table, \<^verbatim>\<open>src/fsal_obj/lease_table.c\<close>: sixteen shards, each a chain of leases under its own mutex.
  Entries are reached through their shard only, so a chain is the list of its entries and the table the list of its
  chains. The monotonic clock of \<^verbatim>\<open>now_ns\<close> is the argument \<open>now\<close> and the outcome of \<^verbatim>\<open>calloc\<close> the argument \<open>oom\<close>.
  The table exists, so the null checks have no counterpart.
\<close>

section \<open>The code\<close>

record slt_entry =
  le_fileid :: u64
  le_clientid :: u64
  le_ds_offset :: u64
  le_ds_length :: u64
  le_expiry_ns :: u64
  le_stripe_index :: u32
  le_ds_id :: u32

type_synonym lease_table = "slt_entry list list"

abbreviation SLT_SHARD_COUNT :: nat where "SLT_SHARD_COUNT \<equiv> 16"
abbreviation SLT_SHARD_MASK :: u64 where "SLT_SHARD_MASK \<equiv> 15"

definition shard_index :: "u64 \<Rightarrow> u32 \<Rightarrow> u32" where
  "shard_index fileid stripe_index =
     (let mix = fileid XOR (ucast stripe_index * 0x9e3779b97f4a7c15)
      in ucast ((mix XOR drop_bit 16 mix) AND SLT_SHARD_MASK))"

definition slt_ranges_overlap :: "u64 \<Rightarrow> u64 \<Rightarrow> u64 \<Rightarrow> u64 \<Rightarrow> bool" where
  "slt_ranges_overlap a_off a_len b_off b_len =
     (let a_end = (if a_off + a_len < a_off then UINT64_MAX else a_off + a_len);
          b_end = (if b_off + b_len < b_off then UINT64_MAX else b_off + b_len)
      in a_off < b_end \<and> b_off < a_end)"

fun shard_evict_expired :: "u64 \<Rightarrow> slt_entry list \<Rightarrow> slt_entry list \<times> u32" where
  "shard_evict_expired now [] = ([], 0)"
| "shard_evict_expired now (e # es) =
     (let (es', n) = shard_evict_expired now es in if le_expiry_ns e \<le> now then (es', n + 1) else (e # es', n))"

definition stripe_lease_table_init :: "bool \<Rightarrow> lease_table option" where
  "stripe_lease_table_init oom = (if oom then None else Some (replicate SLT_SHARD_COUNT []))"

fun conflict_scan :: "u64 \<Rightarrow> u64 \<Rightarrow> u32 \<Rightarrow> u64 \<Rightarrow> u64 \<Rightarrow> slt_entry list \<Rightarrow> bool" where
  "conflict_scan fileid clientid stripe_index ds_offset ds_length [] = False"
| "conflict_scan fileid clientid stripe_index ds_offset ds_length (e # es) =
     (if le_fileid e \<noteq> fileid then conflict_scan fileid clientid stripe_index ds_offset ds_length es
      else if le_stripe_index e \<noteq> stripe_index then conflict_scan fileid clientid stripe_index ds_offset ds_length es
      else if le_clientid e = clientid then conflict_scan fileid clientid stripe_index ds_offset ds_length es
      else if slt_ranges_overlap (le_ds_offset e) (le_ds_length e) ds_offset ds_length then True
      else conflict_scan fileid clientid stripe_index ds_offset ds_length es)"

definition stripe_lease_check_conflict :: "u64 \<Rightarrow> lease_table \<Rightarrow> u64 \<Rightarrow> u64 \<Rightarrow> u32 \<Rightarrow> u64 \<Rightarrow> u64 \<Rightarrow> lease_table \<times> bool" where
  "stripe_lease_check_conflict now t fileid clientid stripe_index ds_offset ds_length =
     (if ds_length = 0 then (t, False)
      else
        (let idx = unat (shard_index fileid stripe_index); ch = fst (shard_evict_expired now (t ! idx))
         in (t[idx := ch], conflict_scan fileid clientid stripe_index ds_offset ds_length ch)))"

definition same_lease :: "u64 \<Rightarrow> u64 \<Rightarrow> u32 \<Rightarrow> u64 \<Rightarrow> slt_entry \<Rightarrow> bool" where
  "same_lease fileid clientid stripe_index ds_offset e \<longleftrightarrow>
     le_fileid e = fileid \<and> le_clientid e = clientid \<and> le_stripe_index e = stripe_index \<and> le_ds_offset e = ds_offset"

fun lease_refresh :: "(slt_entry \<Rightarrow> bool) \<Rightarrow> u64 \<Rightarrow> u32 \<Rightarrow> u64 \<Rightarrow> slt_entry list \<Rightarrow> slt_entry list option" where
  "lease_refresh same ds_length ds_id expiry [] = None"
| "lease_refresh same ds_length ds_id expiry (e # es) =
     (if same e then Some (e\<lparr>le_ds_length := ds_length, le_ds_id := ds_id, le_expiry_ns := expiry\<rparr> # es)
      else map_option ((#) e) (lease_refresh same ds_length ds_id expiry es))"

definition stripe_lease_acquire :: "bool \<Rightarrow> u64 \<Rightarrow> lease_table \<Rightarrow> u64 \<Rightarrow> u64 \<Rightarrow> u32 \<Rightarrow> u32 \<Rightarrow> u64 \<Rightarrow> u64 \<Rightarrow> u32 \<Rightarrow> lease_table \<times> int" where
  "stripe_lease_acquire oom now t fileid clientid ds_id stripe_index ds_offset ds_length duration_ms =
     (if duration_ms = 0 \<or> ds_length = 0 then (t, -1)
      else
        (let idx = unat (shard_index fileid stripe_index);
             expiry = now + ucast duration_ms * 1000000;
             ch = fst (shard_evict_expired now (t ! idx))
         in case lease_refresh (same_lease fileid clientid stripe_index ds_offset) ds_length ds_id expiry ch of
              Some ch' \<Rightarrow> (t[idx := ch'], 0)
            | None \<Rightarrow>
                if oom then (t[idx := ch], -1)
                else (t[idx := \<lparr>le_fileid = fileid, le_clientid = clientid, le_ds_offset = ds_offset, le_ds_length = ds_length,
                                le_expiry_ns = expiry, le_stripe_index = stripe_index, le_ds_id = ds_id\<rparr> # ch], 0)))"

fun release_first :: "(slt_entry \<Rightarrow> bool) \<Rightarrow> slt_entry list \<Rightarrow> slt_entry list" where
  "release_first same [] = []"
| "release_first same (e # es) = (if same e then es else e # release_first same es)"

definition stripe_lease_release :: "lease_table \<Rightarrow> u64 \<Rightarrow> u64 \<Rightarrow> u32 \<Rightarrow> u64 \<Rightarrow> lease_table" where
  "stripe_lease_release t fileid clientid stripe_index ds_offset =
     (let idx = unat (shard_index fileid stripe_index)
      in t[idx := release_first (same_lease fileid clientid stripe_index ds_offset) (t ! idx)])"

fun release_chain :: "u64 \<Rightarrow> u64 \<Rightarrow> slt_entry list \<Rightarrow> slt_entry list" where
  "release_chain fileid clientid [] = []"
| "release_chain fileid clientid (e # es) =
     (if le_fileid e = fileid \<and> le_clientid e = clientid then release_chain fileid clientid es
      else e # release_chain fileid clientid es)"

definition stripe_lease_release_all_for :: "lease_table \<Rightarrow> u64 \<Rightarrow> u64 \<Rightarrow> lease_table" where
  "stripe_lease_release_all_for t fileid clientid = map (release_chain fileid clientid) t"

text \<open>
  The walk over the slices of a range. Each check reads the clock again: \<open>clk n\<close> is the \<open>n\<close>-th reading, and the
  count of the readings is handed on.
\<close>

fun prefix_walk :: "(nat \<Rightarrow> u64) \<Rightarrow> u32 \<Rightarrow> u64 \<Rightarrow> u64 \<Rightarrow> u64 \<Rightarrow> u64 \<Rightarrow> stripe_slice list \<Rightarrow> nat \<Rightarrow> lease_table \<Rightarrow> lease_table \<times> nat \<times> u64" where
  "prefix_walk clk unit lease_offset lease_length fileid clientid [] n t = (t, n, lease_length)"
| "prefix_walk clk unit lease_offset lease_length fileid clientid (sl # sls) n t =
     (let (t', hit) = stripe_lease_check_conflict (clk n) t fileid clientid (sl_stripe_index sl) (sl_ds_offset sl) (sl_ds_length sl)
      in if hit then
           (let start = ucast (sl_stripe_index sl) * ucast unit + sl_ds_offset sl
            in (t', Suc n, if start \<le> lease_offset then 0 else start - lease_offset))
         else prefix_walk clk unit lease_offset lease_length fileid clientid sls (Suc n) t')"

definition stripe_lease_prefix_conflict_free_length ::
    "(nat \<Rightarrow> u64) \<Rightarrow> nat \<Rightarrow> lease_table \<Rightarrow> stripe_slice list \<Rightarrow> u32 \<Rightarrow> u64 \<Rightarrow> u64 \<Rightarrow> u64 \<Rightarrow> u64 \<Rightarrow> lease_table \<times> nat \<times> u64" where
  "stripe_lease_prefix_conflict_free_length clk n t slices unit lease_offset lease_length fileid clientid =
     (if slices = [] \<or> unit = 0 \<or> lease_length = 0 then (t, n, lease_length)
      else prefix_walk clk unit lease_offset lease_length fileid clientid slices n t)"

section \<open>Well-formed tables\<close>

definition le_key :: "slt_entry \<Rightarrow> u64 \<times> u64 \<times> u32 \<times> u64" where
  "le_key e = (le_fileid e, le_clientid e, le_stripe_index e, le_ds_offset e)"

definition shard_of :: "slt_entry \<Rightarrow> nat" where
  "shard_of e = unat (shard_index (le_fileid e) (le_stripe_index e))"

definition lt_wf :: "lease_table \<Rightarrow> bool" where
  "lt_wf t \<longleftrightarrow> length t = SLT_SHARD_COUNT \<and>
     (\<forall>i < SLT_SHARD_COUNT. distinct (map le_key (t ! i)) \<and> (\<forall>e \<in> set (t ! i). shard_of e = i \<and> le_ds_length e \<noteq> 0))"

definition leases :: "lease_table \<Rightarrow> slt_entry set" where
  "leases t = set (concat t)"

lemma shard_index_less: "unat (shard_index f s) < SLT_SHARD_COUNT"
proof -
  have "unat ((x :: u64) AND 15) < 16" for x
  proof -
    have "(x AND 15) = take_bit 4 x" by (simp add: take_bit_eq_mask mask_numeral)
    then show ?thesis by (simp add: take_bit_eq_mod unat_mod)
  qed
  note l = this
  show ?thesis unfolding shard_index_def Let_def
    using l by (simp add: unsigned_ucast_eq take_bit_eq_mod) (meson l order_le_less_trans mod_less_eq_dividend)
qed

lemma shard_of_less [simp]: "shard_of e < SLT_SHARD_COUNT"
  by (simp only: shard_of_def shard_index_less)

lemma lt_wf_init: "stripe_lease_table_init oom = Some t \<Longrightarrow> lt_wf t \<and> leases t = {}"
  by (auto simp: stripe_lease_table_init_def lt_wf_def leases_def split: if_splits)

lemma lt_wf_chain:
  assumes "lt_wf t" "i < SLT_SHARD_COUNT"
  shows "distinct (map le_key (t ! i))" "e \<in> set (t ! i) \<Longrightarrow> shard_of e = i" "e \<in> set (t ! i) \<Longrightarrow> le_ds_length e \<noteq> 0"
  using assms by (simp_all add: lt_wf_def)

lemma leases_iff:
  assumes "lt_wf t"
  shows "e \<in> leases t \<longleftrightarrow> e \<in> set (t ! shard_of e)"
proof
  assume "e \<in> leases t"
  then obtain ch where "ch \<in> set t" "e \<in> set ch" by (auto simp: leases_def)
  then obtain j where "j < length t" "e \<in> set (t ! j)" by (metis in_set_conv_nth)
  moreover have "length t = SLT_SHARD_COUNT" using assms by (simp add: lt_wf_def)
  ultimately show "e \<in> set (t ! shard_of e)" using lt_wf_chain(2) [OF assms, of j e] by simp
next
  assume e: "e \<in> set (t ! shard_of e)"
  have "t ! shard_of e \<in> set t" using assms by (simp add: lt_wf_def)
  then show "e \<in> leases t" using e by (auto simp: leases_def)
qed

lemma lt_wf_shard:
  assumes "lt_wf t" "i < SLT_SHARD_COUNT"
  shows "set (t ! i) = {e \<in> leases t. shard_of e = i}"
  using lt_wf_chain(2) [OF assms] by (auto simp: leases_iff [OF assms(1)])

lemma lt_wf_update:
  assumes "lt_wf t" "i < SLT_SHARD_COUNT" "distinct (map le_key ch)" "\<And>e. e \<in> set ch \<Longrightarrow> shard_of e = i \<and> le_ds_length e \<noteq> 0"
  shows "lt_wf (t[i := ch])" "leases (t[i := ch]) = {e \<in> leases t. shard_of e \<noteq> i} \<union> set ch"
proof -
  show wf: "lt_wf (t[i := ch])" using assms by (simp add: lt_wf_def nth_list_update)
  have len: "length t = SLT_SHARD_COUNT" using assms(1) by (simp add: lt_wf_def)
  show "leases (t[i := ch]) = {e \<in> leases t. shard_of e \<noteq> i} \<union> set ch"
  proof (rule set_eqI)
    fix e
    show "e \<in> leases (t[i := ch]) \<longleftrightarrow> e \<in> {e \<in> leases t. shard_of e \<noteq> i} \<union> set ch"
      using assms(2) assms(4) [of e] len by (cases "shard_of e = i") (auto simp: leases_iff [OF wf] leases_iff [OF assms(1)])
  qed
qed

lemma lt_wf_length: "lt_wf t \<Longrightarrow> e \<in> leases t \<Longrightarrow> le_ds_length e \<noteq> 0"
  using lt_wf_chain(3) [of t "shard_of e" e] by (simp add: leases_iff)

lemma lt_wf_unique:
  assumes "lt_wf t" "e \<in> leases t" "e' \<in> leases t" "le_key e = le_key e'"
  shows "e = e'"
proof -
  have "shard_of e' = shard_of e" using assms(4) by (simp add: shard_of_def le_key_def)
  then have "e \<in> set (t ! shard_of e)" "e' \<in> set (t ! shard_of e)" using assms leases_iff [OF assms(1)] by auto
  then show ?thesis using lt_wf_chain(1) [OF assms(1), of "shard_of e"] assms(4) by (auto simp: distinct_map dest: inj_onD)
qed

section \<open>What the operations do to the set of leases\<close>

lemma evict_filter: "fst (shard_evict_expired now ch) = filter (\<lambda>e. now < le_expiry_ns e) ch"
  by (induction ch) (auto simp: split_beta not_le)

lemma same_lease_key: "same_lease f c s d e \<longleftrightarrow> le_key e = (f, c, s, d)"
  by (auto simp: same_lease_def le_key_def)

lemma release_first_filter: "distinct (map le_key ch) \<Longrightarrow> release_first (same_lease f c s d) ch = filter (\<lambda>e. le_key e \<noteq> (f, c, s, d)) ch"
  by (induction ch) (auto simp: same_lease_key image_iff intro!: filter_True [symmetric])

lemma release_chain_filter: "release_chain f c ch = filter (\<lambda>e. \<not> (le_fileid e = f \<and> le_clientid e = c)) ch"
  by (induction ch) auto

lemma distinct_key_filter: "distinct (map le_key ch) \<Longrightarrow> distinct (map le_key (filter P ch))"
  by (rule distinct_map_filter)

lemma conflict_scan_iff:
  "conflict_scan f c s d l ch \<longleftrightarrow>
     (\<exists>e \<in> set ch. le_fileid e = f \<and> le_stripe_index e = s \<and> le_clientid e \<noteq> c \<and> slt_ranges_overlap (le_ds_offset e) (le_ds_length e) d l)"
  by (induction ch) auto

lemma lease_refresh_None: "lease_refresh P l i x ch = None \<longleftrightarrow> (\<forall>e \<in> set ch. \<not> P e)"
  by (induction ch) auto

lemma lease_refresh_Some:
  assumes "lease_refresh (same_lease f c s d) l i x ch = Some ch'" "distinct (map le_key ch)"
    and n: "n = \<lparr>le_fileid = f, le_clientid = c, le_ds_offset = d, le_ds_length = l, le_expiry_ns = x, le_stripe_index = s, le_ds_id = i\<rparr>"
  shows "map le_key ch' = map le_key ch" "set ch' = insert n {e \<in> set ch. le_key e \<noteq> (f, c, s, d)}"
proof -
  have "map le_key ch' = map le_key ch \<and> set ch' = insert n {e \<in> set ch. le_key e \<noteq> (f, c, s, d)}"
    using assms(1,2)
  proof (induction ch arbitrary: ch')
    case (Cons e es)
    show ?case
    proof (cases "same_lease f c s d e")
      case True
      then have k: "le_key e = (f, c, s, d)" "le_key n = (f, c, s, d)" by (simp_all only: same_lease_key) (simp add: n le_key_def)
      have "e\<lparr>le_ds_length := l, le_ds_id := i, le_expiry_ns := x\<rparr> = n" using True by (cases e) (simp add: same_lease_def n)
      then have ch': "ch' = n # es" using Cons.prems(1) True by simp
      have "{e' \<in> set (e # es). le_key e' \<noteq> (f, c, s, d)} = set es" using Cons.prems(2) k(1) by (auto simp: image_iff)
      then show ?thesis using ch' k by simp
    next
      case False
      then obtain ch1 where c: "lease_refresh (same_lease f c s d) l i x es = Some ch1" "ch' = e # ch1" using Cons.prems(1) by auto
      have "map le_key ch1 = map le_key es" "set ch1 = insert n {e \<in> set es. le_key e \<noteq> (f, c, s, d)}" using Cons.IH [OF c(1)] Cons.prems(2) by auto
      then show ?thesis using False c(2) by (auto simp only: same_lease_key list.map list.set)
    qed
  qed simp
  then show "map le_key ch' = map le_key ch" "set ch' = insert n {e \<in> set ch. le_key e \<noteq> (f, c, s, d)}" by simp_all
qed

end
