(* ===== verification/Lease_Spec.thy ===== *)
theory Lease_Spec
  imports Lease_Table
begin

text \<open>
  What the stripe lease table promises: a finite map from file, client, stripe and offset to a length and an expiry time, read
  through the clock. Nothing is ever evicted in the specification; a lease that has run out is just not seen.
\<close>

section \<open>Live leases\<close>

definition live :: "u64 \<Rightarrow> lease_table \<Rightarrow> slt_entry set" where
  "live now t = {e \<in> leases t. now < le_expiry_ns e}"

text \<open>The bytes of a stripe that a lease covers. An end beyond the address space is cut to the largest offset.\<close>

definition lease_bytes :: "u64 \<Rightarrow> u64 \<Rightarrow> nat set" where
  "lease_bytes off len = {unat off ..< min (unat off + unat len) (2 ^ 64 - 1)}"

lemma lease_end: "unat (if off + len < off then UINT64_MAX else off + len) = min (unat off + unat len) (2 ^ 64 - 1)" for off len :: u64
proof -
  have b: "unat off < 2 ^ LENGTH(64)" "unat len < 2 ^ LENGTH(64)" by (rule unsigned_less)+
  show ?thesis
  proof (cases "unat off + unat len < 2 ^ LENGTH(64)")
    case True
    then have "unat (off + len) = unat off + unat len" by (rule unat_add_lem [THEN iffD1])
    then show ?thesis using True by (simp add: word_less_nat_alt)
  next
    case False
    then have "unat (off + len) = unat off + unat len - 2 ^ LENGTH(64)" by (subst unat_plus_if') simp
    then have "unat (off + len) < unat off" using b False by linarith
    then show ?thesis using False by (simp add: word_less_nat_alt unsigned_minus_1_eq_mask mask_eq_exp_minus_1)
  qed
qed

lemma overlap_iff:
  assumes "l1 \<noteq> 0" "l2 \<noteq> 0"
  shows "slt_ranges_overlap o1 l1 o2 l2 \<longleftrightarrow> lease_bytes o1 l1 \<inter> lease_bytes o2 l2 \<noteq> {}"
proof -
  let ?e1 = "min (unat o1 + unat l1) (2 ^ 64 - 1)" and ?e2 = "min (unat o2 + unat l2) (2 ^ 64 - 1)"
  have l: "0 < unat l1" "0 < unat l2" using assms by (simp_all add: unat_gt_0)
  have "slt_ranges_overlap o1 l1 o2 l2 \<longleftrightarrow> unat o1 < ?e2 \<and> unat o2 < ?e1"
    unfolding slt_ranges_overlap_def Let_def word_less_nat_alt [of o1 "if _ then _ else _"] word_less_nat_alt [of o2 "if _ then _ else _"] lease_end ..
  also have "\<dots> \<longleftrightarrow> max (unat o1) (unat o2) < min ?e1 ?e2" using l by auto
  also have "\<dots> \<longleftrightarrow> lease_bytes o1 l1 \<inter> lease_bytes o2 l2 \<noteq> {}" by (auto simp: lease_bytes_def)
  finally show ?thesis .
qed

section \<open>The operations on live leases\<close>

lemma evict_live:
  assumes wf: "lt_wf t" and i: "i < SLT_SHARD_COUNT"
    and t': "t' = t[i := fst (shard_evict_expired now (t ! i))]"
  shows "lt_wf t'" "leases t' = {e \<in> leases t. shard_of e = i \<longrightarrow> now < le_expiry_ns e}" "now \<le> T \<Longrightarrow> live T t' = live T t"
proof -
  let ?ch = "filter (\<lambda>e. now < le_expiry_ns e) (t ! i)"
  have ch: "e \<in> set ?ch \<Longrightarrow> shard_of e = i \<and> le_ds_length e \<noteq> 0" for e using lt_wf_chain [OF wf i] by auto
  note u = lt_wf_update [OF wf i distinct_key_filter [OF lt_wf_chain(1) [OF wf i]] ch]
  show "lt_wf t'" unfolding t' evict_filter by (rule u(1)) simp
  show l: "leases t' = {e \<in> leases t. shard_of e = i \<longrightarrow> now < le_expiry_ns e}"
    unfolding t' evict_filter using u(2) lt_wf_shard [OF wf i] by auto
  show "live T t' = live T t" if "now \<le> T" using that by (auto simp: live_def l)
qed

lemma check_conflict_live:
  assumes wf: "lt_wf t" and r: "stripe_lease_check_conflict now t f c s d l = (t', hit)"
  shows "lt_wf t'" "now \<le> T \<Longrightarrow> live T t' = live T t" "leases t' \<subseteq> leases t"
    "hit \<longleftrightarrow> (\<exists>e \<in> live now t. le_fileid e = f \<and> le_stripe_index e = s \<and> le_clientid e \<noteq> c \<and>
       l \<noteq> 0 \<and> lease_bytes (le_ds_offset e) (le_ds_length e) \<inter> lease_bytes d l \<noteq> {})"
proof -
  let ?i = "unat (shard_index f s)"
  note ev = evict_live [OF wf shard_index_less [of f s] refl, of now]
  have "lt_wf t' \<and> (now \<le> T \<longrightarrow> live T t' = live T t) \<and> leases t' \<subseteq> leases t"
    using r wf ev(1,2) ev(3) [of T] by (auto simp: stripe_lease_check_conflict_def Let_def split: if_splits)
  then show "lt_wf t'" "now \<le> T \<Longrightarrow> live T t' = live T t" "leases t' \<subseteq> leases t" by auto
  show "hit \<longleftrightarrow> (\<exists>e \<in> live now t. le_fileid e = f \<and> le_stripe_index e = s \<and> le_clientid e \<noteq> c \<and>
       l \<noteq> 0 \<and> lease_bytes (le_ds_offset e) (le_ds_length e) \<inter> lease_bytes d l \<noteq> {})"
  proof (cases "l = 0")
    case False
    have "hit \<longleftrightarrow> (\<exists>e \<in> set (t ! ?i). now < le_expiry_ns e \<and> le_fileid e = f \<and> le_stripe_index e = s \<and> le_clientid e \<noteq> c \<and>
        slt_ranges_overlap (le_ds_offset e) (le_ds_length e) d l)"
      using r False by (auto simp: stripe_lease_check_conflict_def Let_def evict_filter conflict_scan_iff)
    also have "\<dots> \<longleftrightarrow> (\<exists>e \<in> live now t. le_fileid e = f \<and> le_stripe_index e = s \<and> le_clientid e \<noteq> c \<and>
        slt_ranges_overlap (le_ds_offset e) (le_ds_length e) d l)"
      unfolding lt_wf_shard [OF wf shard_index_less] by (auto simp: live_def shard_of_def)
    also have "\<dots> \<longleftrightarrow> (\<exists>e \<in> live now t. le_fileid e = f \<and> le_stripe_index e = s \<and> le_clientid e \<noteq> c \<and>
       l \<noteq> 0 \<and> lease_bytes (le_ds_offset e) (le_ds_length e) \<inter> lease_bytes d l \<noteq> {})"
      using overlap_iff [OF lt_wf_length [OF wf] False] False by (auto simp: live_def)
    finally show ?thesis .
  qed (use r in \<open>auto simp: stripe_lease_check_conflict_def\<close>)
qed

lemma put_live:
  assumes wf: "lt_wf t" and n: "shard_of n = i" "le_ds_length n \<noteq> 0" and i: "i < SLT_SHARD_COUNT"
    and ch: "distinct (map le_key ch)" "set ch = insert n {e \<in> set (t ! i). le_key e \<noteq> le_key n}"
  shows "lt_wf (t[i := ch])" "live T (t[i := ch]) = {e \<in> insert n {e \<in> live T t. le_key e \<noteq> le_key n}. T < le_expiry_ns e}"
proof -
  have el: "e \<in> set ch \<Longrightarrow> shard_of e = i \<and> le_ds_length e \<noteq> 0" for e using lt_wf_chain [OF wf i] n by (auto simp: ch(2))
  note u = lt_wf_update [OF wf i ch(1) el]
  show "lt_wf (t[i := ch])" by (rule u(1)) simp
  have k: "shard_of e = i" if "le_key e = le_key n" for e using that n(1) by (simp add: shard_of_def le_key_def)
  have "leases (t[i := ch]) = insert n {e \<in> leases t. le_key e \<noteq> le_key n}" using u(2) k by (auto simp: ch(2) lt_wf_shard [OF wf i])
  then show "live T (t[i := ch]) = {e \<in> insert n {e \<in> live T t. le_key e \<noteq> le_key n}. T < le_expiry_ns e}" by (auto simp: live_def)
qed

lemma acquire_live:
  assumes wf: "lt_wf t" and ok: "dur \<noteq> 0" "l \<noteq> 0"
    and r: "stripe_lease_acquire oom now t f c i s d l dur = (t', rc)"
    and n: "n = \<lparr>le_fileid = f, le_clientid = c, le_ds_offset = d, le_ds_length = l, le_expiry_ns = now + ucast dur * 1000000,
      le_stripe_index = s, le_ds_id = i\<rparr>"
  shows "lt_wf t' \<and>
    (if oom \<and> (\<forall>e \<in> live now t. le_key e \<noteq> (f, c, s, d)) then rc = -1 \<and> (\<forall>T \<ge> now. live T t' = live T t)
     else rc = 0 \<and> (\<forall>T \<ge> now. live T t' = {e \<in> insert n {e \<in> live T t. le_key e \<noteq> (f, c, s, d)}. T < le_expiry_ns e}))"
proof -
  let ?i = "unat (shard_index f s)" and ?k = "(f, c, s, d)"
  define ch where "ch = fst (shard_evict_expired now (t ! ?i))"
  define t1 where "t1 = t[?i := ch]"
  note ev = evict_live [OF wf shard_index_less t1_def [unfolded ch_def]]
  have t1i: "t1 ! ?i = ch" using wf shard_index_less [of f s] by (simp add: t1_def lt_wf_def)
  have nk: "le_key n = ?k" "shard_of n = ?i" "le_ds_length n \<noteq> 0" using ok(2) by (simp_all add: n le_key_def shard_of_def)
  have dist: "distinct (map le_key ch)" using lt_wf_chain(1) [OF ev(1) shard_index_less, of f s] t1i by simp
  have chs: "set ch = {e \<in> leases t1. shard_of e = ?i}" using lt_wf_shard [OF ev(1) shard_index_less, of f s] t1i by simp
  have ki: "shard_of e = ?i" if "le_key e = ?k" for e using that by (simp add: shard_of_def le_key_def)
  have none: "(\<forall>e \<in> set ch. \<not> same_lease f c s d e) \<longleftrightarrow> (\<forall>e \<in> live now t. le_key e \<noteq> ?k)"
    using ki by (auto simp: chs ev(2) live_def same_lease_key)
  have new: "lt_wf (t1[?i := ch']) \<and> (\<forall>T \<ge> now. live T (t1[?i := ch']) = {e \<in> insert n {e \<in> live T t. le_key e \<noteq> ?k}. T < le_expiry_ns e})"
    if "distinct (map le_key ch')" "set ch' = insert n {e \<in> set ch. le_key e \<noteq> ?k}" for ch'
    using put_live [OF ev(1) nk(2,3) shard_index_less that(1)] that(2) ev(3) by (simp add: nk(1) t1i)
  have go: "(t', rc) = (case lease_refresh (same_lease f c s d) l i (now + ucast dur * 1000000) ch of Some ch' \<Rightarrow> (t1[?i := ch'], 0)
      | None \<Rightarrow> if oom then (t1, -1) else (t1[?i := n # ch], 0))"
    unfolding r [symmetric] stripe_lease_acquire_def Let_def t1_def n ch_def using ok by (simp split: option.splits)
  show ?thesis
  proof (cases "lease_refresh (same_lease f c s d) l i (now + ucast dur * 1000000) ch")
    case None
    then have no: "\<forall>e \<in> live now t. le_key e \<noteq> ?k" "\<forall>e \<in> set ch. le_key e \<noteq> ?k" using none by (auto simp: lease_refresh_None same_lease_key)
    then have "distinct (map le_key (n # ch))" "set (n # ch) = insert n {e \<in> set ch. le_key e \<noteq> ?k}" using dist nk by (auto simp: image_iff)
    then show ?thesis using go None no(1) new [of "n # ch"] ev(1,3) by (simp split: if_splits)
  next
    case (Some ch')
    then have "\<not> (\<forall>e \<in> live now t. le_key e \<noteq> ?k)" using none lease_refresh_None [of "same_lease f c s d" l i "now + ucast dur * 1000000" ch] by simp
    moreover have "distinct (map le_key ch')" "set ch' = insert n {e \<in> set ch. le_key e \<noteq> ?k}" using lease_refresh_Some [OF Some dist n] dist by simp_all
    ultimately show ?thesis using go Some new [of ch'] by simp
  qed
qed

lemma release_live:
  assumes wf: "lt_wf t"
  shows "lt_wf (stripe_lease_release t f c s d)" "live T (stripe_lease_release t f c s d) = {e \<in> live T t. le_key e \<noteq> (f, c, s, d)}"
proof -
  let ?i = "unat (shard_index f s)"
  let ?ch = "filter (\<lambda>e. le_key e \<noteq> (f, c, s, d)) (t ! ?i)"
  note cw = lt_wf_chain [OF wf shard_index_less [of f s]]
  have el: "e \<in> set ?ch \<Longrightarrow> shard_of e = ?i \<and> le_ds_length e \<noteq> 0" for e using cw by auto
  note u = lt_wf_update [OF wf shard_index_less distinct_key_filter [OF cw(1)] el]
  have t': "stripe_lease_release t f c s d = t[?i := ?ch]" using cw(1) by (simp add: stripe_lease_release_def Let_def release_first_filter)
  show "lt_wf (stripe_lease_release t f c s d)" unfolding t' by (rule u(1)) simp
  have "shard_of e = ?i" if "le_key e = (f, c, s, d)" for e using that by (simp add: shard_of_def le_key_def)
  then show "live T (stripe_lease_release t f c s d) = {e \<in> live T t. le_key e \<noteq> (f, c, s, d)}"
    unfolding t' live_def using u(2) lt_wf_shard [OF wf shard_index_less] by auto
qed

lemma release_all_live:
  assumes wf: "lt_wf t"
  shows "lt_wf (stripe_lease_release_all_for t f c)" "live T (stripe_lease_release_all_for t f c) = {e \<in> live T t. \<not> (le_fileid e = f \<and> le_clientid e = c)}"
proof -
  show "lt_wf (stripe_lease_release_all_for t f c)"
    using wf by (auto simp: lt_wf_def stripe_lease_release_all_for_def release_chain_filter intro: distinct_key_filter)
  have "leases (stripe_lease_release_all_for t f c) = {e \<in> leases t. \<not> (le_fileid e = f \<and> le_clientid e = c)}"
    by (auto simp: leases_def stripe_lease_release_all_for_def release_chain_filter)
  then show "live T (stripe_lease_release_all_for t f c) = {e \<in> live T t. \<not> (le_fileid e = f \<and> le_clientid e = c)}"
    by (auto simp: live_def)
qed

section \<open>The specification\<close>

type_synonym lease_key = "u64 \<times> u64 \<times> u32 \<times> u64"
type_synonym lease_map = "lease_key \<Rightarrow> (u64 \<times> u64) option"

datatype lease_op =
    L_check u64 u64 u64 u32 u64 u64
  | L_acquire bool u64 u64 u64 u32 u32 u64 u64 u32
  | L_release u64 u64 u32 u64
  | L_release_all u64 u64

datatype lease_res = R_bool bool | R_int int | R_void

fun lease_step :: "lease_op \<Rightarrow> lease_table \<Rightarrow> lease_table \<times> lease_res" where
  "lease_step (L_check now f c s d l) t = map_prod id R_bool (stripe_lease_check_conflict now t f c s d l)"
| "lease_step (L_acquire oom now f c i s d l dur) t = map_prod id R_int (stripe_lease_acquire oom now t f c i s d l dur)"
| "lease_step (L_release f c s d) t = (stripe_lease_release t f c s d, R_void)"
| "lease_step (L_release_all f c) t = (stripe_lease_release_all_for t f c, R_void)"

fun lease_run :: "lease_table \<Rightarrow> lease_op list \<Rightarrow> lease_res list" where
  "lease_run t [] = []"
| "lease_run t (op # ops) = (case lease_step op t of (t', r) \<Rightarrow> r # lease_run t' ops)"

definition lease_held :: "lease_map \<Rightarrow> u64 \<Rightarrow> u64 \<Rightarrow> u64 \<Rightarrow> u32 \<Rightarrow> nat set \<Rightarrow> bool" where
  "lease_held m now f c s B \<longleftrightarrow> (\<exists>c' d l x. m (f, c', s, d) = Some (l, x) \<and> now < x \<and> c' \<noteq> c \<and> lease_bytes d l \<inter> B \<noteq> {})"

fun lease_spec_step :: "lease_op \<Rightarrow> lease_map \<Rightarrow> lease_map \<times> lease_res" where
  "lease_spec_step (L_check now f c s d l) m = (m, R_bool (lease_held m now f c s (if l = 0 then {} else lease_bytes d l)))"
| "lease_spec_step (L_acquire oom now f c i s d l dur) m =
     (if dur = 0 \<or> l = 0 \<or> oom \<and> \<not> (\<exists>l' x. m (f, c, s, d) = Some (l', x) \<and> now < x) then (m, R_int (-1))
      else (m((f, c, s, d) \<mapsto> (l, now + ucast dur * 1000000)), R_int 0))"
| "lease_spec_step (L_release f c s d) m = (m((f, c, s, d) := None), R_void)"
| "lease_spec_step (L_release_all f c) m = ((\<lambda>(f', c', sd). if f' = f \<and> c' = c then None else m (f', c', sd)), R_void)"

fun lease_spec_run :: "lease_map \<Rightarrow> lease_op list \<Rightarrow> lease_res list" where
  "lease_spec_run m [] = []"
| "lease_spec_run m (op # ops) = (case lease_spec_step op m of (m', r) \<Rightarrow> r # lease_spec_run m' ops)"

text \<open>The clock does not run backwards from one call to the next.\<close>

fun op_time :: "u64 \<Rightarrow> lease_op \<Rightarrow> u64" where
  "op_time now (L_check T f c s d l) = T"
| "op_time now (L_acquire oom T f c i s d l dur) = T"
| "op_time now (L_release f c s d) = now"
| "op_time now (L_release_all f c) = now"

fun clock_ok :: "u64 \<Rightarrow> lease_op list \<Rightarrow> bool" where
  "clock_ok now [] = True"
| "clock_ok now (op # ops) \<longleftrightarrow> now \<le> op_time now op \<and> clock_ok (op_time now op) ops"

section \<open>Simulation\<close>

definition lease_rel :: "u64 \<Rightarrow> lease_table \<Rightarrow> lease_map \<Rightarrow> bool" where
  "lease_rel now t m \<longleftrightarrow> lt_wf t \<and>
     (\<forall>k l x. now < x \<longrightarrow> (m k = Some (l, x) \<longleftrightarrow> (\<exists>e \<in> live now t. le_key e = k \<and> le_ds_length e = l \<and> le_expiry_ns e = x)))"

lemma lease_relD: "lease_rel now t m \<Longrightarrow> now < x \<Longrightarrow>
    m k = Some (l, x) \<longleftrightarrow> (\<exists>e \<in> live now t. le_key e = k \<and> le_ds_length e = l \<and> le_expiry_ns e = x)"
  unfolding lease_rel_def by blast

lemma lease_rel_later:
  assumes "lease_rel now t m" "now \<le> T"
  shows "lease_rel T t m"
  unfolding lease_rel_def
proof (intro conjI allI impI)
  show "lt_wf t" using assms(1) by (simp add: lease_rel_def)
  fix k l x
  assume x: "T < x"
  then have "now < x" using assms(2) by simp
  then show "m k = Some (l, x) \<longleftrightarrow> (\<exists>e \<in> live T t. le_key e = k \<and> le_ds_length e = l \<and> le_expiry_ns e = x)"
    using x lease_relD [OF assms(1)] by (auto simp: live_def)
qed

lemma lease_rel_live: "lease_rel now t m \<Longrightarrow> lt_wf t' \<Longrightarrow> live now t' = live now t \<Longrightarrow> lease_rel now t' m"
  by (simp add: lease_rel_def)

lemma rel_held:
  assumes "lease_rel now t m"
  shows "lease_held m now f c s B \<longleftrightarrow> (\<exists>e \<in> live now t. le_fileid e = f \<and> le_stripe_index e = s \<and> le_clientid e \<noteq> c \<and>
    lease_bytes (le_ds_offset e) (le_ds_length e) \<inter> B \<noteq> {})"
proof
  assume "lease_held m now f c s B"
  then obtain c' d l x where h: "m (f, c', s, d) = Some (l, x)" "now < x" "c' \<noteq> c" "lease_bytes d l \<inter> B \<noteq> {}" unfolding lease_held_def by blast
  then obtain e where "e \<in> live now t" "le_key e = (f, c', s, d)" "le_ds_length e = l" using lease_relD [OF assms h(2)] by auto
  then show "\<exists>e \<in> live now t. le_fileid e = f \<and> le_stripe_index e = s \<and> le_clientid e \<noteq> c \<and>
    lease_bytes (le_ds_offset e) (le_ds_length e) \<inter> B \<noteq> {}" using h by (intro bexI [of _ e]) (auto simp: le_key_def)
next
  assume "\<exists>e \<in> live now t. le_fileid e = f \<and> le_stripe_index e = s \<and> le_clientid e \<noteq> c \<and>
    lease_bytes (le_ds_offset e) (le_ds_length e) \<inter> B \<noteq> {}"
  then obtain e where e: "e \<in> live now t" "le_fileid e = f" "le_stripe_index e = s" "le_clientid e \<noteq> c"
    "lease_bytes (le_ds_offset e) (le_ds_length e) \<inter> B \<noteq> {}" by auto
  have x: "now < le_expiry_ns e" using e(1) by (simp add: live_def)
  then have "m (le_key e) = Some (le_ds_length e, le_expiry_ns e)" using lease_relD [OF assms x] e(1) by auto
  then show "lease_held m now f c s B" unfolding lease_held_def using e x
    by (intro exI [of _ "le_clientid e"] exI [of _ "le_ds_offset e"] exI [of _ "le_ds_length e"] exI [of _ "le_expiry_ns e"]) (simp add: le_key_def)
qed

lemma rel_present:
  assumes "lease_rel now t m"
  shows "(\<exists>l x. m k = Some (l, x) \<and> now < x) \<longleftrightarrow> (\<exists>e \<in> live now t. le_key e = k)"
proof
  show "\<exists>e \<in> live now t. le_key e = k" if "\<exists>l x. m k = Some (l, x) \<and> now < x" using that lease_relD [OF assms, of _ k] by blast
  assume "\<exists>e \<in> live now t. le_key e = k"
  then obtain e where e: "e \<in> live now t" "le_key e = k" by blast
  then have x: "now < le_expiry_ns e" by (simp add: live_def)
  then have "m k = Some (le_ds_length e, le_expiry_ns e)" using lease_relD [OF assms x, of k] e by blast
  then show "\<exists>l x. m k = Some (l, x) \<and> now < x" using x by blast
qed

lemma rel_upd:
  assumes rel: "lease_rel now t m" and wf: "lt_wf t'"
    and l: "live now t' = {e \<in> insert n {e \<in> live now t. le_key e \<noteq> le_key n}. now < le_expiry_ns e}"
  shows "lease_rel now t' (m(le_key n \<mapsto> (le_ds_length n, le_expiry_ns n)))"
  unfolding lease_rel_def l using wf lease_relD [OF rel] by (auto simp: live_def split: if_splits)

lemma rel_drop:
  assumes rel: "lease_rel now t m" and wf: "lt_wf t'" and l: "live now t' = {e \<in> live now t. \<not> P (le_key e)}"
    and m': "\<And>k. m' k = (if P k then None else m k)"
  shows "lease_rel now t' m'"
  unfolding lease_rel_def l using wf lease_relD [OF rel] by (auto simp: m' split: if_splits)

lemma acquire_refines:
  assumes rel: "lease_rel now t m" and r: "stripe_lease_acquire oom now t f c i s d l dur = (t', rc)"
  shows "\<exists>m'. lease_spec_step (L_acquire oom now f c i s d l dur) m = (m', R_int rc) \<and> lease_rel now t' m'"
proof (cases "dur = 0 \<or> l = 0")
  case True
  then show ?thesis using assms by (auto simp: stripe_lease_acquire_def)
next
  case False
  have wf: "lt_wf t" using rel by (simp add: lease_rel_def)
  define n where "n = \<lparr>le_fileid = f, le_clientid = c, le_ds_offset = d, le_ds_length = l, le_expiry_ns = now + ucast dur * 1000000,
      le_stripe_index = s, le_ds_id = i\<rparr>"
  have nk: "le_key n = (f, c, s, d)" "le_ds_length n = l" "le_expiry_ns n = now + ucast dur * 1000000" by (simp_all add: n_def le_key_def)
  note a = acquire_live [OF wf _ _ r n_def] False
  show ?thesis
  proof (cases "oom \<and> (\<forall>e \<in> live now t. le_key e \<noteq> (f, c, s, d))")
    case True
    then have "rc = -1" "lt_wf t'" "live now t' = live now t" using a by auto
    then show ?thesis using True False rel rel_present [OF rel, of "(f, c, s, d)"] lease_rel_live by auto
  next
    case go: False
    then have "rc = 0" "lt_wf t'" "live now t' = {e \<in> insert n {e \<in> live now t. le_key e \<noteq> le_key n}. now < le_expiry_ns e}"
      using a by (auto simp: nk split: if_splits)
    then show ?thesis using go False rel_present [OF rel, of "(f, c, s, d)"] rel_upd [OF rel, of t' n] by (auto simp: nk)
  qed
qed

lemma lease_step_refines:
  assumes rel: "lease_rel now t m" and T: "now \<le> op_time now op" and r: "lease_step op t = (t', res)"
  shows "\<exists>m'. lease_spec_step op m = (m', res) \<and> lease_rel (op_time now op) t' m'"
proof (cases op)
  case (L_check T f c s d l)
  have rel': "lease_rel T t m" using lease_rel_later [OF rel] T L_check by simp
  then have wf: "lt_wf t" by (simp add: lease_rel_def)
  obtain hit where h: "stripe_lease_check_conflict T t f c s d l = (t', hit)" "res = R_bool hit" using r L_check by (auto simp: map_prod_def split: prod.splits)
  note cc = check_conflict_live [OF wf h(1)]
  have "lease_rel T t' m" using lease_rel_live [OF rel' cc(1)] cc(2) by simp
  moreover have "hit \<longleftrightarrow> lease_held m T f c s (if l = 0 then {} else lease_bytes d l)" unfolding rel_held [OF rel'] cc(4) by auto
  ultimately show ?thesis using L_check h(2) by simp
next
  case (L_acquire oom T f c i s d l dur)
  have rel': "lease_rel T t m" using lease_rel_later [OF rel] T L_acquire by simp
  obtain rc where h: "stripe_lease_acquire oom T t f c i s d l dur = (t', rc)" "res = R_int rc" using r L_acquire by (auto simp: map_prod_def split: prod.splits)
  show ?thesis using acquire_refines [OF rel' h(1)] L_acquire h(2) by simp
next
  case (L_release f c s d)
  have wf: "lt_wf t" using rel by (simp add: lease_rel_def)
  have "lease_rel now t' (m((f, c, s, d) := None))"
    using rel_drop [OF rel, of t' "\<lambda>k. k = (f, c, s, d)"] release_live [OF wf] r L_release by auto
  then show ?thesis using L_release r by simp
next
  case (L_release_all f c)
  have wf: "lt_wf t" using rel by (simp add: lease_rel_def)
  have "lease_rel now t' (\<lambda>(f', c', sd). if f' = f \<and> c' = c then None else m (f', c', sd))"
    using rel_drop [OF rel, of t' "\<lambda>(f', c', sd). f' = f \<and> c' = c"] release_all_live [OF wf] r L_release_all by (auto simp: le_key_def)
  then show ?thesis using L_release_all r by simp
qed

lemma lease_run_sim: "lease_rel now t m \<Longrightarrow> clock_ok now ops \<Longrightarrow> lease_run t ops = lease_spec_run m ops"
proof (induction ops arbitrary: now t m)
  case (Cons op ops)
  obtain t' res where r: "lease_step op t = (t', res)" by fastforce
  obtain m' where "lease_spec_step op m = (m', res)" "lease_rel (op_time now op) t' m'" using lease_step_refines [OF Cons.prems(1) _ r] Cons.prems(2) by auto
  then show ?case using Cons.IH Cons.prems(2) r by auto
qed simp

lemma lease_rel_init: "stripe_lease_table_init oom = Some t \<Longrightarrow> lease_rel now t Map.empty"
  using lt_wf_init by (auto simp: lease_rel_def live_def)

end
