(* ===== verification/Lease_Layoutget.thy ===== *)
theory Lease_Layoutget
  imports Lease_Spec
begin

text \<open>
  The part of LAYOUTGET and LAYOUTRETURN that works on stripe leases, \<^verbatim>\<open>src/mds/compound_layout.c\<close>: the selection of the
  grant window, the scope of the lease, the conflict gate that may narrow it, and the loop that takes the leases once
  the layout is granted. The code between the gate and the loop (recall, preparation of the data servers, the
  catalogue) only decides whether the loop is reached: in a run of the system it is the choice between the events
  \<open>E_take\<close> and \<open>E_fail\<close>. The caller passes the addresses of its own variables, so the null checks of the
  grant window have no counterpart.
\<close>

section \<open>The code\<close>

record layout_cfg =
  lc_slt :: bool
  lc_stripe_lease_duration_ms :: u32
  lc_stripe_unit :: u32
  lc_auto_widen_lease_on_4k :: bool
  lc_grant_max_length :: u64

record layoutget_arg =
  lg_offset :: u64
  lg_length :: u64
  lg_minlength :: u64

datatype lg_error = LG_INVAL | LG_TRYLATER

abbreviation MDS_MAX_STRIPES :: u32 where "MDS_MAX_STRIPES \<equiv> 1024"

definition compound_layout_set_grant_max_length :: "u64 \<Rightarrow> layout_cfg \<Rightarrow> layout_cfg" where
  "compound_layout_set_grant_max_length bytes cfg = cfg\<lparr>lc_grant_max_length := (if bytes < 65536 then 65536 else bytes)\<rparr>"

definition layout_clamp_grant_length :: "layout_cfg \<Rightarrow> u64 \<Rightarrow> u64 \<Rightarrow> u64" where
  "layout_clamp_grant_length cfg off len =
     (if off \<ge> UINT64_MAX - 1 then 0
      else
        (let cap = (if lc_grant_max_length cfg > UINT64_MAX - 1 - off then UINT64_MAX - 1 - off else lc_grant_max_length cfg)
         in if len > cap then cap else len))"

definition layout_select_grant_range :: "layout_cfg \<Rightarrow> layoutget_arg \<Rightarrow> u64 option \<Rightarrow> lg_error + u64 \<times> u64" where
  "layout_select_grant_range cfg a inode_size =
     (if lg_length a \<noteq> UINT64_MAX \<and> lg_length a > UINT64_MAX - lg_offset a then Inl LG_INVAL
      else if lg_offset a = UINT64_MAX then Inl LG_INVAL
      else
        (let w0 = (if lc_stripe_unit cfg > 0 then ucast (lc_stripe_unit cfg) else 65536);
             w1 = (if lg_length a \<noteq> UINT64_MAX \<and> lg_length a > w0 then lg_length a else w0);
             w2 = (if lg_minlength a \<noteq> UINT64_MAX \<and> lg_minlength a > w1 then lg_minlength a else w1);
             w3 = (case inode_size of
                     Some sz \<Rightarrow> if sz > lg_offset a then (if sz - lg_offset a > w2 then sz - lg_offset a else w2) else w2
                   | None \<Rightarrow> w2);
             w4 = (if w3 = 0 then 1 else w3);
             w5 = (if w4 < lc_grant_max_length cfg then lc_grant_max_length cfg else w4);
             window = layout_clamp_grant_length cfg (lg_offset a) w5
         in if window = 0 then Inl LG_INVAL else Inr (lg_offset a, window)))"

definition lease_scope :: "layout_cfg \<Rightarrow> layoutget_arg \<Rightarrow> u64 \<Rightarrow> u64 \<times> u64" where
  "lease_scope cfg a grant_length =
     (let unit = (if lc_stripe_unit cfg > 0 then ucast (lc_stripe_unit cfg) else 65536);
          l0 = (if lg_minlength a \<noteq> UINT64_MAX \<and> lg_minlength a > 0 then lg_minlength a else unit);
          l1 = (if lc_auto_widen_lease_on_4k cfg \<and> lg_minlength a = 4096 \<and> lg_length a = UINT64_MAX then UINT64_MAX else l0);
          l2 = (if l1 < unit then unit else l1);
          l3 = (if l2 > grant_length then grant_length else l2)
      in (lg_offset a, l3))"

definition slt_unit :: "layout_cfg \<Rightarrow> u32" where
  "slt_unit cfg = (if lc_stripe_unit cfg \<noteq> 0 then lc_stripe_unit cfg else 65536)"

definition slt_active :: "layout_cfg \<Rightarrow> bool \<Rightarrow> bool" where
  "slt_active cfg hpc \<longleftrightarrow> lc_slt cfg \<and> lc_stripe_lease_duration_ms cfg > 0 \<and> hpc"

definition lease_gate :: "layout_cfg \<Rightarrow> (nat \<Rightarrow> u64) \<Rightarrow> bool \<Rightarrow> u64 \<Rightarrow> u64 \<Rightarrow> u64 \<Rightarrow> u64 \<Rightarrow> u64 \<Rightarrow> nat \<Rightarrow> lease_table \<Rightarrow>
    lease_table \<times> nat \<times> (lg_error + u64 \<times> u64)" where
  "lease_gate cfg clk hpc fileid clientid lease_offset lease_length grant_length n t =
     (if slt_active cfg hpc then
        (case lease_range_to_stripe_slices lease_offset lease_length (slt_unit cfg) MDS_MAX_STRIPES of
           (slt_n, slices) \<Rightarrow>
             if slt_n < 0 then (t, n, Inl LG_TRYLATER)
             else
               (case stripe_lease_prefix_conflict_free_length clk n t (take (nat slt_n) slices) (slt_unit cfg)
                       lease_offset lease_length fileid clientid of
                  (t', n', prefix) \<Rightarrow>
                    if prefix = 0 then (t', n', Inl LG_TRYLATER)
                    else if prefix < lease_length then (t', n', Inr (prefix, if grant_length > prefix then prefix else grant_length))
                    else (t', n', Inr (lease_length, grant_length))))
      else (t, n, Inr (lease_length, grant_length)))"

definition layoutget_leases :: "layout_cfg \<Rightarrow> (nat \<Rightarrow> u64) \<Rightarrow> layoutget_arg \<Rightarrow> u64 \<Rightarrow> bool \<Rightarrow> u64 \<Rightarrow> u64 \<Rightarrow> nat \<Rightarrow> lease_table \<Rightarrow>
    lease_table \<times> nat \<times> (lg_error + (u64 \<times> u64) \<times> u64 \<times> u64)" where
  "layoutget_leases cfg clk a sz hpc fileid clientid n t =
     (case layout_select_grant_range cfg a (Some sz) of
        Inl e \<Rightarrow> (t, n, Inl e)
      | Inr (grant_offset, grant_length) \<Rightarrow>
          (case lease_scope cfg a grant_length of
             (lease_offset, lease_length) \<Rightarrow>
               (case lease_gate cfg clk hpc fileid clientid lease_offset lease_length grant_length n t of
                  (t', n', Inl e) \<Rightarrow> (t', n', Inl e)
                | (t', n', Inr (l, g)) \<Rightarrow> (t', n', Inr ((lease_offset, l), grant_offset, g)))))"

fun acquire_loop :: "layout_cfg \<Rightarrow> (nat \<Rightarrow> u64) \<Rightarrow> (nat \<Rightarrow> bool) \<Rightarrow> u64 \<Rightarrow> u64 \<Rightarrow> stripe_slice list \<Rightarrow> nat \<Rightarrow> lease_table \<Rightarrow> lease_table \<times> nat" where
  "acquire_loop cfg clk oom fileid clientid [] n t = (t, n)"
| "acquire_loop cfg clk oom fileid clientid (sl # sls) n t =
     acquire_loop cfg clk oom fileid clientid sls (Suc n)
       (fst (stripe_lease_acquire (oom n) (clk n) t fileid clientid 0 (sl_stripe_index sl) (sl_ds_offset sl) (sl_ds_length sl)
               (lc_stripe_lease_duration_ms cfg)))"

definition lease_take :: "layout_cfg \<Rightarrow> (nat \<Rightarrow> u64) \<Rightarrow> (nat \<Rightarrow> bool) \<Rightarrow> bool \<Rightarrow> u64 \<Rightarrow> u64 \<Rightarrow> u64 \<Rightarrow> u64 \<Rightarrow> nat \<Rightarrow> lease_table \<Rightarrow> lease_table \<times> nat" where
  "lease_take cfg clk oom hpc fileid clientid lease_offset lease_length n t =
     (if slt_active cfg hpc then
        (case lease_range_to_stripe_slices lease_offset lease_length (slt_unit cfg) MDS_MAX_STRIPES of
           (slt_n, slices) \<Rightarrow> acquire_loop cfg clk oom fileid clientid (take (nat slt_n) slices) n t)
      else (t, n))"

definition layoutreturn_leases :: "layout_cfg \<Rightarrow> u64 \<Rightarrow> u64 \<Rightarrow> lease_table \<Rightarrow> lease_table" where
  "layoutreturn_leases cfg fileid clientid t = (if lc_slt cfg then stripe_lease_release_all_for t fileid clientid else t)"

section \<open>Requests in flight\<close>

text \<open>
  A request passes the gate, and later takes its leases or fails. \<open>ls_pend\<close> are the requests in between, with the
  range their leases will cover; \<open>ls_tick\<close> counts the readings of the clock.
\<close>

record lg_request =
  rq_id :: nat
  rq_arg :: layoutget_arg
  rq_size :: u64
  rq_hpc :: bool
  rq_fileid :: u64
  rq_clientid :: u64

record lease_sys =
  ls_table :: lease_table
  ls_tick :: nat
  ls_pend :: "(lg_request \<times> u64 \<times> u64) list"

datatype lg_event = E_get lg_request | E_take nat | E_fail nat | E_return u64 u64

definition drop_pend :: "nat \<Rightarrow> (lg_request \<times> u64 \<times> u64) list \<Rightarrow> (lg_request \<times> u64 \<times> u64) list" where
  "drop_pend i ps = filter (\<lambda>p. rq_id (fst p) \<noteq> i) ps"

fun lg_step :: "layout_cfg \<Rightarrow> (nat \<Rightarrow> u64) \<Rightarrow> (nat \<Rightarrow> bool) \<Rightarrow> lg_event \<Rightarrow> lease_sys \<Rightarrow> lease_sys" where
  "lg_step cfg clk oom (E_get r) s =
     (case layoutget_leases cfg clk (rq_arg r) (rq_size r) (rq_hpc r) (rq_fileid r) (rq_clientid r) (ls_tick s) (ls_table s) of
        (t, n, Inl e) \<Rightarrow> s\<lparr>ls_table := t, ls_tick := n\<rparr>
      | (t, n, Inr (lease, grant)) \<Rightarrow> s\<lparr>ls_table := t, ls_tick := n, ls_pend := (r, lease) # ls_pend s\<rparr>)"
| "lg_step cfg clk oom (E_take i) s =
     (case find (\<lambda>p. rq_id (fst p) = i) (ls_pend s) of
        None \<Rightarrow> s
      | Some (r, off, len) \<Rightarrow>
          (case lease_take cfg clk oom (rq_hpc r) (rq_fileid r) (rq_clientid r) off len (ls_tick s) (ls_table s) of
             (t, n) \<Rightarrow> s\<lparr>ls_table := t, ls_tick := n, ls_pend := drop_pend i (ls_pend s)\<rparr>))"
| "lg_step cfg clk oom (E_fail i) s = s\<lparr>ls_pend := drop_pend i (ls_pend s)\<rparr>"
| "lg_step cfg clk oom (E_return f c) s = s\<lparr>ls_table := layoutreturn_leases cfg f c (ls_table s)\<rparr>"

definition lg_run :: "layout_cfg \<Rightarrow> (nat \<Rightarrow> u64) \<Rightarrow> (nat \<Rightarrow> bool) \<Rightarrow> lg_event list \<Rightarrow> lease_sys \<Rightarrow> lease_sys" where
  "lg_run cfg clk oom es s = fold (lg_step cfg clk oom) es s"

text \<open>No request passes the gate while another one is between its gate and its leases.\<close>

fun lg_serial :: "layout_cfg \<Rightarrow> (nat \<Rightarrow> u64) \<Rightarrow> (nat \<Rightarrow> bool) \<Rightarrow> lg_event list \<Rightarrow> lease_sys \<Rightarrow> bool" where
  "lg_serial cfg clk oom [] s = True"
| "lg_serial cfg clk oom (e # es) s \<longleftrightarrow>
     (case e of E_get r \<Rightarrow> ls_pend s = [] | _ \<Rightarrow> True) \<and> lg_serial cfg clk oom es (lg_step cfg clk oom e s)"

definition lease_sys_init :: lease_sys where
  "lease_sys_init = \<lparr>ls_table = replicate SLT_SHARD_COUNT [], ls_tick = 0, ls_pend = []\<rparr>"

end
