(* ===== verification/Lease_Exclusive.thy ===== *)
theory Lease_Exclusive
  imports Lease_Layoutget
begin

text \<open>
  Exclusive writers: a gate that lets a request through has seen no lease of another client on any byte of the narrowed
  range, and taking leases on such bytes keeps the leases of different clients apart.
\<close>

section \<open>Slices and bytes\<close>

text \<open>The slices of a range, as the function returns them when it succeeds.\<close>

definition slices_of :: "nat \<Rightarrow> u64 \<Rightarrow> u64 \<Rightarrow> stripe_slice list \<Rightarrow> bool" where
  "slices_of u off len sls \<longleftrightarrow> map slice_nats sls = pieces u (unat off) (unat len)"

lemma slices_success:
  assumes r: "lease_range_to_stripe_slices off len unit mx = (rc, out)" and rc: "0 \<le> rc" and mx: "unat mx < 2 ^ 31"
  shows "slices_args_ok off len unit mx" "slices_of (unat unit) off len out" "nat rc = length out"
    "length (pieces (unat unit) (unat off) (unat len)) \<le> unat mx" "out \<noteq> []"
proof -
  let ?P = "pieces (unat unit) (unat off) (unat len)" and ?M = "2 ^ 32 - unat off div unat unit"
  show a: "slices_args_ok off len unit mx" using slices_refused [of off len unit mx] r rc by force
  obtain ss where ss: "(rc, out) = (if length ?P \<le> unat mx \<and> length ?P \<le> ?M then sint (of_nat (length ?P) :: u32) else if ?M \<le> unat mx then - EINVAL else - ENOSPC, ss)"
    "map slice_nats ss = take (min (unat mx) ?M) ?P" using slices_run [OF a] unfolding r Let_def by metis
  have fit: "length ?P \<le> unat mx \<and> length ?P \<le> ?M" using ss(1) rc by (auto split: if_splits)
  then show "length ?P \<le> unat mx" by simp
  have out: "map slice_nats out = ?P" using ss fit by simp
  then show "slices_of (unat unit) off len out" by (simp add: slices_of_def)
  have "length out = length ?P" using arg_cong [OF out, of length] by simp
  moreover have "sint (of_nat (length ?P) :: u32) = int (length ?P)"
    using fit mx by (simp add: signed_of_nat signed_take_bit_int_eq_self)
  moreover have "rc = sint (of_nat (length ?P) :: u32)" using ss(1) fit by simp
  ultimately show "nat rc = length out" by simp
  have "?P \<noteq> []" using a by (intro pieces_ne) (auto simp: slices_args_ok_def unat_gt_0)
  then show "out \<noteq> []" using out by auto
qed

lemma slice_mem:
  assumes u: "0 < u" "u < 2 ^ 32" and s: "slices_of u off len sls" and sl: "sl \<in> set sls"
  shows "unat (sl_stripe_index sl) * u + unat (sl_ds_offset sl) = max (unat off) (unat (sl_stripe_index sl) * u)"
    "unat (sl_ds_offset sl) + unat (sl_ds_length sl) \<le> u"
    "lease_bytes (sl_ds_offset sl) (sl_ds_length sl) = {unat (sl_ds_offset sl) ..< unat (sl_ds_offset sl) + unat (sl_ds_length sl)}"
    "slice_bytes u sl \<subseteq> {unat off ..< unat off + unat len}"
proof -
  let ?i = "unat (sl_stripe_index sl)" and ?c = "unat (sl_ds_offset sl)" and ?l = "unat (sl_ds_length sl)"
  have p: "(?i, ?c, ?l) \<in> set (pieces u (unat off) (unat len))" using s sl unfolding slices_of_def by (metis image_eqI list.set_map slice_nats_def)
  then have e: "?c = max (unat off) (?i * u) - ?i * u" "?l = min (unat off + unat len) (?i * u + u) - max (unat off) (?i * u)" by (auto simp: pieces_def)
  have "unat off div u \<le> ?i" using p by (auto simp: pieces_def div_le_mono)
  then have "unat off < ?i * u + u" using u(1) by (metis add.commute div_less_iff_less_mult le_imp_less_Suc mult_Suc)
  then show le: "?c + ?l \<le> u" using e by linarith
  show "lease_bytes (sl_ds_offset sl) (sl_ds_length sl) = {?c ..< ?c + ?l}" using u(2) le by (simp add: lease_bytes_def)
  show "?i * u + ?c = max (unat off) (?i * u)" using e(1) by simp
  show "slice_bytes u sl \<subseteq> {unat off ..< unat off + unat len}" unfolding slice_bytes_def by (rule subsetI) (rule pieces_byte(2) [OF u(1) p])
qed

lemma slice_of_byte:
  assumes "0 < u" "slices_of u off len sls" "b \<in> {unat off ..< unat off + unat len}"
  shows "\<exists>sl \<in> set sls. b \<in> slice_bytes u sl"
  using slices_partition [OF assms(1) assms(2) [unfolded slices_of_def], of b] assms(3) by blast

lemma slices_sorted:
  assumes "slices_of u off len (us @ sl # vs)" "sl' \<in> set (sl # vs)"
  shows "unat (sl_stripe_index sl) \<le> unat (sl_stripe_index sl')"
proof -
  have "map (\<lambda>s. unat (sl_stripe_index s)) (us @ sl # vs) = map fst (map slice_nats (us @ sl # vs))" by (simp add: slice_nats_def comp_def)
  also have "\<dots> = [unat off div u ..< Suc ((unat off + unat len - 1) div u)]" using assms(1) unfolding slices_of_def pieces_def by (simp add: comp_def del: upt_Suc map_append list.map)
  finally have "sorted (map (\<lambda>s. unat (sl_stripe_index s)) (us @ sl # vs))" by (metis sorted_upt)
  then show ?thesis using assms(2) by (auto simp: sorted_append)
qed

section \<open>Free bytes\<close>

text \<open>No live lease of another client covers the byte \<open>b\<close> of the file.\<close>

definition byte_free :: "nat \<Rightarrow> u64 \<Rightarrow> u64 \<Rightarrow> u64 \<Rightarrow> lease_table \<Rightarrow> nat \<Rightarrow> bool" where
  "byte_free u T f c t b \<longleftrightarrow> (\<forall>e \<in> live T t. le_fileid e = f \<and> le_clientid e \<noteq> c \<and> unat (le_stripe_index e) = b div u \<longrightarrow>
     b mod u \<notin> lease_bytes (le_ds_offset e) (le_ds_length e))"

definition slice_clear :: "u64 \<Rightarrow> u64 \<Rightarrow> u64 \<Rightarrow> lease_table \<Rightarrow> stripe_slice \<Rightarrow> bool" where
  "slice_clear T f c t sl \<longleftrightarrow> (\<forall>e \<in> live T t. le_fileid e = f \<and> le_clientid e \<noteq> c \<and> le_stripe_index e = sl_stripe_index sl \<longrightarrow>
     lease_bytes (le_ds_offset e) (le_ds_length e) \<inter> lease_bytes (sl_ds_offset sl) (sl_ds_length sl) = {})"

lemma live_later: "T \<le> T' \<Longrightarrow> live T' t \<subseteq> live T t"
  by (auto simp: live_def)

lemma byte_free_mono: "byte_free u T f c t b \<Longrightarrow> live T' t' \<subseteq> live T t \<Longrightarrow> byte_free u T' f c t' b"
  unfolding byte_free_def by blast

lemma slice_clear_mono: "slice_clear T f c t sl \<Longrightarrow> live T' t' \<subseteq> live T t \<Longrightarrow> slice_clear T' f c t' sl"
  unfolding slice_clear_def by blast

lemma clear_iff_free:
  assumes u: "0 < u" "u < 2 ^ 32" and s: "slices_of u off len sls" and sl: "sl \<in> set sls"
  shows "slice_clear T f c t sl \<longleftrightarrow> (\<forall>b \<in> slice_bytes u sl. byte_free u T f c t b)"
proof -
  let ?i = "unat (sl_stripe_index sl)" and ?c = "unat (sl_ds_offset sl)" and ?l = "unat (sl_ds_length sl)"
  note m = slice_mem [OF u s sl]
  have bm: "b div u = ?i" "b mod u = b - ?i * u" if b: "b \<in> slice_bytes u sl" for b
  proof -
    have "?i * u \<le> b" "b < ?i * u + u" using b m(2) by (auto simp: slice_bytes_def)
    then show d: "b div u = ?i" by (intro div_nat_eqI) (auto simp: algebra_simps)
    show "b mod u = b - ?i * u" using d by (metis minus_div_mult_eq_mod)
  qed
  have fwd: "?i * u + x \<in> slice_bytes u sl" if "x \<in> lease_bytes (sl_ds_offset sl) (sl_ds_length sl)" for x
    using that unfolding m(3) slice_bytes_def by auto
  have bwd: "b mod u \<in> lease_bytes (sl_ds_offset sl) (sl_ds_length sl)" if "b \<in> slice_bytes u sl" for b
    using bm(2) [OF that] that unfolding m(3) slice_bytes_def by auto
  show ?thesis
  proof
    show "\<forall>b \<in> slice_bytes u sl. byte_free u T f c t b" if "slice_clear T f c t sl"
      using that bm(1) bwd unfolding slice_clear_def byte_free_def by (metis disjoint_iff word_unat_eq_iff)
    show "slice_clear T f c t sl" if a: "\<forall>b \<in> slice_bytes u sl. byte_free u T f c t b"
      unfolding slice_clear_def
    proof (intro ballI impI equals0I, elim IntE conjE)
      fix e x
      assume e: "e \<in> live T t" "le_fileid e = f" "le_clientid e \<noteq> c" "le_stripe_index e = sl_stripe_index sl"
        and x: "x \<in> lease_bytes (le_ds_offset e) (le_ds_length e)" "x \<in> lease_bytes (sl_ds_offset sl) (sl_ds_length sl)"
      have b: "?i * u + x \<in> slice_bytes u sl" by (rule fwd [OF x(2)])
      then have "(?i * u + x) mod u = x" by (simp only: bm(2) add_diff_cancel_left')
      then show False using a b e x(1) bm(1) [OF b] unfolding byte_free_def by metis
    qed
  qed
qed

section \<open>The walk\<close>

text \<open>Where the walk stopped: at the end, or at the first contended slice.\<close>

definition walk_end :: "(nat \<Rightarrow> u64) \<Rightarrow> u32 \<Rightarrow> u64 \<Rightarrow> u64 \<Rightarrow> u64 \<Rightarrow> u64 \<Rightarrow> lease_table \<Rightarrow> stripe_slice list \<Rightarrow> nat \<Rightarrow> u64 \<Rightarrow> bool" where
  "walk_end clk unit lo ll f c t sls n' p \<longleftrightarrow>
     p = ll \<and> (\<forall>sl \<in> set sls. slice_clear (clk n') f c t sl) \<or>
     (\<exists>us sl vs. sls = us @ sl # vs \<and> (\<forall>s \<in> set us. slice_clear (clk n') f c t s) \<and>
        p = (let start = ucast (sl_stripe_index sl) * ucast unit + sl_ds_offset sl in if start \<le> lo then 0 else start - lo))"

lemma walk_end_hit:
  "p = (let start = ucast (sl_stripe_index sl) * ucast unit + sl_ds_offset sl in if start \<le> lo then 0 else start - lo) \<Longrightarrow>
    walk_end clk unit lo ll f c t (sl # sls) n' p"
  unfolding walk_end_def by (intro disjI2 exI [of _ "[]"] exI [of _ sl] exI [of _ sls]) simp

lemma walk_end_Cons:
  assumes w: "walk_end clk unit lo ll f c t1 sls n' p" and sc: "slice_clear (clk n') f c t sl"
    and same: "\<And>s. slice_clear (clk n') f c t1 s \<longleftrightarrow> slice_clear (clk n') f c t s"
  shows "walk_end clk unit lo ll f c t (sl # sls) n' p"
  using w unfolding walk_end_def
proof (elim disjE exE conjE, goal_cases)
  case 1
  then show ?case using sc same by simp
next
  case (2 us s vs)
  have "sl # sls = (sl # us) @ s # vs" "\<forall>s \<in> set (sl # us). slice_clear (clk n') f c t s" using 2 sc same by auto
  then show ?case using 2(3) by blast
qed

lemma prefix_walk_result:
  assumes "lt_wf t" "mono clk" "prefix_walk clk unit lo ll f c sls n t = (t', n', p)" "\<forall>sl \<in> set sls. sl_ds_length sl \<noteq> 0"
  shows "lt_wf t' \<and> n \<le> n' \<and> (\<forall>T \<ge> clk n'. live T t' = live T t) \<and> walk_end clk unit lo ll f c t sls n' p"
  using assms(1,3,4)
proof (induction sls arbitrary: n t)
  case (Cons sl sls)
  obtain t1 hit where h: "stripe_lease_check_conflict (clk n) t f c (sl_stripe_index sl) (sl_ds_offset sl) (sl_ds_length sl) = (t1, hit)" by fastforce
  note cc = check_conflict_live [OF Cons.prems(1) h]
  have hit: "hit \<longleftrightarrow> \<not> slice_clear (clk n) f c t sl" unfolding cc(4) slice_clear_def using Cons.prems(3) by auto
  have up: "clk i \<le> clk j" if "i \<le> j" for i j using assms(2) that by (rule monoD)
  have live1: "live T t1 = live T t" if "clk k \<le> T" "n \<le> k" for k T using cc(2) [of T] up [OF that(2)] that(1) by simp
  show ?case
  proof (cases hit)
    case True
    then have r: "t' = t1" "n' = Suc n" "p = (let start = ucast (sl_stripe_index sl) * ucast unit + sl_ds_offset sl in if start \<le> lo then 0 else start - lo)"
      using Cons.prems(2) h by (auto simp: Let_def)
    then show ?thesis using cc(1) live1 [of n'] walk_end_hit [OF r(3)] by simp
  next
    case False
    then have w: "prefix_walk clk unit lo ll f c sls (Suc n) t1 = (t', n', p)" using Cons.prems(2) h by simp
    have IH: "lt_wf t'" "Suc n \<le> n'" "\<forall>T \<ge> clk n'. live T t' = live T t1" "walk_end clk unit lo ll f c t1 sls n' p"
      using Cons.IH [OF cc(1) w] Cons.prems(3) by auto
    have l: "live T t1 = live T t" if "clk n' \<le> T" for T using live1 [OF that] IH(2) by simp
    have "slice_clear (clk n') f c t sl" using False hit slice_clear_mono [OF _ live_later [OF up [of n n']]] IH(2) by simp
    then have "walk_end clk unit lo ll f c t (sl # sls) n' p" using walk_end_Cons [OF IH(4)] l by (simp add: slice_clear_def)
    then show ?thesis using IH(1-3) l by auto
  qed
qed (simp add: walk_end_def)

lemma u32_less: "unat (x :: u32) < 2 ^ 32"
proof -
  have "unat x < 2 ^ LENGTH(32)" by (rule unsigned_less)
  then show ?thesis by simp
qed

lemma slice_start:
  assumes "unat d \<le> unat unit"
  shows "unat (ucast (i :: u32) * ucast (unit :: u32) + d :: u64) = unat i * unat unit + unat d"
proof -
  have b: "unat i \<le> 2 ^ 32 - 1" "unat unit \<le> 2 ^ 32 - 1" using u32_less [of i] u32_less [of unit] by simp_all
  have "unat i * unat unit + unat d < 2 ^ LENGTH(64)" using mult_le_mono [OF b] b(2) assms by simp
  moreover have "unat i * unat unit < 2 ^ LENGTH(64)" using mult_le_mono [OF b] by simp
  then have "unat (ucast i * ucast unit :: u64) = unat i * unat unit" using unat_mult_lem [of "ucast i :: u64" "ucast unit"] by (simp add: unat_ucast_u32)
  ultimately show ?thesis using unat_add_lem [of "ucast i * ucast unit :: u64" d] by simp
qed

lemma slice_len_pos:
  assumes "0 < u" "u < 2 ^ 32" "slices_of u off len sls" "0 < unat len" "sl \<in> set sls"
  shows "sl_ds_length sl \<noteq> 0"
proof -
  let ?i = "unat (sl_stripe_index sl)"
  have p: "slice_nats sl \<in> set (pieces u (unat off) (unat len))" using assms(3,5) unfolding slices_of_def by (metis image_eqI list.set_map)
  then have l: "unat (sl_ds_length sl) = min (unat off + unat len) (?i * u + u) - max (unat off) (?i * u)"
    and i: "unat off div u \<le> ?i" "?i \<le> (unat off + unat len - 1) div u" by (auto simp: pieces_def slice_nats_def div_le_mono)
  have "unat off < ?i * u + u" using i(1) assms(1) by (metis add.commute div_less_iff_less_mult le_imp_less_Suc mult_Suc)
  moreover have "?i * u \<le> unat off + unat len - 1" using i(2) assms(1) by (simp add: less_eq_div_iff_mult_less_eq)
  ultimately have "0 < unat (sl_ds_length sl)" using l assms(1,4) by simp
  then show ?thesis by auto
qed

lemma prefix_free:
  assumes u: "0 < unat unit" and s: "slices_of (unat unit) lo ll sls" and ll: "0 < unat ll" and wf: "lt_wf t" and clk: "mono clk"
    and w: "prefix_walk clk unit lo ll f c sls n t = (t', n', p)" and b: "unat lo \<le> b" "b < unat lo + unat p"
  shows "byte_free (unat unit) (clk n') f c t b"
proof -
  let ?u = "unat unit"
  have u32: "?u < 2 ^ 32" by (rule u32_less)
  have free: "byte_free ?u (clk n') f c t b" if "sl \<in> set sls" "slice_clear (clk n') f c t sl" "b \<in> slice_bytes ?u sl" for sl
    using clear_iff_free [OF u u32 s that(1)] that by simp
  have "walk_end clk unit lo ll f c t sls n' p" using prefix_walk_result [OF wf clk w] slice_len_pos [OF u u32 s ll] by blast
  then consider "p = ll" "\<forall>sl \<in> set sls. slice_clear (clk n') f c t sl"
    | us sl vs where "sls = us @ sl # vs" "\<forall>s \<in> set us. slice_clear (clk n') f c t s"
      "p = (let start = ucast (sl_stripe_index sl) * ucast unit + sl_ds_offset sl in if start \<le> lo then 0 else start - lo)" unfolding walk_end_def by blast
  then show ?thesis
  proof cases
    case 1
    then show ?thesis using slice_of_byte [OF u s] b free by fastforce
  next
    case 2
    let ?start = "ucast (sl_stripe_index sl) * ucast unit + sl_ds_offset sl :: u64"
    have sl: "sl \<in> set sls" using 2(1) by simp
    note m = slice_mem [OF u u32 s sl]
    have st: "unat ?start = max (unat lo) (unat (sl_stripe_index sl) * ?u)" using slice_start [of "sl_ds_offset sl" unit] m(1,2) by simp
    have "p \<noteq> 0" using b by auto
    then have pe: "p = ?start - lo" "lo \<le> ?start" using 2(3) by (auto simp: Let_def split: if_splits)
    then have "unat p = unat ?start - unat lo" by (simp add: unat_sub)
    then have lt: "b < unat ?start" using b by linarith
    have "unat ?start \<in> slice_bytes ?u sl" using st m(1) slice_len_pos [OF u u32 s ll sl] by (simp add: slice_bytes_def unat_gt_0)
    then have "b \<in> {unat lo ..< unat lo + unat ll}" using m(4) lt b(1) by auto
    then obtain sl' where sl': "sl' \<in> set sls" "b \<in> slice_bytes ?u sl'" using slice_of_byte [OF u s] by blast
    have "sl' \<notin> set (sl # vs)"
    proof
      assume "sl' \<in> set (sl # vs)"
      then have "unat (sl_stripe_index sl) \<le> unat (sl_stripe_index sl')" using slices_sorted [of ?u lo ll us sl vs sl'] s 2(1) by simp
      then have "unat ?start \<le> max (unat lo) (unat (sl_stripe_index sl') * ?u)" unfolding st by (intro max.mono mult_le_mono) simp_all
      moreover have "max (unat lo) (unat (sl_stripe_index sl') * ?u) \<le> b" using sl'(2) slice_mem(1) [OF u u32 s sl'(1)] by (simp add: slice_bytes_def)
      ultimately show False using lt by simp
    qed
    then have "sl' \<in> set us" using sl'(1) 2(1) by auto
    then show ?thesis using free [OF sl'(1) _ sl'(2)] 2(2) by blast
  qed
qed

section \<open>The gate\<close>

lemma slt_unit_pos: "0 < unat (slt_unit cfg)"
  by (simp add: slt_unit_def unat_gt_0)

lemma lease_gate_result:
  assumes wf: "lt_wf t" and clk: "mono clk" and g: "lease_gate cfg clk hpc f c lo ll gl n t = (t', n', res)"
  shows "lt_wf t' \<and> n \<le> n' \<and> (\<forall>T \<ge> clk n'. live T t' = live T t) \<and>
    (\<forall>l g b. res = Inr (l, g) \<and> slt_active cfg hpc \<and> b \<in> {unat lo ..< unat lo + unat l} \<longrightarrow> byte_free (unat (slt_unit cfg)) (clk n') f c t b)"
proof (cases "slt_active cfg hpc")
  case True
  obtain rc sls where r: "lease_range_to_stripe_slices lo ll (slt_unit cfg) MDS_MAX_STRIPES = (rc, sls)" by fastforce
  show ?thesis
  proof (cases "rc < 0")
    case False
    then have sl: "slices_of (unat (slt_unit cfg)) lo ll sls" "take (nat rc) sls = sls" "sls \<noteq> []" "slices_args_ok lo ll (slt_unit cfg) MDS_MAX_STRIPES"
      using slices_success [OF r] by auto
    then have ll: "0 < unat ll" "ll \<noteq> 0" "slt_unit cfg \<noteq> 0" by (auto simp: slices_args_ok_def unat_gt_0)
    have u32: "unat (slt_unit cfg) < 2 ^ 32" by (rule u32_less)
    obtain p where w: "prefix_walk clk (slt_unit cfg) lo ll f c sls n t = (t', n', p)"
      and res: "res = (if p = 0 then Inl LG_TRYLATER else if p < ll then Inr (p, if gl > p then p else gl) else Inr (ll, gl))"
      using g True r False sl(2,3) ll by (auto simp: lease_gate_def stripe_lease_prefix_conflict_free_length_def split: prod.splits if_splits)
    have pw: "lt_wf t'" "n \<le> n'" "\<forall>T \<ge> clk n'. live T t' = live T t"
      using prefix_walk_result [OF wf clk w] slice_len_pos [OF slt_unit_pos u32 sl(1) ll(1)] by auto
    have "byte_free (unat (slt_unit cfg)) (clk n') f c t b" if "res = Inr (l, g')" "unat lo \<le> b" "b < unat lo + unat l" for l g' b
    proof -
      have "l = (if p < ll then p else ll)" using res that(1) by (auto split: if_splits)
      then have "unat l \<le> unat p" by (auto simp: word_le_nat_alt [symmetric] not_less)
      then show ?thesis using that by (intro prefix_free [OF slt_unit_pos sl(1) ll(1) wf clk w]) linarith+
    qed
    then show ?thesis using pw by auto
  qed (use g True r wf in \<open>auto simp: lease_gate_def\<close>)
qed (use g wf in \<open>auto simp: lease_gate_def\<close>)

section \<open>Taking leases\<close>

definition exclusive :: "u64 \<Rightarrow> lease_table \<Rightarrow> bool" where
  "exclusive T t \<longleftrightarrow> (\<forall>e \<in> live T t. \<forall>e' \<in> live T t. le_fileid e = le_fileid e' \<and> le_stripe_index e = le_stripe_index e' \<and> le_clientid e \<noteq> le_clientid e' \<longrightarrow>
     lease_bytes (le_ds_offset e) (le_ds_length e) \<inter> lease_bytes (le_ds_offset e') (le_ds_length e') = {})"

lemma exclusive_mono: "exclusive T t \<Longrightarrow> live T' t' \<subseteq> live T t \<Longrightarrow> exclusive T' t'"
  unfolding exclusive_def by blast

lemma acquire_exclusive:
  assumes wf: "lt_wf t" and ex: "exclusive now t" and cl: "slice_clear now f c t sl"
    and r: "stripe_lease_acquire oom now t f c i (sl_stripe_index sl) (sl_ds_offset sl) (sl_ds_length sl) dur = (t', rc)"
  shows "lt_wf t'" "exclusive now t'" "slice_clear now f c t sl' \<Longrightarrow> slice_clear now f c t' sl'"
proof -
  define new where "new = \<lparr>le_fileid = f, le_clientid = c, le_ds_offset = sl_ds_offset sl, le_ds_length = sl_ds_length sl,
      le_expiry_ns = now + ucast dur * 1000000, le_stripe_index = sl_stripe_index sl, le_ds_id = i\<rparr>"
  have step: "lt_wf t' \<and> live now t' \<subseteq> insert new (live now t)"
  proof (cases "dur = 0 \<or> sl_ds_length sl = 0")
    case True
    then show ?thesis using r wf by (auto simp: stripe_lease_acquire_def)
  next
    case False
    then show ?thesis using acquire_live [OF wf _ _ r new_def] by (auto split: if_splits)
  qed
  then show "lt_wf t'" by simp
  have new: "le_fileid new = f" "le_clientid new = c" "le_stripe_index new = sl_stripe_index sl" "le_ds_offset new = sl_ds_offset sl"
    "le_ds_length new = sl_ds_length sl" by (simp_all add: new_def)
  have e: "e = new \<or> e \<in> live now t" if "e \<in> live now t'" for e using step that by blast
  show "exclusive now t'" unfolding exclusive_def
  proof (intro ballI impI, elim conjE)
    fix a b
    assume ab: "a \<in> live now t'" "b \<in> live now t'" "le_fileid a = le_fileid b" "le_stripe_index a = le_stripe_index b" "le_clientid a \<noteq> le_clientid b"
    have "lease_bytes (le_ds_offset x) (le_ds_length x) \<inter> lease_bytes (le_ds_offset new) (le_ds_length new) = {}"
      if "x \<in> live now t" "le_fileid x = f" "le_stripe_index x = sl_stripe_index sl" "le_clientid x \<noteq> c" for x
      using that cl by (simp add: slice_clear_def new)
    then show "lease_bytes (le_ds_offset a) (le_ds_length a) \<inter> lease_bytes (le_ds_offset b) (le_ds_length b) = {}"
      using e [OF ab(1)] e [OF ab(2)] ab(3-) ex new unfolding exclusive_def by (metis Int_commute)
  qed
  show "slice_clear now f c t' sl'" if "slice_clear now f c t sl'" using that e new(2) unfolding slice_clear_def by metis
qed

lemma acquire_loop_exclusive:
  assumes "mono clk"
  shows "lt_wf t \<Longrightarrow> exclusive (clk n) t \<Longrightarrow> \<forall>sl \<in> set sls. slice_clear (clk n) f c t sl \<Longrightarrow> acquire_loop cfg clk oom f c sls n t = (t', n') \<Longrightarrow>
    lt_wf t' \<and> exclusive (clk n') t'"
proof (induction sls arbitrary: n t)
  case (Cons sl sls)
  obtain t1 rc where r: "stripe_lease_acquire (oom n) (clk n) t f c 0 (sl_stripe_index sl) (sl_ds_offset sl) (sl_ds_length sl)
      (lc_stripe_lease_duration_ms cfg) = (t1, rc)" by fastforce
  note a = acquire_exclusive [OF Cons.prems(1,2) _ r]
  have later: "live (clk (Suc n)) t1 \<subseteq> live (clk n) t1" by (intro live_later monoD [OF assms]) simp
  show ?case using a Cons.prems(3,4) Cons.IH [of t1 "Suc n"] exclusive_mono [OF _ later] slice_clear_mono [OF _ later] r by simp
qed simp

lemma lease_take_exclusive:
  assumes clk: "mono clk" and wf: "lt_wf t" and ex: "exclusive (clk n) t"
    and free: "\<And>b. slt_active cfg hpc \<Longrightarrow> b \<in> {unat lo ..< unat lo + unat ll} \<Longrightarrow> byte_free (unat (slt_unit cfg)) (clk n) f c t b"
    and r: "lease_take cfg clk oom hpc f c lo ll n t = (t', n')"
  shows "lt_wf t' \<and> exclusive (clk n') t'"
proof (cases "slt_active cfg hpc")
  case True
  obtain rc sls where s: "lease_range_to_stripe_slices lo ll (slt_unit cfg) MDS_MAX_STRIPES = (rc, sls)" by fastforce
  have loop: "acquire_loop cfg clk oom f c (take (nat rc) sls) n t = (t', n')" using r True s by (simp add: lease_take_def)
  have "slice_clear (clk n) f c t sl" if sl: "sl \<in> set (take (nat rc) sls)" for sl
  proof -
    have "0 \<le> rc" "sl \<in> set sls" using sl by (cases "0 \<le> rc"; auto dest: in_set_takeD)+
    then have so: "slices_of (unat (slt_unit cfg)) lo ll sls" using slices_success(2) [OF s] by simp
    note m = slice_mem(4) [OF slt_unit_pos u32_less so \<open>sl \<in> set sls\<close>]
    show ?thesis using clear_iff_free [OF slt_unit_pos u32_less so \<open>sl \<in> set sls\<close>] m free [OF True] by blast
  qed
  then show ?thesis using acquire_loop_exclusive [OF clk wf ex _ loop] by blast
qed (use r wf ex in \<open>auto simp: lease_take_def\<close>)

end
