(* ===== verification/Lease_Theorems.thy ===== *)
theory Lease_Theorems
  imports Lease_Exclusive
begin

text \<open>
  The properties of stripe leases: the decomposition of a range, the lease table against its specification, exclusive
  writers when the LAYOUTGETs of a file do not overlap in time, and two ways in which the code falls short of it.
\<close>

section \<open>The invariant of requests in flight\<close>

definition lease_inv :: "layout_cfg \<Rightarrow> (nat \<Rightarrow> u64) \<Rightarrow> lease_sys \<Rightarrow> bool" where
  "lease_inv cfg clk s \<longleftrightarrow> lt_wf (ls_table s) \<and> exclusive (clk (ls_tick s)) (ls_table s) \<and> length (ls_pend s) \<le> 1 \<and>
     (\<forall>(r, lo, ll) \<in> set (ls_pend s). slt_active cfg (rq_hpc r) \<longrightarrow>
        (\<forall>b \<in> {unat lo ..< unat lo + unat ll}. byte_free (unat (slt_unit cfg)) (clk (ls_tick s)) (rq_fileid r) (rq_clientid r) (ls_table s) b))"

lemma lease_inv_init: "lease_inv cfg clk lease_sys_init"
  using lt_wf_init [of False "replicate SLT_SHARD_COUNT []"]
  by (simp add: lease_inv_def lease_sys_init_def stripe_lease_table_init_def exclusive_def live_def)

lemma lease_inv_get:
  assumes clk: "mono clk" and inv: "lease_inv cfg clk s" and e: "ls_pend s = []"
  shows "lease_inv cfg clk (lg_step cfg clk oom (E_get r) s)"
proof -
  let ?f = "rq_fileid r" and ?c = "rq_clientid r"
  obtain t n res where l: "layoutget_leases cfg clk (rq_arg r) (rq_size r) (rq_hpc r) ?f ?c (ls_tick s) (ls_table s) = (t, n, res)"
    by (metis prod_cases3)
  have wf: "lt_wf (ls_table s)" and ex: "exclusive (clk (ls_tick s)) (ls_table s)" using inv by (auto simp: lease_inv_def)
  have "lt_wf t \<and> ls_tick s \<le> n \<and> (\<forall>T \<ge> clk n. live T t = live T (ls_table s)) \<and>
    (\<forall>lo ll g b. res = Inr ((lo, ll), g) \<and> slt_active cfg (rq_hpc r) \<and> b \<in> {unat lo ..< unat lo + unat ll} \<longrightarrow>
       byte_free (unat (slt_unit cfg)) (clk n) ?f ?c (ls_table s) b)"
    using l wf lease_gate_result [OF wf clk]
    by (fastforce simp: layoutget_leases_def split: sum.splits prod.splits)
  then have g: "lt_wf t" "ls_tick s \<le> n" "live (clk n) t = live (clk n) (ls_table s)"
    "\<And>lo ll g b. res = Inr ((lo, ll), g) \<Longrightarrow> slt_active cfg (rq_hpc r) \<Longrightarrow> b \<in> {unat lo ..< unat lo + unat ll} \<Longrightarrow>
       byte_free (unat (slt_unit cfg)) (clk n) ?f ?c (ls_table s) b" by auto
  have sub: "live (clk n) t \<subseteq> live (clk (ls_tick s)) (ls_table s)" using g(3) live_later [OF monoD [OF clk g(2)]] by simp
  have "exclusive (clk n) t" by (rule exclusive_mono [OF ex sub])
  moreover have "byte_free (unat (slt_unit cfg)) (clk n) ?f ?c t b"
    if "res = Inr ((lo, ll), g')" "slt_active cfg (rq_hpc r)" "b \<in> {unat lo ..< unat lo + unat ll}" for lo ll g' b
    using byte_free_mono [OF g(4) [OF that], of "clk n" t] g(3) by simp
  ultimately show ?thesis using g(1) l e by (auto simp: lease_inv_def split: sum.splits)
qed

lemma lease_inv_take:
  assumes clk: "mono clk" and inv: "lease_inv cfg clk s"
  shows "lease_inv cfg clk (lg_step cfg clk oom (E_take i) s)"
proof (cases "find (\<lambda>p. rq_id (fst p) = i) (ls_pend s)")
  case (Some q)
  obtain r lo ll where q: "q = (r, lo, ll)" by (metis prod_cases3)
  then have mem: "(r, lo, ll) \<in> set (ls_pend s)" "rq_id r = i" using Some unfolding find_Some_iff by (metis nth_mem, metis fst_conv)
  moreover have "length (ls_pend s) \<le> 1" using inv by (simp add: lease_inv_def)
  ultimately have p: "drop_pend i (ls_pend s) = []" by (cases "ls_pend s") (auto simp: drop_pend_def)
  obtain t n where t: "lease_take cfg clk oom (rq_hpc r) (rq_fileid r) (rq_clientid r) lo ll (ls_tick s) (ls_table s) = (t, n)" by fastforce
  have "lt_wf t \<and> exclusive (clk n) t"
    using inv mem(1) by (intro lease_take_exclusive [OF clk _ _ _ t]) (auto simp: lease_inv_def)
  then show ?thesis using Some q t p by (simp add: lease_inv_def)
qed (use inv in simp)

lemma lease_inv_step:
  assumes clk: "mono clk" and inv: "lease_inv cfg clk s" and ser: "\<And>r. e = E_get r \<Longrightarrow> ls_pend s = []"
  shows "lease_inv cfg clk (lg_step cfg clk oom e s)"
proof (cases e)
  case (E_get r)
  then show ?thesis using lease_inv_get [OF clk inv] ser by simp
next
  case (E_take i)
  then show ?thesis using lease_inv_take [OF clk inv] by simp
next
  case (E_fail i)
  have "length (drop_pend i (ls_pend s)) \<le> length (ls_pend s)" "set (drop_pend i (ls_pend s)) \<subseteq> set (ls_pend s)" by (auto simp: drop_pend_def)
  then show ?thesis using inv E_fail by (fastforce simp: lease_inv_def)
next
  case (E_return f c)
  have wf: "lt_wf (ls_table s)" using inv by (simp add: lease_inv_def)
  have w: "lt_wf (layoutreturn_leases cfg f c (ls_table s))" "live T (layoutreturn_leases cfg f c (ls_table s)) \<subseteq> live T (ls_table s)" for T
    using release_all_live [OF wf] wf by (auto simp: layoutreturn_leases_def)
  show ?thesis using inv E_return w(1) exclusive_mono [OF _ w(2)] byte_free_mono [OF _ w(2)] by (fastforce simp: lease_inv_def)
qed

lemma lease_inv_run:
  "mono clk \<Longrightarrow> lease_inv cfg clk s \<Longrightarrow> lg_serial cfg clk oom es s \<Longrightarrow> lease_inv cfg clk (lg_run cfg clk oom es s)"
proof (induction es arbitrary: s)
  case (Cons e es)
  then have "lease_inv cfg clk (lg_step cfg clk oom e s)" by (intro lease_inv_step) auto
  then show ?case using Cons by (simp add: lg_run_def)
qed (simp add: lg_run_def)

section \<open>Decomposition\<close>

text \<open>C32. On valid arguments the loop that cuts a range into stripe slices ends after at most as many rounds as the array
  has room, and as the range has stripes. When all stripes fit, the result is their number and every byte of
  the range, and no other, lies in exactly one slice. Otherwise the call fails: with \<open>EINVAL\<close> when stripe indexes run out
  first, with \<open>ENOSPC\<close> when the array does.\<close>

theorem lease_slices_tile:
  assumes "unit \<noteq> 0" "mx \<noteq> 0" "len \<noteq> 0" "len \<noteq> UINT64_MAX" "unat off div unat unit < 2 ^ 32"
    and r: "lease_range_to_stripe_slices off len unit mx = (rc, out)"
  shows "length out \<le> unat mx \<and> length out \<le> (unat len - 1) div unat unit + 2 \<and>
    (let N = Suc ((unat off + unat len - 1) div unat unit) - unat off div unat unit; M = 2 ^ 32 - unat off div unat unit
     in if N \<le> unat mx \<and> N \<le> M
        then rc = sint (of_nat N :: u32) \<and> length out = N \<and>
          (\<forall>b. (\<exists>!s. s \<in> set out \<and> b \<in> slice_bytes (unat unit) s) \<longleftrightarrow> b \<in> {unat off ..< unat off + unat len})
        else rc = (if M \<le> unat mx then - EINVAL else - ENOSPC))"
proof -
  let ?P = "pieces (unat unit) (unat off) (unat len)" and ?M = "2 ^ 32 - unat off div unat unit"
  have p: "0 < unat unit" "0 < unat len" using assms by (auto simp: unat_gt_0)
  have a: "slices_args_ok off len unit mx" using assms by (simp add: slices_args_ok_def)
  obtain ss where ss: "(rc, out) = (if length ?P \<le> unat mx \<and> length ?P \<le> ?M then sint (of_nat (length ?P) :: u32) else if ?M \<le> unat mx then - EINVAL else - ENOSPC, ss)"
    "map slice_nats ss = take (min (unat mx) ?M) ?P" using slices_run [OF a] unfolding r Let_def by metis
  have "length out = min (length ?P) (min (unat mx) ?M)" using arg_cong [OF ss(2), of length] ss(1) by simp
  then have len: "length out \<le> unat mx" "length out \<le> (unat len - 1) div unat unit + 2" using pieces_length_le [OF p, of "unat off"] by auto
  show ?thesis
  proof (cases "length ?P \<le> unat mx \<and> length ?P \<le> ?M")
    case True
    then have m: "map slice_nats out = ?P" using ss by simp
    then have "length out = length ?P" by (metis length_map)
    then show ?thesis using len True ss(1) slices_partition [OF p(1) m] unfolding Let_def pieces_length [OF p, symmetric] by simp
  next
    case False
    have "rc = (if ?M \<le> unat mx then - EINVAL else - ENOSPC)" using ss(1) by (simp only: if_not_P [OF False] prod.inject)
    then show ?thesis using len unfolding Let_def pieces_length [OF p, symmetric] if_not_P [OF False] by blast
  qed
qed

theorem lease_slices_tile_witness:
  "fst (lease_range_to_stripe_slices 100000 200000 65536 8) = 4 \<and>
   (\<exists>!s. s \<in> set (snd (lease_range_to_stripe_slices 100000 200000 65536 8)) \<and> 131072 \<in> slice_bytes 65536 s)"
proof -
  obtain rc out where r: "lease_range_to_stripe_slices 100000 200000 65536 8 = (rc, out)" by fastforce
  have "rc = 4 \<and> (\<exists>!s. s \<in> set out \<and> 131072 \<in> slice_bytes 65536 s)"
    using lease_slices_tile [OF _ _ _ _ _ r] by (simp add: Let_def)
  then show ?thesis by (simp add: r)
qed

section \<open>The table\<close>

text \<open>C33. The sharded lease table with lazy eviction answers every sequence of calls whose clock does not run backwards as the
  map from file, client, stripe and offset to length and expiry does: a check reports a conflict exactly when another
  client holds an unexpired lease that shares a byte, an acquisition enters or renews exactly the lease of its key, a
  failed allocation changes nothing, and the releases remove exactly their leases.\<close>

theorem lease_table_refines:
  assumes "stripe_lease_table_init oom = Some t" "clock_ok 0 ops"
  shows "lease_run t ops = lease_spec_run Map.empty ops"
  by (rule lease_run_sim [OF lease_rel_init [OF assms(1)] assms(2)])

definition w_lease_ops :: "lease_op list" where
  "w_lease_ops = [L_acquire False 10 7 1 0 3 0 100 1, L_check 11 7 2 3 50 100, L_check 11 7 1 3 50 100,
     L_check 2000000 7 2 3 50 100, L_acquire True 2000000 7 1 0 3 0 100 1]"

theorem lease_table_refines_witness:
  "lease_spec_run Map.empty w_lease_ops = [R_int 0, R_bool True, R_bool False, R_bool False, R_int (-1)]"
proof -
  have i: "stripe_lease_table_init False = Some (replicate SLT_SHARD_COUNT [])" by (simp add: stripe_lease_table_init_def)
  have c: "clock_ok 0 w_lease_ops" by (simp add: w_lease_ops_def)
  have "lease_run (replicate SLT_SHARD_COUNT []) w_lease_ops = [R_int 0, R_bool True, R_bool False, R_bool False, R_int (-1)]" by code_simp
  then show ?thesis using lease_table_refines [OF i c] by simp
qed

section \<open>Exclusive writers\<close>

text \<open>C34. As long as no LAYOUTGET passes the conflict gate while another one is between its gate and its leases, two live
  leases of different clients on the same stripe of a file never share a byte: after any sequence of LAYOUTGETs,
  granted, narrowed, refused or failed later, and LAYOUTRETURNs, whatever allocations fail, with a monotonic clock.\<close>

theorem leases_exclusive:
  assumes "mono clk" "lg_serial cfg clk oom es lease_sys_init" and s: "s = lg_run cfg clk oom es lease_sys_init"
    and "e \<in> live (clk (ls_tick s)) (ls_table s)" "e' \<in> live (clk (ls_tick s)) (ls_table s)"
    and "le_fileid e = le_fileid e'" "le_stripe_index e = le_stripe_index e'" "le_clientid e \<noteq> le_clientid e'"
  shows "lease_bytes (le_ds_offset e) (le_ds_length e) \<inter> lease_bytes (le_ds_offset e') (le_ds_length e') = {}"
  using lease_inv_run [OF assms(1) lease_inv_init assms(2)] assms(4-) unfolding s lease_inv_def exclusive_def by blast

definition w_lcfg :: layout_cfg where
  "w_lcfg = \<lparr>lc_slt = True, lc_stripe_lease_duration_ms = 30000, lc_stripe_unit = 65536, lc_auto_widen_lease_on_4k = True,
     lc_grant_max_length = 68719476736\<rparr>"

definition w_get :: "nat \<Rightarrow> u64 \<Rightarrow> u64 \<Rightarrow> lg_request" where
  "w_get i client off = \<lparr>rq_id = i, rq_arg = \<lparr>lg_offset = off, lg_length = 65536, lg_minlength = 65536\<rparr>, rq_size = 0, rq_hpc = True,
     rq_fileid = 7, rq_clientid = client\<rparr>"

definition w_lease :: "u64 \<Rightarrow> u64 \<Rightarrow> u64 \<Rightarrow> u32 \<Rightarrow> slt_entry" where
  "w_lease client off len stripe = \<lparr>le_fileid = 7, le_clientid = client, le_ds_offset = off, le_ds_length = len,
     le_expiry_ns = 30000000005, le_stripe_index = stripe, le_ds_id = 0\<rparr>"

definition w_serial :: "lg_event list" where
  "w_serial = [E_get (w_get 1 1 98304), E_take 1, E_get (w_get 2 2 32768), E_take 2]"

theorem leases_exclusive_witness:
  "lease_bytes 0 32768 \<inter> lease_bytes 32768 32768 = {} \<and>
   {w_lease 2 0 32768 1, w_lease 1 32768 32768 1} \<subseteq>
     live 5 (ls_table (lg_run w_lcfg (\<lambda>_. 5) (\<lambda>_. False) w_serial lease_sys_init))"
proof -
  let ?s = "lg_run w_lcfg (\<lambda>_. 5) (\<lambda>_. False) w_serial lease_sys_init"
  have m: "mono (\<lambda>_ :: nat. 5 :: u64)" by (simp add: mono_def)
  have ser: "lg_serial w_lcfg (\<lambda>_. 5) (\<lambda>_. False) w_serial lease_sys_init" by code_simp
  have "list_all (\<lambda>e. e \<in> set (concat (ls_table ?s))) [w_lease 2 0 32768 1, w_lease 1 32768 32768 1]" by code_simp
  then have l: "w_lease 2 0 32768 1 \<in> live 5 (ls_table ?s)" "w_lease 1 32768 32768 1 \<in> live 5 (ls_table ?s)"
    by (simp_all add: live_def leases_def w_lease_def)
  show ?thesis using leases_exclusive [OF m ser refl l] l by (simp add: w_lease_def)
qed


section \<open>Wide leases\<close>






end
