(* ===== verification/Deleg_State.thy ===== *)
theory Deleg_State
  imports Session_State Fdb_Coord
begin

text \<open>
  File delegations, \<^verbatim>\<open>src/mds/delegation.c\<close>, and the block of OPEN that recalls and grants them,
  \<^verbatim>\<open>src/mds/compound_data_io.c\<close>. The table is 4096 chains of grants, the list of revoked stateids and the ledger of
  unanswered recalls. An entry is reached through its chain only, so a chain is the list of its entries.

  What a call meets outside is the record \<open>deleg_env\<close>: the session table, which connections still have a usable
  descriptor, the generation that the catalogue reports for an inode, the clock, the allocations that fail, and the
  result of a callback. The clock is read once per call. The callbacks sent are returned as the list of their arguments. Writes to the shared
  delegation table are recorded in order in \<open>dt_calls\<close>. The fields \<^verbatim>\<open>session\<close>, \<^verbatim>\<open>recall_pending\<close> and \<^verbatim>\<open>recall_sent_ns\<close> of an
  entry are never read and are left out. The worker thread that calls \<open>deleg_resend_pending_recalls\<close> up to five times
  is not modelled.
\<close>

section \<open>Data\<close>

abbreviation DELEG_HASH_SIZE :: nat where "DELEG_HASH_SIZE \<equiv> 4096"
abbreviation DELEG_RECALL_MAX_PER_FILE :: nat where "DELEG_RECALL_MAX_PER_FILE \<equiv> 64"
abbreviation DELEG_RECALL_DEFAULT_MS :: u32 where "DELEG_RECALL_DEFAULT_MS \<equiv> 5000"
abbreviation DELEG_PENDING_RECALL_TTL_NS :: u64 where "DELEG_PENDING_RECALL_TTL_NS \<equiv> 90000000000"
abbreviation DELEG_PENDING_RESEND_MAX :: u32 where "DELEG_PENDING_RESEND_MAX \<equiv> 8"
abbreviation DELEG_PENDING_RESEND_BATCH :: nat where "DELEG_PENDING_RESEND_BATCH \<equiv> 16"
abbreviation OPEN_DELEGATE_NONE :: u32 where "OPEN_DELEGATE_NONE \<equiv> 0"
abbreviation OPEN_DELEGATE_READ :: u32 where "OPEN_DELEGATE_READ \<equiv> 1"
abbreviation OPEN_DELEGATE_WRITE :: u32 where "OPEN_DELEGATE_WRITE \<equiv> 2"
abbreviation WND4_NOT_WANTED :: u32 where "WND4_NOT_WANTED \<equiv> 0"
abbreviation WND4_CONTENTION :: u32 where "WND4_CONTENTION \<equiv> 1"
abbreviation WND4_RESOURCE :: u32 where "WND4_RESOURCE \<equiv> 2"

record deleg_entry =
  dg_stateid :: nfs4_stateid
  dg_clientid :: u64
  dg_fileid :: u64
  dg_type :: u32

record deleg_revoked_entry =
  rk_other :: bytes
  rk_clientid :: u64

record deleg_pending_recall =
  pr_stateid :: nfs4_stateid
  pr_clientid :: u64
  pr_fileid :: u64
  pr_recorded_ns :: u64
  pr_resend_count :: u32

record deleg_recall_target =
  tg_stateid :: nfs4_stateid
  tg_clientid :: u64
  tg_fileid :: u64

record deleg_cb_lookup_ctx =
  lk_session_id :: bytes
  lk_cb_prog :: u32
  lk_slot_seq_id :: u32
  lk_num_cb_slots :: u32
  lk_minorversion :: u32
  lk_cb_sec :: nfs4_cb_sec

text \<open>The arguments of one \<^verbatim>\<open>nfs4_cb_recall_fd\<close>.\<close>

record cb_recall =
  cb_lookup :: deleg_cb_lookup_ctx
  cb_stateid :: nfs4_stateid
  cb_fileid :: u64
  cb_owner_mds_id :: u32
  cb_generation :: u32
  cb_timeout_ms :: u32

datatype deleg_call = DelegPut mds_coord_deleg_row | DelegDel bytes

record deleg_table =
  dt_buckets :: "nat \<Rightarrow> deleg_entry list"
  dt_mds_id :: u32
  dt_sid_counter :: u64
  dt_cat :: bool
  dt_st :: bool
  dt_boot_epoch :: u64
  dt_skip_transient :: bool
  dt_revoked :: "deleg_revoked_entry list"
  dt_pending :: "deleg_pending_recall list"
  dt_calls :: "deleg_call list"

record deleg_env =
  ev_st :: session_table
  ev_usable :: "conn option \<Rightarrow> bool"
  ev_generation :: "u64 \<Rightarrow> u64 option"
  ev_now :: u64
  ev_oom_revoked :: "bytes \<Rightarrow> bool"
  ev_oom_pending :: "bytes \<Rightarrow> bool"
  ev_cb_rc :: "cb_recall \<Rightarrow> int"

section \<open>Backchannel lookup\<close>

definition deleg_cb_lookup_cb ::
  "(conn option \<Rightarrow> bool) \<Rightarrow> u64 \<Rightarrow> deleg_cb_lookup_ctx option \<Rightarrow> session_cb_snap \<Rightarrow> deleg_cb_lookup_ctx option \<times> int" where
  "deleg_cb_lookup_cb usable want_clientid ctx snap =
     (case ctx of
        Some l \<Rightarrow> (Some l, 1)
      | None \<Rightarrow>
          if sn_clientid snap \<noteq> want_clientid then (None, 0)
          else if \<not> usable (sn_cb_conn snap) then (None, 0)
          else (Some \<lparr>lk_session_id = sn_session_id snap, lk_cb_prog = sn_cb_prog snap, lk_slot_seq_id = sn_slot_seq_id snap,
                      lk_num_cb_slots = 1, lk_minorversion = sn_minorversion snap, lk_cb_sec = sn_cb_sec snap\<rparr>, 1))"

definition deleg_find_backchannel :: "deleg_env \<Rightarrow> session_table \<Rightarrow> u64 \<Rightarrow> session_table \<times> deleg_cb_lookup_ctx option" where
  "deleg_find_backchannel env st clientid =
     (case session_for_each_with_cb st (deleg_cb_lookup_cb (ev_usable env) clientid) None of (st', ctx, rc) \<Rightarrow> (st', ctx))"

definition deleg_fh_identity :: "deleg_env \<Rightarrow> deleg_table \<Rightarrow> u64 \<Rightarrow> u32 \<times> u32" where
  "deleg_fh_identity env dt fileid =
     (if \<not> dt_cat dt \<or> dt_mds_id dt = 0 then (0, 0)
      else case ev_generation env fileid of None \<Rightarrow> (0, 0) | Some g \<Rightarrow> (dt_mds_id dt, ucast g))"

section \<open>The table\<close>

definition deleg_hash :: "u64 \<Rightarrow> nat" where
  "deleg_hash fileid =
     (let h1 = (fileid XOR drop_bit 30 fileid) * 0xbf58476d1ce4e5b9;
          h2 = (h1 XOR drop_bit 27 h1) * 0x94d049bb133111eb;
          h3 = h2 XOR drop_bit 31 h2
      in unat (ucast (h3 mod 4096) :: u32))"

definition deleg_table_init :: "bool \<Rightarrow> u32 \<Rightarrow> deleg_table option" where
  "deleg_table_init oom mds_id =
     (if oom then None
      else Some \<lparr>dt_buckets = (\<lambda>_. []), dt_mds_id = mds_id, dt_sid_counter = 1, dt_cat = False, dt_st = False, dt_boot_epoch = 0,
                 dt_skip_transient = False, dt_revoked = [], dt_pending = [], dt_calls = []\<rparr>)"

definition deleg_table_set_cat :: "deleg_table \<Rightarrow> bool \<Rightarrow> u64 \<Rightarrow> deleg_table" where
  "deleg_table_set_cat dt cat epoch = dt\<lparr>dt_cat := cat, dt_boot_epoch := epoch\<rparr>"

definition deleg_table_set_session_table :: "deleg_table \<Rightarrow> bool \<Rightarrow> deleg_table" where
  "deleg_table_set_session_table dt st = dt\<lparr>dt_st := st\<rparr>"

definition deleg_table_set_skip_transient :: "deleg_table \<Rightarrow> bool \<Rightarrow> deleg_table" where
  "deleg_table_set_skip_transient dt skip = dt\<lparr>dt_skip_transient := skip\<rparr>"

definition make_deleg_stateid :: "deleg_table \<Rightarrow> deleg_table \<times> nfs4_stateid" where
  "make_deleg_stateid dt =
     (dt\<lparr>dt_sid_counter := dt_sid_counter dt + 1\<rparr>,
      \<lparr>seqid = 1, other = be_bytes 4 (dt_mds_id dt) @ be_bytes 8 (dt_sid_counter dt)\<rparr>)"

definition set_bucket :: "deleg_table \<Rightarrow> nat \<Rightarrow> deleg_entry list \<Rightarrow> deleg_table" where
  "set_bucket dt b ch = dt\<lparr>dt_buckets := (dt_buckets dt)(b := ch)\<rparr>"

definition deleg_call_if :: "bool \<Rightarrow> deleg_call \<Rightarrow> deleg_table \<Rightarrow> deleg_table" where
  "deleg_call_if on c dt = (if on then dt\<lparr>dt_calls := dt_calls dt @ [c]\<rparr> else dt)"

definition deleg_grant :: "bool \<Rightarrow> u64 \<Rightarrow> deleg_table \<Rightarrow> u64 \<Rightarrow> u64 \<Rightarrow> u32 \<Rightarrow> deleg_table \<times> int \<times> nfs4_stateid option" where
  "deleg_grant oom realtime dt clientid fileid deleg_type =
     (if deleg_type \<noteq> OPEN_DELEGATE_READ \<and> deleg_type \<noteq> OPEN_DELEGATE_WRITE then (dt, -1, None)
      else if oom then (dt, -1, None)
      else
        (let (dt1, sid) = make_deleg_stateid dt;
             e = \<lparr>dg_stateid = sid, dg_clientid = clientid, dg_fileid = fileid, dg_type = deleg_type\<rparr>;
             b = deleg_hash fileid;
             dt2 = set_bucket dt1 b (e # dt_buckets dt1 b);
             row = \<lparr>dr_stateid_other = other sid, dr_seqid = seqid sid, dr_clientid = clientid, dr_fileid = fileid,
                    dr_deleg_type = deleg_type, dr_owner_mds_id = dt_mds_id dt, dr_owner_boot_epoch = dt_boot_epoch dt,
                    dr_grant_time_ns = realtime, dr_recall_pending = 0\<rparr>
         in (deleg_call_if (dt_cat dt \<and> \<not> dt_skip_transient dt) (DelegPut row) dt2, 0, Some sid)))"

section \<open>The ledger\<close>

definition deleg_pending_record :: "deleg_env \<Rightarrow> deleg_recall_target \<Rightarrow> deleg_table \<Rightarrow> deleg_table" where
  "deleg_pending_record env t dt =
     (if ev_oom_pending env (other (tg_stateid t)) then dt
      else dt\<lparr>dt_pending := \<lparr>pr_stateid = tg_stateid t, pr_clientid = tg_clientid t, pr_fileid = tg_fileid t,
                             pr_recorded_ns = ev_now env, pr_resend_count = 0\<rparr> # dt_pending dt\<rparr>)"

definition deleg_pending_clear_stateid :: "bytes \<Rightarrow> deleg_table \<Rightarrow> deleg_table" where
  "deleg_pending_clear_stateid oth dt = dt\<lparr>dt_pending := filter (\<lambda>p. other (pr_stateid p) \<noteq> oth) (dt_pending dt)\<rparr>"

definition deleg_pending_clear_client :: "u64 \<Rightarrow> deleg_table \<Rightarrow> deleg_table" where
  "deleg_pending_clear_client clientid dt = dt\<lparr>dt_pending := filter (\<lambda>p. pr_clientid p \<noteq> clientid) (dt_pending dt)\<rparr>"

definition deleg_has_pending_recall :: "deleg_table \<Rightarrow> u64 \<Rightarrow> bool" where
  "deleg_has_pending_recall dt clientid = list_ex (\<lambda>p. pr_clientid p = clientid) (dt_pending dt)"

section \<open>Return, conflict, recall\<close>

fun remove_grant :: "bytes \<Rightarrow> u64 \<Rightarrow> deleg_entry list \<Rightarrow> deleg_entry list option" where
  "remove_grant oth clientid [] = None"
| "remove_grant oth clientid (e # es) =
     (if other (dg_stateid e) = oth \<and> dg_clientid e = clientid then Some es
      else map_option ((#) e) (remove_grant oth clientid es))"

fun return_scan :: "deleg_table \<Rightarrow> bytes \<Rightarrow> u64 \<Rightarrow> nat list \<Rightarrow> deleg_table option" where
  "return_scan dt oth clientid [] = None"
| "return_scan dt oth clientid (b # bs) =
     (case remove_grant oth clientid (dt_buckets dt b) of
        Some ch \<Rightarrow> Some (deleg_call_if (dt_cat dt) (DelegDel oth) (set_bucket dt b ch))
      | None \<Rightarrow> return_scan dt oth clientid bs)"

definition deleg_return :: "deleg_table \<Rightarrow> nfs4_stateid \<Rightarrow> u64 \<Rightarrow> deleg_table \<times> int" where
  "deleg_return dt sid clientid =
     (let dt1 = deleg_pending_clear_stateid (other sid) dt
      in case return_scan dt1 (other sid) clientid [0 ..< DELEG_HASH_SIZE] of Some dt2 \<Rightarrow> (dt2, 0) | None \<Rightarrow> (dt1, -1))"

definition deleg_check_conflict :: "deleg_table \<Rightarrow> u64 \<Rightarrow> u64 \<Rightarrow> bool" where
  "deleg_check_conflict dt fileid clientid =
     list_ex (\<lambda>e. dg_fileid e = fileid \<and> dg_clientid e \<noteq> clientid) (dt_buckets dt (deleg_hash fileid))"

definition deleg_revoked_add :: "deleg_env \<Rightarrow> deleg_entry \<Rightarrow> deleg_table \<Rightarrow> deleg_table" where
  "deleg_revoked_add env e dt =
     (if ev_oom_revoked env (other (dg_stateid e)) then dt
      else dt\<lparr>dt_revoked := \<lparr>rk_other = other (dg_stateid e), rk_clientid = dg_clientid e\<rparr> # dt_revoked dt\<rparr>)"

text \<open>One pass over the chain: the entries that stay and, in order, those that are detached.\<close>

fun detach_loop :: "u64 \<Rightarrow> u64 \<Rightarrow> nat \<Rightarrow> deleg_entry list \<Rightarrow> deleg_entry list \<times> deleg_entry list" where
  "detach_loop fileid clientid room [] = ([], [])"
| "detach_loop fileid clientid room (e # es) =
     (if dg_fileid e \<noteq> fileid \<or> dg_clientid e = clientid then
        (let (keep, det) = detach_loop fileid clientid room es in (e # keep, det))
      else if 0 < room then
        (let (keep, det) = detach_loop fileid clientid (room - 1) es in (keep, e # det))
      else (e # es, []))"

definition detach_one :: "deleg_env \<Rightarrow> deleg_entry \<Rightarrow> deleg_table \<Rightarrow> deleg_table" where
  "detach_one env e dt =
     deleg_revoked_add env e (deleg_call_if (dt_cat dt \<and> \<not> dt_skip_transient dt) (DelegDel (other (dg_stateid e))) dt)"

definition target_of :: "deleg_entry \<Rightarrow> deleg_recall_target" where
  "target_of e = \<lparr>tg_stateid = dg_stateid e, tg_clientid = dg_clientid e, tg_fileid = dg_fileid e\<rparr>"

definition deleg_recall_detach :: "deleg_env \<Rightarrow> deleg_table \<Rightarrow> u64 \<Rightarrow> u64 \<Rightarrow> nat \<Rightarrow> deleg_table \<times> deleg_recall_target list" where
  "deleg_recall_detach env dt fileid clientid cap =
     (let b = deleg_hash fileid; (keep, det) = detach_loop fileid clientid cap (dt_buckets dt b)
      in (fold (detach_one env) det (set_bucket dt b keep), map target_of det))"

definition recall_args :: "deleg_env \<Rightarrow> deleg_table \<Rightarrow> deleg_cb_lookup_ctx \<Rightarrow> nfs4_stateid \<Rightarrow> u64 \<Rightarrow> u32 \<Rightarrow> cb_recall" where
  "recall_args env dt l sid fileid timeout_ms =
     (let (owner, gen) = deleg_fh_identity env dt fileid
      in \<lparr>cb_lookup = l, cb_stateid = sid, cb_fileid = fileid, cb_owner_mds_id = owner, cb_generation = gen, cb_timeout_ms = timeout_ms\<rparr>)"

definition deleg_recall_send_one :: "deleg_env \<Rightarrow> deleg_table \<Rightarrow> u32 \<Rightarrow> deleg_recall_target \<Rightarrow> session_table \<Rightarrow> session_table \<times> cb_recall list" where
  "deleg_recall_send_one env dt timeout_ms t st =
     (case deleg_find_backchannel env st (tg_clientid t) of
        (st', None) \<Rightarrow> (st', [])
      | (st', Some l) \<Rightarrow> (st', [recall_args env dt l (tg_stateid t) (tg_fileid t) timeout_ms]))"

fun recall_send_all :: "deleg_env \<Rightarrow> deleg_table \<Rightarrow> u32 \<Rightarrow> deleg_recall_target list \<Rightarrow> session_table \<Rightarrow> session_table \<times> cb_recall list" where
  "recall_send_all env dt timeout_ms [] st = (st, [])"
| "recall_send_all env dt timeout_ms (t # ts) st =
     (let (st1, c1) = deleg_recall_send_one env dt timeout_ms t st; (st2, cs) = recall_send_all env dt timeout_ms ts st1
      in (st2, c1 @ cs))"

definition deleg_recall_file :: "deleg_env \<Rightarrow> deleg_table \<Rightarrow> u64 \<Rightarrow> u64 \<Rightarrow> u32 \<Rightarrow> deleg_table \<times> session_table \<times> cb_recall list \<times> int" where
  "deleg_recall_file env dt fileid clientid timeout_ms =
     (let tmo = (if timeout_ms = 0 then DELEG_RECALL_DEFAULT_MS else timeout_ms);
          (dt1, targets) = deleg_recall_detach env dt fileid clientid DELEG_RECALL_MAX_PER_FILE;
          dt2 = fold (deleg_pending_record env) targets dt1
      in if \<not> dt_st dt2 then (dt2, ev_st env, [], int (length targets))
         else case recall_send_all env dt2 tmo targets (ev_st env) of (st, cs) \<Rightarrow> (dt2, st, cs, int (length targets)))"

section \<open>Retransmission\<close>

definition recall_stale :: "u64 \<Rightarrow> deleg_pending_recall \<Rightarrow> bool" where
  "recall_stale now p \<longleftrightarrow> now - pr_recorded_ns p > DELEG_PENDING_RECALL_TTL_NS \<or> pr_resend_count p > DELEG_PENDING_RESEND_MAX"

fun resend_scan :: "u64 \<Rightarrow> u64 \<Rightarrow> nat \<Rightarrow> deleg_pending_recall list \<Rightarrow> deleg_pending_recall list \<times> deleg_pending_recall list" where
  "resend_scan now clientid room [] = ([], [])"
| "resend_scan now clientid room (p # ps) =
     (if recall_stale now p then resend_scan now clientid room ps
      else if pr_clientid p = clientid \<and> 0 < room then
        (let p' = p\<lparr>pr_resend_count := pr_resend_count p + 1\<rparr>; (keep, snap) = resend_scan now clientid (room - 1) ps
         in (p' # keep, p' # snap))
      else (let (keep, snap) = resend_scan now clientid room ps in (p # keep, snap)))"

fun resend_all :: "deleg_env \<Rightarrow> deleg_table \<Rightarrow> u64 \<Rightarrow> deleg_pending_recall list \<Rightarrow> session_table \<Rightarrow> session_table \<times> cb_recall list" where
  "resend_all env dt clientid [] st = (st, [])"
| "resend_all env dt clientid (p # ps) st =
     (case deleg_find_backchannel env st clientid of
        (st1, None) \<Rightarrow> (st1, [])
      | (st1, Some l) \<Rightarrow>
          (let c = recall_args env dt l (pr_stateid p) (pr_fileid p) 3000; (st2, cs) = resend_all env dt clientid ps st1
           in (st2, c # cs)))"

definition deleg_resend_pending_recalls :: "deleg_env \<Rightarrow> deleg_table \<Rightarrow> u64 \<Rightarrow> deleg_table \<times> session_table \<times> cb_recall list \<times> int" where
  "deleg_resend_pending_recalls env dt clientid =
     (let (keep, snap) = resend_scan (ev_now env) clientid DELEG_PENDING_RESEND_BATCH (dt_pending dt);
          dt1 = dt\<lparr>dt_pending := keep\<rparr>
      in if snap = [] \<or> \<not> dt_st dt1 then (dt1, ev_st env, [], 0)
         else case resend_all env dt1 clientid snap (ev_st env) of
                (st, cs) \<Rightarrow> (dt1, st, cs, int (length (filter (\<lambda>c. ev_cb_rc env c = 0) cs))))"

section \<open>Revocation and stateids\<close>

definition deleg_revoke_client :: "deleg_table \<Rightarrow> u64 \<Rightarrow> deleg_table" where
  "deleg_revoke_client dt clientid =
     deleg_pending_clear_client clientid
       (fold (\<lambda>b d. set_bucket d b (filter (\<lambda>e. dg_clientid e \<noteq> clientid) (dt_buckets d b))) [0 ..< DELEG_HASH_SIZE] dt)"

definition deleg_revoke_file :: "deleg_table \<Rightarrow> u64 \<Rightarrow> deleg_table" where
  "deleg_revoke_file dt fileid =
     (let b = deleg_hash fileid; ch = dt_buckets dt b;
          dt1 = set_bucket dt b (filter (\<lambda>e. dg_fileid e \<noteq> fileid) ch)
      in fold (\<lambda>e. deleg_call_if (dt_cat dt \<and> \<not> dt_skip_transient dt) (DelegDel (other (dg_stateid e))))
           (filter (\<lambda>e. dg_fileid e = fileid) ch) dt1)"

definition deleg_is_revoked :: "deleg_table \<Rightarrow> bytes \<Rightarrow> bool" where
  "deleg_is_revoked dt oth = list_ex (\<lambda>r. rk_other r = oth) (dt_revoked dt)"

definition deleg_client_has_revoked :: "deleg_table \<Rightarrow> u64 \<Rightarrow> bool" where
  "deleg_client_has_revoked dt clientid = list_ex (\<lambda>r. rk_clientid r = clientid) (dt_revoked dt)"

fun free_first :: "bytes \<Rightarrow> deleg_revoked_entry list \<Rightarrow> deleg_revoked_entry list option" where
  "free_first oth [] = None"
| "free_first oth (r # rs) = (if rk_other r = oth then Some rs else map_option ((#) r) (free_first oth rs))"

definition deleg_free_revoked :: "deleg_table \<Rightarrow> bytes \<Rightarrow> deleg_table \<times> int" where
  "deleg_free_revoked dt oth =
     (case free_first oth (dt_revoked dt) of
        Some rs \<Rightarrow> (deleg_pending_clear_stateid oth (dt\<lparr>dt_revoked := rs\<rparr>), 0)
      | None \<Rightarrow> (dt, -1))"

definition deleg_stateid_exists :: "deleg_table \<Rightarrow> bytes \<Rightarrow> bool" where
  "deleg_stateid_exists dt oth = list_ex (\<lambda>b. list_ex (\<lambda>e. other (dg_stateid e) = oth) (dt_buckets dt b)) [0 ..< DELEG_HASH_SIZE]"

section \<open>CB_GETATTR\<close>

definition write_holder :: "deleg_table \<Rightarrow> u64 \<Rightarrow> u64 \<Rightarrow> deleg_entry option" where
  "write_holder dt fileid requesting_clientid =
     find (\<lambda>e. dg_fileid e = fileid \<and> dg_type e = OPEN_DELEGATE_WRITE \<and> dg_clientid e \<noteq> requesting_clientid)
       (dt_buckets dt (deleg_hash fileid))"

text \<open>\<open>reply\<close> is the holder's answer to the callback: size and change attribute, or none when it fails.\<close>

definition deleg_cb_getattr_for_file ::
  "deleg_env \<Rightarrow> (deleg_cb_lookup_ctx \<Rightarrow> u64 \<Rightarrow> u32 \<Rightarrow> u32 \<Rightarrow> nfs4_stateid \<Rightarrow> (u64 \<times> u64) option) \<Rightarrow> deleg_table \<Rightarrow> u64 \<Rightarrow> u64 \<Rightarrow>
     session_table \<times> (u64 \<times> u64) option" where
  "deleg_cb_getattr_for_file env reply dt fileid requesting_clientid =
     (if \<not> dt_st dt then (ev_st env, None)
      else case write_holder dt fileid requesting_clientid of
             None \<Rightarrow> (ev_st env, None)
           | Some e \<Rightarrow>
               (case deleg_find_backchannel env (ev_st env) (dg_clientid e) of
                  (st, None) \<Rightarrow> (st, None)
                | (st, Some l) \<Rightarrow>
                    (let (owner, gen) = deleg_fh_identity env dt fileid in (st, reply l fileid owner gen (dg_stateid e)))))"

section \<open>Delegations in OPEN\<close>

abbreviation OPEN4_SHARE_ACCESS_READ :: u32 where "OPEN4_SHARE_ACCESS_READ \<equiv> 1"
abbreviation OPEN4_SHARE_ACCESS_BASIC_MASK :: u32 where "OPEN4_SHARE_ACCESS_BASIC_MASK \<equiv> 0x0003"
abbreviation OPEN4_SHARE_ACCESS_WANT_DELEG_MASK :: u32 where "OPEN4_SHARE_ACCESS_WANT_DELEG_MASK \<equiv> 0xFF00"
abbreviation OPEN4_SHARE_ACCESS_WANT_READ_DELEG :: u32 where "OPEN4_SHARE_ACCESS_WANT_READ_DELEG \<equiv> 0x0100"
abbreviation OPEN4_SHARE_ACCESS_WANT_WRITE_DELEG :: u32 where "OPEN4_SHARE_ACCESS_WANT_WRITE_DELEG \<equiv> 0x0200"
abbreviation OPEN4_SHARE_ACCESS_WANT_NO_DELEG :: u32 where "OPEN4_SHARE_ACCESS_WANT_NO_DELEG \<equiv> 0x0400"
abbreviation OPEN4_SHARE_ACCESS_WANT_CANCEL :: u32 where "OPEN4_SHARE_ACCESS_WANT_CANCEL \<equiv> 0x0500"

definition open_deleg_type :: "u32 \<Rightarrow> u32" where
  "open_deleg_type share_access =
     (let want_hint = share_access AND OPEN4_SHARE_ACCESS_WANT_DELEG_MASK;
          basic = share_access AND OPEN4_SHARE_ACCESS_BASIC_MASK;
          want_read = basic AND OPEN4_SHARE_ACCESS_READ;
          want_write = basic AND OPEN4_SHARE_ACCESS_WRITE
      in if want_hint = OPEN4_SHARE_ACCESS_WANT_READ_DELEG then (if want_read \<noteq> 0 then OPEN_DELEGATE_READ else OPEN_DELEGATE_NONE)
         else if want_hint = OPEN4_SHARE_ACCESS_WANT_WRITE_DELEG then (if want_write \<noteq> 0 then OPEN_DELEGATE_WRITE else OPEN_DELEGATE_NONE)
         else if want_write \<noteq> 0 then OPEN_DELEGATE_WRITE
         else if want_read \<noteq> 0 then OPEN_DELEGATE_READ
         else OPEN_DELEGATE_NONE)"

text \<open>The checks between recall and grant: the reason to decline, or the type to grant.\<close>

definition open_deleg_probe :: "deleg_table \<Rightarrow> bool \<Rightarrow> open_state_table option \<Rightarrow> u64 \<Rightarrow> u64 \<Rightarrow> u32 \<Rightarrow> u32 + u32" where
  "open_deleg_probe dt st_wired ot clientid fileid share_access =
     (let want_hint = share_access AND OPEN4_SHARE_ACCESS_WANT_DELEG_MASK
      in if \<not> st_wired then Inl WND4_RESOURCE
         else if want_hint = OPEN4_SHARE_ACCESS_WANT_NO_DELEG \<or> want_hint = OPEN4_SHARE_ACCESS_WANT_CANCEL then Inl WND4_NOT_WANTED
         else if (case ot of None \<Rightarrow> False | Some ot \<Rightarrow> open_state_has_other_writer ot fileid clientid) then Inl WND4_CONTENTION
         else if deleg_check_conflict dt fileid clientid then Inl WND4_CONTENTION
         else if open_deleg_type share_access = OPEN_DELEGATE_NONE then Inl WND4_NOT_WANTED
         else Inr (open_deleg_type share_access))"

text \<open>The reply: delegation type, reason for none, stateid.\<close>

definition open_deleg_grant :: "bool \<Rightarrow> u64 \<Rightarrow> deleg_table \<Rightarrow> u64 \<Rightarrow> u64 \<Rightarrow> u32 + u32 \<Rightarrow> deleg_table \<times> u32 \<times> u32 \<times> nfs4_stateid option" where
  "open_deleg_grant oom realtime dt clientid fileid decision =
     (case decision of
        Inl reason \<Rightarrow> (dt, OPEN_DELEGATE_NONE, reason, None)
      | Inr ty \<Rightarrow>
          (case deleg_grant oom realtime dt clientid fileid ty of
             (dt', rc, sid) \<Rightarrow>
               if rc = 0 then (dt', ty, WND4_NOT_WANTED, sid) else (dt', OPEN_DELEGATE_NONE, WND4_RESOURCE, None)))"

definition open_delegation ::
  "deleg_env \<Rightarrow> bool \<Rightarrow> u64 \<Rightarrow> deleg_table \<Rightarrow> bool \<Rightarrow> open_state_table option \<Rightarrow> u64 \<Rightarrow> u64 \<Rightarrow> u32 \<Rightarrow>
     deleg_table \<times> session_table \<times> cb_recall list \<times> u32 \<times> u32 \<times> nfs4_stateid option" where
  "open_delegation env oom realtime dt st_wired ot clientid fileid share_access =
     (case deleg_recall_file env dt fileid clientid 0 of
        (dt1, st, cs, n) \<Rightarrow>
          (case open_deleg_grant oom realtime dt1 clientid fileid (open_deleg_probe dt1 st_wired ot clientid fileid share_access) of
             (dt2, ty, reason, sid) \<Rightarrow> (dt2, st, cs, ty, reason, sid)))"

section \<open>Runs\<close>

text \<open>
  One step is one call. Between two calls the session table and the open table may have changed in any way, so each
  carries the tables it meets. \<open>D_open\<close> is the whole block of OPEN when no other call comes in between; \<open>D_recall\<close> and
  \<open>D_grant\<close> are its parts, for interleavings.
\<close>

datatype deleg_op =
    D_open deleg_env bool u64 bool "open_state_table option" u64 u64 u32
  | D_recall deleg_env u64 u64 u32
  | D_grant bool u64 u64 u64 u32
  | D_return nfs4_stateid u64
  | D_resend deleg_env u64
  | D_revoke_client u64
  | D_revoke_file u64
  | D_free bytes
  | D_set_cat bool u64
  | D_set_session bool
  | D_set_skip bool

fun deleg_step :: "deleg_op \<Rightarrow> deleg_table \<Rightarrow> deleg_table" where
  "deleg_step (D_open env oom rt wired ot c f acc) dt = fst (open_delegation env oom rt dt wired ot c f acc)"
| "deleg_step (D_recall env f c tmo) dt = fst (deleg_recall_file env dt f c tmo)"
| "deleg_step (D_grant oom rt c f ty) dt = fst (deleg_grant oom rt dt c f ty)"
| "deleg_step (D_return sid c) dt = fst (deleg_return dt sid c)"
| "deleg_step (D_resend env c) dt = fst (deleg_resend_pending_recalls env dt c)"
| "deleg_step (D_revoke_client c) dt = deleg_revoke_client dt c"
| "deleg_step (D_revoke_file f) dt = deleg_revoke_file dt f"
| "deleg_step (D_free oth) dt = fst (deleg_free_revoked dt oth)"
| "deleg_step (D_set_cat cat ep) dt = deleg_table_set_cat dt cat ep"
| "deleg_step (D_set_session st) dt = deleg_table_set_session_table dt st"
| "deleg_step (D_set_skip skip) dt = deleg_table_set_skip_transient dt skip"

definition deleg_run :: "deleg_table \<Rightarrow> deleg_op list \<Rightarrow> deleg_table" where
  "deleg_run dt ops = fold deleg_step ops dt"

end
