(* ===== verification/Deleg_Inv.thy ===== *)
theory Deleg_Inv
  imports Deleg_State Open_Inv
begin

text \<open>
  The invariant of the delegation table: every grant is on the chain of its file, stateids are minted once, and a
  stateid that was revoked or whose recall is in the ledger is no longer granted. Each operation is described by what it
  does to the set of grants, and keeps the invariant.
\<close>

section \<open>The invariant\<close>

abbreviation dg_other :: "deleg_entry \<Rightarrow> bytes" where
  "dg_other e \<equiv> other (dg_stateid e)"

definition grants :: "deleg_table \<Rightarrow> deleg_entry set" where
  "grants dt = (\<Union>b. set (dt_buckets dt b))"

definition gone :: "deleg_table \<Rightarrow> bytes set" where
  "gone dt = rk_other ` set (dt_revoked dt) \<union> (\<lambda>p. other (pr_stateid p)) ` set (dt_pending dt)"

text \<open>\<open>n\<close> stateids have been minted.\<close>

definition dl_wf :: "nat \<Rightarrow> deleg_table \<Rightarrow> bool" where
  "dl_wf n dt \<longleftrightarrow> dt_sid_counter dt = 1 + of_nat n \<and>
     (\<forall>b. distinct (dt_buckets dt b) \<and> (\<forall>e \<in> set (dt_buckets dt b). deleg_hash (dg_fileid e) = b)) \<and>
     inj_on dg_other (grants dt) \<and> gone dt \<inter> dg_other ` grants dt = {} \<and>
     (\<forall>oth \<in> gone dt \<union> dg_other ` grants dt. sid_minted (dt_mds_id dt) 1 n oth) \<and>
     (\<forall>p \<in> set (dt_pending dt). pr_resend_count p \<le> DELEG_PENDING_RESEND_MAX + 1)"

lemma deleg_hash_less: "deleg_hash f < DELEG_HASH_SIZE"
proof -
  have "unat (x mod 4096) < 4096" for x :: u64 by (simp add: unat_mod)
  then show ?thesis unfolding deleg_hash_def Let_def
    by (simp add: unsigned_ucast_eq take_bit_eq_mod) (meson mod_less_eq_dividend order_le_less_trans)
qed

lemma dl_wfD:
  assumes "dl_wf n dt"
  shows "dt_sid_counter dt = 1 + of_nat n" "distinct (dt_buckets dt b)" "e \<in> set (dt_buckets dt b) \<Longrightarrow> deleg_hash (dg_fileid e) = b"
    "inj_on dg_other (grants dt)" "gone dt \<inter> dg_other ` grants dt = {}"
    "oth \<in> gone dt \<Longrightarrow> sid_minted (dt_mds_id dt) 1 n oth" "e \<in> grants dt \<Longrightarrow> sid_minted (dt_mds_id dt) 1 n (dg_other e)"
    "p \<in> set (dt_pending dt) \<Longrightarrow> pr_resend_count p \<le> DELEG_PENDING_RESEND_MAX + 1"
  using assms by (auto simp: dl_wf_def)

lemma bucket_grants:
  assumes "dl_wf n dt"
  shows "set (dt_buckets dt b) = {e \<in> grants dt. deleg_hash (dg_fileid e) = b}"
  using dl_wfD(3) [OF assms] by (auto simp: grants_def)

lemma grants_set_bucket:
  assumes "dl_wf n dt"
  shows "grants (set_bucket dt b ch) = {e \<in> grants dt. deleg_hash (dg_fileid e) \<noteq> b} \<union> set ch"
  using dl_wfD(3) [OF assms] by (auto simp: grants_def set_bucket_def split: if_splits)

lemma frame_simps [simp]:
  "dt_buckets (deleg_call_if on c dt) = dt_buckets dt" "dt_mds_id (deleg_call_if on c dt) = dt_mds_id dt"
  "dt_sid_counter (deleg_call_if on c dt) = dt_sid_counter dt" "dt_revoked (deleg_call_if on c dt) = dt_revoked dt"
  "dt_pending (deleg_call_if on c dt) = dt_pending dt" "dt_cat (deleg_call_if on c dt) = dt_cat dt" "dt_st (deleg_call_if on c dt) = dt_st dt"
  "dt_skip_transient (deleg_call_if on c dt) = dt_skip_transient dt"
  "dt_mds_id (set_bucket dt b ch) = dt_mds_id dt" "dt_sid_counter (set_bucket dt b ch) = dt_sid_counter dt"
  "dt_revoked (set_bucket dt b ch) = dt_revoked dt" "dt_pending (set_bucket dt b ch) = dt_pending dt" "dt_st (set_bucket dt b ch) = dt_st dt"
  "dt_buckets (set_bucket dt b ch) = (dt_buckets dt)(b := ch)"
  by (simp_all add: deleg_call_if_def set_bucket_def)

lemma grants_cong: "dt_buckets dt' = dt_buckets dt \<Longrightarrow> grants dt' = grants dt"
  by (simp add: grants_def)

text \<open>Grants go, stateids of departed grants or of gone ones may be recorded as gone.\<close>

lemma dl_wf_shrink:
  assumes wf: "dl_wf n dt" and c: "dt_sid_counter dt' = dt_sid_counter dt" "dt_mds_id dt' = dt_mds_id dt"
    and b: "\<And>b. distinct (dt_buckets dt' b)" "\<And>b. set (dt_buckets dt' b) \<subseteq> set (dt_buckets dt b)"
    and g: "gone dt' \<subseteq> gone dt \<union> (dg_other ` grants dt - dg_other ` grants dt')"
    and p: "\<And>p. p \<in> set (dt_pending dt') \<Longrightarrow> pr_resend_count p \<le> DELEG_PENDING_RESEND_MAX + 1"
  shows "dl_wf n dt'"
proof -
  have s: "grants dt' \<subseteq> grants dt" using b(2) by (auto simp: grants_def)
  then have "inj_on dg_other (grants dt')" using dl_wfD(4) [OF wf] by (rule inj_on_subset [rotated])
  moreover have "gone dt' \<inter> dg_other ` grants dt' = {}" using g dl_wfD(5) [OF wf] s by fastforce
  moreover have "sid_minted (dt_mds_id dt) 1 n oth" if "oth \<in> gone dt' \<union> dg_other ` grants dt'" for oth
    using that g s dl_wfD(6,7) [OF wf] by blast
  ultimately show ?thesis using dl_wfD(1,3) [OF wf] b c p unfolding dl_wf_def by (auto simp: subset_iff)
qed

lemma dl_wf_same:
  assumes "dl_wf n dt" "dt_sid_counter dt' = dt_sid_counter dt" "dt_mds_id dt' = dt_mds_id dt" "dt_buckets dt' = dt_buckets dt"
    "dt_revoked dt' = dt_revoked dt" "dt_pending dt' = dt_pending dt"
  shows "dl_wf n dt'"
  using assms by (simp add: dl_wf_def grants_def gone_def)

lemma dl_wf_init: "deleg_table_init oom m = Some dt \<Longrightarrow> dl_wf 0 dt \<and> grants dt = {}"
  by (auto simp: deleg_table_init_def dl_wf_def grants_def gone_def split: if_splits)

section \<open>Grant\<close>

lemma deleg_grant_cases:
  assumes "deleg_grant oom rt dt c f ty = (dt', rc, sid)"
  obtains "rc = -1" "dt' = dt" "sid = None"
  | e where "rc = 0" "sid = Some (dg_stateid e)" "dg_clientid e = c" "dg_fileid e = f" "dg_type e = ty"
    "dg_other e = open_other (dt_mds_id dt) (dt_sid_counter dt)" "dt_sid_counter dt' = dt_sid_counter dt + 1"
    "dt_mds_id dt' = dt_mds_id dt" "dt_revoked dt' = dt_revoked dt" "dt_pending dt' = dt_pending dt"
    "dt_buckets dt' = (dt_buckets dt)(deleg_hash f := e # dt_buckets dt (deleg_hash f))"
proof (cases "ty \<noteq> OPEN_DELEGATE_READ \<and> ty \<noteq> OPEN_DELEGATE_WRITE \<or> oom")
  case True
  then have "deleg_grant oom rt dt c f ty = (dt, -1, None)" by (cases oom) (simp_all add: deleg_grant_def)
  then show ?thesis using that(1) assms by simp
next
  case False
  let ?e = "\<lparr>dg_stateid = \<lparr>seqid = 1, other = open_other (dt_mds_id dt) (dt_sid_counter dt)\<rparr>, dg_clientid = c, dg_fileid = f, dg_type = ty\<rparr>"
  show ?thesis by (rule that(2) [of ?e]) (use assms False in \<open>auto simp: deleg_grant_def make_deleg_stateid_def open_other_def Let_def\<close>)
qed

lemma dl_wf_grant:
  assumes wf: "dl_wf n dt" and n: "n < 2 ^ 64" and r: "deleg_grant oom rt dt c f ty = (dt', rc, sid)"
  shows "if rc = 0 then dl_wf (Suc n) dt' \<and> (\<exists>e. sid = Some (dg_stateid e) \<and> dg_clientid e = c \<and> dg_fileid e = f \<and> dg_type e = ty \<and>
      dg_other e \<notin> gone dt \<union> dg_other ` grants dt \<and> grants dt' = insert e (grants dt)) else dt' = dt"
  using r
proof (cases rule: deleg_grant_cases)
  case (2 e)
  have o: "dg_other e = open_other (dt_mds_id dt) (1 + of_nat n)" using 2 dl_wfD(1) [OF wf] by simp
  have fresh: "dg_other e \<notin> gone dt \<union> dg_other ` grants dt"
  proof
    assume "dg_other e \<in> gone dt \<union> dg_other ` grants dt"
    then have "sid_minted (dt_mds_id dt) 1 n (dg_other e)" using dl_wfD(6,7) [OF wf] by auto
    then show False using sid_minted_fresh [OF _ n] o by blast
  qed
  have g: "grants dt' = insert e (grants dt)" using 2 by (auto simp: grants_def split: if_splits)
  have gone: "gone dt' = gone dt" using 2 by (simp add: gone_def)
  have e: "e \<notin> set (dt_buckets dt b)" for b using fresh by (auto simp: grants_def)
  have m: "sid_minted (dt_mds_id dt) 1 (Suc n) oth" if "oth \<in> gone dt \<union> dg_other ` insert e (grants dt)" for oth
    using that sid_minted_mono [of "dt_mds_id dt" 1 n _ "Suc n"] sid_minted_new [of "dt_mds_id dt" 1 n] dl_wfD(6,7) [OF wf] o by auto
  have "inj_on dg_other (insert e (grants dt))" using dl_wfD(4) [OF wf] fresh by auto
  moreover have "gone dt \<inter> dg_other ` insert e (grants dt) = {}" using dl_wfD(5) [OF wf] fresh by auto
  moreover have "\<forall>b. distinct (dt_buckets dt' b) \<and> (\<forall>x \<in> set (dt_buckets dt' b). deleg_hash (dg_fileid x) = b)"
    using 2 e dl_wfD(2,3) [OF wf] by (auto split: if_splits)
  ultimately have "dl_wf (Suc n) dt'" using m dl_wfD(1,8) [OF wf] 2 unfolding dl_wf_def g gone by (simp add: add.assoc)
  then show ?thesis using 2(1-5) fresh g by (simp del: Un_iff) (intro exI [of _ e], simp)
qed simp

section \<open>Return\<close>

lemma remove_grant_None: "remove_grant oth c ch = None \<longleftrightarrow> (\<forall>e \<in> set ch. \<not> (dg_other e = oth \<and> dg_clientid e = c))"
  by (induction ch) auto

lemma remove_grant_Some:
  assumes "remove_grant oth c ch = Some ch'"
  obtains xs e ys where "ch = xs @ e # ys" "ch' = xs @ ys" "dg_other e = oth" "dg_clientid e = c"
  using assms
proof (induction ch arbitrary: ch' thesis)
  case (Cons x xs)
  show ?case
  proof (cases "dg_other x = oth \<and> dg_clientid x = c")
    case True
    then show ?thesis using Cons.prems(1) [of "[]" x xs] Cons.prems(2) by simp
  next
    case False
    then obtain ch1 where c1: "remove_grant oth c xs = Some ch1" "ch' = x # ch1" using Cons.prems(2) by auto
    show ?thesis by (rule Cons.IH [OF _ c1(1)]) (use Cons.prems(1) [of "x # _"] c1(2) in simp)
  qed
qed simp

lemma return_scan_result:
  assumes wf: "dl_wf n dt"
  shows "(case return_scan dt oth c bs of
      None \<Rightarrow> \<forall>b \<in> set bs. \<forall>e \<in> set (dt_buckets dt b). \<not> (dg_other e = oth \<and> dg_clientid e = c)
    | Some dt' \<Rightarrow> dl_wf n dt' \<and> (\<exists>e. e \<in> grants dt \<and> dg_other e = oth \<and> dg_clientid e = c \<and> grants dt' = grants dt - {e}) \<and>
        dt_revoked dt' = dt_revoked dt \<and> dt_pending dt' = dt_pending dt)"
proof (induction bs)
  case (Cons b bs)
  show ?case
  proof (cases "remove_grant oth c (dt_buckets dt b)")
    case None
    then show ?thesis using Cons remove_grant_None [of oth c "dt_buckets dt b"] by (auto split: option.splits)
  next
    case (Some ch)
    then obtain xs e ys where c: "dt_buckets dt b = xs @ e # ys" "ch = xs @ ys" "dg_other e = oth" "dg_clientid e = c" by (rule remove_grant_Some)
    define dt' where "dt' = deleg_call_if (dt_cat dt) (DelegDel oth) (set_bucket dt b ch)"
    have d: "distinct (xs @ e # ys)" using dl_wfD(2) [OF wf, of b] c(1) by simp
    have ch: "set ch = set (dt_buckets dt b) - {e}" "distinct ch" using d c by auto
    have g: "grants dt' = grants dt - {e}"
      using grants_set_bucket [OF wf, of b ch] grants_cong [of dt' "set_bucket dt b ch"] bucket_grants [OF wf, of b] ch(1) c(1) by (auto simp: dt'_def)
    have "dl_wf n dt'"
    proof (rule dl_wf_shrink [OF wf])
      show "gone dt' \<subseteq> gone dt \<union> (dg_other ` grants dt - dg_other ` grants dt')" by (simp add: dt'_def gone_def)
    qed (use ch dl_wfD(2,8) [OF wf] in \<open>auto simp: dt'_def split: if_splits\<close>)
    moreover have "e \<in> grants dt" unfolding grants_def by (rule UN_I [of b]) (simp_all add: c(1))
    ultimately show ?thesis using Some c(3,4) g by (auto simp: dt'_def)
  qed
qed simp

lemma dl_wf_clear_stateid:
  assumes "dl_wf n dt"
  shows "dl_wf n (deleg_pending_clear_stateid oth dt)"
  by (rule dl_wf_shrink [OF assms]) (use dl_wfD(2,8) [OF assms] in \<open>auto simp: deleg_pending_clear_stateid_def gone_def\<close>)

lemma deleg_return_result:
  assumes wf: "dl_wf n dt" and r: "deleg_return dt sid c = (dt', rc)"
  shows "dl_wf n dt' \<and> (if \<exists>e \<in> grants dt. dg_other e = other sid \<and> dg_clientid e = c
      then rc = 0 \<and> grants dt' = {e \<in> grants dt. dg_other e \<noteq> other sid} else rc = -1 \<and> grants dt' = grants dt)"
proof -
  define dt1 where "dt1 = deleg_pending_clear_stateid (other sid) dt"
  have wf1: "dl_wf n dt1" unfolding dt1_def by (rule dl_wf_clear_stateid [OF wf])
  have g1: "grants dt1 = grants dt" by (simp add: dt1_def deleg_pending_clear_stateid_def grants_def)
  note s = return_scan_result [OF wf1, where oth = "other sid" and c = c and bs = "[0 ..< DELEG_HASH_SIZE]"]
  show ?thesis
  proof (cases "return_scan dt1 (other sid) c [0 ..< DELEG_HASH_SIZE]")
    case None
    have "\<not> (dg_other e = other sid \<and> dg_clientid e = c)" if "e \<in> grants dt" for e
    proof -
      have "e \<in> set (dt_buckets dt1 (deleg_hash (dg_fileid e)))" using bucket_grants [OF wf1] that g1 by auto
      then show ?thesis using s None deleg_hash_less [of "dg_fileid e"] by fastforce
    qed
    then show ?thesis using None r wf1 g1 by (auto simp: deleg_return_def dt1_def [symmetric])
  next
    case (Some dt2)
    then obtain e where e: "e \<in> grants dt" "dg_other e = other sid" "dg_clientid e = c" "grants dt2 = grants dt - {e}" "dl_wf n dt2" using s g1 by auto
    have "x = e" if "x \<in> grants dt" "dg_other x = other sid" for x using inj_onD [OF dl_wfD(4) [OF wf], of x e] that e(1,2) by simp
    then have "grants dt - {e} = {x \<in> grants dt. dg_other x \<noteq> other sid}" using e(2) by blast
    then show ?thesis using Some r e by (auto simp: deleg_return_def dt1_def [symmetric])
  qed
qed

section \<open>Recall\<close>

definition held_by_other :: "u64 \<Rightarrow> u64 \<Rightarrow> deleg_entry \<Rightarrow> bool" where
  "held_by_other f c e \<longleftrightarrow> dg_fileid e = f \<and> dg_clientid e \<noteq> c"

lemma detach_loop_result:
  "snd (detach_loop f c room ch) = take room (filter (held_by_other f c) ch) \<and>
   (distinct ch \<longrightarrow> distinct (fst (detach_loop f c room ch)) \<and>
      set (fst (detach_loop f c room ch)) = set ch - set (take room (filter (held_by_other f c) ch)))"
proof (induction ch arbitrary: room)
  case (Cons e es)
  have sub: "set (take k (filter (held_by_other f c) es)) \<subseteq> set es" for k by (meson filter_is_subset order_trans set_take_subset)
  have step: "detach_loop f c room (e # es) =
      (if \<not> held_by_other f c e then (let (keep, det) = detach_loop f c room es in (e # keep, det))
       else if 0 < room then (let (keep, det) = detach_loop f c (room - 1) es in (keep, e # det)) else (e # es, []))"
    by (auto simp: held_by_other_def)
  consider "\<not> held_by_other f c e" | "held_by_other f c e" "room = 0" | k where "held_by_other f c e" "room = Suc k" by (cases room) auto
  then show ?case
  proof cases
    case 1
    then show ?thesis using Cons.IH [of room] sub [of room] unfolding step by (auto simp: split_beta)
  next
    case 2
    then show ?thesis unfolding step by simp
  next
    case (3 k)
    then show ?thesis using Cons.IH [of k] sub [of k] unfolding step by (auto simp: split_beta)
  qed
qed simp

lemma detach_one_sel [simp]:
  "dt_buckets (detach_one env e dt) = dt_buckets dt" "dt_mds_id (detach_one env e dt) = dt_mds_id dt"
  "dt_sid_counter (detach_one env e dt) = dt_sid_counter dt" "dt_pending (detach_one env e dt) = dt_pending dt" "dt_st (detach_one env e dt) = dt_st dt"
  by (simp_all add: detach_one_def deleg_revoked_add_def)

lemma detach_all_sel:
  "dt_buckets (fold (detach_one env) es dt) = dt_buckets dt \<and> dt_mds_id (fold (detach_one env) es dt) = dt_mds_id dt \<and>
   dt_sid_counter (fold (detach_one env) es dt) = dt_sid_counter dt \<and> dt_pending (fold (detach_one env) es dt) = dt_pending dt \<and>
   dt_st (fold (detach_one env) es dt) = dt_st dt \<and>
   set (dt_revoked (fold (detach_one env) es dt)) = set (dt_revoked dt) \<union>
     {\<lparr>rk_other = dg_other e, rk_clientid = dg_clientid e\<rparr> | e. e \<in> set es \<and> \<not> ev_oom_revoked env (dg_other e)}"
proof (induction es arbitrary: dt)
  case (Cons e es)
  have "set (dt_revoked (detach_one env e dt)) = set (dt_revoked dt) \<union>
      (if ev_oom_revoked env (dg_other e) then {} else {\<lparr>rk_other = dg_other e, rk_clientid = dg_clientid e\<rparr>})"
    by (auto simp: detach_one_def deleg_revoked_add_def)
  then show ?case using Cons [of "detach_one env e dt"] by auto
qed simp

lemma record_all_sel:
  "dt_buckets (fold (deleg_pending_record env) (map target_of es) dt) = dt_buckets dt \<and>
   dt_mds_id (fold (deleg_pending_record env) (map target_of es) dt) = dt_mds_id dt \<and>
   dt_sid_counter (fold (deleg_pending_record env) (map target_of es) dt) = dt_sid_counter dt \<and>
   dt_revoked (fold (deleg_pending_record env) (map target_of es) dt) = dt_revoked dt \<and>
   set (dt_pending (fold (deleg_pending_record env) (map target_of es) dt)) = set (dt_pending dt) \<union>
     {\<lparr>pr_stateid = dg_stateid e, pr_clientid = dg_clientid e, pr_fileid = dg_fileid e, pr_recorded_ns = ev_now env, pr_resend_count = 0\<rparr> |
        e. e \<in> set es \<and> \<not> ev_oom_pending env (dg_other e)}"
  by (induction es arbitrary: dt) (auto simp: deleg_pending_record_def target_of_def)

definition recalled :: "deleg_table \<Rightarrow> u64 \<Rightarrow> u64 \<Rightarrow> deleg_entry list" where
  "recalled dt f c = take DELEG_RECALL_MAX_PER_FILE (filter (held_by_other f c) (dt_buckets dt (deleg_hash f)))"

lemma recalled_mem: "e \<in> set (recalled dt f c) \<Longrightarrow> held_by_other f c e \<and> e \<in> grants dt"
  unfolding recalled_def grants_def by (auto dest!: in_set_takeD)

lemma recall_file_result:
  assumes wf: "dl_wf n dt" and r: "deleg_recall_file env dt f c tmo = (dt', st, cs, rc)"
  shows "dl_wf n dt'" "grants dt' = grants dt - set (recalled dt f c)" "rc = int (length (recalled dt f c))"
    "set (dt_revoked dt') = set (dt_revoked dt) \<union>
       {\<lparr>rk_other = dg_other e, rk_clientid = dg_clientid e\<rparr> | e. e \<in> set (recalled dt f c) \<and> \<not> ev_oom_revoked env (dg_other e)}"
    "set (dt_pending dt') = set (dt_pending dt) \<union>
       {\<lparr>pr_stateid = dg_stateid e, pr_clientid = dg_clientid e, pr_fileid = f, pr_recorded_ns = ev_now env, pr_resend_count = 0\<rparr> |
          e. e \<in> set (recalled dt f c) \<and> \<not> ev_oom_pending env (dg_other e)}"
proof -
  let ?b = "deleg_hash f" and ?D = "recalled dt f c"
  obtain keep det where k: "detach_loop f c DELEG_RECALL_MAX_PER_FILE (dt_buckets dt ?b) = (keep, det)" by fastforce
  have det: "det = ?D" "distinct keep" "set keep = set (dt_buckets dt ?b) - set ?D"
    using detach_loop_result [of f c DELEG_RECALL_MAX_PER_FILE "dt_buckets dt ?b"] dl_wfD(2) [OF wf, of ?b] k by (auto simp: recalled_def)
  define dt1 where "dt1 = fold (detach_one env) ?D (set_bucket dt ?b keep)"
  have dt': "dt' = fold (deleg_pending_record env) (map target_of ?D) dt1" "rc = int (length ?D)"
    using r k det(1) by (auto simp: deleg_recall_file_def deleg_recall_detach_def Let_def dt1_def split: if_splits prod.splits)
  note s1 = detach_all_sel [of env ?D "set_bucket dt ?b keep", folded dt1_def]
  note s2 = record_all_sel [of env ?D dt1, folded dt'(1)]
  show "rc = int (length ?D)" by (rule dt'(2))
  have b: "dt_buckets dt' = (dt_buckets dt)(?b := keep)" using s1 s2 by simp
  have mem: "e \<in> grants dt" "dg_fileid e = f" if "e \<in> set ?D" for e using recalled_mem [OF that] by (auto simp: held_by_other_def)
  show g: "grants dt' = grants dt - set ?D"
    using grants_set_bucket [OF wf, of ?b keep] bucket_grants [OF wf, of ?b] grants_cong [of dt' "set_bucket dt ?b keep"] b det(3) mem(2) by auto
  show rv: "set (dt_revoked dt') = set (dt_revoked dt) \<union>
       {\<lparr>rk_other = dg_other e, rk_clientid = dg_clientid e\<rparr> | e. e \<in> set ?D \<and> \<not> ev_oom_revoked env (dg_other e)}" using s1 s2 by simp
  show pe: "set (dt_pending dt') = set (dt_pending dt) \<union>
       {\<lparr>pr_stateid = dg_stateid e, pr_clientid = dg_clientid e, pr_fileid = f, pr_recorded_ns = ev_now env, pr_resend_count = 0\<rparr> |
          e. e \<in> set ?D \<and> \<not> ev_oom_pending env (dg_other e)}" using s1 s2 mem(2) by fastforce
  show "dl_wf n dt'"
  proof (rule dl_wf_shrink [OF wf])
    have out: "dg_other e \<notin> dg_other ` grants dt'" if "e \<in> set ?D" for e
      using that mem(1) g inj_onD [OF dl_wfD(4) [OF wf], of e] by auto
    have "gone dt' \<subseteq> gone dt \<union> dg_other ` set ?D" unfolding gone_def rv pe by auto
    moreover have "dg_other ` set ?D \<subseteq> dg_other ` grants dt - dg_other ` grants dt'" using out mem(1) by (intro image_subsetI DiffI imageI)
    ultimately show "gone dt' \<subseteq> gone dt \<union> (dg_other ` grants dt - dg_other ` grants dt')" by (rule order_trans [OF _ Un_mono [OF order.refl]])
    show "pr_resend_count p \<le> DELEG_PENDING_RESEND_MAX + 1" if "p \<in> set (dt_pending dt')" for p
      using that unfolding pe by (elim UnE CollectE exE conjE) (simp_all add: dl_wfD(8) [OF wf, simplified])
  qed (use b det(2,3) dl_wfD(2) [OF wf] s1 s2 in auto)
qed

section \<open>Revocation\<close>

lemma calls_fold_sel:
  "dt_buckets (fold (\<lambda>e. deleg_call_if on (g e)) es dt) = dt_buckets dt \<and> dt_mds_id (fold (\<lambda>e. deleg_call_if on (g e)) es dt) = dt_mds_id dt \<and>
   dt_sid_counter (fold (\<lambda>e. deleg_call_if on (g e)) es dt) = dt_sid_counter dt \<and>
   dt_revoked (fold (\<lambda>e. deleg_call_if on (g e)) es dt) = dt_revoked dt \<and> dt_pending (fold (\<lambda>e. deleg_call_if on (g e)) es dt) = dt_pending dt"
  by (induction es arbitrary: dt) simp_all

lemma filter_buckets_fold:
  "distinct bs \<Longrightarrow>
   dt_buckets (fold (\<lambda>b d. set_bucket d b (filter P (dt_buckets d b))) bs dt) = (\<lambda>b. if b \<in> set bs then filter P (dt_buckets dt b) else dt_buckets dt b) \<and>
   dt_mds_id (fold (\<lambda>b d. set_bucket d b (filter P (dt_buckets d b))) bs dt) = dt_mds_id dt \<and>
   dt_sid_counter (fold (\<lambda>b d. set_bucket d b (filter P (dt_buckets d b))) bs dt) = dt_sid_counter dt \<and>
   dt_revoked (fold (\<lambda>b d. set_bucket d b (filter P (dt_buckets d b))) bs dt) = dt_revoked dt \<and>
   dt_pending (fold (\<lambda>b d. set_bucket d b (filter P (dt_buckets d b))) bs dt) = dt_pending dt"
  by (induction bs arbitrary: dt) (auto simp: fun_eq_iff)

lemma revoke_client_result:
  assumes wf: "dl_wf n dt"
  shows "dl_wf n (deleg_revoke_client dt c)" "grants (deleg_revoke_client dt c) = {e \<in> grants dt. dg_clientid e \<noteq> c}"
proof -
  let ?P = "\<lambda>e. dg_clientid e \<noteq> c" and ?dt = "deleg_revoke_client dt c"
  note s = filter_buckets_fold [OF distinct_upt, of ?P 0 DELEG_HASH_SIZE dt]
  have empty: "dt_buckets dt b = []" if "\<not> b < DELEG_HASH_SIZE" for b
    using dl_wfD(3) [OF wf, of _ b] deleg_hash_less that by (metis list.set_intros(1) neq_Nil_conv)
  have b: "dt_buckets ?dt b = filter ?P (dt_buckets dt b)" for b using s empty [of b] by (auto simp: deleg_revoke_client_def deleg_pending_clear_client_def)
  show "grants ?dt = {e \<in> grants dt. ?P e}" by (auto simp: grants_def b)
  show "dl_wf n ?dt"
  proof (rule dl_wf_shrink [OF wf])
    show "gone ?dt \<subseteq> gone dt \<union> (dg_other ` grants dt - dg_other ` grants ?dt)"
      using s by (auto simp: gone_def deleg_revoke_client_def deleg_pending_clear_client_def)
  qed (use s dl_wfD(2,8) [OF wf] in \<open>auto simp: b deleg_revoke_client_def deleg_pending_clear_client_def\<close>)
qed

lemma revoke_file_result:
  assumes wf: "dl_wf n dt"
  shows "dl_wf n (deleg_revoke_file dt f)" "grants (deleg_revoke_file dt f) = {e \<in> grants dt. dg_fileid e \<noteq> f}"
proof -
  let ?b = "deleg_hash f" and ?dt = "deleg_revoke_file dt f"
  let ?ch = "filter (\<lambda>e. dg_fileid e \<noteq> f) (dt_buckets dt ?b)"
  note s = calls_fold_sel [of "dt_cat dt \<and> \<not> dt_skip_transient dt" "\<lambda>e. DelegDel (dg_other e)" "filter (\<lambda>e. dg_fileid e = f) (dt_buckets dt ?b)" "set_bucket dt ?b ?ch"]
  have b: "dt_buckets ?dt = (dt_buckets dt)(?b := ?ch)" using s by (simp add: deleg_revoke_file_def Let_def)
  show "grants ?dt = {e \<in> grants dt. dg_fileid e \<noteq> f}"
    using grants_set_bucket [OF wf, of ?b ?ch] bucket_grants [OF wf, of ?b] grants_cong [of ?dt "set_bucket dt ?b ?ch"] b by auto
  show "dl_wf n ?dt"
  proof (rule dl_wf_shrink [OF wf])
    show "gone ?dt \<subseteq> gone dt \<union> (dg_other ` grants dt - dg_other ` grants ?dt)" using s by (simp add: gone_def deleg_revoke_file_def Let_def)
  qed (use b s dl_wfD(2,8) [OF wf] in \<open>auto simp: deleg_revoke_file_def Let_def\<close>)
qed

lemma free_first_subset: "free_first oth rs = Some rs' \<Longrightarrow> set rs' \<subseteq> set rs"
  by (induction rs arbitrary: rs') (auto split: if_splits)

lemma free_result:
  assumes wf: "dl_wf n dt"
  shows "dl_wf n (fst (deleg_free_revoked dt oth))" "grants (fst (deleg_free_revoked dt oth)) = grants dt"
proof -
  show "dl_wf n (fst (deleg_free_revoked dt oth))"
  proof (cases "free_first oth (dt_revoked dt)")
    case (Some rs)
    have "dl_wf n (dt\<lparr>dt_revoked := rs\<rparr>)"
      by (rule dl_wf_shrink [OF wf]) (use free_first_subset [OF Some] dl_wfD(2,8) [OF wf] in \<open>auto simp: gone_def\<close>)
    then show ?thesis using Some dl_wf_clear_stateid by (simp add: deleg_free_revoked_def)
  qed (use wf in \<open>simp add: deleg_free_revoked_def\<close>)
  show "grants (fst (deleg_free_revoked dt oth)) = grants dt"
    by (simp add: deleg_free_revoked_def deleg_pending_clear_stateid_def grants_def split: option.splits)
qed

section \<open>Retransmission\<close>

lemma resend_scan_result:
  assumes "\<forall>p \<in> set ps. pr_resend_count p \<le> DELEG_PENDING_RESEND_MAX + 1"
  shows "(\<forall>p \<in> set (fst (resend_scan now c room ps)). pr_resend_count p \<le> DELEG_PENDING_RESEND_MAX + 1) \<and>
    (\<lambda>p. other (pr_stateid p)) ` set (fst (resend_scan now c room ps)) \<subseteq> (\<lambda>p. other (pr_stateid p)) ` set ps \<and>
    length (snd (resend_scan now c room ps)) \<le> room"
  using assms
proof (induction ps arbitrary: room)
  case (Cons p ps)
  consider "recall_stale now p" | "\<not> recall_stale now p" "pr_clientid p = c \<and> 0 < room" | "\<not> recall_stale now p" "\<not> (pr_clientid p = c \<and> 0 < room)" by blast
  then show ?case
  proof cases
    case 2
    have "pr_resend_count p \<le> 8" using 2(1) by (simp add: recall_stale_def not_less)
    then have "pr_resend_count p + 1 \<le> 9" by unat_arith
    then show ?thesis using 2 Cons.IH [of "room - 1"] Cons.prems by (auto simp: split_beta Let_def)
  qed (use Cons in \<open>auto simp: split_beta\<close>)
qed simp

lemma resend_result:
  assumes wf: "dl_wf n dt"
  shows "dl_wf n (fst (deleg_resend_pending_recalls env dt c))" "grants (fst (deleg_resend_pending_recalls env dt c)) = grants dt"
proof -
  let ?k = "fst (resend_scan (ev_now env) c DELEG_PENDING_RESEND_BATCH (dt_pending dt))"
  have e: "fst (deleg_resend_pending_recalls env dt c) = dt\<lparr>dt_pending := ?k\<rparr>"
    by (simp add: deleg_resend_pending_recalls_def Let_def split_beta)
  show "grants (fst (deleg_resend_pending_recalls env dt c)) = grants dt" unfolding e by (simp add: grants_def)
  have s: "\<forall>p \<in> set ?k. pr_resend_count p \<le> DELEG_PENDING_RESEND_MAX + 1" "(\<lambda>p. other (pr_stateid p)) ` set ?k \<subseteq> (\<lambda>p. other (pr_stateid p)) ` set (dt_pending dt)"
    using resend_scan_result [of "dt_pending dt" "ev_now env" c DELEG_PENDING_RESEND_BATCH] dl_wfD(8) [OF wf] by auto
  show "dl_wf n (fst (deleg_resend_pending_recalls env dt c))" unfolding e
    by (rule dl_wf_shrink [OF wf]) (use s dl_wfD(2) [OF wf] in \<open>auto simp: gone_def\<close>)
qed

section \<open>Runs\<close>

lemma dl_wf_settings:
  assumes "dl_wf n dt"
  shows "dl_wf n (deleg_table_set_cat dt cat ep)" "dl_wf n (deleg_table_set_session_table dt st)" "dl_wf n (deleg_table_set_skip_transient dt skip)"
    "grants (deleg_table_set_cat dt cat ep) = grants dt" "grants (deleg_table_set_session_table dt st) = grants dt"
    "grants (deleg_table_set_skip_transient dt skip) = grants dt"
  by (rule dl_wf_same [OF assms], simp_all add: deleg_table_set_cat_def deleg_table_set_session_table_def deleg_table_set_skip_transient_def grants_def)+

lemma check_conflict_iff:
  assumes "dl_wf n dt"
  shows "deleg_check_conflict dt f c \<longleftrightarrow> (\<exists>e \<in> grants dt. held_by_other f c e)"
  using bucket_grants [OF assms, of "deleg_hash f"] by (auto simp: deleg_check_conflict_def list_ex_iff held_by_other_def)

text \<open>The block of OPEN: the recalled grants go, and a new one comes only where no other client is left.\<close>

lemma open_delegation_result:
  assumes wf: "dl_wf n dt" and n: "n < 2 ^ 64" and r: "open_delegation env oom rt dt wired ot c f acc = (dt', st, cs, ty, reason, sid)"
  shows "\<exists>m. n \<le> m \<and> m \<le> Suc n \<and> dl_wf m dt' \<and> (grants dt' = grants dt - set (recalled dt f c) \<and> ty = OPEN_DELEGATE_NONE \<and> sid = None \<or>
    (\<exists>e. grants dt' = insert e (grants dt - set (recalled dt f c)) \<and> dg_fileid e = f \<and> dg_clientid e = c \<and> dg_type e = ty \<and>
       sid = Some (dg_stateid e) \<and> (\<forall>x \<in> grants dt - set (recalled dt f c). \<not> held_by_other f c x)))"
proof -
  obtain dt1 st1 cs1 k where rc: "deleg_recall_file env dt f c 0 = (dt1, st1, cs1, k)" by (metis prod_cases4)
  note R = recall_file_result [OF wf rc]
  let ?p = "open_deleg_probe dt1 wired ot c f acc"
  have g: "open_deleg_grant oom rt dt1 c f ?p = (dt', ty, reason, sid)" using r rc by (auto simp: open_delegation_def split: prod.splits)
  show ?thesis
  proof (cases ?p)
    case (Inl reason')
    then show ?thesis using g R(1,2) by (intro exI [of _ n]) (auto simp: open_deleg_grant_def)
  next
    case (Inr ty')
    then have free: "\<forall>x \<in> grants dt1. \<not> held_by_other f c x" using check_conflict_iff [OF R(1), of f c] by (auto simp: open_deleg_probe_def Let_def split: if_splits)
    obtain dt2 rc2 sid2 where gr: "deleg_grant oom rt dt1 c f ty' = (dt2, rc2, sid2)" by (metis prod_cases3)
    note G = dl_wf_grant [OF R(1) n gr]
    show ?thesis
    proof (cases "rc2 = 0")
      case True
      then have "dl_wf (Suc n) dt2" and "\<exists>e. sid2 = Some (dg_stateid e) \<and> dg_clientid e = c \<and> dg_fileid e = f \<and> dg_type e = ty' \<and> grants dt2 = insert e (grants dt1)"
        using G by auto
      then show ?thesis using g Inr gr True free unfolding R(2) by (intro exI [of _ "Suc n"]) (auto simp: open_deleg_grant_def)
    next
      case False
      then show ?thesis using G g Inr gr R(1,2) by (intro exI [of _ n]) (auto simp: open_deleg_grant_def)
    qed
  qed
qed

lemma dl_wf_step:
  assumes wf: "dl_wf n dt" and n: "n < 2 ^ 64"
  shows "\<exists>m. n \<le> m \<and> m \<le> Suc n \<and> dl_wf m (deleg_step op dt)"
proof (cases op)
  case (D_open env oom rt wired ot c f acc)
  obtain dt' st cs ty reason sid where r: "open_delegation env oom rt dt wired ot c f acc = (dt', st, cs, ty, reason, sid)" by (metis prod_cases6)
  show ?thesis using open_delegation_result [OF wf n r] D_open r by auto
next
  case (D_recall env f c tmo)
  obtain dt' st cs rc where r: "deleg_recall_file env dt f c tmo = (dt', st, cs, rc)" by (metis prod_cases4)
  show ?thesis using recall_file_result(1) [OF wf r] D_recall r by (intro exI [of _ n]) simp
next
  case (D_grant oom rt c f ty)
  obtain dt' rc sid where r: "deleg_grant oom rt dt c f ty = (dt', rc, sid)" by (metis prod_cases3)
  have "dl_wf (Suc n) dt' \<or> dl_wf n dt'" using dl_wf_grant [OF wf n r] wf by (auto split: if_splits)
  then show ?thesis using D_grant r by (auto intro: exI [of _ n] exI [of _ "Suc n"])
next
  case (D_return sid c)
  obtain dt' rc where r: "deleg_return dt sid c = (dt', rc)" by fastforce
  show ?thesis using deleg_return_result [OF wf r] D_return r by (intro exI [of _ n]) simp
qed (use resend_result(1) [OF wf] revoke_client_result(1) [OF wf] revoke_file_result(1) [OF wf] free_result(1) [OF wf] dl_wf_settings(1-3) [OF wf]
    in \<open>auto intro!: exI [of _ n]\<close>)

lemma dl_wf_run:
  assumes "dl_wf n dt" "n + length ops < 2 ^ 64"
  shows "\<exists>m. n \<le> m \<and> m \<le> n + length ops \<and> dl_wf m (deleg_run dt ops)"
  using assms
proof (induction ops arbitrary: n dt)
  case (Cons op ops)
  have n: "n < 2 ^ 64" using Cons.prems(2) by simp
  obtain m where m: "n \<le> m" "m \<le> Suc n" "dl_wf m (deleg_step op dt)" using dl_wf_step [OF Cons.prems(1) n] by blast
  then have "m + length ops < 2 ^ 64" using Cons.prems(2) by simp
  then obtain k where "m \<le> k" "k \<le> m + length ops" "dl_wf k (deleg_run (deleg_step op dt) ops)" using Cons.IH [OF m(3)] by blast
  then show ?case using m(1,2) by (intro exI [of _ k]) (simp add: deleg_run_def)
qed (auto simp: deleg_run_def)

end
