(* ===== verification/Deleg_Life.thy ===== *)
theory Deleg_Life
  imports Deleg_Inv
begin

text \<open>
  What a run does to the delegations: a step adds at most one grant, under a stateid not minted before, so a stateid that
  has died stays dead; and as long as each OPEN recalls, probes and grants without another in between, the delegations of a
  file belong to one client.
\<close>

section \<open>The steps of a run\<close>

lemma return_scan_mds: "return_scan dt oth c bs = Some dt' \<Longrightarrow> dt_mds_id dt' = dt_mds_id dt"
  by (induction bs) (auto split: option.splits)

lemma recall_mds: "deleg_recall_file env dt f c tmo = (dt', st, cs, rc) \<Longrightarrow> dt_mds_id dt' = dt_mds_id dt"
  using detach_all_sel [of env _ "set_bucket dt (deleg_hash f) _"] record_all_sel [of env]
  by (auto simp: deleg_recall_file_def deleg_recall_detach_def Let_def split: if_splits prod.splits)

lemma grant_mds: "deleg_grant oom rt dt c f ty = (dt', rc, sid) \<Longrightarrow> dt_mds_id dt' = dt_mds_id dt"
  by (erule deleg_grant_cases) simp_all

text \<open>What a step adds to the grants is at most one entry, with the stateid minted next.\<close>

definition step_adds :: "nat \<Rightarrow> deleg_table \<Rightarrow> deleg_table \<Rightarrow> bool" where
  "step_adds n dt dt' \<longleftrightarrow> dt_mds_id dt' = dt_mds_id dt \<and>
     (\<forall>e \<in> grants dt'. e \<in> grants dt \<or> dg_other e = open_other (dt_mds_id dt) (1 + of_nat n))"

lemma step_adds_shrink: "dt_mds_id dt' = dt_mds_id dt \<Longrightarrow> grants dt' \<subseteq> grants dt \<Longrightarrow> step_adds n dt dt'"
  by (auto simp: step_adds_def)

lemma step_adds_grant:
  assumes "dl_wf n dt" "deleg_grant oom rt dt c f ty = (dt', rc, sid)"
  shows "step_adds n dt dt'"
  using assms(2)
proof (cases rule: deleg_grant_cases)
  case (2 e)
  then have "grants dt' = insert e (grants dt)" by (auto simp: grants_def split: if_splits)
  then show ?thesis using 2 dl_wfD(1) [OF assms(1)] by (auto simp: step_adds_def)
qed (simp add: step_adds_def)

lemma step_adds_open:
  assumes wf: "dl_wf n dt" and r: "open_delegation env oom rt dt wired ot c f acc = (dt', st, cs, ty, reason, sid)"
  shows "step_adds n dt dt'"
proof -
  obtain dt1 st1 cs1 k where rc: "deleg_recall_file env dt f c 0 = (dt1, st1, cs1, k)" by (metis prod_cases4)
  note R = recall_file_result [OF wf rc] and m = recall_mds [OF rc]
  have g: "open_deleg_grant oom rt dt1 c f (open_deleg_probe dt1 wired ot c f acc) = (dt', ty, reason, sid)"
    using r rc by (auto simp: open_delegation_def split: prod.splits)
  have "step_adds n dt1 dt'"
  proof (cases "open_deleg_probe dt1 wired ot c f acc")
    case (Inl reason')
    then show ?thesis using g by (auto simp: open_deleg_grant_def intro: step_adds_shrink)
  next
    case (Inr ty')
    obtain dt2 rc2 sid2 where gr: "deleg_grant oom rt dt1 c f ty' = (dt2, rc2, sid2)" by (metis prod_cases3)
    then have "dt' = dt2" using g Inr by (auto simp: open_deleg_grant_def split: if_splits)
    then show ?thesis using step_adds_grant [OF R(1) gr] by simp
  qed
  then show ?thesis using R(2) m by (auto simp: step_adds_def)
qed

lemma step_adds_step:
  assumes wf: "dl_wf n dt"
  shows "step_adds n dt (deleg_step op dt)"
proof (cases op)
  case (D_open env oom rt wired ot c f acc)
  obtain dt' st cs ty reason sid where r: "open_delegation env oom rt dt wired ot c f acc = (dt', st, cs, ty, reason, sid)" by (metis prod_cases6)
  show ?thesis using step_adds_open [OF wf r] D_open r by simp
next
  case (D_recall env f c tmo)
  obtain dt' st cs rc where r: "deleg_recall_file env dt f c tmo = (dt', st, cs, rc)" by (metis prod_cases4)
  show ?thesis using recall_file_result(2) [OF wf r] recall_mds [OF r] D_recall r by (auto intro: step_adds_shrink)
next
  case (D_grant oom rt c f ty)
  obtain dt' rc sid where r: "deleg_grant oom rt dt c f ty = (dt', rc, sid)" by (metis prod_cases3)
  show ?thesis using step_adds_grant [OF wf r] D_grant r by simp
next
  case (D_return sid c)
  obtain dt' rc where r: "deleg_return dt sid c = (dt', rc)" by fastforce
  have "dt_mds_id dt' = dt_mds_id dt" using r return_scan_mds [of "deleg_pending_clear_stateid (other sid) dt" "other sid" c]
    by (auto simp: deleg_return_def deleg_pending_clear_stateid_def Let_def split: option.splits)
  then show ?thesis using deleg_return_result [OF wf r] D_return r by (auto intro!: step_adds_shrink split: if_splits)
next
  case (D_resend env c)
  then show ?thesis using resend_result(2) [OF wf, of env c]
    by (intro step_adds_shrink) (simp_all add: deleg_resend_pending_recalls_def Let_def split_beta)
next
  case (D_revoke_client c)
  then show ?thesis using revoke_client_result(2) [OF wf, of c] filter_buckets_fold [OF distinct_upt, of "\<lambda>e. dg_clientid e \<noteq> c" 0 DELEG_HASH_SIZE dt]
    by (intro step_adds_shrink) (auto simp: deleg_revoke_client_def deleg_pending_clear_client_def)
next
  case (D_revoke_file f)
  then show ?thesis using revoke_file_result(2) [OF wf, of f] by (intro step_adds_shrink) (auto simp: deleg_revoke_file_def Let_def calls_fold_sel)
next
  case (D_free oth)
  then show ?thesis using free_result(2) [OF wf, of oth]
    by (intro step_adds_shrink) (auto simp: deleg_free_revoked_def deleg_pending_clear_stateid_def split: option.splits)
qed (use dl_wf_settings(4-6) [OF wf] in \<open>auto intro!: step_adds_shrink simp: deleg_table_set_cat_def deleg_table_set_session_table_def deleg_table_set_skip_transient_def\<close>)

section \<open>Dead stateids\<close>

definition dead :: "nat \<Rightarrow> bytes \<Rightarrow> deleg_table \<Rightarrow> bool" where
  "dead n oth dt \<longleftrightarrow> sid_minted (dt_mds_id dt) 1 n oth \<and> oth \<notin> dg_other ` grants dt"

lemma dead_step:
  assumes "dead n oth dt" "n < 2 ^ 64" "n \<le> m" "step_adds n dt dt'"
  shows "dead m oth dt'"
proof -
  have "oth \<noteq> open_other (dt_mds_id dt) (1 + of_nat n)" using sid_minted_fresh assms(1,2) by (simp add: dead_def)
  then have "oth \<notin> dg_other ` grants dt'" using assms(1,4) unfolding dead_def step_adds_def by blast
  then show ?thesis using assms sid_minted_mono by (auto simp: dead_def step_adds_def)
qed

lemma dead_run:
  assumes "dl_wf n dt" "dead n oth dt" "n + length ops < 2 ^ 64"
  shows "oth \<notin> dg_other ` grants (deleg_run dt ops)"
  using assms
proof (induction ops arbitrary: n dt)
  case (Cons op ops)
  have n: "n < 2 ^ 64" using Cons.prems(3) by simp
  obtain m where m: "n \<le> m" "m \<le> Suc n" "dl_wf m (deleg_step op dt)" using dl_wf_step [OF Cons.prems(1) n] by blast
  have "dead m oth (deleg_step op dt)" by (rule dead_step [OF Cons.prems(2) n m(1) step_adds_step [OF Cons.prems(1)]])
  moreover have "m + length ops < 2 ^ 64" using m(2) Cons.prems(3) by simp
  ultimately show ?case using Cons.IH [OF m(3)] by (simp add: deleg_run_def)
qed (auto simp: deleg_run_def dead_def)

lemma run_mds:
  assumes "dl_wf n dt" "n + length ops < 2 ^ 64"
  shows "dt_mds_id (deleg_run dt ops) = dt_mds_id dt"
  using assms
proof (induction ops arbitrary: n dt)
  case (Cons op ops)
  obtain m where m: "n \<le> m" "m \<le> Suc n" "dl_wf m (deleg_step op dt)" using dl_wf_step [OF Cons.prems(1), of op] Cons.prems(2) by auto
  then have "m + length ops < 2 ^ 64" using Cons.prems(2) by simp
  then show ?case using Cons.IH [OF m(3)] step_adds_step [OF Cons.prems(1), of op] by (simp add: deleg_run_def step_adds_def)
qed (simp add: deleg_run_def)

lemma stateid_exists_iff:
  assumes "dl_wf n dt"
  shows "deleg_stateid_exists dt oth \<longleftrightarrow> oth \<in> dg_other ` grants dt"
proof
  assume "oth \<in> dg_other ` grants dt"
  then obtain e where e: "e \<in> grants dt" "oth = dg_other e" by blast
  then have "e \<in> set (dt_buckets dt (deleg_hash (dg_fileid e)))" using bucket_grants [OF assms] by auto
  then show "deleg_stateid_exists dt oth" using e(2) deleg_hash_less [of "dg_fileid e"]
    unfolding deleg_stateid_exists_def list_ex_iff by (intro bexI [of _ "deleg_hash (dg_fileid e)"] bexI [of _ e]) simp_all
qed (auto simp: deleg_stateid_exists_def list_ex_iff grants_def)

section \<open>One client per file\<close>

definition one_client :: "deleg_table \<Rightarrow> bool" where
  "one_client dt \<longleftrightarrow> (\<forall>e \<in> grants dt. \<forall>e' \<in> grants dt. dg_fileid e = dg_fileid e' \<longrightarrow> dg_clientid e = dg_clientid e')"

fun serial_op :: "deleg_op \<Rightarrow> bool" where
  "serial_op (D_grant oom rt c f ty) = False"
| "serial_op _ = True"

lemma one_client_mono: "one_client dt \<Longrightarrow> grants dt' \<subseteq> grants dt \<Longrightarrow> one_client dt'"
  unfolding one_client_def by blast

lemma one_client_open:
  assumes wf: "dl_wf n dt" and n: "n < 2 ^ 64" and o: "one_client dt"
    and r: "open_delegation env oom rt dt wired ot c f acc = (dt', st, cs, ty, reason, sid)"
  shows "one_client dt'"
  using open_delegation_result [OF wf n r]
proof (elim exE conjE disjE)
  fix e assume g: "grants dt' = insert e (grants dt - set (recalled dt f c))" "dg_fileid e = f" "dg_clientid e = c"
    and h: "\<forall>x \<in> grants dt - set (recalled dt f c). \<not> held_by_other f c x"
  have "dg_clientid x = c" if "x \<in> grants dt - set (recalled dt f c)" "dg_fileid x = f" for x using h that by (auto simp: held_by_other_def)
  then show ?thesis using o g(2,3) unfolding one_client_def g(1) by (metis Diff_iff insert_iff)
qed (auto intro: one_client_mono [OF o])

lemma one_client_step:
  assumes wf: "dl_wf n dt" and n: "n < 2 ^ 64" and o: "one_client dt" and s: "serial_op op"
  shows "one_client (deleg_step op dt)"
proof (cases op)
  case (D_open env oom rt wired ot c f acc)
  obtain dt' st cs ty reason sid where r: "open_delegation env oom rt dt wired ot c f acc = (dt', st, cs, ty, reason, sid)" by (metis prod_cases6)
  show ?thesis using one_client_open [OF wf n o r] D_open r by simp
next
  case (D_recall env f c tmo)
  obtain dt' st cs rc where r: "deleg_recall_file env dt f c tmo = (dt', st, cs, rc)" by (metis prod_cases4)
  show ?thesis using recall_file_result(2) [OF wf r] D_recall r by (auto intro: one_client_mono [OF o])
next
  case (D_return sid c)
  obtain dt' rc where r: "deleg_return dt sid c = (dt', rc)" by fastforce
  show ?thesis using deleg_return_result [OF wf r] D_return r by (auto intro!: one_client_mono [OF o] split: if_splits)
qed (use s resend_result(2) [OF wf] revoke_client_result(2) [OF wf] revoke_file_result(2) [OF wf] free_result(2) [OF wf] dl_wf_settings(4-6) [OF wf]
    in \<open>auto intro!: one_client_mono [OF o]\<close>)

lemma one_client_run:
  assumes "dl_wf n dt" "n + length ops < 2 ^ 64" "one_client dt" "\<forall>op \<in> set ops. serial_op op"
  shows "one_client (deleg_run dt ops)"
  using assms
proof (induction ops arbitrary: n dt)
  case (Cons op ops)
  have n: "n < 2 ^ 64" using Cons.prems(2) by simp
  obtain m where m: "n \<le> m" "m \<le> Suc n" "dl_wf m (deleg_step op dt)" using dl_wf_step [OF Cons.prems(1) n] by blast
  have "one_client (deleg_step op dt)" using one_client_step [OF Cons.prems(1) n Cons.prems(3)] Cons.prems(4) by simp
  moreover have "m + length ops < 2 ^ 64" using m(2) Cons.prems(2) by simp
  ultimately show ?case using Cons.IH [OF m(3)] Cons.prems(4) by (simp add: deleg_run_def)
qed (simp add: deleg_run_def)

end
