(* ===== verification/Deleg_Channel.thy ===== *)
theory Deleg_Channel
  imports Deleg_Inv Session_Run
begin

text \<open>
  The search for a session of a client over which a callback can be sent, through the iterator of the session table, and the
  recalls sent to the holders of the detached delegations.
\<close>

section \<open>Finding a backchannel\<close>

definition channel :: "deleg_env \<Rightarrow> u64 \<Rightarrow> nfs4_session \<Rightarrow> bool" where
  "channel env c s \<longleftrightarrow> se_clientid s = c \<and> se_cb_conn s \<noteq> None \<and> ev_usable env (se_cb_conn s)"

definition has_channel :: "deleg_env \<Rightarrow> session_table \<Rightarrow> u64 \<Rightarrow> bool" where
  "has_channel env st c \<longleftrightarrow> (\<exists>q s. sessions st q = Some s \<and> channel env c s)"

text \<open>A callback changes nothing of a session but a sequence number of its back slots.\<close>

definition same_view :: "session_table \<Rightarrow> session_table \<Rightarrow> bool" where
  "same_view st st' \<longleftrightarrow> session_hash st' = session_hash st \<and> session_buckets st' = session_buckets st \<and>
     (\<forall>q. map_option (\<lambda>s. (se_id s, se_clientid s, se_cb_conn s)) (sessions st' q) = map_option (\<lambda>s. (se_id s, se_clientid s, se_cb_conn s)) (sessions st q))"

lemma same_view_refl: "same_view st st"
  by (simp add: same_view_def)

lemma same_view_some:
  assumes "same_view st st'" "sessions st' q = Some s'"
  shows "\<exists>s. sessions st q = Some s \<and> se_id s = se_id s' \<and> se_clientid s = se_clientid s' \<and> se_cb_conn s = se_cb_conn s'"
proof -
  have "map_option (\<lambda>s. (se_id s, se_clientid s, se_cb_conn s)) (sessions st' q) = map_option (\<lambda>s. (se_id s, se_clientid s, se_cb_conn s)) (sessions st q)"
    using assms(1) unfolding same_view_def by blast
  then show ?thesis using assms(2) by (cases "sessions st q") simp_all
qed

lemma same_view_sym: "same_view st st' \<Longrightarrow> same_view st' st"
  by (simp add: same_view_def)

lemma same_view_trans: "same_view a b \<Longrightarrow> same_view b c \<Longrightarrow> same_view a c"
  by (simp add: same_view_def)

lemma has_channel_view: "same_view st st' \<Longrightarrow> has_channel env st' c \<longleftrightarrow> has_channel env st c"
  using same_view_some [of st st'] same_view_some [of st' st] same_view_sym [of st st'] unfolding has_channel_def channel_def by metis

lemma lookup_invoke:
  assumes p: "sessions st p = Some s" "se_cb_conn s \<noteq> None"
    and r: "session_invoke_cb_locked st p (deleg_cb_lookup_cb (ev_usable env) c) None = (st', ctx, rc)"
  shows "if channel env c s then rc = 1 \<and> (\<exists>l. ctx = Some l \<and> lk_session_id l = se_id s) \<and> same_view st st' else rc = 0 \<and> ctx = None \<and> st' = st"
proof (cases "channel env c s")
  case True
  then show ?thesis using r p by (cases "se_cb_slots s")
      (auto simp: session_invoke_cb_locked_def Let_def deleg_cb_lookup_cb_def channel_def same_view_def)
next
  case False
  then show ?thesis using r p by (cases "se_cb_slots s")
      (auto simp: session_invoke_cb_locked_def Let_def deleg_cb_lookup_cb_def channel_def split: if_splits)
qed

lemma lookup_walk:
  assumes "\<forall>p \<in> set ps. sessions st p \<noteq> None" "cb_walk st (deleg_cb_lookup_cb (ev_usable env) c) None ps = (st', ctx, rc)"
  shows "(case ctx of
      None \<Rightarrow> rc = 0 \<and> st' = st \<and> (\<forall>p \<in> set ps. \<not> channel env c (session st p))
    | Some l \<Rightarrow> rc = 1 \<and> same_view st st' \<and> (\<exists>p \<in> set ps. channel env c (session st p) \<and> lk_session_id l = se_id (session st p)))"
  using assms
proof (induction ps)
  case (Cons p ps)
  obtain s where p: "sessions st p = Some s" using Cons.prems(1) by auto
  show ?case
  proof (cases "se_cb_conn s = None")
    case True
    then have "cb_walk st (deleg_cb_lookup_cb (ev_usable env) c) None ps = (st', ctx, rc)" using Cons.prems(2) p by simp
    then show ?thesis using Cons.IH Cons.prems(1) True p by (auto simp: channel_def split: option.splits)
  next
    case False
    obtain st1 ctx1 rc1 where i: "session_invoke_cb_locked st p (deleg_cb_lookup_cb (ev_usable env) c) None = (st1, ctx1, rc1)" by (metis prod_cases3)
    note I = lookup_invoke [OF p False i]
    show ?thesis
    proof (cases "channel env c s")
      case True
      then show ?thesis using I Cons.prems(2) False p i by auto
    next
      case no: False
      then have "cb_walk st (deleg_cb_lookup_cb (ev_usable env) c) None ps = (st', ctx, rc)" using I Cons.prems(2) False p i by simp
      then show ?thesis using Cons.IH Cons.prems(1) no p by (auto split: option.splits)
    qed
  qed
qed simp

lemma lookup_buckets:
  assumes wf: "st_wf st" and r: "cb_buckets st (deleg_cb_lookup_cb (ev_usable env) c) None bs = (st', ctx, rc)"
  shows "(case ctx of
      None \<Rightarrow> st' = st \<and> (\<forall>b \<in> set bs. \<forall>p \<in> set (session_hash st b). \<not> channel env c (session st p))
    | Some l \<Rightarrow> same_view st st' \<and> (\<exists>q s. sessions st q = Some s \<and> channel env c s \<and> lk_session_id l = se_id s))"
  using r
proof (induction bs)
  case (Cons b bs)
  have live: "\<forall>p \<in> set (session_hash st b). sessions st p \<noteq> None" using hash_live [OF wf] by auto
  obtain st1 ctx1 rc1 where i: "cb_walk st (deleg_cb_lookup_cb (ev_usable env) c) None (session_hash st b) = (st1, ctx1, rc1)" by (metis prod_cases3)
  note W = lookup_walk [OF live i]
  show ?case
  proof (cases ctx1)
    case None
    then have "cb_buckets st (deleg_cb_lookup_cb (ev_usable env) c) None bs = (st', ctx, rc)" using W Cons.prems i by simp
    then show ?thesis using Cons.IH W None by (auto split: option.splits)
  next
    case (Some l)
    then have "ctx = Some l" "st' = st1" using W Cons.prems i by auto
    moreover obtain p where "p \<in> set (session_hash st b)" "channel env c (session st p)" "lk_session_id l = se_id (session st p)" using W Some by auto
    ultimately show ?thesis using W Some live by force
  qed
qed (simp add: same_view_refl)

lemma session_listed:
  assumes "st_wf st" "session_buckets st \<noteq> 0" "sessions st q = Some s"
  shows "\<exists>b \<in> set (session_buckets_list st). q \<in> set (session_hash st b)"
proof -
  let ?n = "session_buckets st" and ?b = "hash_session_id (session_buckets st) (se_id s)"
  have "chain_wf (sessions st) (\<lambda>s. hash_session_id ?n (se_id s)) (dom (sessions st)) (session_hash st)" using assms(1) by (simp add: st_wf_def index_wf_def)
  then have "q \<in> set (session_hash st ?b)" using chain_wf_memD assms(3) by fastforce
  moreover have "?b \<in> set (session_buckets_list st)"
  proof -
    have w: "unat ?n < 2 ^ LENGTH(32)" by (rule unsigned_less)
    have "unat ?b = unat (os_mix64 (le_load (take 8 (se_id s)))) mod unat ?n mod 2 ^ 32"
      using w by (simp add: hash_session_id_def unsigned_ucast_eq take_bit_eq_mod unat_mod)
    also have "\<dots> \<le> unat (os_mix64 (le_load (take 8 (se_id s)))) mod unat ?n" by (rule mod_less_eq_dividend)
    also have "\<dots> < unat ?n" using assms(2) by (simp add: unat_gt_0)
    finally have "unat ?b \<in> set [0..<unat ?n]" by simp
    then have "of_nat (unat ?b) \<in> set (session_buckets_list st)" unfolding session_buckets_list_def set_map by (rule imageI)
    then show ?thesis by simp
  qed
  ultimately show ?thesis by blast
qed

lemma find_backchannel_result:
  assumes wf: "st_wf st" and n: "session_buckets st \<noteq> 0" and r: "deleg_find_backchannel env st c = (st', ctx)"
  shows "st_wf st'" "same_view st st'" "ctx \<noteq> None \<longleftrightarrow> has_channel env st c"
    "ctx = Some l \<Longrightarrow> \<exists>q s. sessions st q = Some s \<and> se_clientid s = c \<and> se_id s = lk_session_id l"
proof -
  obtain rc where b: "cb_buckets st (deleg_cb_lookup_cb (ev_usable env) c) None (session_buckets_list st) = (st', ctx, rc)"
    using r by (auto simp: deleg_find_backchannel_def session_for_each_with_cb_def split: prod.splits)
  note B = lookup_buckets [OF wf b]
  show "st_wf st'" using cb_buckets_wf [OF wf b] by simp
  show "same_view st st'" using B same_view_refl by (auto split: option.splits)
  show "ctx \<noteq> None \<longleftrightarrow> has_channel env st c"
  proof (cases ctx)
    case None
    have "\<not> channel env c s" if "sessions st q = Some s" for q s
      using session_listed [OF wf n that] B None that by fastforce
    then show ?thesis using None by (auto simp: has_channel_def)
  next
    case (Some l)
    then show ?thesis using B by (auto simp: has_channel_def)
  qed
  show "\<exists>q s. sessions st q = Some s \<and> se_clientid s = c \<and> se_id s = lk_session_id l" if L: "ctx = Some l"
  proof -
    obtain q s where "sessions st q = Some s" "channel env c s" "lk_session_id l = se_id s" using B L by auto
    then show ?thesis by (intro exI [of _ q] exI [of _ s]) (simp add: channel_def)
  qed
qed

text \<open>One CB_RECALL for each target whose client has a backchannel, to a session of that client, in order.\<close>

definition session_of :: "session_table \<Rightarrow> u64 \<Rightarrow> bytes \<Rightarrow> bool" where
  "session_of st c i \<longleftrightarrow> (\<exists>q s. sessions st q = Some s \<and> se_clientid s = c \<and> se_id s = i)"

lemma session_of_view: "same_view st st' \<Longrightarrow> session_of st' c i \<Longrightarrow> session_of st c i"
  unfolding session_of_def by (metis same_view_some)

lemma send_all_result:
  assumes "st_wf st" "session_buckets st \<noteq> 0" "recall_send_all env dt tmo ts st = (st', cs)"
  shows "map (\<lambda>c. (cb_stateid c, cb_fileid c)) cs = map (\<lambda>t. (tg_stateid t, tg_fileid t)) (filter (\<lambda>t. has_channel env st (tg_clientid t)) ts) \<and>
    (\<forall>c \<in> set cs. \<exists>t \<in> set ts. tg_stateid t = cb_stateid c \<and> session_of st (tg_clientid t) (lk_session_id (cb_lookup c)))"
  using assms
proof (induction ts arbitrary: st st' cs)
  case (Cons t ts)
  obtain st1 ctx where f: "deleg_find_backchannel env st (tg_clientid t) = (st1, ctx)" by fastforce
  note F = find_backchannel_result [OF Cons.prems(1,2) f]
  obtain st2 cs2 where s2: "recall_send_all env dt tmo ts st1 = (st2, cs2)" by fastforce
  have n1: "session_buckets st1 \<noteq> 0" using F(2) Cons.prems(2) by (simp add: same_view_def)
  have ch: "has_channel env st1 k \<longleftrightarrow> has_channel env st k" for k by (rule has_channel_view [OF F(2)])
  have I: "map (\<lambda>c. (cb_stateid c, cb_fileid c)) cs2 = map (\<lambda>t. (tg_stateid t, tg_fileid t)) (filter (\<lambda>t. has_channel env st (tg_clientid t)) ts)"
    using Cons.IH [OF F(1) n1 s2] unfolding ch by blast
  have J: "\<exists>t \<in> set ts. tg_stateid t = cb_stateid c \<and> session_of st (tg_clientid t) (lk_session_id (cb_lookup c))" if "c \<in> set cs2" for c
    using Cons.IH [OF F(1) n1 s2] that session_of_view [OF F(2)] by blast
  show ?case
  proof (cases ctx)
    case None
    then have "cs = cs2" "\<not> has_channel env st (tg_clientid t)" using Cons.prems(3) f s2 F(3) by (simp_all add: deleg_recall_send_one_def)
    then show ?thesis using I J by simp
  next
    case (Some l)
    let ?c = "recall_args env dt l (tg_stateid t) (tg_fileid t) tmo"
    have h: "has_channel env st (tg_clientid t)" using F(3) Some by blast
    have cs: "cs = ?c # cs2" using Some Cons.prems(3) f s2 by (simp add: deleg_recall_send_one_def)
    have c: "cb_stateid ?c = tg_stateid t" "cb_fileid ?c = tg_fileid t" "cb_lookup ?c = l" by (simp_all add: recall_args_def split_beta)
    have "session_of st (tg_clientid t) (lk_session_id l)" unfolding session_of_def by (rule F(4) [OF Some])
    then show ?thesis using I J cs c h by simp
  qed
qed simp

end
