(* ===== verification/Deleg_Theorems.thy ===== *)
theory Deleg_Theorems
  imports Deleg_Life Deleg_Channel Session_Theorems Open_Theorems
begin

text \<open>
  The properties of delegations: what a recall removes, records and sends, that OPENs which do not overlap in time leave the
  delegations of a file with one client and that overlapping ones do not, and the life of a stateid.
\<close>

section \<open>What a recall sends\<close>

lemma record_st: "dt_st (fold (deleg_pending_record env) ts dt) = dt_st dt"
  by (induction ts arbitrary: dt) (simp_all add: deleg_pending_record_def)

lemma filter_target: "filter (\<lambda>t. P (tg_clientid t)) (map target_of es) = map target_of (filter (\<lambda>e. P (dg_clientid e)) es)"
  by (induction es) (simp_all add: target_of_def)

lemma recall_sends:
  assumes st: "st_wf (ev_st env)" "session_buckets (ev_st env) \<noteq> 0" and r: "deleg_recall_file env dt f c tmo = (dt', st', cs, rc)"
  shows "map (\<lambda>k. (cb_stateid k, cb_fileid k)) cs =
      (if dt_st dt then map (\<lambda>e. (dg_stateid e, f)) (filter (\<lambda>e. has_channel env (ev_st env) (dg_clientid e)) (recalled dt f c)) else [])"
    and "\<forall>k \<in> set cs. \<exists>e \<in> set (recalled dt f c). dg_stateid e = cb_stateid k \<and> session_of (ev_st env) (dg_clientid e) (lk_session_id (cb_lookup k))"
proof -
  let ?b = "deleg_hash f" and ?D = "recalled dt f c"
  obtain keep where k: "detach_loop f c DELEG_RECALL_MAX_PER_FILE (dt_buckets dt ?b) = (keep, ?D)"
    using detach_loop_result [of f c DELEG_RECALL_MAX_PER_FILE "dt_buckets dt ?b"] by (metis prod.collapse recalled_def)
  define dt2 where "dt2 = fold (deleg_pending_record env) (map target_of ?D) (fold (detach_one env) ?D (set_bucket dt ?b keep))"
  have d: "dt_st dt2 = dt_st dt" using detach_all_sel [of env ?D "set_bucket dt ?b keep"] by (simp add: dt2_def record_st)
  have f: "dg_fileid e = f" if "e \<in> set ?D" for e using recalled_mem [OF that] by (simp add: held_by_other_def)
  consider "\<not> dt_st dt" "cs = []" | tmo' where "dt_st dt" "recall_send_all env dt2 tmo' (map target_of ?D) (ev_st env) = (st', cs)"
    using r k d by (auto simp: deleg_recall_file_def deleg_recall_detach_def Let_def dt2_def split: if_splits prod.splits)
  then have "map (\<lambda>k. (cb_stateid k, cb_fileid k)) cs =
      (if dt_st dt then map (\<lambda>e. (dg_stateid e, f)) (filter (\<lambda>e. has_channel env (ev_st env) (dg_clientid e)) ?D) else []) \<and>
    (\<forall>k \<in> set cs. \<exists>e \<in> set ?D. dg_stateid e = cb_stateid k \<and> session_of (ev_st env) (dg_clientid e) (lk_session_id (cb_lookup k)))"
  proof cases
    case 2
    have m: "map (\<lambda>t. (tg_stateid t, tg_fileid t)) (map target_of (filter P ?D)) = map (\<lambda>e. (dg_stateid e, f)) (filter P ?D)" for P
      using f by (auto simp: target_of_def)
    show ?thesis using send_all_result [OF st 2(2)] 2(1) unfolding filter_target m by (simp add: target_of_def)
  qed simp
  then show "map (\<lambda>k. (cb_stateid k, cb_fileid k)) cs =
      (if dt_st dt then map (\<lambda>e. (dg_stateid e, f)) (filter (\<lambda>e. has_channel env (ev_st env) (dg_clientid e)) ?D) else [])"
    and "\<forall>k \<in> set cs. \<exists>e \<in> set ?D. dg_stateid e = cb_stateid k \<and> session_of (ev_st env) (dg_clientid e) (lk_session_id (cb_lookup k))" by blast+
qed

text \<open>The holders that a recall for client \<open>c\<close> meets on file \<open>f\<close>.\<close>

definition holders :: "deleg_table \<Rightarrow> u64 \<Rightarrow> u64 \<Rightarrow> deleg_entry set" where
  "holders dt f c = {e \<in> grants dt. held_by_other f c e}"

lemma recalled_holders:
  assumes wf: "dl_wf n dt"
  shows "distinct (recalled dt f c)" "set (recalled dt f c) \<subseteq> holders dt f c"
    "length (recalled dt f c) = min DELEG_RECALL_MAX_PER_FILE (card (holders dt f c))"
    "card (holders dt f c) \<le> DELEG_RECALL_MAX_PER_FILE \<Longrightarrow> set (recalled dt f c) = holders dt f c"
proof -
  let ?l = "filter (held_by_other f c) (dt_buckets dt (deleg_hash f))"
  have d: "distinct ?l" using dl_wfD(2) [OF wf] by simp
  have s: "set ?l = holders dt f c" using bucket_grants [OF wf, of "deleg_hash f"] by (auto simp: holders_def held_by_other_def)
  have l: "length ?l = card (holders dt f c)" using distinct_card [OF d] s by simp
  show "distinct (recalled dt f c)" using d by (simp add: recalled_def)
  show "set (recalled dt f c) \<subseteq> holders dt f c" using s set_take_subset by (metis recalled_def)
  show "length (recalled dt f c) = min DELEG_RECALL_MAX_PER_FILE (card (holders dt f c))" by (simp add: recalled_def l min.commute)
  show "set (recalled dt f c) = holders dt f c" if "card (holders dt f c) \<le> DELEG_RECALL_MAX_PER_FILE"
    using that s l by (simp add: recalled_def)
qed

lemma boot_run:
  assumes "deleg_table_init False mds = Some dt0" "length ops < 2 ^ 64"
  obtains n where "n \<le> length ops" "dl_wf n (deleg_run dt0 ops)"
  using dl_wf_run [of 0 dt0 ops] dl_wf_init [OF assms(1)] assms(2) by auto

section \<open>The decision of OPEN\<close>

lemma open_delegation_decision:
  assumes wf: "dl_wf n dt" and r: "open_delegation env oom rt dt wired (Some ot) c f acc = (dt', st, cs, ty, reason, sid)"
  shows "ty \<noteq> OPEN_DELEGATE_NONE \<Longrightarrow> wired \<and> ty = open_deleg_type acc \<and> \<not> open_state_has_other_writer ot f c"
    and "reason = WND4_CONTENTION \<Longrightarrow> open_state_has_other_writer ot f c \<or> DELEG_RECALL_MAX_PER_FILE < card (holders dt f c)"
proof -
  obtain dt1 st1 cs1 k where rc: "deleg_recall_file env dt f c 0 = (dt1, st1, cs1, k)" by (metis prod_cases4)
  note R = recall_file_result [OF wf rc]
  let ?p = "open_deleg_probe dt1 wired (Some ot) c f acc"
  have g: "open_deleg_grant oom rt dt1 c f ?p = (dt', ty, reason, sid)" using r rc by (auto simp: open_delegation_def split: prod.splits)
  have no: "DELEG_RECALL_MAX_PER_FILE < card (holders dt f c)" if "deleg_check_conflict dt1 f c"
  proof (rule ccontr)
    assume "\<not> ?thesis"
    then have "set (recalled dt f c) = holders dt f c" by (intro recalled_holders(4) [OF wf]) simp
    then show False using that unfolding check_conflict_iff [OF R(1)] R(2) holders_def by blast
  qed
  show "wired \<and> ty = open_deleg_type acc \<and> \<not> open_state_has_other_writer ot f c" if "ty \<noteq> OPEN_DELEGATE_NONE"
    using g that by (cases ?p) (auto simp: open_deleg_grant_def open_deleg_probe_def Let_def split: if_splits prod.splits)
  show "open_state_has_other_writer ot f c \<or> DELEG_RECALL_MAX_PER_FILE < card (holders dt f c)" if "reason = WND4_CONTENTION"
    using g that no by (cases ?p) (auto simp: open_deleg_grant_def open_deleg_probe_def Let_def split: if_splits prod.splits)
qed

lemma open_deleg_type_access:
  "open_deleg_type acc = OPEN_DELEGATE_WRITE \<Longrightarrow> acc AND OPEN4_SHARE_ACCESS_WRITE \<noteq> 0"
  "open_deleg_type acc = OPEN_DELEGATE_READ \<Longrightarrow> acc AND OPEN4_SHARE_ACCESS_READ \<noteq> 0"
  by (auto simp: open_deleg_type_def Let_def and.assoc split: if_splits)

lemma grant_enters:
  assumes "ty = OPEN_DELEGATE_READ \<or> ty = OPEN_DELEGATE_WRITE"
  shows "\<exists>e. grants (deleg_step (D_grant False t c f ty) dt) = insert e (grants dt) \<and> dg_fileid e = f \<and> dg_clientid e = c \<and> dg_type e = ty"
proof -
  obtain dt' rc sid where r: "deleg_grant False t dt c f ty = (dt', rc, sid)" by (metis prod_cases3)
  then have "rc = 0" using assms by (auto simp: deleg_grant_def Let_def split: prod.splits)
  then obtain e where "dt_buckets dt' = (dt_buckets dt)(deleg_hash f := e # dt_buckets dt (deleg_hash f))" "dg_fileid e = f" "dg_clientid e = c" "dg_type e = ty"
    using r by (elim deleg_grant_cases) auto
  moreover have "grants dt' = insert e (grants dt)" using calculation(1) by (auto simp: grants_def split: if_splits)
  ultimately show ?thesis using r by auto
qed

section \<open>A small table for the witnesses\<close>

definition wd_st :: session_table where "wd_st = fst (session_bind_conn ws_tab ws_sid 3)"

definition wd_env :: deleg_env where
  "wd_env = \<lparr>ev_st = wd_st, ev_usable = (\<lambda>k. k = Some 3), ev_generation = (\<lambda>_. Some 1), ev_now = 1000, ev_oom_revoked = (\<lambda>_. False),
     ev_oom_pending = (\<lambda>_. False), ev_cb_rc = (\<lambda>_. 0)\<rparr>"

definition wd_boot :: deleg_table where "wd_boot = the (deleg_table_init False 7)"

definition wd_ops :: "deleg_op list" where
  "wd_ops = [D_set_session True, D_open wd_env False 0 True None 0x1000700000001 9 2]"

definition wd_tab :: deleg_table where "wd_tab = deleg_run wd_boot wd_ops"
definition wd_grant :: deleg_entry where
  "wd_grant = \<lparr>dg_stateid = \<lparr>seqid = 1, other = open_other 7 1\<rparr>, dg_clientid = 0x1000700000001, dg_fileid = 9, dg_type = OPEN_DELEGATE_WRITE\<rparr>"

lemma wd_reach: "deleg_table_init False 7 = Some wd_boot" "length wd_ops < 2 ^ 64"
  by (simp_all add: wd_boot_def deleg_table_init_def wd_ops_def)

lemma wd_st_ok: "session_reach wd_st" "session_buckets wd_st \<noteq> 0"
proof -
  have "session_reach (session_step ws_tab (S_bind_conn ws_sid 3))" by (rule session_reach.step [OF ws_reach]) simp
  then show "session_reach wd_st" by (simp add: wd_st_def)
  show "session_buckets wd_st \<noteq> 0" by code_simp
qed

lemma wd_wf: obtains n where "dl_wf n wd_tab"
  using boot_run [OF wd_reach] unfolding wd_tab_def by blast

lemma wd_holds: "dt_buckets wd_tab (deleg_hash 9) = [wd_grant]"
  by code_simp

lemma wd_holders: "holders wd_tab 9 5 = {wd_grant}"
proof -
  obtain n where wf: "dl_wf n wd_tab" by (rule wd_wf)
  have g: "e \<in> grants wd_tab \<and> deleg_hash (dg_fileid e) = deleg_hash 9 \<longleftrightarrow> e = wd_grant" for e
    using bucket_grants [OF wf, of "deleg_hash 9"] unfolding wd_holds by (simp add: set_eq_iff)
  have "held_by_other 9 5 wd_grant" by (simp add: held_by_other_def wd_grant_def)
  then show ?thesis using g unfolding holders_def held_by_other_def by (metis (mono_tags, lifting) Collect_cong singleton_conv)
qed

section \<open>Properties\<close>

text \<open>C37. A conflict recall takes from the file the delegations of other clients, at most 64 of them, and no other delegation.
  It returns their number, marks each as revoked and enters it in the ledger of unanswered recalls (unless the allocation
  of the record fails), leaves no conflict behind when there were at most 64, and sends CB_RECALL for exactly those whose
  client has a session with a usable backchannel, over a session of that client.\<close>

theorem deleg_recall_exact:
  assumes b: "deleg_table_init False mds = Some dt0" "length ops < 2 ^ 64" and dt: "dt = deleg_run dt0 ops"
    and st: "session_reach (ev_st env)" "session_buckets (ev_st env) \<noteq> 0"
    and r: "deleg_recall_file env dt f c tmo = (dt', st', cs, rc)"
  shows "\<exists>D. distinct D \<and> set D \<subseteq> holders dt f c \<and> length D = min 64 (card (holders dt f c)) \<and> rc = int (length D) \<and>
    grants dt' = grants dt - set D \<and> (card (holders dt f c) \<le> 64 \<longrightarrow> \<not> deleg_check_conflict dt' f c) \<and>
    set (dt_revoked dt') = set (dt_revoked dt) \<union>
      {\<lparr>rk_other = dg_other e, rk_clientid = dg_clientid e\<rparr> | e. e \<in> set D \<and> \<not> ev_oom_revoked env (dg_other e)} \<and>
    set (dt_pending dt') = set (dt_pending dt) \<union>
      {\<lparr>pr_stateid = dg_stateid e, pr_clientid = dg_clientid e, pr_fileid = f, pr_recorded_ns = ev_now env, pr_resend_count = 0\<rparr> |
         e. e \<in> set D \<and> \<not> ev_oom_pending env (dg_other e)} \<and>
    map (\<lambda>k. (cb_stateid k, cb_fileid k)) cs =
      (if dt_st dt then map (\<lambda>e. (dg_stateid e, f)) (filter (\<lambda>e. has_channel env (ev_st env) (dg_clientid e)) D) else []) \<and>
    (\<forall>k \<in> set cs. \<exists>e \<in> set D. dg_stateid e = cb_stateid k \<and> session_of (ev_st env) (dg_clientid e) (lk_session_id (cb_lookup k)))"
proof -
  obtain n where wf: "dl_wf n dt" using boot_run [OF b] unfolding dt by blast
  note R = recall_file_result [OF wf r] and H = recalled_holders [OF wf, of f c]
  have no: "\<not> deleg_check_conflict dt' f c" if "card (holders dt f c) \<le> 64"
    using H(4) [OF that] unfolding check_conflict_iff [OF R(1)] R(2) holders_def by blast
  show ?thesis
    by (rule exI [of _ "recalled dt f c"], intro conjI impI)
      (rule H(1) H(2) H(3) R(2) R(3) R(4) R(5) no recall_sends [OF reach_wf [OF st(1)] st(2) r] | assumption)+
qed

theorem deleg_recall_exact_witness:
  "\<exists>dt' st' k. deleg_recall_file wd_env wd_tab 9 5 0 = (dt', st', [k], 1) \<and> cb_stateid k = dg_stateid wd_grant \<and>
     grants dt' = grants wd_tab - {wd_grant} \<and> \<not> deleg_check_conflict dt' 9 5"
proof -
  obtain dt' st' cs rc where r: "deleg_recall_file wd_env wd_tab 9 5 0 = (dt', st', cs, rc)" by (metis prod_cases4)
  have ne: "fst (snd (snd (deleg_recall_file wd_env wd_tab 9 5 0))) \<noteq> []" by code_simp
  have ev: "ev_st wd_env = wd_st" by (simp add: wd_env_def)
  obtain D where D: "length D = 1" "set D \<subseteq> {wd_grant}" "rc = int (length D)" "grants dt' = grants wd_tab - set D" "\<not> deleg_check_conflict dt' 9 5"
    "map (\<lambda>k. (cb_stateid k, cb_fileid k)) cs =
      (if dt_st wd_tab then map (\<lambda>e. (dg_stateid e, 9)) (filter (\<lambda>e. has_channel wd_env (ev_st wd_env) (dg_clientid e)) D) else [])"
    using deleg_recall_exact [OF wd_reach wd_tab_def _ _ r] wd_st_ok unfolding wd_holders ev by auto
  have DD: "D = [wd_grant]" using D(1,2) by (auto simp: length_Suc_conv)
  obtain k where "cs = [k]" "cb_stateid k = dg_stateid wd_grant" using D(6) ne r unfolding DD by (auto split: if_splits)
  then show ?thesis using D(3-5) r unfolding DD by simp
qed

text \<open>C38. When no grant slips in between the recall and the grant of another OPEN, the delegations of a file always belong to
  one client. An OPEN that obtains a delegation is then the only holder of the file, its access covers the type, callbacks
  can be sent, and no other client has the file open for writing. An OPEN is declined for contention only because of another
  client's writer or of more than 64 holders.\<close>

theorem open_delegation_exclusive:
  assumes b: "deleg_table_init False mds = Some dt0" "length ops < 2 ^ 64" "\<forall>op \<in> set ops. serial_op op" and dt: "dt = deleg_run dt0 ops"
    and o: "length opens < 2 ^ 64" "s = open_run (open_boot omds fb sb ls now cat epoch) opens" "ot = sys_tab s"
    and r: "open_delegation env oom rt dt wired (Some ot) c f acc = (dt', st, cs, ty, reason, sid)"
  shows "(\<forall>e \<in> grants dt'. \<forall>e' \<in> grants dt'. dg_fileid e = dg_fileid e' \<longrightarrow> dg_clientid e = dg_clientid e') \<and>
    (ty \<noteq> OPEN_DELEGATE_NONE \<longrightarrow> wired \<and> (\<exists>e \<in> grants dt'. sid = Some (dg_stateid e) \<and> dg_fileid e = f \<and> dg_clientid e = c \<and> dg_type e = ty) \<and>
       (\<forall>e \<in> grants dt'. dg_fileid e = f \<longrightarrow> dg_clientid e = c) \<and>
       (\<forall>c' w a d. c' \<noteq> c \<and> opens_of ot (f, c', w) = Some (a, d) \<longrightarrow> a AND OPEN4_SHARE_ACCESS_WRITE = 0)) \<and>
    (ty = OPEN_DELEGATE_WRITE \<longrightarrow> acc AND OPEN4_SHARE_ACCESS_WRITE \<noteq> 0) \<and> (ty = OPEN_DELEGATE_READ \<longrightarrow> acc AND OPEN4_SHARE_ACCESS_READ \<noteq> 0) \<and>
    (reason = WND4_CONTENTION \<longrightarrow> 64 < card (holders dt f c) \<or>
       (\<exists>c' w a d. c' \<noteq> c \<and> opens_of ot (f, c', w) = Some (a, d) \<and> a AND OPEN4_SHARE_ACCESS_WRITE \<noteq> 0))"
proof -
  obtain n where n: "n \<le> length ops" and wf: "dl_wf n dt" using boot_run [OF b(1,2)] unfolding dt by blast
  have n64: "n < 2 ^ 64" using n b(2) by simp
  have "one_client dt0" using dl_wf_init [OF b(1)] by (simp add: one_client_def)
  then have "one_client dt" using one_client_run [of 0 dt0 ops] dl_wf_init [OF b(1)] b(2,3) by (simp add: dt)
  then have one: "one_client dt'" by (rule one_client_open [OF wf n64 _ r])
  note D = open_delegation_decision [OF wf r] and W = open_has_other_writer_iff [OF o]
  have g: "\<exists>e \<in> grants dt'. sid = Some (dg_stateid e) \<and> dg_fileid e = f \<and> dg_clientid e = c \<and> dg_type e = ty" if "ty \<noteq> OPEN_DELEGATE_NONE"
    using open_delegation_result [OF wf n64 r] that by auto
  then have "\<forall>e \<in> grants dt'. dg_fileid e = f \<longrightarrow> dg_clientid e = c" if "ty \<noteq> OPEN_DELEGATE_NONE"
    using that one unfolding one_client_def by metis
  moreover have "ty = OPEN_DELEGATE_WRITE \<longrightarrow> acc AND OPEN4_SHARE_ACCESS_WRITE \<noteq> 0" "ty = OPEN_DELEGATE_READ \<longrightarrow> acc AND OPEN4_SHARE_ACCESS_READ \<noteq> 0"
    using D(1) open_deleg_type_access by auto
  ultimately show ?thesis using g D(1) D(2) [unfolded W] one unfolding one_client_def W by blast
qed

theorem open_delegation_exclusive_witness:
  "\<exists>dt' st cs reason sid. open_delegation wd_env False 0 wd_tab True (Some (sys_tab wo_sys)) 2 9 1 = (dt', st, cs, OPEN_DELEGATE_READ, reason, sid) \<and>
     (\<forall>e \<in> grants dt'. dg_fileid e = 9 \<longrightarrow> dg_clientid e = 2)"
proof -
  obtain dt' st cs ty reason sid where r: "open_delegation wd_env False 0 wd_tab True (Some (sys_tab wo_sys)) 2 9 1 = (dt', st, cs, ty, reason, sid)"
    by (metis prod_cases6)
  have "fst (snd (snd (snd (open_delegation wd_env False 0 wd_tab True (Some (sys_tab wo_sys)) 2 9 1)))) = OPEN_DELEGATE_READ" by code_simp
  then have ty: "ty = OPEN_DELEGATE_READ" using r by simp
  have s: "\<forall>op \<in> set wd_ops. serial_op op" by (simp add: wd_ops_def)
  have "\<forall>e \<in> grants dt'. dg_fileid e = 9 \<longrightarrow> dg_clientid e = 2"
    by (rule open_delegation_exclusive [OF wd_reach s wd_tab_def wo_reach refl r, THEN conjunct2, THEN conjunct1, THEN mp, THEN conjunct2, THEN conjunct2, THEN conjunct1])
      (simp add: ty)
  then show ?thesis using r unfolding ty by blast
qed

text \<open>C39. Recall, probe and grant of an OPEN are separate critical sections. When an OPEN for reading has probed, and an OPEN of
  another client for writing recalls and probes before the first one grants, both probes pass and the file ends up with a
  READ delegation of one client and a WRITE delegation of another.\<close>

theorem open_delegation_race:
  assumes b: "deleg_table_init False mds = Some dt0" "length ops < 2 ^ 64" and dt: "dt = deleg_run dt0 ops"
    and free: "\<forall>e \<in> grants dt. dg_fileid e \<noteq> f"
    and ot: "\<not> open_state_has_other_writer ot1 f c1" "\<not> open_state_has_other_writer ot2 f c2"
    and r1: "deleg_recall_file env1 dt f c1 0 = (dt1, st1, cs1, k1)" and r2: "deleg_recall_file env2 dt1 f c2 0 = (dt2, st2, cs2, k2)"
  shows "open_deleg_probe dt1 True (Some ot1) c1 f OPEN4_SHARE_ACCESS_READ = Inr OPEN_DELEGATE_READ \<and>
    open_deleg_probe dt2 True (Some ot2) c2 f OPEN4_SHARE_ACCESS_WRITE = Inr OPEN_DELEGATE_WRITE \<and>
    (\<exists>e1 \<in> grants (deleg_run dt2 [D_grant False t1 c1 f OPEN_DELEGATE_READ, D_grant False t2 c2 f OPEN_DELEGATE_WRITE]).
     \<exists>e2 \<in> grants (deleg_run dt2 [D_grant False t1 c1 f OPEN_DELEGATE_READ, D_grant False t2 c2 f OPEN_DELEGATE_WRITE]).
       dg_fileid e1 = f \<and> dg_fileid e2 = f \<and> dg_clientid e1 = c1 \<and> dg_clientid e2 = c2 \<and>
       dg_type e1 = OPEN_DELEGATE_READ \<and> dg_type e2 = OPEN_DELEGATE_WRITE)"
proof -
  obtain n where wf: "dl_wf n dt" using boot_run [OF b] unfolding dt by blast
  note R1 = recall_file_result [OF wf r1]
  note R2 = recall_file_result [OF R1(1) r2]
  have "\<not> deleg_check_conflict dt1 f c1" "\<not> deleg_check_conflict dt2 f c2"
    using free unfolding check_conflict_iff [OF R1(1)] check_conflict_iff [OF R2(1)] R1(2) R2(2) held_by_other_def by auto
  moreover have "open_deleg_type 1 = OPEN_DELEGATE_READ" "open_deleg_type 2 = OPEN_DELEGATE_WRITE" by (simp_all add: open_deleg_type_def)
  ultimately have p: "open_deleg_probe dt1 True (Some ot1) c1 f OPEN4_SHARE_ACCESS_READ = Inr OPEN_DELEGATE_READ"
    "open_deleg_probe dt2 True (Some ot2) c2 f OPEN4_SHARE_ACCESS_WRITE = Inr OPEN_DELEGATE_WRITE"
    using ot by (simp_all add: open_deleg_probe_def Let_def)
  obtain dt3 where g1: "deleg_step (D_grant False t1 c1 f OPEN_DELEGATE_READ) dt2 = dt3" by simp
  obtain dt4 where g2: "deleg_step (D_grant False t2 c2 f OPEN_DELEGATE_WRITE) dt3 = dt4" by simp
  obtain e1 where e1: "e1 \<in> grants dt3" "dg_fileid e1 = f" "dg_clientid e1 = c1" "dg_type e1 = OPEN_DELEGATE_READ"
    using grant_enters [of OPEN_DELEGATE_READ t1 c1 f dt2] g1 by auto
  obtain e2 where e2: "e2 \<in> grants dt4" "dg_fileid e2 = f" "dg_clientid e2 = c2" "dg_type e2 = OPEN_DELEGATE_WRITE" "grants dt3 \<subseteq> grants dt4"
    using grant_enters [of OPEN_DELEGATE_WRITE t2 c2 f dt3] g2 by auto
  have "deleg_run dt2 [D_grant False t1 c1 f OPEN_DELEGATE_READ, D_grant False t2 c2 f OPEN_DELEGATE_WRITE] = dt4" using g1 g2 by (simp add: deleg_run_def)
  then show ?thesis using p e1 e2 by blast
qed

definition wd_read :: "open_op list" where "wd_read = [OpOpen {} 1 [65] 9 1 0, OpCommit 0 MDS_OK]"
definition wd_write :: "open_op list" where "wd_write = wd_read @ [OpOpen {} 2 [66] 9 2 0, OpCommit 0 MDS_OK]"

theorem open_delegation_race_witness:
  "opens_of (sys_tab (open_run wo_boot wd_write)) (9, 1, [65]) = Some (1, 0) \<and> opens_of (sys_tab (open_run wo_boot wd_write)) (9, 2, [66]) = Some (2, 0) \<and>
   (\<exists>dt. \<exists>e1 \<in> grants dt. \<exists>e2 \<in> grants dt. dg_fileid e1 = 9 \<and> dg_fileid e2 = 9 \<and> dg_clientid e1 = 1 \<and> dg_clientid e2 = 2 \<and>
      dg_type e1 = OPEN_DELEGATE_READ \<and> dg_type e2 = OPEN_DELEGATE_WRITE)"
proof -
  obtain dt1 st1 cs1 k1 where r1: "deleg_recall_file wd_env wd_boot 9 1 0 = (dt1, st1, cs1, k1)" by (metis prod_cases4)
  obtain dt2 st2 cs2 k2 where r2: "deleg_recall_file wd_env dt1 9 2 0 = (dt2, st2, cs2, k2)" by (metis prod_cases4)
  have o: "\<not> open_state_has_other_writer (sys_tab (open_run wo_boot wd_read)) 9 1" "\<not> open_state_has_other_writer (sys_tab (open_run wo_boot wd_write)) 9 2"
    by code_simp+
  have b: "length ([] :: deleg_op list) < 2 ^ 64" "wd_boot = deleg_run wd_boot []" "\<forall>e \<in> grants wd_boot. dg_fileid e \<noteq> 9"
    using dl_wf_init [OF wd_reach(1)] by (simp_all add: deleg_run_def)
  have m: "opens_of (sys_tab (open_run wo_boot wd_write)) (9, 1, [65]) = Some (1, 0)" "opens_of (sys_tab (open_run wo_boot wd_write)) (9, 2, [66]) = Some (2, 0)"
    by code_simp+
  show ?thesis using open_delegation_race [OF wd_reach(1) b o r1 r2, THEN conjunct2, THEN conjunct2] m by blast
qed



end
