(* ===== verification/Spec2Isabelle.thy ===== *)
theory Spec2Isabelle
  imports Lock_Cleanup Lock_Mirror Grace Open_Theorems Open_Pool Fdb_Theorems Session_Theorems Lease_Theorems Deleg_Theorems
begin

text \<open>
  \<^bold>\<open>pNFS Lattice metadata server: verification of the protocol state and of its stored form.\<close>

  \<^medskip>
  \<^bold>\<open>The program.\<close> The metadata server answers NFSv4.1 compounds. A compound starts with SEQUENCE, which the
  session table (\<^verbatim>\<open>src/mds/session.c\<close>) checks against the slot of the session; the operations after it read and
  change the open table (\<^verbatim>\<open>src/mds/open_state.c\<close>), the byte-range lock table (\<^verbatim>\<open>src/mds/lock_state.c\<close>) and, for
  LAYOUTGET and LAYOUTRETURN, the stripe lease table (\<^verbatim>\<open>src/fsal_obj/lease_table.c\<close>). OPEN also recalls the delegations of
  other clients and may grant one (\<^verbatim>\<open>src/mds/delegation.c\<close>). After a restart the grace period
  (\<^verbatim>\<open>src/mds/grace.c\<close>) admits reclaims only. Opens and locks are written through to the shared catalogue, whose
  FoundationDB backend stores every row in the format of \<^verbatim>\<open>src/catalogue/fdb_codec.c\<close>. A reaper thread in the
  session table expires clients and has their opens and locks removed.

  \<^medskip>
  \<^bold>\<open>Conventions.\<close> C integers are words of their width; \<open>+\<close> wraps as it does in C. A struct is a record, an address a
  natural number, a linked chain the list of the addresses it visits, and the nodes live in a heap map. What the code
  gets from outside is an argument: clock readings, random nonces, the allocations that fail, the status of a catalogue
  write, the rows of the recovery table. A critical section is one function on the state; where the code releases its
  lock inside an operation, the sections are separate functions and a run interleaves them freely. Functions keep the
  names of the code; helpers for a loop or a branch are mapped to its lines. Null checks on arguments that every caller
  passes, and the functions that only free a table, have no counterpart.

  \<^medskip>
  \<^bold>\<open>Shared theories.\<close>
  \<^item> \<^verbatim>\<open>Lattice_Prelude\<close>: integer types, big-endian byte strings, the hash finaliser, stateids, chains.
  \<^item> \<^verbatim>\<open>Stateid_Index\<close>: the table indexed by file and by stateid that opens and locks have in common. The locale
    \<open>stateid_index\<close> is its contract, interpreted as \<open>lk\<close> on the lock stripes and as \<open>op\<close> and \<open>opk\<close> on the open table.

  \<^medskip>
  \<^bold>\<open>Byte-range locks\<close> (\<^verbatim>\<open>lock_state.c\<close>; C1 to C8).
  \<^item> \<^verbatim>\<open>Lock_State\<close> has the code: the striped table, \<open>lock_acquire\<close>, \<open>lock_test\<close>, \<open>lock_release\<close>, \<open>lock_free_stateid\<close>, the
    cleanup of a client and the courtesy revocation. \<^verbatim>\<open>Lock_Range\<close> proves what carving a range out of a list of
    ranges does, \<^verbatim>\<open>Lock_Index\<close> and \<^verbatim>\<open>Lock_Inv\<close> the invariant \<open>lock_inv\<close>.
  \<^item> \<^verbatim>\<open>Lock_Spec\<close> is the contract, a map from file, owner and byte to a lock type. \<^verbatim>\<open>Lock_Theorems\<close> and \<^verbatim>\<open>Lock_Cleanup\<close>
    show that LOCK, LOCKU and the cleanups implement it, that LOCKT agrees with LOCK, that two owners never hold
    conflicting locks after any run, and that errors change no lock. \<^verbatim>\<open>Lock_Mirror\<close> shows that the rows written to the
    catalogue mirror the ranges in memory.

  \<^medskip>
  \<^bold>\<open>Grace period\<close> (\<^verbatim>\<open>grace.c\<close>; C9 to C11). \<^verbatim>\<open>Grace\<close> has the code, the correctness of the binary search over the
  recovery list, that the period ends when all clients have reclaimed, and that it never outlasts its end time.

  \<^medskip>
  \<^bold>\<open>Opens\<close> (\<^verbatim>\<open>open_state.c\<close>; C12 to C20).
  \<^item> \<^verbatim>\<open>Open_State\<close> has the code. OPEN drops its locks around the durable write, so it is \<open>open_state_open_begin\<close> and
    \<open>open_commit\<close>. \<^verbatim>\<open>Open_Index\<close> and \<^verbatim>\<open>Open_Inv\<close> hold the invariants, \<^verbatim>\<open>Open_Sys\<close> the interleavings of lock sections.
  \<^item> \<^verbatim>\<open>Open_Spec\<close> is the contract, a map from file, client and owner to share modes. \<^verbatim>\<open>Open_Theorems\<close> shows that OPEN
    implements it in every reachable state, that no two opens conflict under any interleaving as long as downgrades do
    not add deny bits (and that the code lets them add some), what happens to opens in flight, and what CLOSE,
    teardown and revocation remove. \<^verbatim>\<open>Open_Pool\<close> treats the allocation pool.

  \<^medskip>
  \<^bold>\<open>Stored rows\<close> (\<^verbatim>\<open>fdb_codec.c\<close>; C21 to C24).
  \<^item> \<^verbatim>\<open>Fdb_Cursor\<close> has the bounded cursors and the locales \<open>value_codec\<close> (what is encoded is decoded, sizes, refusals) and
    \<open>strict_codec\<close> (nothing else is decoded). \<^verbatim>\<open>Fdb_Rows\<close>, \<^verbatim>\<open>Fdb_Ext\<close>, \<^verbatim>\<open>Fdb_Coord\<close>, \<^verbatim>\<open>Fdb_Cluster\<close> and \<^verbatim>\<open>Fdb_Layout\<close> have every
    encoder and decoder and interpret a locale for each pair.
  \<^item> \<^verbatim>\<open>Fdb_Theorems\<close> collects what follows: inodes survive storage, decoders accept exactly the encodings, the scan of a
    layout row agrees with its decoder, and the row that an OPEN persists is read back as it was.

  \<^medskip>
  \<^bold>\<open>Clients and sessions\<close> (\<^verbatim>\<open>session.c\<close>; C25 to C31).
  \<^item> \<^verbatim>\<open>Session_State\<close> has the code: EXCHANGE_ID, CREATE_SESSION, SEQUENCE with the reply cache, teardown, connection binding,
    callback enumeration and the reaper. The table contains the open table and the lock table, which the
    reaper cleans through their own operations.
  \<^item> \<^verbatim>\<open>Session_Index\<close>, \<^verbatim>\<open>Session_Ops\<close> and \<^verbatim>\<open>Session_Reaper\<close> prove the invariant \<open>st_wf\<close>; \<^verbatim>\<open>Session_Run\<close> composes the operations into
    runs. The locale \<open>client_cleanup\<close> is what the reaper relies on in the two tables, interpreted as \<open>oc\<close> and \<open>lc\<close>.
  \<^item> \<^verbatim>\<open>Session_Drc\<close> follows the slots through runs, \<^verbatim>\<open>Session_Spec\<close> specifies EXCHANGE_ID and CREATE_SESSION on a client
    directory. \<^verbatim>\<open>Session_Theorems\<close>: the table is well formed, a request is executed at most once and replayed from the
    cache, the two operations implement their case tables, a reaper pass removes exactly what has expired, and all
    session identifiers share one hash bucket.

  \<^medskip>
  \<^bold>\<open>Stripe leases\<close> (\<^verbatim>\<open>lease_stripe_map.c\<close>, \<^verbatim>\<open>lease_table.c\<close>, part of \<^verbatim>\<open>src/mds/compound_layout.c\<close>; C32 to C36).
  \<^item> \<^verbatim>\<open>Lease_Slices\<close> cuts a byte range into stripes and proves the loop against a reference over natural numbers.
    \<^verbatim>\<open>Lease_Table\<close> has the sharded table, \<^verbatim>\<open>Lease_Spec\<close> the map of leases it implements. \<^verbatim>\<open>Lease_Layoutget\<close> has the grant
    window, the scope of the lease, the conflict gate and the acquisition in LAYOUTGET, and the requests in flight.
  \<^item> \<^verbatim>\<open>Lease_Exclusive\<close> and \<^verbatim>\<open>Lease_Theorems\<close>: the slices tile the range, the table implements the map, leases of different
    clients stay apart when gate and acquisition of a request are not interleaved with another request and
    collide when they are, and the widened lease of a writeback request never fits the slice array.

  \<^medskip>
  \<^bold>\<open>Delegations\<close> (\<^verbatim>\<open>delegation.c\<close>, part of \<^verbatim>\<open>src/mds/compound_data_io.c\<close>; C37 to C40).
  \<^item> \<^verbatim>\<open>Deleg_State\<close> has the code: grant, return, conflict recall with the revoked list and the ledger of unanswered recalls,
    retransmission, revocation, CB_GETATTR, and the block of OPEN that recalls, probes and grants. The callbacks sent are
    a result. \<^verbatim>\<open>Deleg_Inv\<close> proves the invariant \<open>dl_wf\<close> and what each operation does to the set of grants, \<^verbatim>\<open>Deleg_Life\<close>
    follows stateids and holders through runs, and \<^verbatim>\<open>Deleg_Channel\<close> the search of the session table for a backchannel.
  \<^item> \<^verbatim>\<open>Deleg_Theorems\<close>: a recall takes, records and calls back exactly the other holders; OPENs that do not overlap leave
    the delegations of a file with one client, checked against the open table; overlapping ones can leave a READ and a
    WRITE delegation with two clients; and a stateid that has died never comes back.

  \<^medskip>
  \<^bold>\<open>Bounds.\<close> Lock stateids carry 56 bits of a counter of which an operation draws at most three values, so runs of the
  lock table have \<open>3 * length ops < 2 ^ 56\<close>; open stateids carry 64 bits and one value per operation, so runs of the open
  table, and of the delegation table with the same stateids, are shorter than \<open>2 ^ 64\<close>. A slot sequence number comes round after \<open>2 ^ 32\<close> requests, so the at-most-once
  property is for fewer than \<open>2 ^ 32 - 1\<close> operations in between. A session run has the guard that the server identifier
  fits 16 bits and the counter of clientids 32 bits, the widths of their fields, and that no live client holds a
  recovered identifier. The courtesy revocations look at no more than 64 clients of a file, and a recall takes at most 64
  delegations, as their arrays do. No
  definition uses fuel: every loop is structural or has a termination proof.

  \<^medskip>
  \<^bold>\<open>Not modelled.\<close>
  \<^item> The dispatch of compounds and the handlers outside the lease code of LAYOUTGET and LAYOUTRETURN and the delegation block of OPEN: they compose the
    tables above with the catalogue, the proxy to the data servers and the wire format, whose behaviour lies in libraries
    and remote machines.
  \<^item> The wire format and the RPC server, callbacks, GSS and TLS: streams and sockets of libraries that are not part of the
    repository.
  \<^item> The transactions of the FoundationDB, RonDB and DAOS backends: calls of their client libraries. Of FoundationDB the
    stored values are modelled.
  \<^item> Directory delegations and layout recall: notification queues, timers and callbacks over live connections. The thread
    that retransmits recalls after CREATE_SESSION: its rounds are calls of the modelled retransmission. The caches, the namespace helpers, the
    in-memory backend and the dispatch between backends: they follow the catalogue interface and keep no protocol state.
  \<^item> The cluster protocols: transport between servers. Data-server input and output, configuration, logging, metrics,
    threads, tools and probes: input and output of the host.
\<close>

end
